(* ===== verification/Prelude.thy ===== *)
theory Prelude
  imports Main "HOL-Library.Multiset" "HOL-Library.Char_ord" "HOL-Library.List_Lexorder" "HOL-Library.Product_Lexorder"
begin

text \<open>
  Shared vocabulary of the development: generic lemmas on lists and stable sorting, the decimal rendering behind \<open>format!\<close>,
  and the interface of a keyset-paged read, which every paged query of the store promises.

  Strings are lists of bytes, as Rust's \<open>str\<close> is; the orders of \<open>Char_ord\<close>
  and \<open>List_Lexorder\<close> then compare them the way SQLite's BINARY collation and
  \<open>str\<close>'s \<open>Ord\<close> do.
\<close>


section \<open>Stable sorting by a key that tells rows apart\<close>

lemma sort_key_mset_cong:
  assumes "mset xs = mset ys" and "inj_on f (set xs)"
  shows "sort_key f xs = sort_key f ys"
  using assms by (intro sort_key_inj_key_eq) simp_all

lemma sort_key_strict:
  assumes "inj_on f (set xs)" and "distinct xs"
  shows "sorted_wrt (\<lambda>a b. f a < f b) (sort_key f xs)"
proof -
  have "sorted_wrt (\<lambda>a b. f a \<le> f b) (sort_key f xs)"
    by (metis sorted_map sorted_sort_key)
  moreover have "distinct (map f (sort_key f xs))"
    using assms by (simp add: distinct_map)
  ultimately show ?thesis
    by (induction "sort_key f xs" rule: rev_induct)
       (auto simp: sorted_wrt_iff_nth_less distinct_conv_nth le_less)
qed

text \<open>Two keys that compare alike sort alike.\<close>

lemma insort_key_order_cong:
  assumes "\<And>y. y \<in> set ys \<Longrightarrow> f x \<le> f y \<longleftrightarrow> g x \<le> g y"
  shows "insort_key f x ys = insort_key g x ys"
  using assms by (induction ys) auto

lemma sort_key_order_cong:
  assumes "\<And>x y. x \<in> set xs \<Longrightarrow> y \<in> set xs \<Longrightarrow> f x \<le> f y \<longleftrightarrow> g x \<le> g y"
  shows "sort_key f xs = sort_key g xs"
  using assms
proof (induction xs)
  case (Cons x xs)
  then have "sort_key f xs = sort_key g xs" by simp
  then show ?case using Cons.prems by (auto simp: sort_key_simps intro!: insort_key_order_cong)
qed simp

text \<open>Sorting by a key that a predicate splits: first the rows below it, then the rest.\<close>

lemma sort_key_split:
  assumes "\<And>x y. x \<in> set xs \<Longrightarrow> y \<in> set xs \<Longrightarrow> P x \<Longrightarrow> \<not> P y \<Longrightarrow> f x < f y"
    and "inj_on f (set xs)"
  shows "sort_key f xs = sort_key f (filter P xs) @ sort_key f (filter (\<lambda>x. \<not> P x) xs)"
proof (rule sort_key_inj_key_eq)
  show "sorted (map f (sort_key f (filter P xs) @ sort_key f (filter (\<lambda>x. \<not> P x) xs)))"
    using assms(1) by (auto simp: sorted_append less_imp_le)
qed (use assms(2) in simp_all)

lemma sort_key_idem: "sort_key f (sort_key f xs) = sort_key f xs"
  by (rule sort_key_id_if_sorted) simp

lemma sort_key_Nil_iff [simp]: "sort_key f xs = [] \<longleftrightarrow> xs = []"
  by (metis length_0_conv length_sort)

lemma set_map_filter: "set (List.map_filter f xs) = {y. \<exists>x \<in> set xs. f x = Some y}"
  by (induction xs) (auto split: option.splits)

lemma acyclic_ranked: "(\<And>a b. (a, b) \<in> r \<Longrightarrow> f a < (f b :: nat)) \<Longrightarrow> acyclic r"
proof (rule wf_acyclic, rule wf_subset [OF wf_measure [of f]])
  assume "\<And>a b. (a, b) \<in> r \<Longrightarrow> f a < (f b :: nat)"
  then show "r \<subseteq> measure f" by auto
qed

section \<open>Decimal rendering\<close>

text \<open>Unsigned decimal digits, as \<open>format!(\<dots>)\<close> writes a \<open>usize\<close> or \<open>u64\<close>.\<close>

definition digit_char :: "nat \<Rightarrow> char" where
  "digit_char d = char_of (48 + d)"

fun nat_to_dec :: "nat \<Rightarrow> string" where
  "nat_to_dec n =
     (if n < 10 then [digit_char n] else nat_to_dec (n div 10) @ [digit_char (n mod 10)])"

declare nat_to_dec.simps [simp del]

definition int_to_dec :: "int \<Rightarrow> string" where
  "int_to_dec i = (if i < 0 then CHR ''-'' # nat_to_dec (nat (- i)) else nat_to_dec (nat i))"

text \<open>Reading digits back, as \<open>str::parse\<close> does after the sign.\<close>

definition dec_digit :: "char \<Rightarrow> bool" where
  "dec_digit c \<longleftrightarrow> (48 :: nat) \<le> of_char c \<and> of_char c \<le> (57 :: nat)"

fun digits_value :: "int \<Rightarrow> string \<Rightarrow> int option" where
  "digits_value acc [] = Some acc"
| "digits_value acc (c # cs) =
     (if dec_digit c then digits_value (acc * 10 + (of_char c - 48)) cs else None)"

lemma of_char_digit: "d < 10 \<Longrightarrow> of_char (digit_char d) = (48 + int d)"
proof -
  assume "d < 10"
  then have "(of_char (digit_char d) :: nat) = 48 + d" by (simp add: digit_char_def)
  then have "int (of_char (digit_char d)) = 48 + int d" by simp
  then show ?thesis by (simp only: of_nat_of_char)
qed

lemma dec_digit_digit [simp]: "d < 10 \<Longrightarrow> dec_digit (digit_char d)"
  by (simp add: dec_digit_def digit_char_def of_char_of take_bit_eq_mod)

lemma digits_value_append:
  "digits_value acc (xs @ ys) = Option.bind (digits_value acc xs) (\<lambda>v. digits_value v ys)"
  by (induction acc xs rule: digits_value.induct) auto

lemma digits_value_nat: "digits_value 0 (nat_to_dec n) = Some (int n)"
proof (induction n rule: nat_to_dec.induct)
  case (1 n)
  show ?case
  proof (cases "n < 10")
    case True
    then show ?thesis by (simp add: nat_to_dec.simps [of n] of_char_digit)
  next
    case False
    then have "nat_to_dec n = nat_to_dec (n div 10) @ [digit_char (n mod 10)]"
      by (subst nat_to_dec.simps) simp
    moreover have "int (n div 10) * 10 + int (n mod 10) = int n"
      by (metis div_mult_mod_eq of_nat_add of_nat_mult of_nat_numeral)
    ultimately show ?thesis
      using 1 False by (simp add: digits_value_append of_char_digit)
  qed
qed

lemma nat_to_dec_digits: "set (nat_to_dec n) \<subseteq> {c. dec_digit c}"
proof (induction n rule: nat_to_dec.induct)
  case (1 n)
  then show ?case by (subst nat_to_dec.simps) auto
qed

lemma nat_to_dec_Cons: "\<exists>c cs. nat_to_dec n = c # cs \<and> dec_digit c"
proof -
  have "nat_to_dec n \<noteq> []" by (subst nat_to_dec.simps) simp
  then obtain c cs where "nat_to_dec n = c # cs" by (cases "nat_to_dec n") auto
  then show ?thesis using nat_to_dec_digits [of n] by auto
qed

section \<open>Splitting and joining text\<close>

text \<open>\<open>str::split\<close> on one character: always at least one piece.\<close>

fun split_char :: "char \<Rightarrow> string \<Rightarrow> string list" where
  "split_char d [] = [[]]"
| "split_char d (c # cs) =
     (if c = d then [] # split_char d cs
      else (case split_char d cs of [] \<Rightarrow> [[c]] | x # xs \<Rightarrow> (c # x) # xs))"

lemma split_char_not_Nil [simp]: "split_char d s \<noteq> []"
  by (induction s) (auto split: list.splits)

lemma split_char_single: "d \<notin> set s \<Longrightarrow> split_char d s = [s]"
  by (induction s) auto

lemma split_char_append:
  "split_char d (xs @ d # ys) = split_char d xs @ split_char d ys"
proof (induction xs)
  case (Cons x xs)
  then show ?case by (cases "split_char d xs") auto
qed simp

text \<open>\<open>[T]::join\<close>.\<close>

fun join_with :: "string \<Rightarrow> string list \<Rightarrow> string" where
  "join_with sep [] = ''''"
| "join_with sep [x] = x"
| "join_with sep (x # xs) = x @ sep @ join_with sep xs"

section \<open>Results and the \<open>?\<close> operator\<close>

text \<open>\<open>Result\<close> is a sum with the error on the left; \<open>and_then\<close> is what \<open>?\<close> does.\<close>

definition and_then :: "'e + 'a \<Rightarrow> ('a \<Rightarrow> 'e + 'b) \<Rightarrow> 'e + 'b" where
  "and_then r f = (case r of Inl e \<Rightarrow> Inl e | Inr x \<Rightarrow> f x)"

definition ok_or :: "'a option \<Rightarrow> 'e \<Rightarrow> 'e + 'a" where
  "ok_or x e = (case x of None \<Rightarrow> Inl e | Some y \<Rightarrow> Inr y)"

lemma and_then_simps [simp]: "and_then (Inl e) f = Inl e" "and_then (Inr x) f = f x"
  by (simp_all add: and_then_def)

lemma and_then_Inr: "and_then r f = Inr y \<longleftrightarrow> (\<exists>x. r = Inr x \<and> f x = Inr y)"
  by (cases r) simp_all

lemma and_thenE:
  assumes "and_then r f = Inr y"
  obtains x where "r = Inr x" and "f x = Inr y"
  using assms by (auto simp: and_then_Inr)

lemma and_then_Inl: "and_then r f = Inl e \<longleftrightarrow> r = Inl e \<or> (\<exists>x. r = Inr x \<and> f x = Inl e)"
  by (cases r) auto

lemma ok_or_simps [simp]: "ok_or None e = Inl e" "ok_or (Some y) e = Inr y"
  by (simp_all add: ok_or_def)

lemma ok_or_Inr: "ok_or x e = Inr y \<longleftrightarrow> x = Some y"
  by (cases x) simp_all

section \<open>One turn of a loop\<close>

text \<open>
  What the body of a Rust loop does with its state: panic (an index out of range), leave the
  loop, or go round again.
\<close>

datatype 's turn = Panic | Break 's | Continue 's

section \<open>The interface of a keyset-paged read\<close>

text \<open>
  A paged read takes a limit and an optional cursor and answers a page and the cursor of the
  next one. \<open>walk_pages\<close> is the client loop: read from the start and follow the cursors
  until there is none; its fuel counts pages, and running out is \<open>None\<close>.
\<close>

fun walk_pages :: "('c option \<Rightarrow> 'a list \<times> 'c option) \<Rightarrow> nat \<Rightarrow> 'c option \<Rightarrow> 'a list option" where
  "walk_pages page 0 c = None"
| "walk_pages page (Suc fuel) c =
     (case page c of
        (xs, None) \<Rightarrow> Some xs
      | (xs, Some c') \<Rightarrow> map_option (\<lambda>ys. xs @ ys) (walk_pages page fuel (Some c')))"

text \<open>
  The contract, for every store \<open>st\<close> in its valid states and every query \<open>q\<close>: the
  rows stand in the strict order of a key, a cursor names a position of that order, and a page
  is the first \<open>limit\<close> rows after it, with a next cursor exactly when rows remain.
\<close>

definition keyset_page ::
  "('a \<Rightarrow> 'k::linorder) \<Rightarrow> ('c \<Rightarrow> 'k) \<Rightarrow> ('a \<Rightarrow> 'c) \<Rightarrow> 'a list \<Rightarrow> nat \<Rightarrow> 'c option
    \<Rightarrow> 'a list \<times> 'c option" where
  "keyset_page key ckey cursor rows lim after =
     (let rest = (case after of None \<Rightarrow> rows | Some c \<Rightarrow> filter (\<lambda>x. ckey c < key x) rows)
      in (take lim rest,
          if lim < length rest then Some (cursor (last (take lim rest))) else None))"

text \<open>
  How the reads build a page: they ask for one row more than the limit, and the extra row only
  says that more remain.
\<close>

definition page_of :: "('a \<Rightarrow> 'c) \<Rightarrow> nat \<Rightarrow> 'a list \<Rightarrow> 'a list \<times> 'c option" where
  "page_of cursor lim read =
     (let has_more = lim < length read;
          kept = (if has_more then take lim read else read)
      in (kept, if kept \<noteq> [] \<and> has_more then Some (cursor (last kept)) else None))"

lemma page_of_take:
  "0 < lim \<Longrightarrow> page_of cursor lim (take (Suc lim) rest) =
     (take lim rest, if lim < length rest then Some (cursor (last (take lim rest))) else None)"
  by (auto simp: page_of_def Let_def min_def)

text \<open>A page of rows that are mapped on the way out.\<close>

lemma last_map_take: "0 < lim \<Longrightarrow> lim < length xs \<Longrightarrow> last (map f (take lim xs)) = f (last (take lim xs))"
  by (subst last_map) auto

lemma keyset_page_map:
  assumes "0 < lim" and "\<And>x. key (f x) = key' x" and "\<And>x. cursor (f x) = cursor' x"
  shows "keyset_page key ckey cursor (map f rows) lim after =
    (map f (fst (keyset_page key' ckey cursor' rows lim after)),
     snd (keyset_page key' ckey cursor' rows lim after))"
  using assms
  by (auto simp: keyset_page_def Let_def filter_map comp_def take_map last_map_take
      split: option.splits)

locale keyset_paging =
  fixes valid :: "'st \<Rightarrow> bool"
    and rows :: "'st \<Rightarrow> 'q \<Rightarrow> 'a list"
    and key :: "'a \<Rightarrow> 'k::linorder"
    and ckey :: "'c \<Rightarrow> 'k"
    and cursor :: "'a \<Rightarrow> 'c"
    and limit :: "'l \<Rightarrow> nat"
    and page :: "'st \<Rightarrow> 'q \<Rightarrow> 'l \<Rightarrow> 'c option \<Rightarrow> 'a list \<times> 'c option"
  assumes rows_strict: "valid st \<Longrightarrow> sorted_wrt (\<lambda>a b. key a < key b) (rows st q)"
    and limit_pos: "0 < limit l"
    and ckey_cursor: "ckey (cursor a) = key a"
    and page_eq: "valid st \<Longrightarrow> page st q l after = keyset_page key ckey cursor (rows st q) (limit l) after"
begin

lemma rest_after_take:
  assumes valid: "valid st" and split: "rows st q = done @ rest" and more: "limit l < length rest"
  shows "filter (\<lambda>x. key (last (take (limit l) rest)) < key x) (rows st q) = drop (limit l) rest"
proof -
  define pg where "pg = take (limit l) rest"
  define c where "c = last pg"
  have pg: "pg \<noteq> []" using more limit_pos [of l] by (auto simp: pg_def)
  have rows: "rows st q = (done @ butlast pg) @ [c] @ drop (limit l) rest"
    using split pg append_butlast_last_id [of pg] append_take_drop_id [of "limit l" rest]
    by (metis append.assoc c_def pg_def)
  have strict: "sorted_wrt (\<lambda>a b. key a < key b) ((done @ butlast pg) @ [c] @ drop (limit l) rest)"
    using rows_strict [OF valid, of q] rows by simp
  have before: "\<not> key c < key x" if "x \<in> set (done @ butlast pg)" for x
    using strict that by (auto simp: sorted_wrt_append not_less less_imp_le)
  have after: "key c < key x" if "x \<in> set (drop (limit l) rest)" for x
    using strict that by (auto simp: sorted_wrt_append)
  have "filter (\<lambda>x. key c < key x) (rows st q) = drop (limit l) rest"
    unfolding rows using before after by (simp add: filter_empty_conv)
  then show ?thesis by (simp add: c_def pg_def)
qed

lemma walk_from:
  assumes "valid st" and "rows st q = done @ rest" and "length rest < fuel"
    and "page st q l c = (take (limit l) rest,
           if limit l < length rest then Some (cursor (last (take (limit l) rest))) else None)"
  shows "walk_pages (page st q l) fuel c = Some rest"
  using assms(2-)
proof (induction fuel arbitrary: "done" rest c)
  case 0
  then show ?case by simp
next
  case (Suc fuel)
  show ?case
  proof (cases "limit l < length rest")
    case False
    then show ?thesis using Suc.prems(3) by simp
  next
    case True
    let ?rest = "drop (limit l) rest"
    have next_page: "page st q l (Some (cursor (last (take (limit l) rest)))) =
        (take (limit l) ?rest,
         if limit l < length ?rest then Some (cursor (last (take (limit l) ?rest))) else None)"
      using rest_after_take [OF assms(1) Suc.prems(1) True]
      by (simp add: page_eq [OF assms(1)] keyset_page_def Let_def ckey_cursor)
    have "rows st q = (done @ take (limit l) rest) @ ?rest"
      using Suc.prems(1) by simp
    moreover have "length ?rest < fuel"
      using Suc.prems(2) True limit_pos [of l] by simp
    ultimately have "walk_pages (page st q l) fuel (Some (cursor (last (take (limit l) rest))))
        = Some ?rest"
      using next_page by (rule Suc.IH)
    then show ?thesis using Suc.prems(3) True by simp
  qed
qed

text \<open>Following the cursors returns every row once, in order, and the walk ends.\<close>

lemma walk_all:
  "valid st \<Longrightarrow> length (rows st q) < fuel \<Longrightarrow> walk_pages (page st q l) fuel None = Some (rows st q)"
  by (rule walk_from [of st q "[]"]) (simp_all add: page_eq keyset_page_def Let_def)

lemma page_bounded: "valid st \<Longrightarrow> length (fst (page st q l c)) \<le> limit l"
  by (simp add: page_eq keyset_page_def Let_def)

end

end
