(* ===== verification/Sources.thy ===== *)
theory Sources
  imports Prelude
begin

text \<open>
  The harness registry (\<open>sources/catalog.rs\<close>, \<open>providers/generated_catalog.rs\<close> and
  the \<open>LOCAL_SOURCE\<close> descriptor of each \<open>providers/<name>/mod.rs\<close>): the id of every
  built-in source and what its records establish about delegation. The function pointers of
  a descriptor (discovery adapter, hydration parser, transcript roots, resume command) are
  not modelled here.
\<close>

record relationships =
  stable_child_identity :: string
  records_agent_type :: bool
  records_spawn_time :: bool
  records_evidence_locator :: bool

definition relationships_NONE :: relationships where
  "relationships_NONE = \<lparr>stable_child_identity = ''never'', records_agent_type = False,
     records_spawn_time = False, records_evidence_locator = False\<rparr>"

definition rel_flags :: "string \<Rightarrow> bool \<Rightarrow> bool \<Rightarrow> bool \<Rightarrow> relationships" where
  "rel_flags identity agent_type spawn_time locator = \<lparr>stable_child_identity = identity,
     records_agent_type = agent_type, records_spawn_time = spawn_time,
     records_evidence_locator = locator\<rparr>"

text \<open>The descriptors in declaration order: id and declared relationship support.\<close>

definition LOCAL_SOURCES :: "(string \<times> relationships) list" where
  "LOCAL_SOURCES =
     [(''claude'', rel_flags ''sometimes'' True True True),
      (''codex'', rel_flags ''always'' True True True),
      (''cursor'', rel_flags ''always'' False False True),
      (''grok'', rel_flags ''sometimes'' True True True),
      (''opencode'', rel_flags ''always'' False True True),
      (''muse'', rel_flags ''always'' True True True),
      (''devin'', relationships_NONE),
      (''pi'', relationships_NONE),
      (''hermes'', relationships_NONE),
      (''omp'', relationships_NONE),
      (''antigravity'', relationships_NONE),
      (''copilot'', relationships_NONE),
      (''qwen-code'', relationships_NONE),
      (''kimi'', relationships_NONE),
      (''cline'', relationships_NONE),
      (''codebuddy'', relationships_NONE),
      (''cortex'', relationships_NONE),
      (''deepagents'', relationships_NONE),
      (''goose'', relationships_NONE),
      (''junie'', relationships_NONE),
      (''kilo'', relationships_NONE),
      (''mistral-vibe'', relationships_NONE),
      (''qoder'', relationships_NONE),
      (''vtcode'', relationships_NONE),
      (''grok-bot'', rel_flags ''always'' True True True),
      (''openclaw'', relationships_NONE),
      (''capy'', relationships_NONE)]"

definition SOURCE_CHOICES :: "string list" where
  "SOURCE_CHOICES = map fst LOCAL_SOURCES"

text \<open>The descriptor for one source id: the first that has it.\<close>

definition local_source :: "string \<Rightarrow> (string \<times> relationships) option" where
  "local_source i = find (\<lambda>s. fst s = i) LOCAL_SOURCES"

definition declared_relationships :: "string \<Rightarrow> relationships" where
  "declared_relationships source =
     (case local_source source of None \<Rightarrow> relationships_NONE | Some s \<Rightarrow> snd s)"

lemma SOURCE_CHOICES_distinct: "distinct SOURCE_CHOICES"
  by (simp add: SOURCE_CHOICES_def LOCAL_SOURCES_def)

lemma declared_relationships_unknown:
  "source \<notin> set SOURCE_CHOICES \<Longrightarrow> declared_relationships source = relationships_NONE"
proof -
  assume "source \<notin> set SOURCE_CHOICES"
  then have "local_source source = None"
    by (force simp: local_source_def SOURCE_CHOICES_def find_None_iff)
  then show ?thesis by (simp add: declared_relationships_def)
qed

end
