(* ===== verification/RelationshipGraph.thy ===== *)
theory RelationshipGraph
  imports Sources
begin

text \<open>
  \<open>relationship_graph.rs\<close>: the recorded delegation edges and the reads over them. The
  table \<open>session_relationships\<close> is the list of its rows; each \<open>SELECT\<close> is a filter and a
  stable sort by its \<open>ORDER BY\<close> columns. A read that SQLite itself fails (I/O, a locked
  database) is outside the model: the reads are total on the rows they are given.
\<close>

section \<open>Constants and rows\<close>

definition SESSION_RELATIONSHIP_CONTRACT_VERSION :: nat where
  "SESSION_RELATIONSHIP_CONTRACT_VERSION = 2"

definition DEFAULT_TREE_MAX_DEPTH :: nat where "DEFAULT_TREE_MAX_DEPTH = 32"
definition MAX_TREE_MAX_DEPTH :: nat where "MAX_TREE_MAX_DEPTH = 64"
definition DEFAULT_TREE_MAX_NODES :: nat where "DEFAULT_TREE_MAX_NODES = 1000"
definition MAX_TREE_MAX_NODES :: nat where "MAX_TREE_MAX_NODES = 10000"
definition MAX_CHILDREN_PAGE_LIMIT :: int where "MAX_CHILDREN_PAGE_LIMIT = 1000"

definition IDENTITY_UNLINKED :: string where "IDENTITY_UNLINKED = ''unlinked''"
definition RELATIONSHIP_DELEGATED :: string where "RELATIONSHIP_DELEGATED = ''delegated''"
definition RELATIONSHIP_MATERIALIZED_LOCAL :: string where
  "RELATIONSHIP_MATERIALIZED_LOCAL = ''materialized_local''"
definition RELATIONSHIP_CONTINUATION :: string where
  "RELATIONSHIP_CONTINUATION = ''continuation''"
definition RELATIONSHIP_FORK :: string where "RELATIONSHIP_FORK = ''fork''"
definition RELATIONSHIP_RESUME :: string where "RELATIONSHIP_RESUME = ''resume''"

definition CONTINUITY_RELATIONSHIPS :: "string list" where
  "CONTINUITY_RELATIONSHIPS =
     [RELATIONSHIP_CONTINUATION, RELATIONSHIP_FORK, RELATIONSHIP_RESUME]"

record session_relationship =
  r_source :: string
  parent_session_id :: string
  child_session_id :: "string option"
  relationship :: string
  identity_status :: string
  child_agent_type :: "string option"
  child_agent_name :: "string option"
  child_model :: "string option"
  spawn_depth :: "int option"
  evidence_kind :: string
  evidence_locator :: "string option"
  evidence_ref :: "string option"
  child_has_events :: bool
  spawned_at_ms :: "int option"
  created_ms :: int
  relationship_uid :: string
  origin_session_id :: "string option"

type_synonym relationship_rows = "session_relationship list"

definition is_unlinked :: "session_relationship \<Rightarrow> bool" where
  "is_unlinked r \<longleftrightarrow> child_session_id r = None \<or> identity_status r = IDENTITY_UNLINKED"

text \<open>The table's primary key, and what it promises of the rows.\<close>

definition primary_key :: "session_relationship \<Rightarrow> string \<times> string \<times> string" where
  "primary_key r = (r_source r, parent_session_id r, relationship_uid r)"

definition pk_unique :: "relationship_rows \<Rightarrow> bool" where
  "pk_unique db \<longleftrightarrow> distinct (map primary_key db)"

section \<open>Which edges a read follows\<close>

datatype relationship_kinds = RelationshipKinds "string list option"

definition kinds_delegation :: relationship_kinds where
  "kinds_delegation = RelationshipKinds None"

definition kinds_only :: "string list \<Rightarrow> relationship_kinds" where
  "kinds_only kinds = (if kinds = [] then kinds_delegation else RelationshipKinds (Some kinds))"

definition kinds_continuity :: relationship_kinds where
  "kinds_continuity = kinds_only CONTINUITY_RELATIONSHIPS"

definition kinds_all :: relationship_kinds where
  "kinds_all = kinds_only
     ([RELATIONSHIP_DELEGATED, RELATIONSHIP_MATERIALIZED_LOCAL] @ CONTINUITY_RELATIONSHIPS)"

text \<open>The \<open>AND\<close> fragment of \<open>clause\<close> with \<open>bind_values\<close> in its holes.\<close>

fun kinds_clause :: "relationship_kinds \<Rightarrow> string \<Rightarrow> bool" where
  "kinds_clause (RelationshipKinds None) k \<longleftrightarrow> k \<notin> set CONTINUITY_RELATIONSHIPS"
| "kinds_clause (RelationshipKinds (Some kinds)) k \<longleftrightarrow> k \<in> set kinds"

section \<open>The reads\<close>

text \<open>\<open>ORDER BY spawned_at_ms IS NULL, spawned_at_ms ASC, relationship_uid ASC\<close>.\<close>

definition child_order :: "session_relationship \<Rightarrow> bool \<times> int \<times> string" where
  "child_order r = (spawned_at_ms r = None,
     (case spawned_at_ms r of None \<Rightarrow> 0 | Some t \<Rightarrow> t), relationship_uid r)"

definition session_children ::
  "relationship_rows \<Rightarrow> string \<Rightarrow> string \<Rightarrow> relationship_kinds \<Rightarrow> session_relationship list" where
  "session_children db source parent kinds =
     sort_key child_order (filter (\<lambda>r. r_source r = source \<and> parent_session_id r = parent
        \<and> kinds_clause kinds (relationship r)) db)"

definition edge_order :: "session_relationship \<Rightarrow> string \<times> string" where
  "edge_order r = (parent_session_id r, relationship_uid r)"

definition session_parents ::
  "relationship_rows \<Rightarrow> string \<Rightarrow> string \<Rightarrow> relationship_kinds \<Rightarrow> session_relationship list" where
  "session_parents db source child kinds =
     sort_key edge_order (filter (\<lambda>r. r_source r = source \<and> child_session_id r = Some child
        \<and> kinds_clause kinds (relationship r)) db)"

text \<open>The two arms of the \<open>UNION ALL\<close>: the parent end, then the child end without the
  self-edges the first arm already returned.\<close>

definition session_continuity_edges ::
  "relationship_rows \<Rightarrow> string \<Rightarrow> string \<Rightarrow> session_relationship list" where
  "session_continuity_edges db source session =
     sort_key edge_order
       (filter (\<lambda>r. r_source r = source \<and> parent_session_id r = session
          \<and> kinds_clause kinds_continuity (relationship r)) db
        @ filter (\<lambda>r. r_source r = source \<and> child_session_id r = Some session
          \<and> parent_session_id r \<noteq> session
          \<and> kinds_clause kinds_continuity (relationship r)) db)"

record relationship_cursor =
  c_spawned_at_ms :: "int option"
  c_relationship_uid :: string

text \<open>The cursor's clause: the rest of the timestamped region and the whole null tail, or
  the rest of the null tail.\<close>

definition after_cursor :: "relationship_cursor \<Rightarrow> session_relationship \<Rightarrow> bool" where
  "after_cursor c r =
     (case c_spawned_at_ms c of
        Some t \<Rightarrow>
          (case spawned_at_ms r of
             None \<Rightarrow> True
           | Some s \<Rightarrow> s > t \<or> (s = t \<and> relationship_uid r > c_relationship_uid c))
      | None \<Rightarrow> spawned_at_ms r = None \<and> relationship_uid r > c_relationship_uid c)"

definition clamp_limit :: "int \<Rightarrow> nat" where
  "clamp_limit limit = nat (max 1 (min limit MAX_CHILDREN_PAGE_LIMIT))"

definition row_cursor :: "session_relationship \<Rightarrow> relationship_cursor" where
  "row_cursor r = \<lparr>c_spawned_at_ms = spawned_at_ms r, c_relationship_uid = relationship_uid r\<rparr>"

text \<open>One more row than the limit is read; the extra row only says that more remain.\<close>

definition session_children_page ::
  "relationship_rows \<Rightarrow> string \<Rightarrow> string \<Rightarrow> int \<Rightarrow> relationship_kinds
    \<Rightarrow> relationship_cursor option \<Rightarrow> session_relationship list \<times> relationship_cursor option" where
  "session_children_page db source parent limit kinds after =
     (let lim = clamp_limit limit;
          children = take (lim + 1) (sort_key child_order (filter (\<lambda>r. r_source r = source
            \<and> parent_session_id r = parent \<and> kinds_clause kinds (relationship r)
            \<and> (case after of None \<Rightarrow> True | Some c \<Rightarrow> after_cursor c r)) db));
          has_more = lim < length children;
          children' = (if has_more then take lim children else children)
      in (children',
          (if children' \<noteq> [] \<and> has_more then Some (row_cursor (last children')) else None)))"

section \<open>Capabilities, diagnostics and the two-sided read\<close>

record relationship_capabilities_rec =
  cap_source :: string
  cap_flags :: relationships

definition relationship_capabilities :: "string \<Rightarrow> relationship_capabilities_rec" where
  "relationship_capabilities source =
     \<lparr>cap_source = source, cap_flags = declared_relationships source\<rparr>"

record relationship_diagnostic =
  d_code :: string
  d_message :: string
  d_relationship_uid :: "string option"

definition unlinked_diagnostic :: "session_relationship \<Rightarrow> relationship_diagnostic" where
  "unlinked_diagnostic r =
     \<lparr>d_code = ''RELATIONSHIP_UNLINKED_CHILD'',
      d_message = r_source r @ '' evidence at ''
        @ (case evidence_locator r of None \<Rightarrow> ''unknown'' | Some l \<Rightarrow> l)
        @ '' has no stable child identity; events are not independently addressable'',
      d_relationship_uid = Some (relationship_uid r)\<rparr>"

text \<open>Continuity evidence still waiting for its other end (\<open>continuity.rs\<close>,
  \<open>pending_reasons\<close>): the rows of \<open>session_continuity_evidence\<close> with a pending reason; \<open>None\<close> is a
  database that predates the table.\<close>

record continuity_evidence =
  ce_source :: string
  ce_session_id :: string
  ce_locator :: string
  ce_pending_reason :: "string option"

definition CONTINUITY_UNRESOLVED :: string where
  "CONTINUITY_UNRESOLVED = ''RELATIONSHIP_CONTINUITY_UNRESOLVED''"

definition pending_reasons ::
  "continuity_evidence list option \<Rightarrow> string \<Rightarrow> string \<Rightarrow> (string \<times> string) list" where
  "pending_reasons table source session =
     (case table of
        None \<Rightarrow> []
      | Some ce \<Rightarrow>
          map (\<lambda>r. (ce_locator r,
                 case ce_pending_reason r of None \<Rightarrow> ''unreconciled'' | Some x \<Rightarrow> x))
            (sort_key ce_locator (filter (\<lambda>r. ce_source r = source \<and> ce_session_id r = session
               \<and> ce_pending_reason r \<noteq> None) ce)))"

definition pending_diagnostics ::
  "continuity_evidence list option \<Rightarrow> string \<Rightarrow> string \<Rightarrow> relationship_diagnostic list" where
  "pending_diagnostics ce source session =
     map (\<lambda>(locator, reason). \<lparr>d_code = CONTINUITY_UNRESOLVED,
            d_message = source @ '' continuity evidence at '' @ locator
              @ '' is unresolved: '' @ reason,
            d_relationship_uid = None\<rparr>)
       (pending_reasons ce source session)"

record session_relationships_rec =
  sr_contract_version :: nat
  sr_source :: string
  sr_session_id :: string
  as_parent :: "session_relationship list"
  as_child :: "session_relationship list"
  continuity :: "session_relationship list"
  sr_capabilities :: relationship_capabilities_rec
  sr_diagnostics :: "relationship_diagnostic list"

definition session_relationships ::
  "relationship_rows \<Rightarrow> continuity_evidence list option \<Rightarrow> string \<Rightarrow> string \<Rightarrow> session_relationships_rec" where
  "session_relationships db ce source session =
     (let children = session_children db source session kinds_delegation
      in \<lparr>sr_contract_version = SESSION_RELATIONSHIP_CONTRACT_VERSION,
          sr_source = source, sr_session_id = session,
          as_parent = children,
          as_child = session_parents db source session kinds_delegation,
          continuity = session_continuity_edges db source session,
          sr_capabilities = relationship_capabilities source,
          sr_diagnostics = map unlinked_diagnostic (filter is_unlinked children)
            @ pending_diagnostics ce source session\<rparr>)"

section \<open>The order of a read is total on its rows\<close>

lemma child_order_inj:
  "pk_unique db \<Longrightarrow> inj_on child_order
     (set (filter (\<lambda>r. r_source r = source \<and> parent_session_id r = parent \<and> P r) db))"
  by (rule inj_onI)
     (auto simp: child_order_def pk_unique_def distinct_map primary_key_def inj_on_def)

lemma edge_order_inj:
  "pk_unique db \<Longrightarrow> (\<And>r. r \<in> set rs \<Longrightarrow> r \<in> set db \<and> r_source r = source)
    \<Longrightarrow> inj_on edge_order (set rs)"
  by (rule inj_onI)
     (auto simp: edge_order_def pk_unique_def distinct_map primary_key_def inj_on_def)

lemma pk_unique_distinct: "pk_unique db \<Longrightarrow> distinct db"
  by (simp add: pk_unique_def distinct_map)

lemma session_children_strict:
  "pk_unique db \<Longrightarrow>
    sorted_wrt (\<lambda>a b. child_order a < child_order b) (session_children db source parent kinds)"
  unfolding session_children_def
  by (intro sort_key_strict child_order_inj distinct_filter pk_unique_distinct)

lemma set_session_children:
  "set (session_children db source parent kinds) =
     {r \<in> set db. r_source r = source \<and> parent_session_id r = parent
        \<and> kinds_clause kinds (relationship r)}"
  by (auto simp: session_children_def)

text \<open>A read does not depend on the order in which the rows were written.\<close>

lemma session_children_perm:
  "pk_unique db \<Longrightarrow> mset db = mset db' \<Longrightarrow>
    session_children db source parent kinds = session_children db' source parent kinds"
  unfolding session_children_def
  by (intro sort_key_mset_cong child_order_inj) simp_all

lemma session_parents_perm:
  "pk_unique db \<Longrightarrow> mset db = mset db' \<Longrightarrow>
    session_parents db source child kinds = session_parents db' source child kinds"
  unfolding session_parents_def
  by (intro sort_key_mset_cong edge_order_inj [of db _ source]) auto

lemma session_continuity_edges_perm:
  "pk_unique db \<Longrightarrow> mset db = mset db' \<Longrightarrow>
    session_continuity_edges db source session = session_continuity_edges db' source session"
  unfolding session_continuity_edges_def
  by (intro sort_key_mset_cong edge_order_inj [of db _ source]) auto

section \<open>Paging\<close>

definition cursor_order :: "relationship_cursor \<Rightarrow> bool \<times> int \<times> string" where
  "cursor_order c = (c_spawned_at_ms c = None,
     (case c_spawned_at_ms c of None \<Rightarrow> 0 | Some t \<Rightarrow> t), c_relationship_uid c)"

lemma after_cursor_order: "after_cursor c r \<longleftrightarrow> cursor_order c < child_order r"
  by (auto simp: after_cursor_def cursor_order_def child_order_def split: option.splits)

lemma cursor_order_row: "cursor_order (row_cursor r) = child_order r"
  by (simp add: cursor_order_def row_cursor_def child_order_def)

lemma session_children_page_keyset:
  "session_children_page db source parent limit kinds after =
     keyset_page child_order cursor_order row_cursor (session_children db source parent kinds)
       (clamp_limit limit) after"
proof -
  define rest where "rest = sort_key child_order (filter (\<lambda>r. r_source r = source
     \<and> parent_session_id r = parent \<and> kinds_clause kinds (relationship r)
     \<and> (case after of None \<Rightarrow> True | Some c \<Rightarrow> after_cursor c r)) db)"
  have rest: "rest = (case after of None \<Rightarrow> session_children db source parent kinds
      | Some c \<Rightarrow> filter (\<lambda>x. cursor_order c < child_order x) (session_children db source parent kinds))"
    by (simp add: rest_def session_children_def filter_sort filter_filter conj_assoc conj_commute
          after_cursor_order split: option.split) (meson filter_cong)?
  have "0 < clamp_limit limit" by (simp add: clamp_limit_def MAX_CHILDREN_PAGE_LIMIT_def)
  then have "session_children_page db source parent limit kinds after =
      (take (clamp_limit limit) rest,
       if clamp_limit limit < length rest
       then Some (row_cursor (last (take (clamp_limit limit) rest))) else None)"
    by (auto simp: session_children_page_def Let_def rest_def [symmetric] min_def)
  then show ?thesis by (simp add: keyset_page_def rest [symmetric])
qed

text \<open>The query a page continues is the source, the parent and the kinds.\<close>

definition children_of ::
  "relationship_rows \<Rightarrow> string \<times> string \<times> relationship_kinds \<Rightarrow> session_relationship list" where
  "children_of db q = (case q of (source, parent, kinds) \<Rightarrow> session_children db source parent kinds)"

definition children_page_of ::
  "relationship_rows \<Rightarrow> string \<times> string \<times> relationship_kinds \<Rightarrow> int
    \<Rightarrow> relationship_cursor option \<Rightarrow> session_relationship list \<times> relationship_cursor option" where
  "children_page_of db q limit after =
     (case q of (source, parent, kinds) \<Rightarrow> session_children_page db source parent limit kinds after)"

interpretation children_pages: keyset_paging pk_unique children_of child_order cursor_order
  row_cursor clamp_limit children_page_of
  by unfold_locales
     (auto simp: children_of_def children_page_of_def session_children_page_keyset
        session_children_strict clamp_limit_def cursor_order_row split: prod.splits)

text \<open>Following a children page's cursors returns every child exactly once, in the order of
  the unpaged read, and the walk ends: no page boundary drops or repeats a row, whether it
  falls among the timestamped children or in the tail without a timestamp.\<close>

lemma children_pages_complete:
  assumes "pk_unique db" and "length (session_children db source parent kinds) < fuel"
  shows "walk_pages (session_children_page db source parent limit kinds) fuel None
    = Some (session_children db source parent kinds)"
proof -
  have page: "children_page_of db (source, parent, kinds) limit =
      session_children_page db source parent limit kinds"
    by (simp add: children_page_of_def fun_eq_iff)
  show ?thesis
    using children_pages.walk_all [of db "(source, parent, kinds)" fuel limit] assms
    by (simp add: page children_of_def)
qed

section \<open>A store with a diamond\<close>

text \<open>\<open>root\<close> spawned \<open>b\<close> and \<open>c\<close>, and \<open>b\<close> spawned \<open>c\<close> as well.\<close>

definition edge_row :: "string \<Rightarrow> string \<Rightarrow> int option \<Rightarrow> session_relationship" where
  "edge_row parent child spawned = \<lparr>r_source = ''codex'', parent_session_id = parent,
     child_session_id = Some child, relationship = RELATIONSHIP_DELEGATED,
     identity_status = ''observed'', child_agent_type = None, child_agent_name = None,
     child_model = None, spawn_depth = None, evidence_kind = ''test_evidence'',
     evidence_locator = None, evidence_ref = None, child_has_events = True,
     spawned_at_ms = spawned, created_ms = 1, relationship_uid = ''child:'' @ child,
     origin_session_id = None\<rparr>"

definition diamond_rows :: relationship_rows where
  "diamond_rows = [edge_row ''root'' ''c'' None, edge_row ''root'' ''b'' (Some 5),
     edge_row ''b'' ''c'' (Some 7)]"

lemma diamond_pk_unique: "pk_unique diamond_rows"
  by (simp add: pk_unique_def primary_key_def diamond_rows_def edge_row_def)

lemma children_pages_complete_witness:
  "walk_pages (session_children_page diamond_rows ''codex'' ''root'' 1 kinds_delegation) 3 None
    = Some (session_children diamond_rows ''codex'' ''root'' kinds_delegation)"
proof (rule children_pages_complete [OF diamond_pk_unique])
  have "length (session_children diamond_rows ''codex'' ''root'' kinds_delegation)
      = length (filter (\<lambda>r. r_source r = ''codex'' \<and> parent_session_id r = ''root''
          \<and> kinds_clause kinds_delegation (relationship r)) diamond_rows)"
    by (simp add: session_children_def)
  also have "\<dots> < 3" by (simp add: diamond_rows_def edge_row_def)
  finally show "length (session_children diamond_rows ''codex'' ''root'' kinds_delegation) < 3" .
qed

end
