(* ===== verification/RelationshipCapture.thy ===== *)
theory RelationshipCapture
  imports RelationshipGraph
begin

text \<open>
  \<open>relationship_capture.rs\<close>: the one writer of delegation and continuity edges, and of
  \<open>ingest/evidence_reconcile.rs\<close> what it notes and retires of them. The table
  \<open>session_relationships\<close> is the list of its rows with the column \<open>updated_ms\<close>, which the
  reads of \<open>RelationshipGraph\<close> do not return; \<open>read_rows\<close> is what they see.
\<close>

section \<open>Rows and observations\<close>

definition IDENTITY_OBSERVED :: string where "IDENTITY_OBSERVED = ''observed''"

record relationship_row = session_relationship + updated_ms :: int

definition relationship_key :: "relationship_row \<Rightarrow> string \<times> string \<times> string" where
  "relationship_key r = (r_source r, parent_session_id r, relationship_uid r)"

definition keys_unique :: "relationship_row list \<Rightarrow> bool" where
  "keys_unique rows \<longleftrightarrow> distinct (map relationship_key rows)"

definition read_rows :: "relationship_row list \<Rightarrow> relationship_rows" where
  "read_rows rows = map session_relationship.truncate rows"

record observed_relationship =
  o_source :: string
  o_parent_session_id :: string
  o_child_session_id :: "string option"
  o_relationship :: string
  o_child_agent_type :: "string option"
  o_child_agent_name :: "string option"
  o_child_model :: "string option"
  o_spawn_depth :: "int option"
  o_evidence_kind :: string
  o_evidence_locator :: "string option"
  o_evidence_ref :: "string option"
  o_child_has_events :: bool
  o_spawned_at_ms :: "int option"
  o_origin_session_id :: "string option"
  o_relationship_uid :: "string option"

definition default_observed :: observed_relationship where
  "default_observed =
     \<lparr>o_source = '''', o_parent_session_id = '''', o_child_session_id = None,
      o_relationship = RELATIONSHIP_DELEGATED, o_child_agent_type = None,
      o_child_agent_name = None, o_child_model = None, o_spawn_depth = None,
      o_evidence_kind = '''', o_evidence_locator = None, o_evidence_ref = None,
      o_child_has_events = False, o_spawned_at_ms = None, o_origin_session_id = None,
      o_relationship_uid = None\<rparr>"

definition observed_identity :: "observed_relationship \<Rightarrow> string" where
  "observed_identity obs =
     (if o_child_session_id obs \<noteq> None then IDENTITY_OBSERVED else IDENTITY_UNLINKED)"

definition observed_uid :: "observed_relationship \<Rightarrow> string" where
  "observed_uid obs =
     (case o_relationship_uid obs of
        Some uid \<Rightarrow> uid
      | None \<Rightarrow>
          (case o_child_session_id obs of
             Some child \<Rightarrow> ''child:'' @ child
           | None \<Rightarrow> ''evidence:'' @ o_evidence_kind obs @ '':''
               @ (case o_evidence_locator obs of None \<Rightarrow> '''' | Some l \<Rightarrow> l)))"

definition observed_key :: "observed_relationship \<Rightarrow> string \<times> string \<times> string" where
  "observed_key obs = (o_source obs, o_parent_session_id obs, observed_uid obs)"

section \<open>The upsert\<close>

definition coalesce :: "'a option \<Rightarrow> 'a option \<Rightarrow> 'a option" where
  "coalesce a b = (case a of Some x \<Rightarrow> Some x | None \<Rightarrow> b)"

text \<open>The row the statement would insert: \<open>excluded\<close> in its conflict clause.\<close>

definition excluded_row :: "int \<Rightarrow> observed_relationship \<Rightarrow> relationship_row" where
  "excluded_row now obs =
     \<lparr>r_source = o_source obs, parent_session_id = o_parent_session_id obs,
      child_session_id = o_child_session_id obs, relationship = o_relationship obs,
      identity_status = observed_identity obs, child_agent_type = o_child_agent_type obs,
      child_agent_name = o_child_agent_name obs, child_model = o_child_model obs,
      spawn_depth = o_spawn_depth obs, evidence_kind = o_evidence_kind obs,
      evidence_locator = o_evidence_locator obs, evidence_ref = o_evidence_ref obs,
      child_has_events = o_child_has_events obs, spawned_at_ms = o_spawned_at_ms obs,
      created_ms = now, relationship_uid = observed_uid obs,
      origin_session_id = o_origin_session_id obs, updated_ms = now\<rparr>"

text \<open>What re-observing an edge writes over the stored row, column by column
  (\<open>RELATIONSHIP_REOBSERVED\<close>); the flag is \<open>?19\<close>, whether a missing child model is an
  observed removal.\<close>

definition reobserved :: "bool \<Rightarrow> relationship_row \<Rightarrow> relationship_row \<Rightarrow> relationship_row" where
  "reobserved replace_child_model excluded stored = stored
     \<lparr>child_session_id := child_session_id excluded,
      relationship := relationship excluded,
      identity_status := identity_status excluded,
      child_agent_type := coalesce (child_agent_type excluded) (child_agent_type stored),
      child_agent_name := coalesce (child_agent_name excluded) (child_agent_name stored),
      child_model := (if replace_child_model then child_model excluded
        else coalesce (child_model excluded) (child_model stored)),
      spawn_depth := coalesce (spawn_depth excluded) (spawn_depth stored),
      evidence_kind := evidence_kind excluded,
      evidence_locator := coalesce (evidence_locator excluded) (evidence_locator stored),
      evidence_ref := coalesce (evidence_ref excluded) (evidence_ref stored),
      child_has_events := child_has_events excluded,
      spawned_at_ms := coalesce (spawned_at_ms excluded) (spawned_at_ms stored),
      origin_session_id := origin_session_id excluded\<rparr>"

text \<open>What an armed pass, which reads the whole snapshot, writes
  (\<open>RELATIONSHIP_SNAPSHOT\<close>).\<close>

definition snapshot_columns :: "relationship_row \<Rightarrow> relationship_row \<Rightarrow> relationship_row" where
  "snapshot_columns excluded stored = stored
     \<lparr>child_session_id := child_session_id excluded,
      relationship := relationship excluded,
      identity_status := identity_status excluded,
      child_agent_type := child_agent_type excluded,
      child_agent_name := child_agent_name excluded,
      child_model := child_model excluded,
      spawn_depth := spawn_depth excluded,
      evidence_kind := evidence_kind excluded,
      evidence_locator := evidence_locator excluded,
      evidence_ref := evidence_ref excluded,
      child_has_events := child_has_events excluded,
      spawned_at_ms := spawned_at_ms excluded,
      origin_session_id := origin_session_id excluded\<rparr>"

text \<open>\<open>INSERT \<dots> ON CONFLICT \<dots> DO UPDATE SET \<dots> WHERE \<dots>\<close>: the conflict clause updates the
  row of the same key when one of the listed columns would change, and then only it stamps
  \<open>updated_ms\<close>. The assignments touch the listed columns alone, so that one of them changes is
  that the assigned row differs.\<close>

fun relationship_upsert ::
  "(relationship_row \<Rightarrow> relationship_row \<Rightarrow> relationship_row) \<Rightarrow> relationship_row
    \<Rightarrow> relationship_row list \<Rightarrow> relationship_row list" where
  "relationship_upsert assign excluded [] = [excluded]"
| "relationship_upsert assign excluded (r # rs) =
     (if relationship_key r = relationship_key excluded
      then (if assign excluded r \<noteq> r then (assign excluded r)\<lparr>updated_ms := updated_ms excluded\<rparr>
            else r) # rs
      else r # relationship_upsert assign excluded rs)"

text \<open>\<open>RETIRE_SUPERSEDED_UNLINKED_SQL\<close>: the unlinked row a named child supersedes.\<close>

definition superseded :: "observed_relationship \<Rightarrow> relationship_row \<Rightarrow> bool" where
  "superseded obs r \<longleftrightarrow>
     o_child_session_id obs \<noteq> None \<and> o_evidence_locator obs \<noteq> None
     \<and> r_source r = o_source obs \<and> parent_session_id r = o_parent_session_id obs
     \<and> evidence_locator r = o_evidence_locator obs
     \<and> identity_status r = IDENTITY_UNLINKED \<and> relationship r = o_relationship obs
     \<and> relationship_uid r \<noteq> observed_uid obs"

definition retire_superseded_unlinked ::
  "observed_relationship \<Rightarrow> relationship_row list \<Rightarrow> relationship_row list" where
  "retire_superseded_unlinked obs rows = filter (\<lambda>r. \<not> superseded obs r) rows"

section \<open>The armed pass\<close>

text \<open>The thread-local \<open>ACTIVE\<close> of \<open>evidence_reconcile.rs\<close>, its relationship notes: \<open>None\<close> is
  a disarmed thread.\<close>

record active_pass =
  a_source :: string
  a_session_id :: string
  a_relationships :: "string set"

definition note_relationship ::
  "observed_relationship \<Rightarrow> active_pass option \<Rightarrow> active_pass option" where
  "note_relationship obs active =
     (case active of
        None \<Rightarrow> None
      | Some a \<Rightarrow>
          if a_source a \<noteq> o_source obs \<or> a_session_id a \<noteq> o_parent_session_id obs then Some a
          else Some (a\<lparr>a_relationships := insert (observed_uid obs) (a_relationships a)\<rparr>))"

definition record_relationship_with_child_model_mode ::
  "int \<Rightarrow> bool \<Rightarrow> observed_relationship \<Rightarrow> active_pass option \<times> relationship_row list
    \<Rightarrow> active_pass option \<times> relationship_row list" where
  "record_relationship_with_child_model_mode now replace_child_model obs st =
     (let (active, rows) = st;
          rows1 = retire_superseded_unlinked obs rows;
          active1 = note_relationship obs active;
          assign = (if active1 \<noteq> None then snapshot_columns else reobserved replace_child_model)
      in (active1, relationship_upsert assign (excluded_row now obs) rows1))"

text \<open>Outside an armed pass.\<close>

definition record_relationship ::
  "int \<Rightarrow> observed_relationship \<Rightarrow> relationship_row list \<Rightarrow> relationship_row list" where
  "record_relationship now obs rows =
     snd (record_relationship_with_child_model_mode now False obs (None, rows))"

definition record_relationship_replacing_child_model ::
  "int \<Rightarrow> observed_relationship \<Rightarrow> relationship_row list \<Rightarrow> relationship_row list" where
  "record_relationship_replacing_child_model now obs rows =
     snd (record_relationship_with_child_model_mode now True obs (None, rows))"

definition GROK_SUBAGENT_DIR :: string where "GROK_SUBAGENT_DIR = ''grok_subagent_dir''"

definition retire_grok_subagents ::
  "string \<Rightarrow> string set \<Rightarrow> relationship_row list \<Rightarrow> relationship_row list" where
  "retire_grok_subagents session noted rows =
     filter (\<lambda>r. \<not> (r_source r = ''grok'' \<and> parent_session_id r = session
       \<and> evidence_kind r = GROK_SUBAGENT_DIR \<and> relationship_uid r \<notin> noted)) rows"

section \<open>What a recording keeps, and what it writes\<close>

text \<open>A row says what an observation says: every assigned column, and the merged ones where
  the observation has a value.\<close>

definition carries :: "observed_relationship \<Rightarrow> relationship_row \<Rightarrow> bool" where
  "carries obs r \<longleftrightarrow> relationship_key r = observed_key obs
     \<and> child_session_id r = o_child_session_id obs \<and> relationship r = o_relationship obs
     \<and> identity_status r = observed_identity obs \<and> evidence_kind r = o_evidence_kind obs
     \<and> child_has_events r = o_child_has_events obs
     \<and> origin_session_id r = o_origin_session_id obs
     \<and> (o_evidence_locator obs \<noteq> None \<longrightarrow> evidence_locator r = o_evidence_locator obs)
     \<and> (o_evidence_ref obs \<noteq> None \<longrightarrow> evidence_ref r = o_evidence_ref obs)
     \<and> (o_spawned_at_ms obs \<noteq> None \<longrightarrow> spawned_at_ms r = o_spawned_at_ms obs)"

lemma coalesce_simps [simp]:
  "coalesce (Some x) b = Some x" "coalesce None b = b" "coalesce a a = a"
  "coalesce a (coalesce a b) = coalesce a b"
  "a \<noteq> None \<Longrightarrow> coalesce a b = a"
  by (auto simp: coalesce_def split: option.splits)

lemma row_key_excluded [simp]: "relationship_key (excluded_row now obs) = observed_key obs"
  by (simp add: relationship_key_def observed_key_def excluded_row_def)

lemma row_key_assign [simp]:
  "relationship_key (reobserved m e r) = relationship_key r" "relationship_key (snapshot_columns e r) = relationship_key r"
  "relationship_key (r\<lparr>updated_ms := t\<rparr>) = relationship_key r"
  by (simp_all add: relationship_key_def reobserved_def snapshot_columns_def)

text \<open>The two assignments share a contract: they keep the key and the time of first
  observation, they write what the observation carries, and a second application with the same
  observation changes nothing.\<close>

locale edge_assignment =
  fixes assign :: "relationship_row \<Rightarrow> relationship_row \<Rightarrow> relationship_row"
  assumes keeps_key: "relationship_key (assign e r) = relationship_key r"
    and keeps_created: "created_ms (assign e r) = created_ms r"
    and keeps_updated: "updated_ms (assign e r) = updated_ms r"
    and writes: "relationship_key r = observed_key obs \<Longrightarrow> carries obs (assign (excluded_row now obs) r)"
    and absorbs: "assign (excluded_row now' obs)
        ((assign (excluded_row now obs) r)\<lparr>updated_ms := t\<rparr>)
      = (assign (excluded_row now obs) r)\<lparr>updated_ms := t\<rparr>"
    and absorbs_inserted: "assign (excluded_row now' obs) (excluded_row now obs) = excluded_row now obs"
begin

lemma carries_updated [simp]: "carries obs (r\<lparr>updated_ms := t\<rparr>) = carries obs r"
  by (simp add: carries_def relationship_key_def)

lemma carries_excluded [simp]: "carries obs (excluded_row now obs)"
  by (auto simp: carries_def) (simp_all add: excluded_row_def)

lemma upsert_keys:
  "map relationship_key (relationship_upsert assign e rows) =
     (if relationship_key e \<in> set (map relationship_key rows) then map relationship_key rows
      else map relationship_key rows @ [relationship_key e])"
  by (induction rows) (auto simp: keeps_key)

lemma upsert_unique: "keys_unique rows \<Longrightarrow> keys_unique (relationship_upsert assign e rows)"
  by (auto simp: keys_unique_def upsert_keys)

text \<open>The row of the key is settled: it absorbs the observation from now on.\<close>

lemma settled_later:
  assumes "assign (excluded_row now obs) x = x"
  shows "assign (excluded_row later obs) x = x"
  using absorbs [where r = x and t = "updated_ms x" and now = now and now' = later and obs = obs]
    assms by simp

lemma upsert_settled:
  assumes "keys_unique rows" and "r \<in> set (relationship_upsert assign (excluded_row now obs) rows)"
  shows "(r \<in> set rows \<and> relationship_key r \<noteq> observed_key obs)
    \<or> (relationship_key r = observed_key obs \<and> assign (excluded_row later obs) r = r)"
  using assms
proof (induction rows)
  case Nil
  then show ?case by (simp add: absorbs_inserted)
next
  case (Cons x xs)
  then show ?case
    using absorbs [where r = x and now = now and now' = later and obs = obs]
      settled_later [of now obs x later]
    by (auto simp: keys_unique_def keeps_key split: if_splits) (metis imageI)+
qed

lemma upsert_has:
  "\<exists>r \<in> set (relationship_upsert assign (excluded_row now obs) rows).
     relationship_key r = observed_key obs \<and> assign (excluded_row later obs) r = r"
proof (induction rows)
  case Nil
  then show ?case by (simp add: absorbs_inserted)
next
  case (Cons x xs)
  then show ?case
    using absorbs [where r = x and now = now and now' = later and obs = obs]
      settled_later [of now obs x later]
    by (auto simp: keeps_key)
qed

lemma upsert_rows:
  assumes "keys_unique rows" and "r \<in> set (relationship_upsert assign (excluded_row now obs) rows)"
  shows "(r \<in> set rows \<and> relationship_key r \<noteq> observed_key obs) \<or> carries obs r"
  using upsert_settled [OF assms, of now] writes [of r obs now] by auto

lemma upsert_keeps:
  "r \<in> set rows \<Longrightarrow> relationship_key r \<noteq> relationship_key e \<Longrightarrow> r \<in> set (relationship_upsert assign e rows)"
  by (induction rows) auto

lemma upsert_carries:
  "\<exists>r \<in> set (relationship_upsert assign (excluded_row now obs) rows). carries obs r"
  using upsert_has [of now obs rows now] writes by metis

lemma upsert_created:
  assumes "r \<in> set (relationship_upsert assign e rows)"
  shows "(\<exists>r0 \<in> set rows. relationship_key r0 = relationship_key r \<and> created_ms r0 = created_ms r) \<or> r = e"
  using assms by (induction rows) (auto simp: keeps_created keeps_key split: if_splits)

lemma upsert_again:
  "relationship_upsert assign (excluded_row now' obs) (relationship_upsert assign (excluded_row now obs) rows)
   = relationship_upsert assign (excluded_row now obs) rows"
proof (induction rows)
  case Nil
  then show ?case by (simp add: absorbs_inserted)
next
  case (Cons x xs)
  then show ?case using settled_later [of now obs x now'] by (auto simp: keeps_key absorbs)
qed

end

lemma reobserved_absorbs:
  "reobserved m (excluded_row now' obs) ((reobserved m (excluded_row now obs) r)\<lparr>updated_ms := t\<rparr>)
   = (reobserved m (excluded_row now obs) r)\<lparr>updated_ms := t\<rparr>"
  by (rule relationship_row.equality) (simp_all add: reobserved_def excluded_row_def)

lemma snapshot_absorbs:
  "snapshot_columns (excluded_row now' obs)
     ((snapshot_columns (excluded_row now obs) r)\<lparr>updated_ms := t\<rparr>)
   = (snapshot_columns (excluded_row now obs) r)\<lparr>updated_ms := t\<rparr>"
  by (rule relationship_row.equality) (simp_all add: snapshot_columns_def excluded_row_def)

interpretation merging: edge_assignment "reobserved m" for m
proof
  fix r obs now
  assume "relationship_key r = observed_key obs"
  then have "relationship_key (reobserved m (excluded_row now obs) r) = observed_key obs" by simp
  then show "carries obs (reobserved m (excluded_row now obs) r)"
    unfolding carries_def by (auto simp: reobserved_def excluded_row_def)
qed (simp_all add: reobserved_absorbs, simp_all add: reobserved_def excluded_row_def)

interpretation replacing: edge_assignment snapshot_columns
proof
  fix r obs now
  assume "relationship_key r = observed_key obs"
  then have "relationship_key (snapshot_columns (excluded_row now obs) r) = observed_key obs" by simp
  then show "carries obs (snapshot_columns (excluded_row now obs) r)"
    unfolding carries_def by (auto simp: snapshot_columns_def excluded_row_def)
qed (simp_all add: snapshot_absorbs, simp_all add: snapshot_columns_def excluded_row_def)

section \<open>Recording outside an armed pass\<close>

lemma record_relationship_eq:
  "record_relationship now obs rows =
     relationship_upsert (reobserved False) (excluded_row now obs) (retire_superseded_unlinked obs rows)"
  by (simp add: record_relationship_def record_relationship_with_child_model_mode_def
      note_relationship_def)

lemma retire_unique: "keys_unique rows \<Longrightarrow> keys_unique (retire_superseded_unlinked obs rows)"
  by (simp add: keys_unique_def retire_superseded_unlinked_def distinct_map_filter)

lemma record_unique: "keys_unique rows \<Longrightarrow> keys_unique (record_relationship now obs rows)"
  by (simp add: record_relationship_eq merging.upsert_unique retire_unique)

lemma record_rows:
  assumes "keys_unique rows" and "r \<in> set (record_relationship now obs rows)"
  shows "(r \<in> set rows \<and> relationship_key r \<noteq> observed_key obs) \<or> carries obs r"
  using merging.upsert_rows [OF retire_unique [OF assms(1)], of r False now obs obs] assms(2)
  by (auto simp: record_relationship_eq retire_superseded_unlinked_def)

lemma record_carries: "\<exists>r \<in> set (record_relationship now obs rows). carries obs r"
  by (simp add: record_relationship_eq merging.upsert_carries)

lemma record_keeps:
  "r \<in> set rows \<Longrightarrow> relationship_key r \<noteq> observed_key obs \<Longrightarrow> \<not> superseded obs r
    \<Longrightarrow> r \<in> set (record_relationship now obs rows)"
  by (simp add: record_relationship_eq merging.upsert_keeps retire_superseded_unlinked_def)

lemma carries_not_superseded:
  assumes "carries obs r" shows "\<not> superseded obs r"
  using assms by (auto simp: carries_def superseded_def observed_key_def relationship_key_def)

lemma carries_unlinked_not_superseded: "superseded obs r \<Longrightarrow> relationship_key r \<noteq> observed_key obs"
  by (auto simp: superseded_def observed_key_def relationship_key_def)

lemma record_again:
  assumes "keys_unique rows"
  shows "record_relationship now' obs (record_relationship now obs rows) = record_relationship now obs rows"
proof -
  let ?rows = "record_relationship now obs rows"
  have "\<not> superseded obs r" if "r \<in> set ?rows" for r
    using merging.upsert_rows [OF retire_unique [OF assms], of r False now obs obs] that
      carries_not_superseded
    by (auto simp: record_relationship_eq retire_superseded_unlinked_def)
  then have "retire_superseded_unlinked obs ?rows = ?rows"
    by (auto simp: retire_superseded_unlinked_def filter_id_conv)
  then show ?thesis
    by (subst record_relationship_eq) (simp add: record_relationship_eq merging.upsert_again)
qed

text \<open>In every mode a recording leaves the rows of other keys or a row that carries what was
  observed.\<close>

lemma mode_unique:
  "keys_unique rows \<Longrightarrow> keys_unique (snd (record_relationship_with_child_model_mode now m obs (a, rows)))"
  by (simp add: record_relationship_with_child_model_mode_def Let_def merging.upsert_unique
      replacing.upsert_unique retire_unique)

lemma mode_rows:
  assumes "keys_unique rows"
    and "r \<in> set (snd (record_relationship_with_child_model_mode now m obs (a, rows)))"
  shows "(r \<in> set rows \<and> relationship_key r \<noteq> observed_key obs) \<or> carries obs r"
  using merging.upsert_rows [OF retire_unique [OF assms(1)], of r m now obs obs]
    replacing.upsert_rows [OF retire_unique [OF assms(1)], of r now obs obs] assms(2)
  by (auto simp: record_relationship_with_child_model_mode_def Let_def retire_superseded_unlinked_def
      split: if_splits)

text \<open>A run of recordings: a row is an untouched old one or carries one of the observations, and
  a linked row is lost to no recording of another key.\<close>

lemma record_all_unique: "keys_unique rows \<Longrightarrow> keys_unique (fold (record_relationship now) obss rows)"
  by (induction obss arbitrary: rows) (simp_all add: record_unique)

lemma record_all_rows:
  assumes "keys_unique rows" and "r \<in> set (fold (record_relationship now) obss rows)"
  shows "(r \<in> set rows \<and> relationship_key r \<notin> observed_key ` set obss) \<or> (\<exists>obs \<in> set obss. carries obs r)"
  using assms
proof (induction obss arbitrary: rows)
  case (Cons obs obss)
  then show ?case
    using record_rows [of rows r now obs] record_unique [of rows now obs] by fastforce
qed simp

lemma record_all_keeps:
  assumes "r \<in> set rows" and "relationship_key r \<notin> observed_key ` set obss"
    and "identity_status r = IDENTITY_OBSERVED"
  shows "r \<in> set (fold (record_relationship now) obss rows)"
  using assms
proof (induction obss arbitrary: rows)
  case (Cons obs obss)
  then have "r \<in> set (record_relationship now obs rows)"
    by (intro record_keeps) (auto simp: superseded_def IDENTITY_OBSERVED_def IDENTITY_UNLINKED_def)
  then show ?case using Cons by simp
qed simp

text \<open>A key whose observations all name the child has its row at the end.\<close>

lemma record_all_has:
  assumes "observed_key obs = key" and "obs \<in> set obss"
    and "\<forall>obs' \<in> set obss. observed_key obs' = key \<longrightarrow> o_child_session_id obs' \<noteq> None"
  shows "\<exists>r \<in> set (fold (record_relationship now) obss rows).
    \<exists>obs' \<in> set obss. observed_key obs' = key \<and> carries obs' r"
  using assms(2,3)
proof (induction obss rule: rev_induct)
  case (snoc x xs)
  let ?rows = "fold (record_relationship now) xs rows"
  show ?case
  proof (cases "observed_key x = key")
    case True
    then show ?thesis using record_carries [of now x ?rows] by auto
  next
    case False
    then obtain r obs' where r: "r \<in> set ?rows" "obs' \<in> set xs" "observed_key obs' = key" "carries obs' r"
      using snoc assms(1) by auto
    moreover from this have "r \<in> set (record_relationship now x ?rows)"
      using False snoc.prems(2)
      by (intro record_keeps)
         (auto simp: carries_def superseded_def observed_identity_def IDENTITY_OBSERVED_def
            IDENTITY_UNLINKED_def)
    ultimately show ?thesis by auto
  qed
qed simp

text \<open>The reads see a table with a primary key.\<close>

lemma read_rows_unique: "pk_unique (read_rows rows) \<longleftrightarrow> keys_unique rows"
proof -
  have "primary_key \<circ> session_relationship.truncate = relationship_key"
    by (simp add: fun_eq_iff primary_key_def relationship_key_def session_relationship.truncate_def)
  then show ?thesis by (simp add: pk_unique_def keys_unique_def read_rows_def)
qed

lemma record_replacing_again:
  assumes "keys_unique rows"
  shows "record_relationship_replacing_child_model now' obs
      (record_relationship_replacing_child_model now obs rows)
    = record_relationship_replacing_child_model now obs rows"
proof -
  let ?rows = "record_relationship_replacing_child_model now obs rows"
  have eq: "record_relationship_replacing_child_model n obs rs =
      relationship_upsert (reobserved True) (excluded_row n obs) (retire_superseded_unlinked obs rs)"
    for n rs
    by (simp add: record_relationship_replacing_child_model_def note_relationship_def
        record_relationship_with_child_model_mode_def)
  have "\<not> superseded obs r" if "r \<in> set ?rows" for r
    using merging.upsert_rows [OF retire_unique [OF assms], of r True now obs obs] that
      carries_not_superseded by (auto simp: eq retire_superseded_unlinked_def)
  then have "retire_superseded_unlinked obs ?rows = ?rows"
    by (auto simp: retire_superseded_unlinked_def filter_id_conv)
  then show ?thesis by (subst eq) (simp add: eq merging.upsert_again)
qed

text \<open>What a re-observation may not take from a row: its key, its time of first observation,
  and any optional detail an earlier one knew.\<close>

definition refines_row :: "relationship_row \<Rightarrow> relationship_row \<Rightarrow> bool" where
  "refines_row r r' \<longleftrightarrow> relationship_key r' = relationship_key r \<and> created_ms r' = created_ms r
     \<and> (child_agent_type r \<noteq> None \<longrightarrow> child_agent_type r' \<noteq> None)
     \<and> (child_agent_name r \<noteq> None \<longrightarrow> child_agent_name r' \<noteq> None)
     \<and> (child_model r \<noteq> None \<longrightarrow> child_model r' \<noteq> None)
     \<and> (spawn_depth r \<noteq> None \<longrightarrow> spawn_depth r' \<noteq> None)
     \<and> (evidence_locator r \<noteq> None \<longrightarrow> evidence_locator r' \<noteq> None)
     \<and> (evidence_ref r \<noteq> None \<longrightarrow> evidence_ref r' \<noteq> None)
     \<and> (spawned_at_ms r \<noteq> None \<longrightarrow> spawned_at_ms r' \<noteq> None)"

lemma refines_row_refl [simp]: "refines_row r r"
  by (simp add: refines_row_def)

lemma coalesce_None [simp]: "coalesce a b = None \<longleftrightarrow> a = None \<and> b = None"
  by (auto simp: coalesce_def split: option.splits)

lemma refines_reobserved: "refines_row r ((reobserved False e r)\<lparr>updated_ms := t\<rparr>)"
  by (simp add: refines_row_def reobserved_def relationship_key_def)

lemma upsert_refines:
  "r \<in> set rows \<Longrightarrow> \<exists>r' \<in> set (relationship_upsert (reobserved False) e rows). refines_row r r'"
proof (induction rows)
  case (Cons x xs)
  then show ?case
    by (cases "r = x"; cases "relationship_key x = relationship_key e") (auto intro: refines_reobserved refines_row_refl)
qed simp

section \<open>The properties of recording\<close>


definition sample_observed :: "string option \<Rightarrow> observed_relationship" where
  "sample_observed child = default_observed
     \<lparr>o_source := ''claude'', o_parent_session_id := ''root'', o_child_session_id := child,
      o_evidence_kind := ''meta'', o_evidence_locator := Some ''a.jsonl''\<rparr>"


text \<open>C13. Recording an observation loses nothing: keys stay unique, every row survives under its
  key with its time of first observation and every detail it had, except the unlinked rows that
  the named child supersedes, of which none is left; and a row then says what was observed.\<close>

theorem recording_loses_nothing:
  assumes "keys_unique rows"
  shows "keys_unique (record_relationship now obs rows)
    \<and> (\<forall>r \<in> set rows. \<not> superseded obs r
         \<longrightarrow> (\<exists>r' \<in> set (record_relationship now obs rows). refines_row r r'))
    \<and> (\<forall>r \<in> set (record_relationship now obs rows). \<not> superseded obs r)
    \<and> (\<exists>r \<in> set (record_relationship now obs rows). carries obs r)"
proof (intro conjI ballI impI)
  fix r assume "r \<in> set rows" and "\<not> superseded obs r"
  then have "r \<in> set (retire_superseded_unlinked obs rows)"
    by (simp add: retire_superseded_unlinked_def)
  then show "\<exists>r' \<in> set (record_relationship now obs rows). refines_row r r'"
    unfolding record_relationship_eq by (rule upsert_refines)
next
  fix r assume "r \<in> set (record_relationship now obs rows)"
  then have "(r \<in> set (retire_superseded_unlinked obs rows)) \<or> carries obs r"
    using merging.upsert_rows [OF retire_unique [OF assms], of r False now obs obs]
    by (auto simp: record_relationship_eq)
  then show "\<not> superseded obs r"
    using carries_not_superseded by (auto simp: retire_superseded_unlinked_def)
qed (simp_all add: record_unique [OF assms] record_carries)

theorem recording_loses_nothing_witness:
  "\<exists>r \<in> set (record_relationship 7 (sample_observed (Some ''abc''))
      (record_relationship 5 (sample_observed None) [])). carries (sample_observed (Some ''abc'')) r"
  using recording_loses_nothing
    [of "record_relationship 5 (sample_observed None) []" 7 "sample_observed (Some ''abc'')"]
    record_unique [of "[]" 5 "sample_observed None"]
  by (simp add: keys_unique_def)

section \<open>A pass over a whole snapshot\<close>

text \<open>The relationship writes of an armed Grok pass and its sweep: every entry of the session's
  snapshot is recorded, then the entries the pass did not note are retired.\<close>

definition grok_pass ::
  "int \<Rightarrow> string \<Rightarrow> observed_relationship list \<Rightarrow> relationship_row list \<Rightarrow> relationship_row list" where
  "grok_pass now session entries rows =
     (let armed = Some \<lparr>a_source = ''grok'', a_session_id = session, a_relationships = {}\<rparr>;
          (active, rows') = fold (record_relationship_with_child_model_mode now False) entries (armed, rows)
      in case active of
           None \<Rightarrow> rows'
         | Some a \<Rightarrow> retire_grok_subagents (a_session_id a) (a_relationships a) rows')"

definition grok_entry :: "string \<Rightarrow> observed_relationship \<Rightarrow> bool" where
  "grok_entry session obs \<longleftrightarrow> o_source obs = ''grok'' \<and> o_parent_session_id obs = session
     \<and> o_evidence_kind obs = GROK_SUBAGENT_DIR"

definition says :: "observed_relationship \<Rightarrow> relationship_row \<Rightarrow> bool" where
  "says obs r \<longleftrightarrow> relationship_key r = observed_key obs \<and> snapshot_columns (excluded_row 0 obs) r = r"

definition grok_row :: "string \<Rightarrow> relationship_row \<Rightarrow> bool" where
  "grok_row session r \<longleftrightarrow> r_source r = ''grok'' \<and> parent_session_id r = session
     \<and> evidence_kind r = GROK_SUBAGENT_DIR"

text \<open>What holds after the entries of a prefix: the notes are its uids, each entry has its row,
  and a row under one of its keys says what an entry says.\<close>

definition pass_state ::
  "string \<Rightarrow> relationship_row list \<Rightarrow> observed_relationship set
    \<Rightarrow> active_pass option \<times> relationship_row list \<Rightarrow> bool" where
  "pass_state session rows0 done st \<longleftrightarrow>
     fst st = Some \<lparr>a_source = ''grok'', a_session_id = session, a_relationships = observed_uid ` done\<rparr>
     \<and> keys_unique (snd st)
     \<and> (\<forall>obs \<in> done. \<exists>r \<in> set (snd st). says obs r)
     \<and> (\<forall>r \<in> set (snd st). (\<exists>obs \<in> done. says obs r) \<or> (r \<in> set rows0 \<and> relationship_key r \<notin> observed_key ` done))
     \<and> (\<forall>r \<in> set rows0. r_source r = ''grok'' \<and> parent_session_id r = session \<or> r \<in> set (snd st))"

lemma upsert_says:
  "\<exists>r \<in> set (relationship_upsert snapshot_columns (excluded_row now obs) rows). says obs r"
  using replacing.upsert_has by (simp add: says_def)

lemma armed_record_eq:
  "record_relationship_with_child_model_mode now m obs (Some a, rows) =
     (note_relationship obs (Some a),
      relationship_upsert snapshot_columns (excluded_row now obs) (retire_superseded_unlinked obs rows))"
  by (simp add: record_relationship_with_child_model_mode_def note_relationship_def)

lemma says_carries: "says obs r \<Longrightarrow> carries obs r"
  using replacing.writes [of r obs 0] by (simp add: says_def)

lemma says_named: "says obs r \<Longrightarrow> identity_status r = observed_identity obs"
  using says_carries by (auto simp: carries_def)

lemma pass_step:
  assumes st: "pass_state session rows0 done (active, rows)"
    and named: "o_child_session_id obs \<noteq> None" "\<forall>d \<in> done. o_child_session_id d \<noteq> None"
    and entry: "o_source obs = ''grok''" "o_parent_session_id obs = session"
    and fresh: "observed_key obs \<notin> observed_key ` done"
  shows "pass_state session rows0 (insert obs done)
    (record_relationship_with_child_model_mode now m obs (active, rows))"
proof -
  let ?kept = "retire_superseded_unlinked obs rows"
  let ?rows = "relationship_upsert snapshot_columns (excluded_row now obs) ?kept"
  have active: "active = Some \<lparr>a_source = ''grok'', a_session_id = session,
      a_relationships = observed_uid ` done\<rparr>"
    and unique: "keys_unique rows"
    using st by (simp_all add: pass_state_def)
  have new: "(r \<in> set rows \<and> relationship_key r \<noteq> observed_key obs) \<or> says obs r" if "r \<in> set ?rows" for r
    using replacing.upsert_settled [OF retire_unique [OF unique] that, of 0]
    by (auto simp: says_def retire_superseded_unlinked_def)
  have keeps: "r \<in> set ?rows"
    if "r \<in> set rows" "relationship_key r \<noteq> observed_key obs" "\<not> superseded obs r" for r
    using that by (simp add: replacing.upsert_keeps retire_superseded_unlinked_def)
  have kept: "\<exists>r \<in> set ?rows. says d r" if d: "d \<in> done" for d
  proof -
    obtain r where r: "r \<in> set rows" "says d r" using st d unfolding pass_state_def by auto
    have "relationship_key r \<noteq> observed_key obs" using r(2) fresh d by (auto simp: says_def image_iff)
    moreover have "\<not> superseded obs r"
      using says_named [OF r(2)] named(2) d
      by (auto simp: superseded_def observed_identity_def IDENTITY_OBSERVED_def IDENTITY_UNLINKED_def)
    ultimately show ?thesis using keeps r by blast
  qed
  have "pass_state session rows0 (insert obs done) (note_relationship obs active, ?rows)"
    unfolding pass_state_def
  proof (intro conjI ballI)
    show "fst (note_relationship obs active, ?rows) = Some \<lparr>a_source = ''grok'',
        a_session_id = session, a_relationships = observed_uid ` insert obs done\<rparr>"
      using entry by (simp add: active note_relationship_def)
    show "keys_unique (snd (note_relationship obs active, ?rows))"
      by (simp add: replacing.upsert_unique retire_unique unique)
    show "\<exists>r \<in> set (snd (note_relationship obs active, ?rows)). says d r" if "d \<in> insert obs done" for d
      using that kept upsert_says [of now obs ?kept] by auto
    show "(\<exists>d \<in> insert obs done. says d r) \<or> r \<in> set rows0 \<and> relationship_key r \<notin> observed_key ` insert obs done"
      if "r \<in> set (snd (note_relationship obs active, ?rows))" for r
      using new [of r] that st by (auto simp: pass_state_def)
    show "r_source r = ''grok'' \<and> parent_session_id r = session
        \<or> r \<in> set (snd (note_relationship obs active, ?rows))" if "r \<in> set rows0" for r
      using st that entry keeps [of r]
      by (auto simp: pass_state_def superseded_def observed_key_def relationship_key_def)
  qed
  then show ?thesis by (simp add: active armed_record_eq)
qed

lemma pass_fold:
  assumes "pass_state session rows0 done st"
    and "\<forall>obs \<in> set entries. grok_entry session obs \<and> o_child_session_id obs \<noteq> None"
    and "\<forall>d \<in> done. o_child_session_id d \<noteq> None"
    and "distinct (map observed_uid entries)" and "\<forall>obs \<in> set entries. observed_key obs \<notin> observed_key ` done"
  shows "pass_state session rows0 (done \<union> set entries)
    (fold (record_relationship_with_child_model_mode now m) entries st)"
  using assms
proof (induction entries arbitrary: "done" st)
  case (Cons obs entries)
  obtain active rows where st: "st = (active, rows)" by (cases st)
  have "pass_state session rows0 (insert obs done)
      (record_relationship_with_child_model_mode now m obs st)"
    unfolding st using Cons.prems st by (intro pass_step) (auto simp: grok_entry_def)
  moreover have "observed_key d \<noteq> observed_key obs" if "d \<in> set entries" for d
    using Cons.prems(2,4) that by (auto simp: observed_key_def image_iff)
  ultimately show ?case using Cons.IH [of "insert obs done"] Cons.prems by auto
qed simp


definition sample_entry :: "string \<Rightarrow> observed_relationship" where
  "sample_entry child = default_observed
     \<lparr>o_source := ''grok'', o_parent_session_id := ''s'', o_child_session_id := Some child,
      o_evidence_kind := GROK_SUBAGENT_DIR\<rparr>"


end
