(* ===== verification/StoreRows.thy ===== *)
theory StoreRows
  imports Prelude
begin

text \<open>
  The evidence rows of a session (\<open>store.rs\<close>) and the reads over them: events, tool calls,
  file edits and markers, whole and paged. A table is the list of its rows; a \<open>SELECT\<close> is a
  filter and a stable sort by its \<open>ORDER BY\<close> columns, and a page is one bounded read from a
  cursor. \<open>i64\<close> columns are integers: the reads only compare them.
\<close>

section \<open>Rows\<close>

text \<open>Fields a read of this development never looks at are kept: they are what a page returns.\<close>

record session_event =
  e_id :: int
  e_source :: string
  e_session_id :: string
  e_project :: "string option"
  e_project_key :: "string option"
  e_cwd :: "string option"
  e_git_branch :: "string option"
  e_message_id :: "string option"
  e_parent_id :: "string option"
  e_ts_ms :: int
  e_role :: string
  e_kind :: string
  e_text :: "string option"
  e_model :: "string option"
  e_token_json :: "string option"
  e_provider :: "string option"
  e_event_uid :: string
  e_raw_kind :: "string option"
  e_tool_use_id :: "string option"
  e_payload_bytes :: "int option"
  e_payload_truncated :: "int option"
  e_payload_hash :: "string option"
  e_call_index :: "int option"
  e_event_index :: "int option"
  e_result_status :: "string option"
  e_event_source :: "string option"
  e_error_signal :: "string option"
  e_subagent_session_id :: "string option"
  e_agent_id :: "string option"
  e_request_id :: "string option"
  e_provider_message_id :: "string option"
  e_stop_reason :: "string option"
  e_agent_version :: "string option"
  e_is_sidechain :: "int option"
  e_is_meta :: "int option"
  e_turn_id :: "string option"
  e_request_span :: "string option"
  e_control_kind :: "string option"
  e_record_token_json :: "string option"

record session_tool_call =
  tc_id :: int
  tc_source :: string
  tc_session_id :: string
  tc_message_id :: "string option"
  tc_tool_use_id :: string
  tc_name :: string
  tc_target :: "string option"
  tc_args_json :: "string option"
  tc_is_error :: "int option"
  tc_ts_ms :: "int option"

record session_file_edit =
  fe_id :: int
  fe_source :: string
  fe_session_id :: string
  fe_message_id :: "string option"
  fe_tool_use_id :: string
  fe_file_path :: string
  fe_tool_name :: "string option"
  fe_lines_added :: "int option"
  fe_lines_removed :: "int option"
  fe_structured_patch_json :: "string option"
  fe_user_modified :: "int option"
  fe_ts_ms :: "int option"
  fe_git_branch :: "string option"
  fe_cwd :: "string option"

record session_marker =
  sm_id :: int
  sm_source :: string
  sm_session_id :: string
  sm_marker_uid :: string
  sm_ts_ms :: "int option"
  sm_message_id :: "string option"
  sm_parent_id :: "string option"
  sm_turn_id :: "string option"
  sm_kind :: string
  sm_subkind :: "string option"
  sm_text :: "string option"
  sm_payload_json :: "string option"

section \<open>Whole reads\<close>

text \<open>\<open>NULLIF(x, '')\<close>, which is also the \<open>present\<close> of the Rust rule.\<close>

definition nullif_empty :: "string option \<Rightarrow> string option" where
  "nullif_empty x = (if x = Some [] then None else x)"

definition of_source :: "string option \<Rightarrow> string \<Rightarrow> bool" where
  "of_source source s \<longleftrightarrow> (case source of None \<Rightarrow> True | Some x \<Rightarrow> s = x)"

text \<open>\<open>ORDER BY ts_ms ASC, id ASC\<close>.\<close>

definition event_order :: "session_event \<Rightarrow> int \<times> int" where
  "event_order e = (e_ts_ms e, e_id e)"

definition session_events :: "session_event list \<Rightarrow> string \<Rightarrow> string option \<Rightarrow> session_event list" where
  "session_events db session source =
     sort_key event_order (filter (\<lambda>e. e_session_id e = session \<and> of_source source (e_source e)) db)"

text \<open>\<open>ORDER BY ts_ms IS NULL, ts_ms ASC, id ASC\<close>, for rows that may carry no time.\<close>

definition evidence_order :: "('a \<Rightarrow> int option) \<Rightarrow> ('a \<Rightarrow> int) \<Rightarrow> 'a \<Rightarrow> bool \<times> int \<times> int" where
  "evidence_order ts ident r =
     (ts r = None, (case ts r of None \<Rightarrow> 0 | Some t \<Rightarrow> t), ident r)"

definition session_tool_calls ::
  "session_tool_call list \<Rightarrow> string \<Rightarrow> string option \<Rightarrow> session_tool_call list" where
  "session_tool_calls db session source =
     sort_key (evidence_order tc_ts_ms tc_id)
       (filter (\<lambda>r. tc_session_id r = session \<and> of_source source (tc_source r)) db)"

definition session_file_edits ::
  "session_file_edit list \<Rightarrow> string \<Rightarrow> string option \<Rightarrow> session_file_edit list" where
  "session_file_edits db session source =
     sort_key (evidence_order fe_ts_ms fe_id)
       (filter (\<lambda>r. fe_session_id r = session \<and> of_source source (fe_source r)) db)"

section \<open>Paged reads\<close>

definition page_limit :: "int \<Rightarrow> nat" where
  "page_limit limit = nat (max 1 (min limit 1000))"

record session_event_cursor =
  ec_ts_ms :: int
  ec_id :: int

definition event_cursor :: "session_event \<Rightarrow> session_event_cursor" where
  "event_cursor e = \<lparr>ec_ts_ms = e_ts_ms e, ec_id = e_id e\<rparr>"

definition after_event :: "session_event_cursor \<Rightarrow> session_event \<Rightarrow> bool" where
  "after_event c e \<longleftrightarrow> ec_ts_ms c < e_ts_ms e \<or> (e_ts_ms e = ec_ts_ms c \<and> ec_id c < e_id e)"

definition session_events_page ::
  "session_event list \<Rightarrow> string \<Rightarrow> string option \<Rightarrow> int \<Rightarrow> session_event_cursor option
    \<Rightarrow> session_event list \<times> session_event_cursor option" where
  "session_events_page db session source limit after =
     page_of event_cursor (page_limit limit)
       (take (page_limit limit + 1)
         (sort_key event_order
           (filter (\<lambda>e. e_session_id e = session \<and> of_source source (e_source e)
              \<and> (case after of None \<Rightarrow> True | Some c \<Rightarrow> after_event c e)) db)))"

record session_evidence_cursor =
  vc_ts_ms :: "int option"
  vc_id :: int

definition evidence_cursor :: "('a \<Rightarrow> int option) \<Rightarrow> ('a \<Rightarrow> int) \<Rightarrow> 'a \<Rightarrow> session_evidence_cursor" where
  "evidence_cursor ts ident r = \<lparr>vc_ts_ms = ts r, vc_id = ident r\<rparr>"

text \<open>The rows \<open>evidence_page_query\<close> selects, in its order, before the limit. A dated cursor
  still admits the whole undated tail; an undated one never walks back, and orders by id.\<close>

definition evidence_page_query ::
  "('a \<Rightarrow> int option) \<Rightarrow> ('a \<Rightarrow> int) \<Rightarrow> ('a \<Rightarrow> bool) \<Rightarrow> session_evidence_cursor option
    \<Rightarrow> 'a list \<Rightarrow> 'a list" where
  "evidence_page_query ts ident scope after db =
     (case after of
        None \<Rightarrow> sort_key (evidence_order ts ident) (filter scope db)
      | Some c \<Rightarrow>
          (case vc_ts_ms c of
             Some t \<Rightarrow> sort_key (evidence_order ts ident)
               (filter (\<lambda>r. scope r \<and> (case ts r of None \<Rightarrow> True
                  | Some s \<Rightarrow> t < s \<or> (s = t \<and> vc_id c < ident r))) db)
           | None \<Rightarrow> sort_key ident (filter (\<lambda>r. scope r \<and> ts r = None \<and> vc_id c < ident r) db)))"

definition evidence_page ::
  "('a \<Rightarrow> int option) \<Rightarrow> ('a \<Rightarrow> int) \<Rightarrow> ('a \<Rightarrow> bool) \<Rightarrow> 'a list \<Rightarrow> int
    \<Rightarrow> session_evidence_cursor option \<Rightarrow> 'a list \<times> session_evidence_cursor option" where
  "evidence_page ts ident scope db limit after =
     page_of (evidence_cursor ts ident) (page_limit limit)
       (take (page_limit limit + 1) (evidence_page_query ts ident scope after db))"

definition session_tool_calls_page ::
  "session_tool_call list \<Rightarrow> string \<Rightarrow> string \<Rightarrow> int \<Rightarrow> session_evidence_cursor option
    \<Rightarrow> session_tool_call list \<times> session_evidence_cursor option" where
  "session_tool_calls_page db source session =
     evidence_page tc_ts_ms tc_id (\<lambda>r. tc_source r = source \<and> tc_session_id r = session) db"

definition session_file_edits_page ::
  "session_file_edit list \<Rightarrow> string \<Rightarrow> string \<Rightarrow> int \<Rightarrow> session_evidence_cursor option
    \<Rightarrow> session_file_edit list \<times> session_evidence_cursor option" where
  "session_file_edits_page db source session =
     evidence_page fe_ts_ms fe_id (\<lambda>r. fe_source r = source \<and> fe_session_id r = session) db"

definition session_markers_page ::
  "session_marker list \<Rightarrow> string \<Rightarrow> string \<Rightarrow> int \<Rightarrow> session_evidence_cursor option
    \<Rightarrow> session_marker list \<times> session_evidence_cursor option" where
  "session_markers_page db source session =
     evidence_page sm_ts_ms sm_id (\<lambda>r. sm_source r = source \<and> sm_session_id r = session) db"

text \<open>\<open>session_markers\<close> follows the cursors of its own pages. The loop carries fuel: one page
  more than there are rows, which \<open>session_markers_complete\<close> shows is enough.\<close>

definition session_markers ::
  "session_marker list \<Rightarrow> string \<Rightarrow> string \<Rightarrow> session_marker list option" where
  "session_markers db source session =
     walk_pages (session_markers_page db source session 1000) (Suc (length db)) None"

section \<open>The pages keep the paging contract\<close>

lemma page_limit_pos [simp]: "0 < page_limit limit"
  by (simp add: page_limit_def)

definition event_cursor_order :: "session_event_cursor \<Rightarrow> int \<times> int" where
  "event_cursor_order c = (ec_ts_ms c, ec_id c)"

lemma after_event_order: "after_event c e \<longleftrightarrow> event_cursor_order c < event_order e"
  by (auto simp: after_event_def event_cursor_order_def event_order_def)

lemma event_order_inj: "distinct (map e_id db) \<Longrightarrow> inj_on event_order (set (filter P db))"
  by (rule inj_onI) (auto simp: event_order_def distinct_map inj_on_def)

definition events_of :: "session_event list \<Rightarrow> string \<times> string option \<Rightarrow> session_event list" where
  "events_of db q = session_events db (fst q) (snd q)"

definition events_page_of ::
  "session_event list \<Rightarrow> string \<times> string option \<Rightarrow> int \<Rightarrow> session_event_cursor option
    \<Rightarrow> session_event list \<times> session_event_cursor option" where
  "events_page_of db q = session_events_page db (fst q) (snd q)"

lemma filter_sort_key_cursor:
  "filter (\<lambda>x. k < f x) (sort_key f (filter P db)) = sort_key f (filter (\<lambda>x. P x \<and> k < f x) db)"
  by (simp add: filter_sort filter_filter)

interpretation event_pages: keyset_paging "\<lambda>db. distinct (map e_id db)" events_of event_order
  event_cursor_order event_cursor page_limit events_page_of
proof unfold_locales
  fix db :: "session_event list" and q
  assume "distinct (map e_id db)"
  then show "sorted_wrt (\<lambda>a b. event_order a < event_order b) (events_of db q)"
    unfolding events_of_def session_events_def
    by (intro sort_key_strict event_order_inj distinct_filter) (auto simp: distinct_map)
next
  fix db q limit after
  show "events_page_of db q limit after =
    keyset_page event_order event_cursor_order event_cursor (events_of db q) (page_limit limit) after"
    by (simp add: events_page_of_def events_of_def session_events_page_def session_events_def
        keyset_page_def page_of_take filter_sort_key_cursor after_event_order conj_assoc Let_def
        split: option.split)
qed (auto simp: event_cursor_order_def event_cursor_def event_order_def)

definition evidence_cursor_order :: "session_evidence_cursor \<Rightarrow> bool \<times> int \<times> int" where
  "evidence_cursor_order c =
     (vc_ts_ms c = None, (case vc_ts_ms c of None \<Rightarrow> 0 | Some t \<Rightarrow> t), vc_id c)"

lemma evidence_order_inj:
  "distinct (map ident db) \<Longrightarrow> inj_on (evidence_order ts ident) (set (filter P db))"
  by (rule inj_onI) (auto simp: evidence_order_def distinct_map inj_on_def)

text \<open>The page after a cursor, whichever of the two shapes of the query reads it.\<close>

lemma evidence_page_query_rest:
  "evidence_page_query ts ident scope after db =
     (case after of
        None \<Rightarrow> sort_key (evidence_order ts ident) (filter scope db)
      | Some c \<Rightarrow> filter (\<lambda>r. evidence_cursor_order c < evidence_order ts ident r)
          (sort_key (evidence_order ts ident) (filter scope db)))"
proof (cases after)
  case (Some c)
  show ?thesis
  proof (cases "vc_ts_ms c")
    case None
    have "sort_key ident (filter (\<lambda>r. scope r \<and> ts r = None \<and> vc_id c < ident r) db) =
        sort_key (evidence_order ts ident) (filter (\<lambda>r. scope r \<and> ts r = None \<and> vc_id c < ident r) db)"
      by (rule sort_key_order_cong) (auto simp: evidence_order_def)
    moreover have "(\<lambda>r. scope r \<and> ts r = None \<and> vc_id c < ident r) =
        (\<lambda>r. scope r \<and> evidence_cursor_order c < evidence_order ts ident r)"
      using None by (auto simp: evidence_cursor_order_def evidence_order_def fun_eq_iff)
    ultimately show ?thesis
      using Some None by (simp add: evidence_page_query_def filter_sort_key_cursor)
  next
    case (Some t)
    have "(\<lambda>r. scope r \<and> (case ts r of None \<Rightarrow> True
          | Some s \<Rightarrow> t < s \<or> (s = t \<and> vc_id c < ident r))) =
        (\<lambda>r. scope r \<and> evidence_cursor_order c < evidence_order ts ident r)"
      using Some by (auto simp: evidence_cursor_order_def evidence_order_def fun_eq_iff
          split: option.splits)
    then show ?thesis
      using Some \<open>after = Some c\<close> by (simp add: evidence_page_query_def filter_sort_key_cursor)
  qed
qed (simp add: evidence_page_query_def)

lemma evidence_page_keyset:
  "evidence_page ts ident scope db limit after =
     keyset_page (evidence_order ts ident) evidence_cursor_order (evidence_cursor ts ident)
       (sort_key (evidence_order ts ident) (filter scope db)) (page_limit limit) after"
  by (simp add: evidence_page_def evidence_page_query_rest keyset_page_def page_of_take Let_def
      split: option.split)

text \<open>The query is the row scope; every table that pages through it keeps the contract.\<close>

interpretation evidence_pages: keyset_paging "\<lambda>db. distinct (map ident db)"
  "\<lambda>db scope. sort_key (evidence_order ts ident) (filter scope db)"
  "evidence_order ts ident" evidence_cursor_order "evidence_cursor ts ident" page_limit
  "\<lambda>db scope. evidence_page ts ident scope db" for ts ident
proof unfold_locales
  fix db :: "'a list" and scope
  assume "distinct (map ident db)"
  then show "sorted_wrt (\<lambda>a b. evidence_order ts ident a < evidence_order ts ident b)
      (sort_key (evidence_order ts ident) (filter scope db))"
    by (intro sort_key_strict evidence_order_inj distinct_filter) (auto simp: distinct_map)
qed (auto simp: evidence_page_keyset evidence_cursor_order_def evidence_cursor_def evidence_order_def)

section \<open>Following the cursors\<close>

text \<open>Following an event page's cursors from the start returns exactly the events the unpaged
  read returns, each once and in its order, and the walk ends.\<close>

lemma session_events_pages_complete:
  assumes "distinct (map e_id db)" and "length (session_events db session source) < fuel"
  shows "walk_pages (session_events_page db session source limit) fuel None
    = Some (session_events db session source)"
proof -
  have "events_page_of db (session, source) limit = session_events_page db session source limit"
    by (simp add: events_page_of_def fun_eq_iff)
  then show ?thesis
    using event_pages.walk_all [of db "(session, source)" fuel limit] assms
    by (simp add: events_of_def)
qed

text \<open>The pages of tool calls and of file edits, whose rows may carry no time, add up to the
  unpaged reads: the undated tail is reached exactly once, whether a page ends in the dated
  part, in the tail, or between them.\<close>

lemma session_evidence_pages_complete:
  assumes "distinct (map tc_id calls)" and "length (session_tool_calls calls session (Some source)) < fuel"
    and "distinct (map fe_id edits)" and "length (session_file_edits edits session (Some source)) < fuel"
  shows "walk_pages (session_tool_calls_page calls source session limit) fuel None
       = Some (session_tool_calls calls session (Some source))
    \<and> walk_pages (session_file_edits_page edits source session limit) fuel None
       = Some (session_file_edits edits session (Some source))"
  using assms evidence_pages.walk_all [of tc_id calls tc_ts_ms
      "\<lambda>r. tc_source r = source \<and> tc_session_id r = session" fuel limit]
    evidence_pages.walk_all [of fe_id edits fe_ts_ms
      "\<lambda>r. fe_source r = source \<and> fe_session_id r = session" fuel limit]
  by (simp add: session_tool_calls_def session_tool_calls_page_def session_file_edits_def
      session_file_edits_page_def of_source_def conj_commute cong: conj_cong)

text \<open>\<open>session_markers\<close> ends, and answers every marker of the session once, dated ones by time
  and the undated ones after them, however many pages of 1,000 there are.\<close>

lemma session_markers_complete:
  assumes "distinct (map sm_id db)"
  shows "session_markers db source session
    = Some (sort_key (evidence_order sm_ts_ms sm_id)
        (filter (\<lambda>r. sm_source r = source \<and> sm_session_id r = session) db))"
  unfolding session_markers_def session_markers_page_def
  by (rule evidence_pages.walk_all [OF assms]) (simp add: le_imp_less_Suc)

section \<open>A session's rows\<close>

definition blank_event :: "int \<Rightarrow> int \<Rightarrow> session_event" where
  "blank_event i t = \<lparr>e_id = i, e_source = ''claude'', e_session_id = ''s1'', e_project = None,
     e_project_key = None, e_cwd = None, e_git_branch = None, e_message_id = None,
     e_parent_id = None, e_ts_ms = t, e_role = ''user'', e_kind = ''text'', e_text = None,
     e_model = None, e_token_json = None, e_provider = None, e_event_uid = [], e_raw_kind = None,
     e_tool_use_id = None, e_payload_bytes = None, e_payload_truncated = None,
     e_payload_hash = None, e_call_index = None, e_event_index = None, e_result_status = None,
     e_event_source = None, e_error_signal = None, e_subagent_session_id = None,
     e_agent_id = None, e_request_id = None, e_provider_message_id = None, e_stop_reason = None,
     e_agent_version = None, e_is_sidechain = None, e_is_meta = None, e_turn_id = None,
     e_request_span = None, e_control_kind = None, e_record_token_json = None\<rparr>"

definition blank_call :: "int \<Rightarrow> int option \<Rightarrow> session_tool_call" where
  "blank_call i t = \<lparr>tc_id = i, tc_source = ''claude'', tc_session_id = ''s1'',
     tc_message_id = Some ''m1'', tc_tool_use_id = ''t'' @ nat_to_dec (nat i), tc_name = ''Bash'',
     tc_target = None, tc_args_json = None, tc_is_error = None, tc_ts_ms = t\<rparr>"

definition blank_marker :: "int \<Rightarrow> int option \<Rightarrow> session_marker" where
  "blank_marker i t = \<lparr>sm_id = i, sm_source = ''codex'', sm_session_id = ''s1'', sm_marker_uid = [],
     sm_ts_ms = t, sm_message_id = None, sm_parent_id = None, sm_turn_id = None,
     sm_kind = ''unknown'', sm_subkind = None, sm_text = None, sm_payload_json = None\<rparr>"

lemma session_events_pages_complete_witness:
  "walk_pages (session_events_page [blank_event 2 9, blank_event 1 9, blank_event 3 4] ''s1'' None 1) 4 None
    = Some [blank_event 3 4, blank_event 1 9, blank_event 2 9]"
  using session_events_pages_complete [of "[blank_event 2 9, blank_event 1 9, blank_event 3 4]" "''s1''" None 4 1]
  by (simp add: session_events_def of_source_def event_order_def blank_event_def)

lemma session_evidence_pages_complete_witness:
  "walk_pages (session_tool_calls_page [blank_call 1 None, blank_call 2 (Some 5)] ''claude'' ''s1'' 1) 3 None
     = Some [blank_call 2 (Some 5), blank_call 1 None]
   \<and> walk_pages (session_file_edits_page [] ''claude'' ''s1'' 1) 3 None = Some []"
  using session_evidence_pages_complete
    [of "[blank_call 1 None, blank_call 2 (Some 5)]" "''s1''" "''claude''" 3 "[]" 1]
  by (simp add: session_tool_calls_def session_file_edits_def of_source_def evidence_order_def
      blank_call_def)

lemma session_markers_complete_witness:
  "session_markers [blank_marker 1 None, blank_marker 2 (Some 7), blank_marker 3 None] ''codex'' ''s1''
    = Some [blank_marker 2 (Some 7), blank_marker 1 None, blank_marker 3 None]"
  by (subst session_markers_complete) (simp_all add: evidence_order_def blank_marker_def)

end
