(* ===== verification/F64.thy ===== *)
theory F64
  imports Prelude
begin

text \<open>
  Rust's \<open>f64\<close> as far as the program computes with it: IEEE 754 binary64 values, addition
  with rounding to nearest, ties to even, conversion from integers, and the comparisons. A
  finite value is a sign, a mantissa below \<open>2 ^ 53\<close> and an exponent.
\<close>

datatype f64 = F64_NaN | F64_Inf bool | F64_Fin bool int int

function int_bits :: "int \<Rightarrow> int" where
  "int_bits m = (if m \<le> 0 then 0 else 1 + int_bits (m div 2))"
  by pat_completeness auto
termination by (relation "measure nat") auto

declare int_bits.simps [simp del]

text \<open>\<open>m / 2 ^ k\<close> rounded to nearest, ties to even.\<close>

definition round_shift :: "int \<Rightarrow> nat \<Rightarrow> int" where
  "round_shift m k =
     (let q = m div 2 ^ k; r = m mod 2 ^ k; half = 2 ^ (k - 1)
      in if half < r \<or> (r = half \<and> odd q) then q + 1 else q)"

text \<open>The double nearest to \<open>(-1) ^ s * m * 2 ^ e\<close>, for \<open>0 \<le> m\<close>.\<close>

definition f64_round :: "bool \<Rightarrow> int \<Rightarrow> int \<Rightarrow> f64" where
  "f64_round s m e =
     (if m = 0 then F64_Fin s 0 (-1074)
      else let e1 = max (e + int_bits m - 53) (-1074);
               q = (if e1 \<le> e then m * 2 ^ nat (e - e1) else round_shift m (nat (e1 - e)));
               m2 = (if q = 2 ^ 53 then 2 ^ 52 else q);
               e2 = (if q = 2 ^ 53 then e1 + 1 else e1)
           in if 971 < e2 then F64_Inf s else F64_Fin s m2 e2)"

fun f64_add :: "f64 \<Rightarrow> f64 \<Rightarrow> f64" where
  "f64_add (F64_Fin s m e) (F64_Fin t n f) =
     (let g = min e f;
          a = (if s then -1 else 1) * m * 2 ^ nat (e - g);
          b = (if t then -1 else 1) * n * 2 ^ nat (f - g);
          c = a + b
      in if c = 0 then F64_Fin (s \<and> t) 0 (-1074) else f64_round (c < 0) \<bar>c\<bar> g)"
| "f64_add (F64_Inf s) (F64_Inf t) = (if s = t then F64_Inf s else F64_NaN)"
| "f64_add (F64_Inf s) (F64_Fin _ _ _) = F64_Inf s"
| "f64_add (F64_Fin _ _ _) (F64_Inf t) = F64_Inf t"
| "f64_add F64_NaN _ = F64_NaN"
| "f64_add _ F64_NaN = F64_NaN"

definition f64_of_int :: "int \<Rightarrow> f64" where
  "f64_of_int i = f64_round (i < 0) \<bar>i\<bar> 0"

definition f64_zero :: f64 where "f64_zero = F64_Fin False 0 (-1074)"

fun f64_is_finite :: "f64 \<Rightarrow> bool" where
  "f64_is_finite (F64_Fin _ _ _) \<longleftrightarrow> True"
| "f64_is_finite _ \<longleftrightarrow> False"

text \<open>\<open>x >= 0.0\<close>: false for NaN, true for either zero.\<close>

fun f64_ge_zero :: "f64 \<Rightarrow> bool" where
  "f64_ge_zero F64_NaN \<longleftrightarrow> False"
| "f64_ge_zero (F64_Inf s) \<longleftrightarrow> \<not> s"
| "f64_ge_zero (F64_Fin s m e) \<longleftrightarrow> \<not> s \<or> m = 0"

text \<open>\<open>==\<close>: NaN differs from everything, the two zeros are equal.\<close>

fun f64_eq :: "f64 \<Rightarrow> f64 \<Rightarrow> bool" where
  "f64_eq F64_NaN _ \<longleftrightarrow> False"
| "f64_eq _ F64_NaN \<longleftrightarrow> False"
| "f64_eq (F64_Fin s m e) (F64_Fin t n f) \<longleftrightarrow> (m = 0 \<and> n = 0) \<or> (s = t \<and> m = n \<and> e = f)"
| "f64_eq x y \<longleftrightarrow> x = y"

lemma f64_add_commute: "f64_add x y = f64_add y x"
  by (cases x; cases y) (auto simp: Let_def min.commute add.commute conj_commute)

lemma f64_round_sign: "f64_ge_zero (f64_round False m e)"
  by (simp add: f64_round_def Let_def)

text \<open>The representation invariant: a mantissa is not negative and fits 53 bits.\<close>

fun f64_valid :: "f64 \<Rightarrow> bool" where
  "f64_valid (F64_Fin s m e) \<longleftrightarrow> 0 \<le> m \<and> m < 2 ^ 53"
| "f64_valid _ \<longleftrightarrow> True"

lemma int_bits_bound: "0 \<le> m \<Longrightarrow> m < 2 ^ nat (int_bits m) \<and> 0 \<le> int_bits m"
proof (induction m rule: int_bits.induct)
  case (1 m)
  show ?case
  proof (cases "m \<le> 0")
    case True
    with "1.prems" show ?thesis by (simp add: int_bits.simps [of 0])
  next
    case False
    then have h: "m div 2 < 2 ^ nat (int_bits (m div 2))" "0 \<le> int_bits (m div 2)"
      using "1.IH" by simp_all
    then have "m < 2 * 2 ^ nat (int_bits (m div 2))" by linarith
    also have "\<dots> = 2 ^ nat (int_bits m)"
      using False h(2) by (simp add: int_bits.simps [of m] nat_add_distrib)
    finally show ?thesis using False h(2) by (simp add: int_bits.simps [of m])
  qed
qed

lemma round_shift_bound:
  assumes "0 \<le> m" and "m < 2 ^ (k + n)"
  shows "0 \<le> round_shift m k \<and> round_shift m k \<le> 2 ^ n"
proof -
  have "m div 2 ^ k < 2 ^ n"
  proof (rule ccontr)
    assume "\<not> m div 2 ^ k < 2 ^ n"
    then have "2 ^ n * 2 ^ k \<le> m div 2 ^ k * 2 ^ k" by (intro mult_right_mono) simp_all
    also have "\<dots> \<le> m" by (metis add_increasing2 div_mult_mod_eq mod_int_pos_iff order_refl zero_less_numeral zero_less_power)
    finally show False using assms(2) by (simp add: power_add mult.commute)
  qed
  moreover have "0 \<le> m div 2 ^ k" using assms(1) by (simp add: pos_imp_zdiv_nonneg_iff)
  ultimately show ?thesis by (auto simp: round_shift_def Let_def)
qed

lemma f64_round_valid:
  assumes "0 \<le> m"
  shows "f64_valid (f64_round s m e)"
proof -
  define e1 where "e1 = max (e + int_bits m - 53) (-1074)"
  define q where "q = (if e1 \<le> e then m * 2 ^ nat (e - e1) else round_shift m (nat (e1 - e)))"
  have bits: "m < 2 ^ nat (int_bits m)" "0 \<le> int_bits m" using int_bits_bound [OF assms] by auto
  have "0 \<le> q \<and> q \<le> 2 ^ 53"
  proof (cases "e1 \<le> e")
    case True
    then have "int_bits m + (e - e1) \<le> 53" by (simp add: e1_def)
    then have le: "nat (int_bits m) + nat (e - e1) \<le> 53" using True bits(2) by linarith
    have "m * 2 ^ nat (e - e1) \<le> 2 ^ nat (int_bits m) * 2 ^ nat (e - e1)"
      using bits(1) by (intro mult_right_mono) simp_all
    also have "\<dots> \<le> (2::int) ^ 53"
      unfolding power_add [symmetric] using le by (rule power_increasing) simp
    finally show ?thesis using True assms by (simp add: q_def)
  next
    case False
    then have "nat (int_bits m) \<le> nat (e1 - e) + 53" by (simp add: e1_def)
    then have "(2::int) ^ nat (int_bits m) \<le> 2 ^ (nat (e1 - e) + 53)" by (rule power_increasing) simp
    then have "m < 2 ^ (nat (e1 - e) + 53)" using bits(1) by linarith
    from round_shift_bound [OF assms this] False show ?thesis by (simp add: q_def)
  qed
  then show ?thesis
    by (auto simp: f64_round_def Let_def e1_def [symmetric] q_def [symmetric])
qed

lemma f64_add_valid: "f64_valid x \<Longrightarrow> f64_valid y \<Longrightarrow> f64_valid (f64_add x y)"
  by (cases x; cases y) (auto simp: Let_def intro: f64_round_valid)

lemma f64_add_nonneg:
  "f64_valid x \<Longrightarrow> f64_valid y \<Longrightarrow> f64_ge_zero x \<Longrightarrow> f64_ge_zero y \<Longrightarrow> f64_ge_zero (f64_add x y)"
proof (cases "\<exists>s m e t n f. x = F64_Fin s m e \<and> y = F64_Fin t n f")
  case True
  assume a: "f64_valid x" "f64_valid y" "f64_ge_zero x" "f64_ge_zero y"
  from True obtain s m e t n f where xy: "x = F64_Fin s m e" "y = F64_Fin t n f" by blast
  have "0 \<le> (if s then -1 else 1) * m * 2 ^ nat (e - min e f)
      + (if t then -1 else 1) * n * 2 ^ nat (f - min e f)"
    using a by (auto simp: xy)
  then show ?thesis using f64_round_sign by (simp add: xy Let_def)
next
  case False
  assume "f64_ge_zero x" "f64_ge_zero y"
  then show ?thesis using False by (cases x; cases y) auto
qed

lemma f64_eq_zero: "f64_eq x f64_zero \<longleftrightarrow> (\<exists>s e. x = F64_Fin s 0 e)"
  by (cases x) (auto simp: f64_zero_def)

text \<open>The usual sum of a tenth and a fifth, with its error in the last place.\<close>

lemma f64_tenth_and_fifth:
  "f64_add (F64_Fin False 7205759403792794 (-56)) (F64_Fin False 7205759403792794 (-55))
    = F64_Fin False 5404319552844596 (-54)"
  by (simp add: f64_round_def Let_def round_shift_def int_bits.simps)

end
