(* ===== verification/Json.thy ===== *)
theory Json
  imports F64 "HOL-Library.Word"
begin

text \<open>
  \<open>serde_json::Value\<close> as the program reads it. A number keeps the representation it was
  parsed into; an object is its key-ordered list of members, as \<open>serde_json::Map\<close> is without
  the \<open>preserve_order\<close> feature. Parsing and printing JSON text are library code: where the
  program calls them, they are parameters of the model.
\<close>

type_synonym u64 = "64 word"

datatype number = PosInt u64 | NegInt int | Float f64

datatype json =
    JNull
  | JBool bool
  | JNumber number
  | JString string
  | JArray "json list"
  | JObject "(string \<times> json) list"

fun is_null :: "json \<Rightarrow> bool" where
  "is_null JNull \<longleftrightarrow> True"
| "is_null _ \<longleftrightarrow> False"

fun as_object :: "json \<Rightarrow> (string \<times> json) list option" where
  "as_object (JObject m) = Some m"
| "as_object _ = None"

definition is_object :: "json \<Rightarrow> bool" where
  "is_object v \<longleftrightarrow> as_object v \<noteq> None"

fun as_u64 :: "json \<Rightarrow> u64 option" where
  "as_u64 (JNumber (PosInt n)) = Some n"
| "as_u64 _ = None"

fun as_f64 :: "json \<Rightarrow> f64 option" where
  "as_f64 (JNumber (PosInt n)) = Some (f64_of_int (uint n))"
| "as_f64 (JNumber (NegInt i)) = Some (f64_of_int i)"
| "as_f64 (JNumber (Float x)) = Some x"
| "as_f64 _ = None"

fun as_str :: "json \<Rightarrow> string option" where
  "as_str (JString s) = Some s"
| "as_str _ = None"

text \<open>\<open>Value::get\<close> by key, and indexing, which answers \<open>null\<close> for a missing member.\<close>

definition json_get :: "json \<Rightarrow> string \<Rightarrow> json option" where
  "json_get v key = (case as_object v of None \<Rightarrow> None | Some m \<Rightarrow> map_of m key)"

definition json_index :: "json \<Rightarrow> string \<Rightarrow> json" where
  "json_index v key = (case json_get v key of None \<Rightarrow> JNull | Some x \<Rightarrow> x)"

text \<open>\<open>PartialEq\<close>: structural, with the comparison of \<open>f64\<close> on floats.\<close>

fun number_eq :: "number \<Rightarrow> number \<Rightarrow> bool" where
  "number_eq (PosInt a) (PosInt b) \<longleftrightarrow> a = b"
| "number_eq (NegInt a) (NegInt b) \<longleftrightarrow> a = b"
| "number_eq (Float a) (Float b) \<longleftrightarrow> f64_eq a b"
| "number_eq _ _ \<longleftrightarrow> False"

fun json_eq :: "json \<Rightarrow> json \<Rightarrow> bool"
and json_eqs :: "json list \<Rightarrow> json list \<Rightarrow> bool"
and members_eq :: "(string \<times> json) list \<Rightarrow> (string \<times> json) list \<Rightarrow> bool" where
  "json_eq JNull JNull \<longleftrightarrow> True"
| "json_eq (JBool a) (JBool b) \<longleftrightarrow> a = b"
| "json_eq (JNumber a) (JNumber b) \<longleftrightarrow> number_eq a b"
| "json_eq (JString a) (JString b) \<longleftrightarrow> a = b"
| "json_eq (JArray a) (JArray b) \<longleftrightarrow> json_eqs a b"
| "json_eq (JObject a) (JObject b) \<longleftrightarrow> members_eq a b"
| "json_eq _ _ \<longleftrightarrow> False"
| "json_eqs [] [] \<longleftrightarrow> True"
| "json_eqs (x # xs) (y # ys) \<longleftrightarrow> json_eq x y \<and> json_eqs xs ys"
| "json_eqs _ _ \<longleftrightarrow> False"
| "members_eq [] [] \<longleftrightarrow> True"
| "members_eq ((k, x) # xs) ((l, y) # ys) \<longleftrightarrow> k = l \<and> json_eq x y \<and> members_eq xs ys"
| "members_eq _ _ \<longleftrightarrow> False"

section \<open>Checked unsigned arithmetic\<close>

definition checked_add_u64 :: "u64 \<Rightarrow> u64 \<Rightarrow> u64 option" where
  "checked_add_u64 a b = (if uint a + uint b < 2 ^ 64 then Some (a + b) else None)"

definition checked_sub_u64 :: "u64 \<Rightarrow> u64 \<Rightarrow> u64 option" where
  "checked_sub_u64 a b = (if b \<le> a then Some (a - b) else None)"

definition saturating_add_u64 :: "u64 \<Rightarrow> u64 \<Rightarrow> u64" where
  "saturating_add_u64 a b = (if uint a + uint b < 2 ^ 64 then a + b else - 1)"

lemma checked_add_u64_Some:
  "checked_add_u64 a b = Some c \<longleftrightarrow> uint c = uint a + uint b"
proof
  assume "checked_add_u64 a b = Some c"
  then show "uint c = uint a + uint b"
    by (auto simp: checked_add_u64_def uint_word_ariths split: if_splits)
next
  assume c: "uint c = uint a + uint b"
  moreover have "uint c < 2 ^ 64" using uint_lt2p [of c] by simp
  ultimately have lt: "uint a + uint b < 2 ^ 64" by simp
  then have "uint (a + b) = uint c" using c by (simp add: uint_word_ariths)
  then show "checked_add_u64 a b = Some c"
    using lt by (simp add: checked_add_u64_def word_uint_eq_iff)
qed

lemma checked_add_u64_None: "checked_add_u64 a b = None \<longleftrightarrow> 2 ^ 64 \<le> uint a + uint b"
  by (auto simp: checked_add_u64_def)

lemma checked_add_u64_commute: "checked_add_u64 a b = checked_add_u64 b a"
  by (simp add: checked_add_u64_def add.commute)

lemma checked_sub_u64_Some:
  "checked_sub_u64 a b = Some c \<longleftrightarrow> uint a = uint b + uint c"
proof -
  have "uint (a - b) = uint a - uint b" if "b \<le> a"
    using that by (simp add: uint_sub_lem [THEN iffD1] word_le_def)
  moreover have "b \<le> a" if "uint a = uint b + uint c"
    using that by (simp add: word_le_def)
  ultimately show ?thesis
    by (auto simp: checked_sub_u64_def intro: word_uint_eqI split: if_splits)
qed

lemma checked_sub_u64_None: "checked_sub_u64 a b = None \<longleftrightarrow> uint a < uint b"
  by (auto simp: checked_sub_u64_def word_le_def)

lemma uint_saturating_add_u64: "uint (saturating_add_u64 a b) = min (uint a + uint b) (2 ^ 64 - 1)"
  using uint_lt2p [of a] uint_lt2p [of b] uint_ge_0 [of a] uint_ge_0 [of b]
  by (auto simp: saturating_add_u64_def uint_word_ariths unsigned_minus_1_eq_mask mask_eq_exp_minus_1)

end
