(* ===== verification/Continuity.thy ===== *)
theory Continuity
  imports RelationshipCapture StoreRows Json
begin

text \<open>
  Fork, resume and continuation relationships (\<open>continuity.rs\<close> and \<open>continuity/\<close>): the
  evidence rows of transcripts, the resolution of one row into edges, and the passes that
  reconcile the rows still pending. A store is its three tables. The column
  \<open>explicit_targets_json\<close> holds the value its text parses to, \<open>None\<close> for text that is no JSON;
  a \<open>BTreeMap\<close> is its list of entries in key order. The clock is an argument: one reading per
  call. Continuity runs outside the armed pass of \<open>RelationshipCapture\<close>.
\<close>

section \<open>Evidence\<close>

definition REF_CONTINUED_FROM :: string where "REF_CONTINUED_FROM = ''continuedFromSessionId''"
definition REF_FORK_SESSION :: string where "REF_FORK_SESSION = ''forkSessionId''"
definition REF_RESUME_MARKER :: string where "REF_RESUME_MARKER = ''resume-marker''"
definition REF_SHARED_SESSION_ID :: string where "REF_SHARED_SESSION_ID = ''sharedSessionId''"
definition REF_SOURCE_SESSION :: string where "REF_SOURCE_SESSION = ''sourceSessionId''"

record transcript_evidence =
  ev_source :: string
  ev_locator :: string
  ev_session_id :: string
  ev_file_session_id :: "string option"
  ev_first_parent_uuid :: "string option"
  ev_first_ts_ms :: "int option"
  ev_in_log_session_ids :: "string list"
  ev_has_resume_marker :: bool
  ev_resume_target :: "string option"
  ev_continuation_targets :: "string list"
  ev_fork_targets :: "string list"
  ev_fork_refs :: "(string \<times> string) list"
  ev_continuation_ts_ms :: "(string \<times> int) list"
  ev_fork_ts_ms :: "(string \<times> int) list"
  ev_source_session_id :: "string option"
  ev_source_version :: "string option"

text \<open>A target that names a session other than the transcript's own.\<close>

definition explicit_origin :: "transcript_evidence \<Rightarrow> string option" where
  "explicit_origin ev =
     (case ev_source_session_id ev of
        None \<Rightarrow> None
      | Some s \<Rightarrow> if s \<noteq> '''' \<and> s \<noteq> ev_session_id ev then Some s else None)"

definition evidence_origin :: "transcript_evidence \<Rightarrow> string option" where
  "evidence_origin ev =
     (case explicit_origin ev of
        Some s \<Rightarrow> Some s
      | None \<Rightarrow>
          (case ev_file_session_id ev of
             None \<Rightarrow> None
           | Some f \<Rightarrow> if f \<noteq> ev_session_id ev then Some (ev_session_id ev) else None))"

definition branch_label :: "transcript_evidence \<Rightarrow> string" where
  "branch_label ev = (case ev_file_session_id ev of Some f \<Rightarrow> f | None \<Rightarrow> ev_locator ev)"

section \<open>The columns of a row\<close>

text \<open>\<open>Number::from(i64)\<close> and \<open>Value::as_i64\<close>.\<close>

definition number_of_i64 :: "int \<Rightarrow> number" where
  "number_of_i64 i = (if 0 \<le> i then PosInt (word_of_int i) else NegInt i)"

fun as_i64 :: "json \<Rightarrow> int option" where
  "as_i64 (JNumber (PosInt n)) = (if uint n < 2 ^ 63 then Some (uint n) else None)"
| "as_i64 (JNumber (NegInt i)) = Some i"
| "as_i64 _ = None"

definition explicit_targets_json :: "transcript_evidence \<Rightarrow> json" where
  "explicit_targets_json ev = JObject
     [(''continuation'', JArray (map JString (ev_continuation_targets ev))),
      (''continuation_ts_ms'',
        JObject (map (\<lambda>(t, ms). (t, JNumber (number_of_i64 ms))) (ev_continuation_ts_ms ev))),
      (''fork'', JArray (map JString (ev_fork_targets ev))),
      (''fork_refs'', JObject (map (\<lambda>(t, f). (t, JString f)) (ev_fork_refs ev))),
      (''fork_ts_ms'',
        JObject (map (\<lambda>(t, ms). (t, JNumber (number_of_i64 ms))) (ev_fork_ts_ms ev))),
      (''source'', case ev_source_session_id ev of None \<Rightarrow> JNull | Some s \<Rightarrow> JString s)]"

definition string_array :: "json \<Rightarrow> string \<Rightarrow> string list" where
  "string_array v key =
     (case json_get v key of
        Some (JArray items) \<Rightarrow> List.map_filter as_str items
      | _ \<Rightarrow> [])"

definition ts_map :: "json \<Rightarrow> string \<Rightarrow> (string \<times> int) list" where
  "ts_map v key =
     (case Option.bind (json_get v key) as_object of
        None \<Rightarrow> []
      | Some entries \<Rightarrow> List.map_filter (\<lambda>(t, ms). map_option (Pair t) (as_i64 ms)) entries)"

record evidence_row =
  v_source :: string
  v_locator :: string
  v_session_id :: string
  v_file_session_id :: "string option"
  v_first_parent_uuid :: "string option"
  v_first_ts_ms :: "int option"
  v_in_log_session_ids :: "string list"
  v_has_resume_marker :: bool
  v_resume_target :: "string option"
  v_explicit_targets :: "json option"
  v_source_version :: "string option"
  v_origin_session_id :: "string option"
  v_pending_reason :: "string option"
  v_updated_ms :: int

definition map_evidence :: "evidence_row \<Rightarrow> transcript_evidence" where
  "map_evidence row =
     (let targets = (case v_explicit_targets row of Some t \<Rightarrow> t | None \<Rightarrow> JObject [])
      in \<lparr>ev_source = v_source row, ev_locator = v_locator row, ev_session_id = v_session_id row,
          ev_file_session_id = v_file_session_id row,
          ev_first_parent_uuid = v_first_parent_uuid row, ev_first_ts_ms = v_first_ts_ms row,
          ev_in_log_session_ids = v_in_log_session_ids row,
          ev_has_resume_marker = v_has_resume_marker row, ev_resume_target = v_resume_target row,
          ev_continuation_targets = string_array targets ''continuation'',
          ev_fork_targets = string_array targets ''fork'',
          ev_fork_refs = (case Option.bind (json_get targets ''fork_refs'') as_object of
             None \<Rightarrow> []
           | Some refs \<Rightarrow> List.map_filter (\<lambda>(t, f). map_option (Pair t) (as_str f)) refs),
          ev_continuation_ts_ms = ts_map targets ''continuation_ts_ms'',
          ev_fork_ts_ms = ts_map targets ''fork_ts_ms'',
          ev_source_session_id = Option.bind (json_get targets ''source'') as_str,
          ev_source_version = v_source_version row\<rparr>)"

section \<open>The store\<close>

record stored_event = session_event + e_revision :: nat

record continuity_db =
  db_relationships :: "relationship_row list"
  db_evidence :: "evidence_row list"
  db_events :: "stored_event list"

definition UNRECONCILED :: string where "UNRECONCILED = ''unreconciled''"

definition evidence_at :: "string \<Rightarrow> string \<Rightarrow> evidence_row \<Rightarrow> bool" where
  "evidence_at source locator row \<longleftrightarrow> v_source row = source \<and> v_locator row = locator"

definition stored_identity ::
  "continuity_db \<Rightarrow> string \<Rightarrow> string \<Rightarrow> (string \<times> string option) option" where
  "stored_identity db source locator =
     map_option (\<lambda>row. (v_session_id row, v_origin_session_id row))
       (find (evidence_at source locator) (db_evidence db))"

definition load_pending :: "continuity_db \<Rightarrow> string \<Rightarrow> transcript_evidence list" where
  "load_pending db source =
     map map_evidence (sort_key v_locator
       (filter (\<lambda>row. v_source row = source \<and> v_pending_reason row \<noteq> None) (db_evidence db)))"

definition fork_group :: "continuity_db \<Rightarrow> string \<Rightarrow> string \<Rightarrow> transcript_evidence list" where
  "fork_group db source origin =
     map map_evidence (sort_key v_locator
       (filter (\<lambda>row. v_source row = source \<and> v_origin_session_id row = Some origin)
          (db_evidence db)))"

text \<open>\<open>ORDER BY session_id ASC LIMIT 1\<close> over the rows that match.\<close>

definition lowest_session :: "(stored_event \<Rightarrow> bool) \<Rightarrow> stored_event list \<Rightarrow> string option" where
  "lowest_session P events =
     (case sort (map e_session_id (filter P events)) of [] \<Rightarrow> None | s # _ \<Rightarrow> Some s)"

definition by_message :: "string \<Rightarrow> string \<Rightarrow> stored_event \<Rightarrow> bool" where
  "by_message source uuid e \<longleftrightarrow> e_source e = source \<and> e_message_id e = Some uuid"

text \<open>The predicate of the partial index: a Claude block-0 uid that does not extend the row's own
  message id.\<close>

definition claude_uid_unmatched :: "stored_event \<Rightarrow> bool" where
  "claude_uid_unmatched e \<longleftrightarrow> e_source e = ''claude''
     \<and> drop (length (e_event_uid e) - 2) (e_event_uid e) = '':0''
     \<and> (case e_message_id e of None \<Rightarrow> True | Some m \<Rightarrow> e_event_uid e \<noteq> m @ '':0'')"

definition by_uid :: "string \<Rightarrow> string \<Rightarrow> stored_event \<Rightarrow> bool" where
  "by_uid source uuid e \<longleftrightarrow>
     (if source = ''claude'' then claude_uid_unmatched e else e_source e = source)
     \<and> e_event_uid e = uuid @ '':0''"

definition session_holding_record :: "continuity_db \<Rightarrow> string \<Rightarrow> string \<Rightarrow> string option" where
  "session_holding_record db source uuid =
     (case (lowest_session (by_message source uuid) (db_events db),
            lowest_session (by_uid source uuid) (db_events db)) of
        (Some m, Some u) \<Rightarrow> Some (min m u)
      | (Some m, None) \<Rightarrow> Some m
      | (None, u) \<Rightarrow> u)"

definition session_has_events :: "continuity_db \<Rightarrow> string \<Rightarrow> string \<Rightarrow> bool" where
  "session_has_events db source session \<longleftrightarrow>
     list_ex (\<lambda>e. e_source e = source \<and> e_session_id e = session) (db_events db)"

section \<open>Edges\<close>

record continuity_edge =
  g_relationship :: string
  g_parent_session_id :: string
  g_child_session_id :: "string option"
  g_evidence_ref :: string
  g_origin_session_id :: "string option"
  g_spawned_at_ms :: "int option"

definition continuity_evidence_kind :: "string \<Rightarrow> string" where
  "continuity_evidence_kind source =
     (if source = ''codex'' then ''codex_session_meta_continuity''
      else ''claude_transcript_continuity'')"

definition edge_uid :: "transcript_evidence \<Rightarrow> continuity_edge \<Rightarrow> string" where
  "edge_uid ev edge = g_relationship edge @ '':''
     @ (case g_child_session_id edge of Some child \<Rightarrow> child | None \<Rightarrow> branch_label ev)"

definition edge_observed :: "continuity_db \<Rightarrow> transcript_evidence \<Rightarrow> continuity_edge \<Rightarrow> observed_relationship" where
  "edge_observed db ev edge = default_observed
     \<lparr>o_source := ev_source ev, o_parent_session_id := g_parent_session_id edge,
      o_child_session_id := g_child_session_id edge, o_relationship := g_relationship edge,
      o_evidence_kind := continuity_evidence_kind (ev_source ev),
      o_evidence_locator := Some (ev_locator ev), o_evidence_ref := Some (g_evidence_ref edge),
      o_child_has_events := (case g_child_session_id edge of
         Some child \<Rightarrow> session_has_events db (ev_source ev) child
       | None \<Rightarrow> False),
      o_spawned_at_ms := g_spawned_at_ms edge, o_origin_session_id := g_origin_session_id edge,
      o_relationship_uid := Some (edge_uid ev edge)\<rparr>"

definition write_edge ::
  "int \<Rightarrow> transcript_evidence \<Rightarrow> continuity_edge \<Rightarrow> continuity_db
    \<Rightarrow> continuity_db \<times> (string \<times> string)" where
  "write_edge now ev edge db =
     (db\<lparr>db_relationships := record_relationship now (edge_observed db ev edge) (db_relationships db)\<rparr>,
      (g_parent_session_id edge, edge_uid ev edge))"

text \<open>\<open>written.push(write_edge(\<dots>)?)\<close>.\<close>

type_synonym written = "(string \<times> string) list"

definition push_edge ::
  "int \<Rightarrow> transcript_evidence \<Rightarrow> continuity_edge \<Rightarrow> continuity_db \<times> written \<Rightarrow> continuity_db \<times> written" where
  "push_edge now ev edge st =
     (let (db, key) = write_edge now ev edge (fst st) in (db, snd st @ [key]))"

section \<open>The resolution steps\<close>

definition named_at :: "(string \<times> int) list \<Rightarrow> string \<Rightarrow> transcript_evidence \<Rightarrow> int option" where
  "named_at named target ev =
     (case map_of named target of Some ms \<Rightarrow> Some ms | None \<Rightarrow> ev_first_ts_ms ev)"

text \<open>The edges the steps write, by the evidence they rest on.\<close>

definition continuation_edge :: "transcript_evidence \<Rightarrow> string \<Rightarrow> continuity_edge" where
  "continuation_edge ev target =
     \<lparr>g_relationship = RELATIONSHIP_CONTINUATION, g_parent_session_id = target,
      g_child_session_id = Some (ev_session_id ev), g_evidence_ref = REF_CONTINUED_FROM,
      g_origin_session_id = ev_source_session_id ev,
      g_spawned_at_ms = named_at (ev_continuation_ts_ms ev) target ev\<rparr>"

definition fork_edge :: "transcript_evidence \<Rightarrow> string \<Rightarrow> continuity_edge" where
  "fork_edge ev target =
     \<lparr>g_relationship = RELATIONSHIP_FORK, g_parent_session_id = target,
      g_child_session_id = Some (ev_session_id ev),
      g_evidence_ref =
        (case map_of (ev_fork_refs ev) target of Some f \<Rightarrow> f | None \<Rightarrow> REF_FORK_SESSION),
      g_origin_session_id =
        Some (case ev_source_session_id ev of Some s \<Rightarrow> s | None \<Rightarrow> target),
      g_spawned_at_ms = named_at (ev_fork_ts_ms ev) target ev\<rparr>"

definition source_edge :: "transcript_evidence \<Rightarrow> string \<Rightarrow> continuity_edge" where
  "source_edge ev origin =
     \<lparr>g_relationship = RELATIONSHIP_FORK, g_parent_session_id = origin,
      g_child_session_id = Some (ev_session_id ev), g_evidence_ref = REF_SOURCE_SESSION,
      g_origin_session_id = Some origin, g_spawned_at_ms = ev_first_ts_ms ev\<rparr>"

definition resume_edge :: "transcript_evidence \<Rightarrow> string \<Rightarrow> continuity_edge" where
  "resume_edge ev target =
     \<lparr>g_relationship = RELATIONSHIP_RESUME, g_parent_session_id = target,
      g_child_session_id = Some (ev_session_id ev), g_evidence_ref = REF_RESUME_MARKER,
      g_origin_session_id = (case explicit_origin ev of Some s \<Rightarrow> Some s | None \<Rightarrow> Some target),
      g_spawned_at_ms = ev_first_ts_ms ev\<rparr>"

definition parent_edge :: "transcript_evidence \<Rightarrow> string \<Rightarrow> string \<Rightarrow> continuity_edge" where
  "parent_edge ev uuid parent =
     \<lparr>g_relationship = RELATIONSHIP_CONTINUATION, g_parent_session_id = parent,
      g_child_session_id = Some (ev_session_id ev), g_evidence_ref = uuid,
      g_origin_session_id = ev_source_session_id ev, g_spawned_at_ms = ev_first_ts_ms ev\<rparr>"

definition resolve_continuation_target ::
  "int \<Rightarrow> transcript_evidence \<Rightarrow> string \<Rightarrow> continuity_db \<times> written \<Rightarrow> continuity_db \<times> written" where
  "resolve_continuation_target now ev target st =
     (if target = '''' \<or> target = ev_session_id ev then st
      else push_edge now ev (continuation_edge ev target) st)"

definition resolve_fork_target ::
  "int \<Rightarrow> transcript_evidence \<Rightarrow> string \<Rightarrow> continuity_db \<times> written \<Rightarrow> continuity_db \<times> written" where
  "resolve_fork_target now ev target st =
     (if target = '''' \<or> target = ev_session_id ev then st
      else push_edge now ev (fork_edge ev target) st)"

definition resolve_explicit ::
  "int \<Rightarrow> transcript_evidence \<Rightarrow> continuity_db \<times> written \<Rightarrow> continuity_db \<times> written" where
  "resolve_explicit now ev st =
     fold (resolve_fork_target now ev) (ev_fork_targets ev)
       (fold (resolve_continuation_target now ev) (ev_continuation_targets ev) st)"

definition resolve_resume ::
  "int \<Rightarrow> transcript_evidence \<Rightarrow> continuity_db \<times> written \<Rightarrow> continuity_db \<times> written" where
  "resolve_resume now ev st =
     (if \<not> ev_has_resume_marker ev then st
      else case ev_resume_target ev of
        None \<Rightarrow> st
      | Some target \<Rightarrow>
          if target = '''' then st
          else if target = ev_session_id ev then st
          else push_edge now ev (resume_edge ev target) st)"

definition parent_reason :: "string \<Rightarrow> string" where
  "parent_reason uuid = ''parent record '' @ uuid @ '' is not indexed in any session yet''"

definition resolve_cross_file_parent ::
  "int \<Rightarrow> transcript_evidence \<Rightarrow> (continuity_db \<times> written) \<times> string list
    \<Rightarrow> (continuity_db \<times> written) \<times> string list" where
  "resolve_cross_file_parent now ev st =
     (let ((db, written), reasons) = st in
      if written \<noteq> [] then st
      else case ev_first_parent_uuid ev of
        None \<Rightarrow> st
      | Some uuid \<Rightarrow>
          if uuid = '''' then st
          else case session_holding_record db (ev_source ev) uuid of
            None \<Rightarrow> ((db, written), reasons @ [parent_reason uuid])
          | Some parent \<Rightarrow>
              if parent = ev_session_id ev then st
              else (push_edge now ev (parent_edge ev uuid parent) (db, written), reasons))"

definition resolve_explicit_source ::
  "int \<Rightarrow> transcript_evidence \<Rightarrow> continuity_db \<times> written \<Rightarrow> continuity_db \<times> written" where
  "resolve_explicit_source now ev st =
     (if snd st \<noteq> [] then st
      else case explicit_origin ev of
        None \<Rightarrow> st
      | Some origin \<Rightarrow> push_edge now ev (source_edge ev origin) st)"

definition names_other_session :: "transcript_evidence \<Rightarrow> string \<Rightarrow> bool" where
  "names_other_session ev target \<longleftrightarrow> target \<noteq> '''' \<and> target \<noteq> ev_session_id ev"

definition has_stronger_lineage :: "continuity_db \<Rightarrow> transcript_evidence \<Rightarrow> bool" where
  "has_stronger_lineage db ev \<longleftrightarrow>
     (if list_ex (names_other_session ev) (ev_continuation_targets ev @ ev_fork_targets ev)
        \<or> (case ev_source_session_id ev of None \<Rightarrow> False | Some s \<Rightarrow> names_other_session ev s)
        \<or> ev_has_resume_marker ev
          \<and> (case ev_resume_target ev of None \<Rightarrow> False | Some t \<Rightarrow> names_other_session ev t)
      then True
      else case ev_first_parent_uuid ev of
        None \<Rightarrow> False
      | Some uuid \<Rightarrow>
          (case session_holding_record db (ev_source ev) uuid of
             None \<Rightarrow> False
           | Some session \<Rightarrow> session \<noteq> ev_session_id ev))"

definition lonely_reason :: "string \<Rightarrow> string" where
  "lonely_reason origin =
     ''only one transcript claims origin '' @ origin @ ''; a fork needs a sibling''"

definition shared_edge :: "string \<Rightarrow> transcript_evidence \<Rightarrow> continuity_edge" where
  "shared_edge origin member =
     \<lparr>g_relationship = RELATIONSHIP_FORK, g_parent_session_id = origin,
      g_child_session_id =
        (if ev_session_id member \<noteq> origin then Some (ev_session_id member) else None),
      g_evidence_ref = REF_SHARED_SESSION_ID, g_origin_session_id = Some origin,
      g_spawned_at_ms = ev_first_ts_ms member\<rparr>"

definition resolve_member ::
  "int \<Rightarrow> transcript_evidence \<Rightarrow> bool \<Rightarrow> string \<Rightarrow> transcript_evidence
    \<Rightarrow> continuity_db \<times> written \<Rightarrow> continuity_db \<times> written" where
  "resolve_member now ev has_lineage origin member st =
     (if ev_locator member = ev_locator ev \<and> has_lineage \<or> has_stronger_lineage (fst st) member then st
      else let (db, key) = write_edge now member (shared_edge origin member) (fst st)
        in (db, if ev_locator member = ev_locator ev then snd st @ [key] else snd st))"

definition resolve_fork_group ::
  "int \<Rightarrow> transcript_evidence \<Rightarrow> bool \<Rightarrow> (continuity_db \<times> written) \<times> string list
    \<Rightarrow> (continuity_db \<times> written) \<times> string list" where
  "resolve_fork_group now ev has_lineage st =
     (let ((db, written), reasons) = st in
      case evidence_origin ev of
        None \<Rightarrow> st
      | Some origin \<Rightarrow>
          if ev_fork_targets ev \<noteq> [] \<or> explicit_origin ev \<noteq> None then st
          else let group = fork_group db (ev_source ev) origin
            in if card (branch_label ` set group) < 2
               then ((db, written), if has_lineage then reasons else reasons @ [lonely_reason origin])
               else (fold (resolve_member now ev has_lineage origin) group (db, written), reasons))"

section \<open>Retraction and reopening\<close>

definition retracts :: "string \<Rightarrow> string \<Rightarrow> written \<Rightarrow> relationship_row \<Rightarrow> bool" where
  "retracts source locator keep r \<longleftrightarrow> r_source r = source \<and> evidence_locator r = Some locator
     \<and> relationship r \<in> set CONTINUITY_RELATIONSHIPS
     \<and> (parent_session_id r, relationship_uid r) \<notin> set keep"

definition retract_edges ::
  "string \<Rightarrow> string \<Rightarrow> written \<Rightarrow> continuity_db \<Rightarrow> continuity_db \<times> nat" where
  "retract_edges source locator keep db =
     (db\<lparr>db_relationships := filter (\<lambda>r. \<not> retracts source locator keep r) (db_relationships db)\<rparr>,
      length (filter (retracts source locator keep) (db_relationships db)))"

definition reopen_where :: "(evidence_row \<Rightarrow> bool) \<Rightarrow> continuity_db \<Rightarrow> continuity_db \<times> nat" where
  "reopen_where P db =
     (db\<lparr>db_evidence := map (\<lambda>row. if P row \<and> v_pending_reason row = None
           then row\<lparr>v_pending_reason := Some UNRECONCILED\<rparr> else row) (db_evidence db)\<rparr>,
      length (filter (\<lambda>row. P row \<and> v_pending_reason row = None) (db_evidence db)))"

definition dependent_locators :: "continuity_db \<Rightarrow> string \<Rightarrow> string list \<Rightarrow> string list" where
  "dependent_locators db source sessions =
     List.map_filter (\<lambda>r. if r_source r = source \<and> parent_session_id r \<in> set sessions
        \<and> relationship r \<in> set CONTINUITY_RELATIONSHIPS then evidence_locator r else None)
       (db_relationships db)"

definition reopen_dependents ::
  "string \<Rightarrow> (string \<times> string option) option list \<Rightarrow> continuity_db \<Rightarrow> continuity_db \<times> nat" where
  "reopen_dependents source identities db =
     (let known = List.map_filter id identities;
          sessions = map fst known;
          origins = List.map_filter snd known;
          (db1, changed) = reopen_where (\<lambda>row. v_source row = source
             \<and> (\<exists>origin \<in> set origins. v_origin_session_id row = Some origin)) db
      in fold (\<lambda>locator (db', n). let (db'', k) = reopen_where (evidence_at source locator) db'
               in (db'', n + k))
           (dependent_locators db1 source sessions) (db1, changed))"

section \<open>Recording and clearing a transcript\<close>

definition row_of_evidence :: "int \<Rightarrow> transcript_evidence \<Rightarrow> evidence_row" where
  "row_of_evidence now ev =
     \<lparr>v_source = ev_source ev, v_locator = ev_locator ev, v_session_id = ev_session_id ev,
      v_file_session_id = ev_file_session_id ev, v_first_parent_uuid = ev_first_parent_uuid ev,
      v_first_ts_ms = ev_first_ts_ms ev, v_in_log_session_ids = ev_in_log_session_ids ev,
      v_has_resume_marker = ev_has_resume_marker ev, v_resume_target = ev_resume_target ev,
      v_explicit_targets = Some (explicit_targets_json ev),
      v_source_version = ev_source_version ev, v_origin_session_id = evidence_origin ev,
      v_pending_reason = Some UNRECONCILED, v_updated_ms = now\<rparr>"

text \<open>The upsert assigns every column outside the key, so the conflicting row is replaced.\<close>

fun evidence_upsert :: "evidence_row \<Rightarrow> evidence_row list \<Rightarrow> evidence_row list" where
  "evidence_upsert new [] = [new]"
| "evidence_upsert new (row # rows) =
     (if evidence_at (v_source new) (v_locator new) row then new # rows
      else row # evidence_upsert new rows)"

definition record_evidence :: "int \<Rightarrow> transcript_evidence \<Rightarrow> continuity_db \<Rightarrow> continuity_db" where
  "record_evidence now ev db =
     (let previous = stored_identity db (ev_source ev) (ev_locator ev);
          db1 = db\<lparr>db_evidence := evidence_upsert (row_of_evidence now ev) (db_evidence db)\<rparr>
      in fst (reopen_dependents (ev_source ev)
           [previous, Some (ev_session_id ev, evidence_origin ev)] db1))"

definition clear_evidence :: "string \<Rightarrow> string \<Rightarrow> continuity_db \<Rightarrow> continuity_db" where
  "clear_evidence source locator db =
     (let previous = stored_identity db source locator;
          db1 = fst (retract_edges source locator [] db);
          db2 = db1\<lparr>db_evidence := filter (\<lambda>row. \<not> evidence_at source locator row) (db_evidence db1)\<rparr>
      in fst (reopen_dependents source [previous] db2))"

definition capture ::
  "int \<Rightarrow> string \<Rightarrow> string \<Rightarrow> transcript_evidence option \<Rightarrow> continuity_db \<Rightarrow> continuity_db" where
  "capture now source locator evidence db =
     (case evidence of
        Some ev \<Rightarrow> record_evidence now ev db
      | None \<Rightarrow> clear_evidence source locator db)"

section \<open>Reconciliation\<close>

record continuity_reconciliation =
  considered :: nat
  edges_written :: nat
  retracted :: nat
  resolved :: nat
  left_pending :: nat

text \<open>One row of a pass: its edges, the retraction of what it no longer establishes, and what it
  still waits for.\<close>

definition resolve_row ::
  "int \<Rightarrow> transcript_evidence \<Rightarrow> continuity_db \<Rightarrow> (continuity_db \<times> written) \<times> string list" where
  "resolve_row now ev db =
     (let st1 = resolve_resume now ev (resolve_explicit now ev (db, []));
          (st2, reasons) = resolve_cross_file_parent now ev (st1, []);
          st3 = resolve_explicit_source now ev st2;
          lineage = length (snd st3)
      in resolve_fork_group now ev (0 < lineage) (st3, reasons))"

definition set_pending ::
  "int \<Rightarrow> string \<Rightarrow> string \<Rightarrow> string option \<Rightarrow> continuity_db \<Rightarrow> continuity_db" where
  "set_pending now source locator reason db =
     db\<lparr>db_evidence := map (\<lambda>row. if evidence_at source locator row
          then row\<lparr>v_pending_reason := reason, v_updated_ms := now\<rparr> else row) (db_evidence db)\<rparr>"

definition reconcile_row ::
  "int \<Rightarrow> transcript_evidence \<Rightarrow> continuity_db \<times> continuity_reconciliation
    \<Rightarrow> continuity_db \<times> continuity_reconciliation" where
  "reconcile_row now ev st =
     (let (db, report) = st;
          ((db1, written), reasons) = resolve_row now ev db;
          (db2, gone) = retract_edges (ev_source ev) (ev_locator ev) written db1;
          reason = (if reasons = [] then None else Some (join_with ''; '' reasons));
          report' = report\<lparr>edges_written := edges_written report + length written,
             retracted := retracted report + gone\<rparr>;
          report'' = (if reason = None then report'\<lparr>resolved := resolved report' + 1\<rparr>
             else report'\<lparr>left_pending := left_pending report' + 1\<rparr>)
      in (set_pending now (ev_source ev) (ev_locator ev) reason db2, report''))"

text \<open>The loop over the rows; \<open>check_capture_cancelled\<close> is asked before each, and a cancelled pass
  returns its error with the rows before it done.\<close>

fun reconcile_loop ::
  "int \<Rightarrow> (transcript_evidence \<Rightarrow> bool) \<Rightarrow> transcript_evidence list
    \<Rightarrow> continuity_db \<times> continuity_reconciliation
    \<Rightarrow> continuity_db \<times> continuity_reconciliation option" where
  "reconcile_loop now cancelled [] (db, report) = (db, Some report)"
| "reconcile_loop now cancelled (ev # evs) (db, report) =
     (if cancelled ev then (db, None)
      else reconcile_loop now cancelled evs (reconcile_row now ev (db, report)))"

definition reconcile_rows ::
  "int \<Rightarrow> (transcript_evidence \<Rightarrow> bool) \<Rightarrow> transcript_evidence list \<Rightarrow> continuity_db
    \<Rightarrow> continuity_db \<times> continuity_reconciliation option" where
  "reconcile_rows now cancelled rows db =
     reconcile_loop now cancelled rows
       (db, \<lparr>considered = length rows, edges_written = 0, retracted = 0, resolved = 0, left_pending = 0\<rparr>)"

definition reconcile ::
  "int \<Rightarrow> (transcript_evidence \<Rightarrow> bool) \<Rightarrow> string \<Rightarrow> continuity_db
    \<Rightarrow> continuity_db \<times> continuity_reconciliation option" where
  "reconcile now cancelled source db = reconcile_rows now cancelled (load_pending db source) db"

section \<open>The scoped pass after one capture\<close>

record capture_scope =
  cs_previous :: "(string \<times> string option) option"
  cs_revision :: nat

definition scope_begin :: "nat \<Rightarrow> string \<Rightarrow> string \<Rightarrow> continuity_db \<Rightarrow> capture_scope" where
  "scope_begin head source locator db =
     \<lparr>cs_previous = stored_identity db source locator, cs_revision = head\<rparr>"

definition pending_on :: "continuity_db \<Rightarrow> string \<Rightarrow> string \<Rightarrow> string set" where
  "pending_on db source uuid =
     set (map v_locator (filter (\<lambda>c. v_source c = source \<and> v_first_parent_uuid c = Some uuid
        \<and> v_pending_reason c \<noteq> None) (db_evidence db)))"

text \<open>\<open>AFFECTED_SQL\<close>, arm by arm; \<open>UNION\<close> makes it a set.\<close>

definition affected_locators ::
  "continuity_db \<Rightarrow> string \<Rightarrow> string \<Rightarrow> string list \<Rightarrow> string list \<Rightarrow> nat \<Rightarrow> string set" where
  "affected_locators db source locator origins sessions revision =
     set (map v_locator (filter (evidence_at source locator) (db_evidence db)))
     \<union> set (map v_locator (filter (\<lambda>c. v_source c = source
          \<and> (\<exists>origin \<in> set origins. v_origin_session_id c = Some origin)) (db_evidence db)))
     \<union> set (dependent_locators db source sessions)
     \<union> (\<Union>e \<in> set (filter (\<lambda>e. e_source e = source \<and> revision < e_revision e) (db_events db)).
          case e_message_id e of None \<Rightarrow> {} | Some m \<Rightarrow> pending_on db source m)
     \<union> (\<Union>e \<in> set (filter (\<lambda>e. source = ''claude'' \<and> claude_uid_unmatched e \<and> revision < e_revision e)
            (db_events db)).
          pending_on db source (take (length (e_event_uid e) - 2) (e_event_uid e)))"

text \<open>The rows of the affected locators that are pending, in the order the query returned the
  locators, which SQL leaves open: \<open>order\<close> lists the set.\<close>

definition reconcile_captured ::
  "int \<Rightarrow> (transcript_evidence \<Rightarrow> bool) \<Rightarrow> (string set \<Rightarrow> string list) \<Rightarrow> string \<Rightarrow> string
    \<Rightarrow> capture_scope \<Rightarrow> continuity_db \<Rightarrow> continuity_db \<times> continuity_reconciliation option" where
  "reconcile_captured now cancelled order source locator captured db =
     (let current = stored_identity db source locator;
          identities = List.map_filter id [cs_previous captured, current];
          sessions = map fst identities;
          origins = List.map_filter snd identities;
          keys = order (affected_locators db source locator origins sessions (cs_revision captured));
          rows = List.map_filter (\<lambda>key. map_option map_evidence
             (find (\<lambda>c. evidence_at source key c \<and> v_pending_reason c \<noteq> None) (db_evidence db))) keys
      in reconcile_rows now cancelled rows db)"

section \<open>Deleting a session\<close>

text \<open>The steps of the trigger \<open>delete_session_hydration_state\<close> on evidence and edges: first every
  transcript whose edge touches the session is reopened, then the edges go.\<close>

definition touches :: "string \<Rightarrow> string \<Rightarrow> relationship_row \<Rightarrow> bool" where
  "touches source session r \<longleftrightarrow> r_source r = source
     \<and> (parent_session_id r = session \<or> child_session_id r = Some session)"

definition delete_session_edges :: "string \<Rightarrow> string \<Rightarrow> continuity_db \<Rightarrow> continuity_db" where
  "delete_session_edges source session db =
     (let cited = List.map_filter (\<lambda>r. if touches source session r
            \<and> relationship r \<in> set CONTINUITY_RELATIONSHIPS then evidence_locator r else None)
          (db_relationships db)
      in db\<lparr>db_evidence := map (\<lambda>row. if v_source row = source \<and> v_locator row \<in> set cited
              then row\<lparr>v_pending_reason := Some UNRECONCILED\<rparr> else row) (db_evidence db),
            db_relationships := filter (\<lambda>r. \<not> touches source session r) (db_relationships db)\<rparr>)"

text \<open>The diagnostics read of \<open>RelationshipGraph\<close> sees four columns of the evidence.\<close>

definition read_evidence :: "evidence_row list \<Rightarrow> continuity_evidence list" where
  "read_evidence rows = map (\<lambda>row. \<lparr>ce_source = v_source row, ce_session_id = v_session_id row,
      ce_locator = v_locator row, ce_pending_reason = v_pending_reason row\<rparr>) rows"

end
