(* ===== verification/ContinuityFacts.thy ===== *)
theory ContinuityFacts
  imports Continuity
begin

text \<open>
  What one row of a pass does, as a function of the evidence and the events alone: the edges it
  writes, whose they are, and what it waits for. The steps of \<open>resolve.rs\<close> thread the store;
  \<open>resolve_row_eq\<close> says that they write exactly these edges, in this order.
\<close>

section \<open>The lineage of a transcript\<close>

definition explicit_edges :: "transcript_evidence \<Rightarrow> continuity_edge list" where
  "explicit_edges ev =
     map (continuation_edge ev) (filter (names_other_session ev) (ev_continuation_targets ev))
     @ map (fork_edge ev) (filter (names_other_session ev) (ev_fork_targets ev))"

definition resume_edges :: "transcript_evidence \<Rightarrow> continuity_edge list" where
  "resume_edges ev =
     (case ev_resume_target ev of
        None \<Rightarrow> []
      | Some target \<Rightarrow>
          if ev_has_resume_marker ev \<and> names_other_session ev target then [resume_edge ev target] else [])"

definition stated_edges :: "transcript_evidence \<Rightarrow> continuity_edge list" where
  "stated_edges ev = explicit_edges ev @ resume_edges ev"

definition parent_uuid :: "transcript_evidence \<Rightarrow> string option" where
  "parent_uuid ev =
     (case ev_first_parent_uuid ev of None \<Rightarrow> None | Some u \<Rightarrow> if u = '''' then None else Some u)"

definition parent_edges :: "continuity_db \<Rightarrow> transcript_evidence \<Rightarrow> continuity_edge list" where
  "parent_edges db ev =
     (case parent_uuid ev of
        None \<Rightarrow> []
      | Some u \<Rightarrow>
          (case session_holding_record db (ev_source ev) u of
             None \<Rightarrow> []
           | Some p \<Rightarrow> if p = ev_session_id ev then [] else [parent_edge ev u p]))"

definition source_edges :: "transcript_evidence \<Rightarrow> continuity_edge list" where
  "source_edges ev =
     (case explicit_origin ev of None \<Rightarrow> [] | Some origin \<Rightarrow> [source_edge ev origin])"

definition lineage_edges :: "continuity_db \<Rightarrow> transcript_evidence \<Rightarrow> continuity_edge list" where
  "lineage_edges db ev =
     (if stated_edges ev \<noteq> [] then stated_edges ev
      else if parent_edges db ev \<noteq> [] then parent_edges db ev else source_edges ev)"

definition waits_for_parent :: "continuity_db \<Rightarrow> transcript_evidence \<Rightarrow> string option" where
  "waits_for_parent db ev =
     (if stated_edges ev \<noteq> [] then None
      else case parent_uuid ev of
        None \<Rightarrow> None
      | Some u \<Rightarrow> if session_holding_record db (ev_source ev) u = None then Some u else None)"

text \<open>The conversation whose branch the transcript may be, when no explicit field says more.\<close>

definition shared_origin :: "transcript_evidence \<Rightarrow> string option" where
  "shared_origin ev =
     (if ev_fork_targets ev = [] \<and> explicit_origin ev = None then evidence_origin ev else None)"

definition branches :: "continuity_db \<Rightarrow> string \<Rightarrow> string \<Rightarrow> bool" where
  "branches db source origin \<longleftrightarrow> 2 \<le> card (branch_label ` set (fork_group db source origin))"

definition group_edges ::
  "continuity_db \<Rightarrow> transcript_evidence \<Rightarrow> (transcript_evidence \<times> continuity_edge) list" where
  "group_edges db ev =
     (case shared_origin ev of
        None \<Rightarrow> []
      | Some origin \<Rightarrow>
          if branches db (ev_source ev) origin
          then map (\<lambda>m. (m, shared_edge origin m))
            (filter (\<lambda>m. \<not> (ev_locator m = ev_locator ev \<and> lineage_edges db ev \<noteq> [])
                \<and> \<not> has_stronger_lineage db m) (fork_group db (ev_source ev) origin))
          else [])"

definition row_edges ::
  "continuity_db \<Rightarrow> transcript_evidence \<Rightarrow> (transcript_evidence \<times> continuity_edge) list" where
  "row_edges db ev = map (Pair ev) (lineage_edges db ev) @ group_edges db ev"

definition row_reasons :: "continuity_db \<Rightarrow> transcript_evidence \<Rightarrow> string list" where
  "row_reasons db ev =
     (case waits_for_parent db ev of None \<Rightarrow> [] | Some u \<Rightarrow> [parent_reason u])
     @ (case shared_origin ev of
          None \<Rightarrow> []
        | Some origin \<Rightarrow> if branches db (ev_source ev) origin \<or> lineage_edges db ev \<noteq> [] then []
            else [lonely_reason origin])"

definition edge_key :: "transcript_evidence \<times> continuity_edge \<Rightarrow> string \<times> string" where
  "edge_key me = (g_parent_session_id (snd me), edge_uid (fst me) (snd me))"

definition row_written :: "continuity_db \<Rightarrow> transcript_evidence \<Rightarrow> written" where
  "row_written db ev = map edge_key (filter (\<lambda>me. ev_locator (fst me) = ev_locator ev) (row_edges db ev))"

definition write_edges ::
  "int \<Rightarrow> (transcript_evidence \<times> continuity_edge) list \<Rightarrow> continuity_db \<Rightarrow> continuity_db" where
  "write_edges now mes db = db\<lparr>db_relationships :=
     fold (\<lambda>(m, edge). record_relationship now (edge_observed db m edge)) mes (db_relationships db)\<rparr>"

section \<open>Resolution reads evidence and events only\<close>

lemma view [simp]:
  "session_holding_record (db\<lparr>db_relationships := rs\<rparr>) = session_holding_record db"
  "session_has_events (db\<lparr>db_relationships := rs\<rparr>) = session_has_events db"
  "fork_group (db\<lparr>db_relationships := rs\<rparr>) = fork_group db"
  "has_stronger_lineage (db\<lparr>db_relationships := rs\<rparr>) = has_stronger_lineage db"
  "edge_observed (db\<lparr>db_relationships := rs\<rparr>) = edge_observed db"
  by (intro ext; simp add: session_holding_record_def session_has_events_def fork_group_def
      has_stronger_lineage_def edge_observed_def cong: option.case_cong)+

lemma write_all_view [simp]:
  "db_evidence (write_edges now mes db) = db_evidence db"
  "db_events (write_edges now mes db) = db_events db"
  "session_holding_record (write_edges now mes db) = session_holding_record db"
  "fork_group (write_edges now mes db) = fork_group db"
  "has_stronger_lineage (write_edges now mes db) = has_stronger_lineage db"
  "edge_observed (write_edges now mes db) = edge_observed db"
  by (simp_all add: write_edges_def)

lemma write_all_Nil [simp]: "write_edges now [] db = db"
  by (simp add: write_edges_def)

lemma write_all_append: "write_edges now (xs @ ys) db = write_edges now ys (write_edges now xs db)"
  by (simp add: write_edges_def)

lemma write_edge_eq: "write_edge now ev edge db = (write_edges now [(ev, edge)] db, edge_key (ev, edge))"
  by (simp add: write_edge_def write_edges_def edge_key_def)

lemma push_edge_eq:
  "push_edge now ev edge (db, written) = (write_edges now [(ev, edge)] db, written @ [edge_key (ev, edge)])"
  by (simp add: push_edge_def write_edge_eq)

section \<open>Each step writes its edges\<close>

definition stepped ::
  "int \<Rightarrow> transcript_evidence \<Rightarrow> continuity_edge list \<Rightarrow> continuity_db \<times> written \<Rightarrow> continuity_db \<times> written" where
  "stepped now ev edges st =
     (write_edges now (map (Pair ev) edges) (fst st), snd st @ map (\<lambda>e. edge_key (ev, e)) edges)"

lemma stepped_Nil [simp]: "stepped now ev [] st = st"
  by (simp add: stepped_def)

lemma stepped_stepped [simp]: "stepped now ev ys (stepped now ev xs st) = stepped now ev (xs @ ys) st"
  by (simp add: stepped_def write_all_append)

lemma push_stepped: "push_edge now ev edge st = stepped now ev [edge] st"
  by (cases st) (simp add: push_edge_eq stepped_def)

lemma fold_targets:
  assumes "\<And>t st. step t st = (if names_other_session ev t then stepped now ev [f t] st else st)"
  shows "fold step ts st = stepped now ev (map f (filter (names_other_session ev) ts)) st"
  using assms by (induction ts arbitrary: st) simp_all

lemma resolve_explicit_eq: "resolve_explicit now ev st = stepped now ev (explicit_edges ev) st"
  by (simp add: resolve_explicit_def explicit_edges_def
      fold_targets [of "resolve_continuation_target now ev" ev now "continuation_edge ev"]
      fold_targets [of "resolve_fork_target now ev" ev now "fork_edge ev"]
      resolve_continuation_target_def resolve_fork_target_def names_other_session_def push_stepped)

lemma resolve_resume_eq: "resolve_resume now ev st = stepped now ev (resume_edges ev) st"
  by (simp add: resolve_resume_def resume_edges_def names_other_session_def push_stepped
      split: option.split)

lemma resolve_cross_file_parent_eq:
  "resolve_cross_file_parent now ev ((db, written), reasons) =
     (if written \<noteq> [] then ((db, written), reasons)
      else (stepped now ev (parent_edges db ev) (db, written),
        reasons @ (case parent_uuid ev of
            None \<Rightarrow> []
          | Some u \<Rightarrow> if session_holding_record db (ev_source ev) u = None then [parent_reason u] else [])))"
  by (simp add: resolve_cross_file_parent_def parent_edges_def parent_uuid_def push_stepped
      split: option.split)

lemma resolve_explicit_source_eq:
  "resolve_explicit_source now ev st = (if snd st \<noteq> [] then st else stepped now ev (source_edges ev) st)"
  by (simp add: resolve_explicit_source_def source_edges_def push_stepped split: option.split)

lemma resolve_member_eq:
  "resolve_member now ev lin origin m (db, written) =
     (if (ev_locator m = ev_locator ev \<and> lin) \<or> has_stronger_lineage db m then (db, written)
      else (write_edges now [(m, shared_edge origin m)] db,
        written @ (if ev_locator m = ev_locator ev then [edge_key (m, shared_edge origin m)] else [])))"
  by (simp add: resolve_member_def write_edge_eq)

lemma write_all_Cons:
  "write_edges now xs (write_edges now [x] db) = write_edges now (x # xs) db"
  using write_all_append [of now "[x]" xs db] by simp

lemma fold_members:
  "fold (resolve_member now ev lin origin) members (db, written) =
     (let mes = map (\<lambda>m. (m, shared_edge origin m))
        (filter (\<lambda>m. \<not> (ev_locator m = ev_locator ev \<and> lin) \<and> \<not> has_stronger_lineage db m) members)
      in (write_edges now mes db,
          written @ map edge_key (filter (\<lambda>me. ev_locator (fst me) = ev_locator ev) mes)))"
proof (induction members arbitrary: db written)
  case (Cons m members)
  show ?case
    by (auto simp: resolve_member_eq Cons.IH Let_def write_all_Cons)
qed simp

lemma stepped_view [simp]:
  "snd (stepped now ev edges (db, [])) = [] \<longleftrightarrow> edges = []"
  "session_holding_record (fst (stepped now ev edges st)) = session_holding_record (fst st)"
  "parent_edges (fst (stepped now ev edges st)) = parent_edges (fst st)"
  by (simp_all add: stepped_def parent_edges_def fun_eq_iff cong: option.case_cong)

lemma resolve_cross_file_parent_stepped:
  "resolve_cross_file_parent now ev (stepped now ev (stated_edges ev) (db, []), []) =
     (if stated_edges ev \<noteq> [] then (stepped now ev (stated_edges ev) (db, []), [])
      else (stepped now ev (parent_edges db ev) (db, []),
        case waits_for_parent db ev of None \<Rightarrow> [] | Some u \<Rightarrow> [parent_reason u]))"
proof (cases "stated_edges ev = []")
  case True
  then show ?thesis
    by (simp add: resolve_cross_file_parent_eq waits_for_parent_def split: option.split)
next
  case False
  then show ?thesis
    by (simp add: resolve_cross_file_parent_def stepped_def)
qed

lemma resolve_row_eq:
  "resolve_row now ev db = ((write_edges now (row_edges db ev) db, row_written db ev), row_reasons db ev)"
proof -
  let ?lin = "stepped now ev (lineage_edges db ev) (db, [])"
  let ?waits = "case waits_for_parent db ev of None \<Rightarrow> [] | Some u \<Rightarrow> [parent_reason u]"
  have stated: "resolve_resume now ev (resolve_explicit now ev (db, [])) =
      stepped now ev (stated_edges ev) (db, [])"
    by (simp add: resolve_explicit_eq resolve_resume_eq stated_edges_def)
  have "resolve_row now ev db = resolve_fork_group now ev (lineage_edges db ev \<noteq> []) (?lin, ?waits)"
  proof (cases "stated_edges ev = []")
    case True
    then have "resolve_cross_file_parent now ev ((db, []), []) =
        (stepped now ev (parent_edges db ev) (db, []), ?waits)"
      using resolve_cross_file_parent_stepped [of now ev db] by simp
    then show ?thesis using True
      by (cases "parent_edges db ev = []")
         (simp_all add: resolve_row_def stated resolve_explicit_source_eq lineage_edges_def Let_def)
  next
    case False
    then show ?thesis
      by (simp add: resolve_row_def stated resolve_cross_file_parent_stepped
          resolve_explicit_source_eq lineage_edges_def waits_for_parent_def Let_def)
  qed
  also have "\<dots> = ((write_edges now (row_edges db ev) db, row_written db ev), row_reasons db ev)"
    by (simp add: resolve_fork_group_def stepped_def fold_members Let_def row_edges_def row_written_def
        row_reasons_def group_edges_def shared_origin_def branches_def write_all_append not_less
        comp_def split: option.split)
  finally show ?thesis .
qed

text \<open>C10. The five resolution steps, threading the store and their lists, write what the lineage of
  the transcript says and nothing else: the explicit targets and the resume marker; only when those
  are none the session that holds the parent record; only when that is none the source session; and
  the branches of its origin that have no stronger lineage. The keys kept and the reasons follow.\<close>

theorem resolution_refines_lineage:
  "resolve_row now ev db =
     ((db\<lparr>db_relationships := fold (\<lambda>(m, edge). record_relationship now (edge_observed db m edge))
         (map (Pair ev) (lineage_edges db ev) @ group_edges db ev) (db_relationships db)\<rparr>,
       row_written db ev), row_reasons db ev)"
  by (simp add: resolve_row_eq write_edges_def row_edges_def)

section \<open>One row of a pass\<close>

definition settle_row :: "int \<Rightarrow> transcript_evidence \<Rightarrow> continuity_db \<Rightarrow> continuity_db" where
  "settle_row now ev db =
     set_pending now (ev_source ev) (ev_locator ev)
       (if row_reasons db ev = [] then None else Some (join_with ''; '' (row_reasons db ev)))
       (fst (retract_edges (ev_source ev) (ev_locator ev) (row_written db ev)
          (write_edges now (row_edges db ev) db)))"

lemma reconcile_row_settles: "fst (reconcile_row now ev (db, report)) = settle_row now ev db"
  by (simp add: reconcile_row_def resolve_row_eq settle_row_def retract_edges_def Let_def)

lemma settle_view [simp]:
  "db_events (settle_row now ev db) = db_events db"
  "map v_source (db_evidence (settle_row now ev db)) = map v_source (db_evidence db)"
  "map map_evidence (db_evidence (settle_row now ev db)) = map map_evidence (db_evidence db)"
  by (auto simp: settle_row_def set_pending_def retract_edges_def map_evidence_def)

lemma observed_key_edge [simp]:
  "observed_key (edge_observed db m e) = (ev_source m, g_parent_session_id e, edge_uid m e)"
  by (simp add: observed_key_def edge_observed_def observed_uid_def)

lemma edge_observed_simps [simp]:
  "o_source (edge_observed db m e) = ev_source m"
  "o_parent_session_id (edge_observed db m e) = g_parent_session_id e"
  "o_child_session_id (edge_observed db m e) = g_child_session_id e"
  "o_relationship (edge_observed db m e) = g_relationship e"
  "o_evidence_locator (edge_observed db m e) = Some (ev_locator m)"
  "o_evidence_ref (edge_observed db m e) = Some (g_evidence_ref e)"
  "o_origin_session_id (edge_observed db m e) = g_origin_session_id e"
  by (simp_all add: edge_observed_def)

text \<open>A stored row says what an edge says.\<close>

definition row_of_edge :: "transcript_evidence \<Rightarrow> continuity_edge \<Rightarrow> relationship_row \<Rightarrow> bool" where
  "row_of_edge m e r \<longleftrightarrow> relationship_key r = (ev_source m, g_parent_session_id e, edge_uid m e)
     \<and> child_session_id r = g_child_session_id e \<and> relationship r = g_relationship e
     \<and> evidence_locator r = Some (ev_locator m) \<and> evidence_ref r = Some (g_evidence_ref e)
     \<and> origin_session_id r = g_origin_session_id e
     \<and> identity_status r = (if g_child_session_id e \<noteq> None then IDENTITY_OBSERVED else IDENTITY_UNLINKED)"

lemma carries_edge: "carries (edge_observed db m e) r \<Longrightarrow> row_of_edge m e r"
  by (simp add: carries_def row_of_edge_def observed_identity_def)

lemma fold_pairs:
  "fold (\<lambda>(m, e). f (g m e)) mes x = fold f (map (\<lambda>(m, e). g m e) mes) x"
  by (induction mes arbitrary: x) auto

lemma write_all_relationships:
  "db_relationships (write_edges now mes db) =
     fold (record_relationship now) (map (\<lambda>(m, e). edge_observed db m e) mes) (db_relationships db)"
  by (simp add: write_edges_def fold_pairs [of "record_relationship now"])

lemma write_all_rows:
  assumes "keys_unique (db_relationships db)" and "r \<in> set (db_relationships (write_edges now mes db))"
  shows "(r \<in> set (db_relationships db)
      \<and> (\<forall>(m, e) \<in> set mes. relationship_key r \<noteq> (ev_source m, g_parent_session_id e, edge_uid m e)))
    \<or> (\<exists>(m, e) \<in> set mes. row_of_edge m e r)"
proof -
  let ?obss = "map (\<lambda>(m, e). edge_observed db m e) mes"
  have keys: "observed_key ` set ?obss = (\<lambda>(m, e). (ev_source m, g_parent_session_id e, edge_uid m e)) ` set mes"
    by (force simp: image_image)
  have "\<exists>(m, e) \<in> set mes. row_of_edge m e r" if "\<exists>obs \<in> set ?obss. carries obs r"
    using that carries_edge by fastforce
  then show ?thesis
    using record_all_rows [OF assms(1), of r now ?obss] assms(2)
    unfolding keys write_all_relationships by fastforce
qed

lemma settle_rows:
  assumes "r \<in> set (db_relationships (settle_row now ev db))"
  shows "r \<in> set (db_relationships (write_edges now (row_edges db ev) db))
    \<and> \<not> retracts (ev_source ev) (ev_locator ev) (row_written db ev) r"
  using assms by (simp add: settle_row_def set_pending_def retract_edges_def)

lemma settle_unique:
  "keys_unique (db_relationships db) \<Longrightarrow> keys_unique (db_relationships (settle_row now ev db))"
  by (simp add: settle_row_def set_pending_def retract_edges_def write_all_relationships keys_unique_def
      distinct_map_filter record_all_unique [unfolded keys_unique_def])

section \<open>What reopening reopens\<close>

definition reopened :: "(evidence_row \<Rightarrow> bool) \<Rightarrow> evidence_row \<Rightarrow> evidence_row" where
  "reopened P row = (if P row \<and> v_pending_reason row = None
     then row\<lparr>v_pending_reason := Some UNRECONCILED\<rparr> else row)"

definition reopens ::
  "continuity_db \<Rightarrow> string \<Rightarrow> (string \<times> string option) set \<Rightarrow> evidence_row \<Rightarrow> bool" where
  "reopens db source ids row \<longleftrightarrow> v_source row = source
     \<and> ((\<exists>(s, origin) \<in> ids. origin \<noteq> None \<and> v_origin_session_id row = origin)
        \<or> (\<exists>r \<in> set (db_relationships db). r_source r = source \<and> parent_session_id r \<in> fst ` ids
             \<and> relationship r \<in> set CONTINUITY_RELATIONSHIPS
             \<and> evidence_locator r = Some (v_locator row)))"

lemma reopened_simps [simp]:
  "v_source (reopened P row) = v_source row" "v_locator (reopened P row) = v_locator row"
  "v_session_id (reopened P row) = v_session_id row"
  "v_origin_session_id (reopened P row) = v_origin_session_id row"
  "map_evidence (reopened P row) = map_evidence row"
  by (simp_all add: reopened_def map_evidence_def)

lemma reopened_pending: "v_pending_reason (reopened P row) = None \<longleftrightarrow> v_pending_reason row = None \<and> \<not> P row"
  by (auto simp: reopened_def)

lemma reopen_where_eq:
  "fst (reopen_where P db) = db\<lparr>db_evidence := map (reopened P) (db_evidence db)\<rparr>"
  by (simp add: reopen_where_def reopened_def [abs_def])

lemma reopened_twice: "reopened Q (reopened P row) = reopened (\<lambda>row. P row \<or> Q row) row"
  if "\<And>reason. Q (row\<lparr>v_pending_reason := reason\<rparr>) = Q row"
  using that by (simp add: reopened_def)

lemma reopen_fold:
  "fst (fold (\<lambda>locator (db', n). let (db'', k) = reopen_where (evidence_at source locator) db' in (db'', n + k))
      locators (db\<lparr>db_evidence := map (reopened P) evs\<rparr>, n))
   = db\<lparr>db_evidence := map (reopened (\<lambda>row. P row
       \<or> (v_source row = source \<and> v_locator row \<in> set locators))) evs\<rparr>"
proof (induction locators arbitrary: P n)
  case (Cons l locators)
  have step: "fst (reopen_where (evidence_at source l) (db\<lparr>db_evidence := map (reopened P) evs\<rparr>)) =
      db\<lparr>db_evidence := map (reopened (\<lambda>row. P row \<or> evidence_at source l row)) evs\<rparr>"
    by (simp add: reopen_where_eq reopened_twice evidence_at_def comp_def)
  have "(\<lambda>row. (P row \<or> evidence_at source l row) \<or> (v_source row = source \<and> v_locator row \<in> set locators))
      = (\<lambda>row. P row \<or> (v_source row = source \<and> v_locator row \<in> set (l # locators)))"
    by (auto simp: evidence_at_def)
  then show ?case
    using step Cons.IH by (simp add: case_prod_unfold Let_def)
qed simp

lemma dependent_locators_view [simp]:
  "dependent_locators (db\<lparr>db_evidence := es\<rparr>) = dependent_locators db"
  by (simp add: fun_eq_iff dependent_locators_def)

lemma reopen_dependents_eq:
  "fst (reopen_dependents source ids db) =
     db\<lparr>db_evidence := map (reopened (reopens db source (set (List.map_filter id ids)))) (db_evidence db)\<rparr>"
proof -
  define known where "known = List.map_filter id ids"
  define P :: "evidence_row \<Rightarrow> bool" where "P = (\<lambda>row. v_source row = source
     \<and> (\<exists>origin \<in> set (List.map_filter snd known). v_origin_session_id row = Some origin))"
  define cited where "cited = dependent_locators db source (map fst known)"
  obtain n where first: "reopen_where P db = (db\<lparr>db_evidence := map (reopened P) (db_evidence db)\<rparr>, n)"
    using reopen_where_eq [of P db] by (metis prod.collapse)
  have "fst (reopen_dependents source ids db) =
      fst (fold (\<lambda>locator (db', n). let (db'', k) = reopen_where (evidence_at source locator) db' in (db'', n + k))
        cited (db\<lparr>db_evidence := map (reopened P) (db_evidence db)\<rparr>, n))"
    by (simp add: reopen_dependents_def first [unfolded P_def known_def] Let_def cited_def P_def known_def)
  also have "\<dots> = db\<lparr>db_evidence := map (reopened (\<lambda>row. P row
      \<or> (v_source row = source \<and> v_locator row \<in> set cited))) (db_evidence db)\<rparr>"
    by (rule reopen_fold)
  also have "(\<lambda>row. P row \<or> (v_source row = source \<and> v_locator row \<in> set cited)) = reopens db source (set known)"
    by (force simp: reopens_def fun_eq_iff P_def cited_def dependent_locators_def set_map_filter)
  finally show ?thesis by (simp add: known_def)
qed

end
