(* ===== verification/ContinuityInvariant.thy ===== *)
theory ContinuityInvariant
  imports ContinuityFacts
begin

text \<open>
  What the graph may say: an edge is justified when the evidence of the transcript it cites states
  it, or the stored events and evidence of other transcripts support it. The store is graph_consistent
  when every continuity edge cites a stored transcript whose evidence justifies it, unless that
  transcript is still to be reconciled; every operation keeps the store graph_consistent.
\<close>

section \<open>Justified edges\<close>

definition holds_record :: "stored_event list \<Rightarrow> string \<Rightarrow> string \<Rightarrow> string \<Rightarrow> bool" where
  "holds_record events source uuid session \<longleftrightarrow>
     (\<exists>e \<in> set events. e_source e = source \<and> e_session_id e = session
        \<and> (e_message_id e = Some uuid \<or> e_event_uid e = uuid @ '':0''))"

definition justified :: "continuity_db \<Rightarrow> transcript_evidence \<Rightarrow> relationship_row \<Rightarrow> bool" where
  "justified db m r \<longleftrightarrow>
     (case child_session_id r of
        None \<Rightarrow> relationship r = RELATIONSHIP_FORK \<and> evidence_origin m = Some (parent_session_id r)
          \<and> branches db (ev_source m) (parent_session_id r)
      | Some child \<Rightarrow> child = ev_session_id m \<and> names_other_session m (parent_session_id r)
          \<and> (relationship r = RELATIONSHIP_CONTINUATION \<and> parent_session_id r \<in> set (ev_continuation_targets m)
             \<or> relationship r = RELATIONSHIP_FORK \<and> parent_session_id r \<in> set (ev_fork_targets m)
             \<or> relationship r = RELATIONSHIP_FORK \<and> ev_source_session_id m = Some (parent_session_id r)
             \<or> relationship r = RELATIONSHIP_RESUME \<and> ev_has_resume_marker m
                \<and> ev_resume_target m = Some (parent_session_id r))
          \<or> child = ev_session_id m \<and> parent_session_id r \<noteq> ev_session_id m
          \<and> relationship r = RELATIONSHIP_CONTINUATION
          \<and> (\<exists>uuid. ev_first_parent_uuid m = Some uuid \<and> evidence_ref r = Some uuid
               \<and> holds_record (db_events db) (ev_source m) uuid (parent_session_id r)))"

lemma lowest_session_in: "lowest_session P es = Some s \<Longrightarrow> \<exists>e \<in> set es. P e \<and> e_session_id e = s"
proof -
  assume "lowest_session P es = Some s"
  then have "s \<in> set (sort (map e_session_id (filter P es)))"
    by (auto simp: lowest_session_def simp del: set_sort split: list.splits)
  then show ?thesis by auto
qed

lemma holding_holds:
  assumes "session_holding_record db source uuid = Some s"
  shows "holds_record (db_events db) source uuid s"
proof -
  have "lowest_session (by_message source uuid) (db_events db) = Some s
      \<or> lowest_session (by_uid source uuid) (db_events db) = Some s"
    using assms by (auto simp: session_holding_record_def min_def split: option.splits if_splits)
  then show ?thesis
    by (auto dest!: lowest_session_in simp: holds_record_def by_message_def by_uid_def
        claude_uid_unmatched_def split: if_splits)
qed

lemma fork_group_set:
  "set (fork_group db source origin) =
     map_evidence ` {c \<in> set (db_evidence db). v_source c = source \<and> v_origin_session_id c = Some origin}"
  by (auto simp: fork_group_def)

text \<open>The column \<open>origin_session_id\<close> is what the evidence says.\<close>

definition origins_stored :: "continuity_db \<Rightarrow> bool" where
  "origins_stored db \<longleftrightarrow>
     (\<forall>c \<in> set (db_evidence db). v_origin_session_id c = evidence_origin (map_evidence c))"

lemma map_evidence_key [simp]:
  "ev_source (map_evidence c) = v_source c" "ev_locator (map_evidence c) = v_locator c"
  "ev_session_id (map_evidence c) = v_session_id c"
  "ev_first_parent_uuid (map_evidence c) = v_first_parent_uuid c"
  by (simp_all add: map_evidence_def Let_def)

lemma explicit_origin_names: "explicit_origin ev = Some s \<Longrightarrow> names_other_session ev s \<and> ev_source_session_id ev = Some s"
  by (auto simp: explicit_origin_def names_other_session_def split: option.splits if_splits)

lemma stated_edges_justified:
  assumes "e \<in> set (stated_edges ev)" and "row_of_edge ev e r"
  shows "justified db ev r"
proof -
  consider (cont) t where "e = continuation_edge ev t" "t \<in> set (ev_continuation_targets ev)"
      "names_other_session ev t"
    | (fork) t where "e = fork_edge ev t" "t \<in> set (ev_fork_targets ev)" "names_other_session ev t"
    | (resume) t where "e = resume_edge ev t" "ev_resume_target ev = Some t"
      "ev_has_resume_marker ev" "names_other_session ev t"
    using assms(1)
    by (cases "ev_resume_target ev")
       (auto simp: stated_edges_def explicit_edges_def resume_edges_def split: if_splits)
  then show ?thesis
    by cases
       (use assms(2) in \<open>simp_all add: row_of_edge_def relationship_key_def justified_def continuation_edge_def
          fork_edge_def resume_edge_def\<close>)
qed

lemma inferred_edges_justified:
  assumes "e \<in> set (parent_edges db ev) \<or> e \<in> set (source_edges ev)" and "row_of_edge ev e r"
  shows "justified db ev r"
proof -
  consider (parent) u p where "e = parent_edge ev u p" "ev_first_parent_uuid ev = Some u"
      "session_holding_record db (ev_source ev) u = Some p" "p \<noteq> ev_session_id ev"
    | (source) origin where "e = source_edge ev origin" "explicit_origin ev = Some origin"
    using assms(1) by (auto simp: parent_edges_def source_edges_def parent_uuid_def
        split: option.splits if_splits)
  then show ?thesis
  proof cases
    case parent
    then show ?thesis
      using assms(2) holding_holds [OF parent(3)]
      by (simp add: row_of_edge_def relationship_key_def justified_def parent_edge_def)
  next
    case source
    then show ?thesis
      using assms(2) explicit_origin_names [OF source(2)]
      by (simp add: row_of_edge_def relationship_key_def justified_def source_edge_def)
  qed
qed

lemma lineage_edges_justified:
  "e \<in> set (lineage_edges db ev) \<Longrightarrow> row_of_edge ev e r \<Longrightarrow> justified db ev r"
  using stated_edges_justified [of e ev r] inferred_edges_justified [of e db ev r]
  by (auto simp: lineage_edges_def split: if_splits)

lemma not_stronger_origin:
  assumes "\<not> has_stronger_lineage db m" and "evidence_origin m = Some origin"
  shows "ev_session_id m = origin"
  using assms
  by (auto simp: has_stronger_lineage_def evidence_origin_def explicit_origin_def
      names_other_session_def split: option.splits if_splits)

lemma group_edges_member:
  assumes "(m, e) \<in> set (group_edges db ev)" and "origins_stored db"
  shows "\<exists>origin. evidence_origin m = Some origin \<and> ev_session_id m = origin \<and> e = shared_edge origin m
    \<and> branches db (ev_source ev) origin \<and> m \<in> set (fork_group db (ev_source ev) origin)
    \<and> evidence_origin ev = Some origin"
proof -
  obtain origin where origin: "shared_origin ev = Some origin" "branches db (ev_source ev) origin"
    "e = shared_edge origin m" "m \<in> set (fork_group db (ev_source ev) origin)"
    "\<not> has_stronger_lineage db m"
    using assms(1) by (cases "shared_origin ev") (auto simp: group_edges_def split: if_splits)
  then have "evidence_origin m = Some origin"
    using assms(2) by (auto simp: fork_group_set origins_stored_def)
  then show ?thesis
    using origin not_stronger_origin [of db m origin]
    by (auto simp: shared_origin_def split: if_splits)
qed

text \<open>An inferred branch is never linked: of the code's two cases for its child only one occurs.\<close>

lemma shared_edge_unlinked: "ev_session_id m = origin \<Longrightarrow> g_child_session_id (shared_edge origin m) = None"
  by (simp add: shared_edge_def)

lemma row_edges_justified:
  assumes "(m, e) \<in> set (row_edges db ev)" and "origins_stored db" and "row_of_edge m e r"
  shows "justified db m r"
proof (cases "(m, e) \<in> set (group_edges db ev)")
  case True
  from group_edges_member [OF this assms(2)] show ?thesis
    using assms(3) by (auto simp: row_of_edge_def shared_edge_def justified_def relationship_key_def fork_group_set)
next
  case False
  then show ?thesis
    using assms lineage_edges_justified by (auto simp: row_edges_def)
qed

section \<open>Consistency\<close>

definition evidence_key :: "evidence_row \<Rightarrow> string \<times> string" where
  "evidence_key c = (v_source c, v_locator c)"

definition cites :: "relationship_row \<Rightarrow> evidence_row \<Rightarrow> bool" where
  "cites r c \<longleftrightarrow> v_source c = r_source r \<and> evidence_locator r = Some (v_locator c)"

definition is_continuity :: "relationship_row \<Rightarrow> bool" where
  "is_continuity r \<longleftrightarrow> relationship r \<in> set CONTINUITY_RELATIONSHIPS"

text \<open>\<open>done\<close> are the transcripts a running pass has reconciled, whether they still wait for
  something or not.\<close>

definition edges_ok :: "(string \<times> string) set \<Rightarrow> continuity_db \<Rightarrow> bool" where
  "edges_ok done db \<longleftrightarrow>
     (\<forall>r \<in> set (db_relationships db). is_continuity r \<longrightarrow>
        (\<exists>c \<in> set (db_evidence db). cites r c
           \<and> (v_pending_reason c = None \<or> evidence_key c \<in> done \<longrightarrow> justified db (map_evidence c) r)))"

definition tables_ok :: "continuity_db \<Rightarrow> bool" where
  "tables_ok db \<longleftrightarrow> keys_unique (db_relationships db) \<and> distinct (map evidence_key (db_evidence db))
     \<and> origins_stored db"

definition graph_consistent :: "continuity_db \<Rightarrow> bool" where
  "graph_consistent db \<longleftrightarrow> tables_ok db \<and> edges_ok {} db"

text \<open>Support that is still there.\<close>

lemma justified_cong:
  assumes "justified db m r"
    and "\<And>uuid. holds_record (db_events db) (ev_source m) uuid (parent_session_id r)
      \<Longrightarrow> holds_record (db_events db') (ev_source m) uuid (parent_session_id r)"
    and "child_session_id r = None \<Longrightarrow> branches db (ev_source m) (parent_session_id r)
      \<Longrightarrow> evidence_origin m = Some (parent_session_id r)
      \<Longrightarrow> branches db' (ev_source m) (parent_session_id r)"
  shows "justified db' m r"
  using assms unfolding justified_def by (auto split: option.splits)

lemma branches_cong:
  assumes "map_evidence ` {c \<in> set (db_evidence db). v_source c = source \<and> v_origin_session_id c = Some origin}
    = map_evidence ` {c \<in> set (db_evidence db'). v_source c = source \<and> v_origin_session_id c = Some origin}"
  shows "branches db source origin = branches db' source origin"
  using assms by (simp add: branches_def fork_group_set)

text \<open>A change of pending reasons and times touches nothing that an edge rests on.\<close>

definition keeps_columns :: "(evidence_row \<Rightarrow> evidence_row) \<Rightarrow> bool" where
  "keeps_columns f \<longleftrightarrow> (\<forall>c. map_evidence (f c) = map_evidence c
     \<and> v_origin_session_id (f c) = v_origin_session_id c)"

lemma keeps_columns_key: "keeps_columns f \<Longrightarrow> v_source (f c) = v_source c \<and> v_locator (f c) = v_locator c"
  unfolding keeps_columns_def by (metis map_evidence_key(1,2))

lemma keeps_columns_branches:
  assumes "keeps_columns f" and "db_evidence db' = map f (db_evidence db)"
  shows "branches db' = branches db"
proof (intro ext)
  fix source origin
  have "map_evidence ` {c \<in> set (db_evidence db'). v_source c = source \<and> v_origin_session_id c = Some origin}
    = map_evidence ` {c \<in> set (db_evidence db). v_source c = source \<and> v_origin_session_id c = Some origin}"
    using assms keeps_columns_key [OF assms(1)] by (force simp: keeps_columns_def image_iff)
  then show "branches db' source origin = branches db source origin"
    by (simp add: branches_def fork_group_set)
qed

lemma keeps_columns_justified:
  "keeps_columns f \<Longrightarrow> db_evidence db' = map f (db_evidence db) \<Longrightarrow> db_events db' = db_events db
    \<Longrightarrow> justified db' m r = justified db m r"
  by (simp add: justified_def keeps_columns_branches cong: option.case_cong)

lemma keeps_columns_tables:
  assumes "keeps_columns f" and "db_evidence db' = map f (db_evidence db)"
    and "keys_unique (db_relationships db')" and "tables_ok db"
  shows "tables_ok db'"
proof -
  have "evidence_key \<circ> f = evidence_key"
    using keeps_columns_key [OF assms(1)] by (simp add: fun_eq_iff evidence_key_def)
  then show ?thesis
    using assms by (simp add: tables_ok_def origins_stored_def keeps_columns_def)
qed

section \<open>A pass keeps the store graph_consistent\<close>

lemma row_edges_member:
  assumes "(m, e) \<in> set (row_edges db ev)" and "origins_stored db"
  shows "m = ev \<or> (\<exists>origin. m \<in> set (fork_group db (ev_source ev) origin))"
  using assms group_edges_member [of m e db ev] by (auto simp: row_edges_def)

lemma row_edges_source:
  "(m, e) \<in> set (row_edges db ev) \<Longrightarrow> origins_stored db \<Longrightarrow> ev_source m = ev_source ev"
  using row_edges_member [of m e db ev] by (auto simp: fork_group_set)

lemma settle_evidence:
  "\<exists>f. keeps_columns f \<and> db_evidence (settle_row now ev db) = map f (db_evidence db)
    \<and> (\<forall>c. evidence_key c \<noteq> (ev_source ev, ev_locator ev) \<longrightarrow> f c = c)"
  unfolding settle_row_def set_pending_def retract_edges_def
  by (rule exI [of _ "\<lambda>row. if evidence_at (ev_source ev) (ev_locator ev) row
       then row\<lparr>v_pending_reason := (if row_reasons db ev = [] then None
          else Some (join_with ''; '' (row_reasons db ev))), v_updated_ms := now\<rparr> else row"])
     (simp add: keeps_columns_def map_evidence_def evidence_at_def evidence_key_def)

lemma settle_ok:
  assumes tables: "tables_ok db" and edges: "edges_ok done db" and c0: "c0 \<in> set (db_evidence db)"
  shows "tables_ok (settle_row now (map_evidence c0) db)
    \<and> edges_ok (insert (evidence_key c0) done) (settle_row now (map_evidence c0) db)"
proof -
  let ?ev = "map_evidence c0"
  let ?db' = "settle_row now ?ev db"
  obtain f where f: "keeps_columns f" and evidence: "db_evidence ?db' = map f (db_evidence db)"
    and others: "\<And>c. evidence_key c \<noteq> evidence_key c0 \<Longrightarrow> f c = c"
    using settle_evidence [of now ?ev db] by (auto simp: evidence_key_def)
  have unique: "keys_unique (db_relationships db)" and origins: "origins_stored db"
    using tables by (auto simp: tables_ok_def)
  have same: "justified ?db' m r = justified db m r" for m r
    by (rule keeps_columns_justified [OF f evidence]) simp
  have "\<exists>c \<in> set (db_evidence ?db'). cites r c \<and> (v_pending_reason c = None
      \<or> evidence_key c \<in> insert (evidence_key c0) done \<longrightarrow> justified ?db' (map_evidence c) r)"
    if r: "r \<in> set (db_relationships ?db')" "is_continuity r" for r
  proof -
    from settle_rows [OF r(1)] have stays: "r \<in> set (db_relationships (write_edges now (row_edges db ?ev) db))"
      and kept: "\<not> retracts (v_source c0) (v_locator c0) (row_written db ?ev) r" by simp_all
    have key: "evidence_key (f c) = evidence_key c" for c
      using keeps_columns_key [OF f, of c] by (simp add: evidence_key_def)
    consider (old) "r \<in> set (db_relationships db)"
        "\<forall>(m, e) \<in> set (row_edges db ?ev). relationship_key r \<noteq> (ev_source m, g_parent_session_id e, edge_uid m e)"
      | (new) m e where "(m, e) \<in> set (row_edges db ?ev)" "row_of_edge m e r"
      using write_all_rows [OF unique stays] by blast
    then show ?thesis
    proof cases
      case new
      obtain c where c: "c \<in> set (db_evidence db)" "map_evidence c = m"
        using row_edges_member [OF new(1) origins] c0 by (auto simp: fork_group_set)
      have "justified db m r" by (rule row_edges_justified [OF new(1) origins new(2)])
      moreover have "cites r c" using new(2) c(2) by (auto simp: cites_def row_of_edge_def relationship_key_def)
      ultimately show ?thesis
        using c f keeps_columns_key [OF f, of c]
        by (auto simp: evidence same keeps_columns_def cites_def intro!: bexI [of _ c])
    next
      case old
      obtain c where c: "c \<in> set (db_evidence db)" "cites r c"
        and just: "v_pending_reason c = None \<or> evidence_key c \<in> done \<Longrightarrow> justified db (map_evidence c) r"
        using edges old(1) r(2) unfolding edges_ok_def by blast
      have "evidence_key c \<noteq> evidence_key c0"
      proof
        assume eq: "evidence_key c = evidence_key c0"
        then have "(parent_session_id r, relationship_uid r) \<in> set (row_written db ?ev)"
          using kept c(2) r(2) by (auto simp: retracts_def cites_def evidence_key_def is_continuity_def)
        then obtain m e where "(m, e) \<in> set (row_edges db ?ev)"
          "(parent_session_id r, relationship_uid r) = edge_key (m, e)"
          by (auto simp: row_written_def)
        with old(2) row_edges_source [of m e db ?ev] origins eq c(2) show False
          by (auto simp: edge_key_def relationship_key_def cites_def evidence_key_def)
      qed
      then show ?thesis
        using c just others [of c] by (auto simp: evidence same intro!: bexI [of _ c])
    qed
  qed
  then show ?thesis
    using keeps_columns_tables [OF f evidence _ tables] settle_unique [OF unique]
    by (simp add: edges_ok_def)
qed

lemma settle_map_evidence: "map_evidence ` set (db_evidence (settle_row now ev db)) = map_evidence ` set (db_evidence db)"
  by (metis list.set_map settle_view(3))

lemma reconcile_loop_ok:
  assumes "tables_ok db" and "edges_ok done db" and "set evs \<subseteq> map_evidence ` set (db_evidence db)"
    and "reconcile_loop now cancelled evs (db, report) = (db', outcome)"
  shows "tables_ok db' \<and> edges_ok done db'
    \<and> (outcome \<noteq> None \<longrightarrow> edges_ok (done \<union> (\<lambda>ev. (ev_source ev, ev_locator ev)) ` set evs) db')"
  using assms
proof (induction evs arbitrary: db "done" report)
  case (Cons ev evs)
  show ?case
  proof (cases "cancelled ev")
    case False
    let ?key = "(ev_source ev, ev_locator ev)"
    obtain c where c: "c \<in> set (db_evidence db)" "map_evidence c = ev" using Cons.prems(3) by auto
    have "tables_ok (settle_row now ev db) \<and> edges_ok (insert ?key done) (settle_row now ev db)"
      using settle_ok [OF Cons.prems(1,2) c(1), of now] c(2) by (auto simp: evidence_key_def)
    moreover obtain report' where "reconcile_loop now cancelled evs (settle_row now ev db, report') = (db', outcome)"
      using Cons.prems(4) False reconcile_row_settles [of now ev db report] by (metis prod.collapse reconcile_loop.simps(2))
    moreover have "set evs \<subseteq> map_evidence ` set (db_evidence (settle_row now ev db))"
      using Cons.prems(3) by (simp add: settle_map_evidence)
    ultimately have IH: "tables_ok db' \<and> edges_ok (insert ?key done) db' \<and> (outcome \<noteq> None \<longrightarrow>
        edges_ok (insert ?key done \<union> (\<lambda>ev. (ev_source ev, ev_locator ev)) ` set evs) db')"
      using Cons.IH [of "settle_row now ev db" "insert ?key done" report'] by blast
    moreover have "edges_ok done db'"
      using IH unfolding edges_ok_def by blast
    ultimately show ?thesis by simp
  qed (use Cons.prems in auto)
qed simp

lemma load_pending_stored: "set (load_pending db source) \<subseteq> map_evidence ` set (db_evidence db)"
  by (auto simp: load_pending_def)

lemma reconcile_rows_ok:
  assumes "graph_consistent db" and "set evs \<subseteq> map_evidence ` set (db_evidence db)"
  shows "graph_consistent (fst (reconcile_rows now cancelled evs db))"
  using reconcile_loop_ok [of db "{}" evs now cancelled] assms
  by (auto simp: graph_consistent_def reconcile_rows_def) (metis prod.collapse)+

section \<open>Capturing a transcript keeps the store graph_consistent\<close>

text \<open>The sessions whose events a capture may have replaced: those the locator named before and
  names now.\<close>

definition captured_identities ::
  "continuity_db \<Rightarrow> string \<Rightarrow> string \<Rightarrow> transcript_evidence option \<Rightarrow> (string \<times> string option) set" where
  "captured_identities db source locator evidence =
     set_option (stored_identity db source locator)
     \<union> (\<lambda>ev. (ev_session_id ev, evidence_origin ev)) ` set_option evidence"

definition same_elsewhere :: "string \<Rightarrow> string set \<Rightarrow> stored_event list \<Rightarrow> stored_event list \<Rightarrow> bool" where
  "same_elsewhere source sessions es es' \<longleftrightarrow>
     (\<forall>e. e_source e = source \<and> e_session_id e \<in> sessions \<or> (e \<in> set es \<longrightarrow> e \<in> set es'))"

lemma holds_elsewhere:
  "holds_record es src uuid s \<Longrightarrow> same_elsewhere source sessions es es'
    \<Longrightarrow> src \<noteq> source \<or> s \<notin> sessions \<Longrightarrow> holds_record es' src uuid s"
  unfolding holds_record_def same_elsewhere_def by blast

lemma evidence_at_key: "evidence_at source locator c \<longleftrightarrow> evidence_key c = (source, locator)"
  by (auto simp: evidence_at_def evidence_key_def)

lemma evidence_key_pair: "(v_source c, v_locator c) = evidence_key c"
  by (simp add: evidence_key_def)

lemma evidence_upsert_set:
  "distinct (map evidence_key rows)
    \<Longrightarrow> set (evidence_upsert new rows) = insert new {c \<in> set rows. evidence_key c \<noteq> evidence_key new}"
  by (induction rows) (auto simp: evidence_at_key evidence_key_pair image_iff)

lemma evidence_upsert_keys:
  "distinct (map evidence_key rows) \<Longrightarrow> distinct (map evidence_key (evidence_upsert new rows))"
  by (induction rows) (auto simp: evidence_at_key evidence_key_pair evidence_upsert_set image_iff)

lemma evidence_key_reopened [simp]:
  "evidence_key (reopened P c) = evidence_key c" "evidence_key \<circ> reopened P = evidence_key"
  by (simp_all add: evidence_key_def fun_eq_iff)

lemma stored_identity_Some:
  assumes "distinct (map evidence_key (db_evidence db))" and "c \<in> set (db_evidence db)"
    and "evidence_key c = (source, locator)"
  shows "stored_identity db source locator = Some (v_session_id c, v_origin_session_id c)"
proof -
  have "find (evidence_at source locator) rows = Some c"
    if "distinct (map evidence_key rows)" "c \<in> set rows" for rows
    using that assms(3) by (induction rows) (auto simp: evidence_at_def evidence_key_def image_iff)
  then show ?thesis using assms by (simp add: stored_identity_def)
qed

text \<open>The table after a capture, before the dependents are reopened: the rows of other keys, and
  the new row if there is one.\<close>

lemma captured_ok:
  assumes graph_consistent: "graph_consistent db"
    and ids: "ids \<supseteq> captured_identities db source locator evidence"
    and rows: "set rows = {c \<in> set (db_evidence db). evidence_key c \<noteq> (source, locator)} \<union> set_option new"
    and keys: "distinct (map evidence_key rows)"
    and new: "\<And>c. new = Some c \<Longrightarrow> evidence_key c = (source, locator) \<and> v_pending_reason c \<noteq> None
      \<and> v_origin_session_id c = evidence_origin (map_evidence c)
      \<and> (v_session_id c, v_origin_session_id c) \<in> ids"
    and rels: "set rels \<subseteq> set (db_relationships db)" "keys_unique rels"
    and gone: "new = None \<Longrightarrow> \<forall>r \<in> set rels. is_continuity r
      \<longrightarrow> \<not> (r_source r = source \<and> evidence_locator r = Some locator)"
    and events: "same_elsewhere source (fst ` ids) (db_events db) es"
    and db1: "db1 = \<lparr>db_relationships = rels, db_evidence = rows, db_events = es\<rparr>"
  shows "graph_consistent (db1\<lparr>db_evidence := map (reopened (reopens db1 source ids)) rows\<rparr>)"
    (is "graph_consistent ?db'")
proof -
  have tables: "keys_unique (db_relationships db)" "distinct (map evidence_key (db_evidence db))"
    "origins_stored db" and edges: "edges_ok {} db"
    using graph_consistent by (auto simp: graph_consistent_def tables_ok_def)
  have "tables_ok ?db'"
    using rels(2) keys tables(3) new
    by (auto simp: tables_ok_def db1 origins_stored_def rows)
  moreover have "\<exists>c \<in> set (db_evidence ?db'). cites r c
      \<and> (v_pending_reason c = None \<longrightarrow> justified ?db' (map_evidence c) r)"
    if r: "r \<in> set rels" "is_continuity r" for r
  proof -
    obtain c where c: "c \<in> set (db_evidence db)" "cites r c"
      and just: "v_pending_reason c = None \<Longrightarrow> justified db (map_evidence c) r"
      using edges r rels(1) unfolding edges_ok_def by blast
    show ?thesis
    proof (cases "evidence_key c = (source, locator)")
      case True
      then obtain n where n: "new = Some n"
        using gone r c(2) by (cases new) (auto simp: cites_def evidence_key_def)
      then have "n \<in> set rows" "v_pending_reason n \<noteq> None" "cites r n"
        using rows new [OF n] c(2) True by (auto simp: cites_def evidence_key_def)
      then show ?thesis by (auto simp: db1 cites_def reopened_pending intro!: bexI [of _ n])
    next
      case False
      let ?c = "reopened (reopens db1 source ids) c"
      have in_rows: "c \<in> set rows" using False c(1) rows by simp
      have "justified ?db' (map_evidence c) r" if unmarked: "v_pending_reason ?c = None"
      proof -
        have closed: "v_pending_reason c = None" "\<not> reopens db1 source ids c"
          using unmarked by (simp_all add: reopened_pending)
        show ?thesis
        proof (rule justified_cong [OF just [OF closed(1)]])
          fix uuid
          assume "holds_record (db_events db) (ev_source (map_evidence c)) uuid (parent_session_id r)"
          moreover have "v_source c \<noteq> source \<or> parent_session_id r \<notin> fst ` ids"
            using closed(2) r c(2)
            by (auto simp: reopens_def db1 is_continuity_def cites_def)
          ultimately show "holds_record (db_events ?db') (ev_source (map_evidence c)) uuid (parent_session_id r)"
            using holds_elsewhere [OF _ events] by (simp add: db1)
        next
          let ?origin = "parent_session_id r"
          assume "branches db (ev_source (map_evidence c)) ?origin"
            and "evidence_origin (map_evidence c) = Some ?origin"
          moreover from this have "v_origin_session_id c = Some ?origin"
            using tables(3) c(1) by (simp add: origins_stored_def)
          then have free: "v_source c \<noteq> source \<or> (\<forall>(s, origin) \<in> ids. origin \<noteq> Some ?origin)"
            using closed(2) by (auto simp: reopens_def)
          have old: "evidence_key d \<noteq> (source, locator)"
            if "d \<in> set (db_evidence db)" "v_source d = v_source c" "v_origin_session_id d = Some ?origin" for d
            using free that ids stored_identity_Some [OF tables(2) that(1), of source locator]
            by (auto simp: captured_identities_def evidence_key_def)
          have fresh: "\<not> (v_source d = v_source c \<and> v_origin_session_id d = Some ?origin)"
            if "new = Some d" for d
            using free new [OF that] by (auto simp: evidence_key_def)
          have "{d \<in> set (db_evidence db). v_source d = v_source c \<and> v_origin_session_id d = Some ?origin}
            = {d \<in> set (db_evidence db1). v_source d = v_source c \<and> v_origin_session_id d = Some ?origin}"
            using old fresh by (auto simp: db1 rows)
          then have "branches db (v_source c) ?origin = branches db1 (v_source c) ?origin"
            by (intro branches_cong) simp
          moreover have "branches ?db' = branches db1"
            by (rule keeps_columns_branches [of "reopened (reopens db1 source ids)"])
               (simp_all add: keeps_columns_def db1)
          ultimately show "branches ?db' (ev_source (map_evidence c)) ?origin"
            by simp
        qed
      qed
      then show ?thesis
        using in_rows c(2) by (auto simp: db1 cites_def intro!: bexI [of _ c])
    qed
  qed
  ultimately show ?thesis by (simp add: graph_consistent_def edges_ok_def db1)
qed

end
