(* ===== verification/ContinuitySteps.thy ===== *)
theory ContinuitySteps
  imports ContinuityInvariant
begin

text \<open>
  The life of the continuity tables as a step relation: captures, passes, observations of other
  relationships and deleted sessions, in any order, each with the event writes that come with it.
  What holds of every store reached, and of the graph after a pass.
\<close>

section \<open>What is stored is what is read\<close>

lemma number_i64_roundtrip:
  assumes "- (2 ^ 63) \<le> i" and "i < 2 ^ 63"
  shows "as_i64 (JNumber (number_of_i64 i)) = Some i"
proof (cases "0 \<le> i")
  case True
  then have "uint (word_of_int i :: 64 word) = i"
    using assms by (simp add: uint_word_of_int)
  then show ?thesis using True assms by (simp add: number_of_i64_def)
qed (simp add: number_of_i64_def)

definition i64_values :: "(string \<times> int) list \<Rightarrow> bool" where
  "i64_values m \<longleftrightarrow> (\<forall>(t, ms) \<in> set m. - (2 ^ 63) \<le> ms \<and> ms < 2 ^ 63)"

lemma map_filter_strings: "List.map_filter as_str (map JString xs) = xs"
  by (induction xs) simp_all

lemma map_filter_refs:
  "List.map_filter (\<lambda>(t, f). map_option (Pair t) (as_str f)) (map (\<lambda>(t, f). (t, JString f)) refs) = refs"
  by (induction refs) auto

lemma map_filter_times:
  "i64_values m \<Longrightarrow> List.map_filter (\<lambda>(t, ms). map_option (Pair t) (as_i64 ms))
     (map (\<lambda>(t, ms). (t, JNumber (number_of_i64 ms))) m) = m"
  by (induction m) (auto simp: i64_values_def number_i64_roundtrip)

lemma targets_get:
  "json_get (explicit_targets_json ev) ''continuation'' = Some (JArray (map JString (ev_continuation_targets ev)))"
  "json_get (explicit_targets_json ev) ''fork'' = Some (JArray (map JString (ev_fork_targets ev)))"
  "json_get (explicit_targets_json ev) ''fork_refs'' =
     Some (JObject (map (\<lambda>(t, f). (t, JString f)) (ev_fork_refs ev)))"
  "json_get (explicit_targets_json ev) ''continuation_ts_ms'' =
     Some (JObject (map (\<lambda>(t, ms). (t, JNumber (number_of_i64 ms))) (ev_continuation_ts_ms ev)))"
  "json_get (explicit_targets_json ev) ''fork_ts_ms'' =
     Some (JObject (map (\<lambda>(t, ms). (t, JNumber (number_of_i64 ms))) (ev_fork_ts_ms ev)))"
  "json_get (explicit_targets_json ev) ''source'' =
     Some (case ev_source_session_id ev of None \<Rightarrow> JNull | Some s \<Rightarrow> JString s)"
  by (simp_all add: json_get_def explicit_targets_json_def)

lemma evidence_roundtrip:
  assumes "i64_values (ev_continuation_ts_ms ev)" and "i64_values (ev_fork_ts_ms ev)"
  shows "map_evidence (row_of_evidence now ev) = ev"
  using assms
  by (cases "ev_source_session_id ev")
     (simp_all add: map_evidence_def row_of_evidence_def string_array_def ts_map_def targets_get
       map_filter_strings map_filter_refs map_filter_times)

lemma evidence_origin_cong:
  "ev_session_id a = ev_session_id b \<Longrightarrow> ev_file_session_id a = ev_file_session_id b
    \<Longrightarrow> ev_source_session_id a = ev_source_session_id b \<Longrightarrow> evidence_origin a = evidence_origin b"
  by (simp add: evidence_origin_def explicit_origin_def split: option.split)

lemma stored_origin: "evidence_origin (map_evidence (row_of_evidence now ev)) = evidence_origin ev"
proof (rule evidence_origin_cong)
  show "ev_source_session_id (map_evidence (row_of_evidence now ev)) = ev_source_session_id ev"
    by (cases "ev_source_session_id ev") (simp_all add: map_evidence_def row_of_evidence_def targets_get Let_def)
qed (simp_all add: map_evidence_def row_of_evidence_def Let_def)

section \<open>The operations keep the store graph_consistent\<close>

lemma known_identities:
  "set (List.map_filter id [previous, Some x]) = set_option previous \<union> {x}"
  by (cases previous) (simp_all add: insert_commute)

lemma known_identity: "set (List.map_filter id [previous]) = set_option previous"
  by (cases previous) simp_all

lemma stored_identity_view [simp]: "stored_identity (db\<lparr>db_events := es\<rparr>) = stored_identity db"
  by (simp add: fun_eq_iff stored_identity_def)

lemma record_evidence_ok:
  assumes "graph_consistent db"
    and "same_elsewhere (ev_source ev)
      (fst ` captured_identities db (ev_source ev) (ev_locator ev) (Some ev)) (db_events db) es"
  shows "graph_consistent (record_evidence now ev (db\<lparr>db_events := es\<rparr>))"
proof -
  let ?new = "row_of_evidence now ev"
  let ?rows = "evidence_upsert ?new (db_evidence db)"
  let ?ids = "captured_identities db (ev_source ev) (ev_locator ev) (Some ev)"
  let ?db1 = "\<lparr>db_relationships = db_relationships db, db_evidence = ?rows, db_events = es\<rparr>"
  have keys: "distinct (map evidence_key (db_evidence db))" and unique: "keys_unique (db_relationships db)"
    using assms(1) by (auto simp: graph_consistent_def tables_ok_def)
  have new: "evidence_key ?new = (ev_source ev, ev_locator ev)"
    by (simp add: evidence_key_def row_of_evidence_def)
  have "graph_consistent (?db1\<lparr>db_evidence := map (reopened (reopens ?db1 (ev_source ev) ?ids)) ?rows\<rparr>)"
  proof (rule captured_ok [where new = "Some ?new", OF assms(1) order_refl _ _ _ order_refl unique _ assms(2) refl])
    show "set ?rows = {c \<in> set (db_evidence db). evidence_key c \<noteq> (ev_source ev, ev_locator ev)}
        \<union> set_option (Some ?new)"
      by (simp add: evidence_upsert_set [OF keys] new)
    show "distinct (map evidence_key ?rows)" by (rule evidence_upsert_keys [OF keys])
    show "evidence_key c = (ev_source ev, ev_locator ev) \<and> v_pending_reason c \<noteq> None
        \<and> v_origin_session_id c = evidence_origin (map_evidence c)
        \<and> (v_session_id c, v_origin_session_id c) \<in> ?ids" if "Some ?new = Some c" for c
      using that stored_origin [of now ev]
      by (auto simp: evidence_key_def captured_identities_def) (simp_all add: row_of_evidence_def)
  qed simp_all
  moreover have db1: "db\<lparr>db_events := es, db_evidence := rs\<rparr> = ?db1\<lparr>db_evidence := rs\<rparr>" for rs
    by (cases db) simp
  moreover have "?ids = set (List.map_filter id
      [stored_identity db (ev_source ev) (ev_locator ev), Some (ev_session_id ev, evidence_origin ev)])"
    unfolding known_identities by (simp add: captured_identities_def)
  ultimately show ?thesis
    by (simp add: record_evidence_def reopen_dependents_eq db1 Let_def del: List.map_filter_simps)
qed

lemma clear_evidence_ok:
  assumes "graph_consistent db"
    and "same_elsewhere source (fst ` captured_identities db source locator None) (db_events db) es"
  shows "graph_consistent (clear_evidence source locator (db\<lparr>db_events := es\<rparr>))"
proof -
  let ?rels = "filter (\<lambda>r. \<not> retracts source locator [] r) (db_relationships db)"
  let ?rows = "filter (\<lambda>c. \<not> evidence_at source locator c) (db_evidence db)"
  let ?ids = "captured_identities db source locator None"
  let ?db1 = "\<lparr>db_relationships = ?rels, db_evidence = ?rows, db_events = es\<rparr>"
  have keys: "distinct (map evidence_key (db_evidence db))" and unique: "keys_unique (db_relationships db)"
    using assms(1) by (auto simp: graph_consistent_def tables_ok_def)
  have "graph_consistent (?db1\<lparr>db_evidence := map (reopened (reopens ?db1 source ?ids)) ?rows\<rparr>)"
  proof (rule captured_ok [where new = None, OF assms(1) order_refl _ _ _ _ _ _ assms(2) refl])
    show "distinct (map evidence_key ?rows)" using keys by (simp add: distinct_map_filter)
    show "keys_unique ?rels" using unique by (simp add: keys_unique_def distinct_map_filter)
    show "\<forall>r \<in> set ?rels. is_continuity r \<longrightarrow> \<not> (r_source r = source \<and> evidence_locator r = Some locator)"
      by (auto simp: retracts_def is_continuity_def)
  qed (auto simp: evidence_at_key)
  moreover have db1: "db\<lparr>db_events := es, db_relationships := ?rels, db_evidence := rs\<rparr> = ?db1\<lparr>db_evidence := rs\<rparr>"
    for rs by (cases db) simp
  moreover have "?ids = set (List.map_filter id [stored_identity db source locator])"
    unfolding known_identity by (simp add: captured_identities_def)
  ultimately show ?thesis
    by (simp add: clear_evidence_def reopen_dependents_eq retract_edges_def db1 stored_identity_def Let_def
        del: List.map_filter_simps)
qed

text \<open>Observations of other relationships.\<close>

lemma observe_ok:
  assumes "graph_consistent db" and "o_relationship obs \<notin> set CONTINUITY_RELATIONSHIPS"
  shows "graph_consistent (db\<lparr>db_relationships :=
    snd (record_relationship_with_child_model_mode now replace obs (active, db_relationships db))\<rparr>)"
    (is "graph_consistent ?db'")
proof -
  have unique: "keys_unique (db_relationships db)"
    using assms(1) by (simp add: graph_consistent_def tables_ok_def)
  have old: "r \<in> set (db_relationships db)" if "r \<in> set (db_relationships ?db')" "is_continuity r" for r
    using mode_rows [OF unique, of r now replace obs active] that assms(2)
    by (auto simp: carries_def is_continuity_def)
  have "tables_ok ?db'"
    using assms(1) mode_unique [OF unique] by (simp add: graph_consistent_def tables_ok_def origins_stored_def)
  moreover have "justified ?db' = justified db"
    by (simp add: fun_eq_iff justified_def branches_def cong: option.case_cong)
  ultimately show ?thesis
    using assms(1) old by (fastforce simp: graph_consistent_def edges_ok_def)
qed

text \<open>A deleted session takes its edges, and those it parents reopen; its events may go.\<close>

lemma delete_session_ok:
  assumes "graph_consistent db" and "same_elsewhere source {session} (db_events db) es"
  shows "graph_consistent (delete_session_edges source session (db\<lparr>db_events := es\<rparr>))"
    (is "graph_consistent ?db'")
proof -
  define cited where "cited = List.map_filter (\<lambda>r. if touches source session r
      \<and> relationship r \<in> set CONTINUITY_RELATIONSHIPS then evidence_locator r else None) (db_relationships db)"
  define f :: "evidence_row \<Rightarrow> evidence_row"
    where "f = (\<lambda>row. if v_source row = source \<and> v_locator row \<in> set cited
      then row\<lparr>v_pending_reason := Some UNRECONCILED\<rparr> else row)"
  have evidence: "db_evidence ?db' = map f (db_evidence db)"
    by (simp add: delete_session_edges_def Let_def f_def cited_def)
  have rels: "db_relationships ?db' = filter (\<lambda>r. \<not> touches source session r) (db_relationships db)"
    by (simp add: delete_session_edges_def Let_def)
  have es: "db_events ?db' = es" by (simp add: delete_session_edges_def Let_def)
  have f: "keeps_columns f" by (auto simp: keeps_columns_def f_def map_evidence_def)
  have tables: "tables_ok db" and edges: "edges_ok {} db" using assms(1) by (auto simp: graph_consistent_def)
  have "tables_ok ?db'"
    by (rule keeps_columns_tables [OF f evidence _ tables])
       (use tables in \<open>simp add: rels tables_ok_def keys_unique_def distinct_map_filter\<close>)
  moreover have "\<exists>c \<in> set (db_evidence ?db'). cites r c
      \<and> (v_pending_reason c = None \<longrightarrow> justified ?db' (map_evidence c) r)"
    if r: "r \<in> set (db_relationships ?db')" "is_continuity r" for r
  proof -
    have "r \<in> set (db_relationships db)" using r(1) by (simp add: rels)
    then obtain c where c: "c \<in> set (db_evidence db)" "cites r c"
      and just: "v_pending_reason c = None \<Longrightarrow> justified db (map_evidence c) r"
      using edges r(2) unfolding edges_ok_def by blast
    have "justified ?db' (map_evidence c) r" if "v_pending_reason (f c) = None"
    proof (rule justified_cong [OF just])
      show "v_pending_reason c = None" using that by (auto simp: f_def split: if_splits)
      fix uuid
      assume "holds_record (db_events db) (ev_source (map_evidence c)) uuid (parent_session_id r)"
      moreover have "v_source c \<noteq> source \<or> parent_session_id r \<notin> {session}"
        using r c(2) by (auto simp: rels touches_def cites_def)
      ultimately show "holds_record (db_events ?db') (ev_source (map_evidence c)) uuid (parent_session_id r)"
        using holds_elsewhere [OF _ assms(2)] by (simp add: es)
    qed (simp add: keeps_columns_branches [OF f evidence])
    then show ?thesis
      using c f keeps_columns_key [OF f, of c]
      by (auto simp: evidence keeps_columns_def cites_def intro!: bexI [of _ c])
  qed
  ultimately show ?thesis by (simp add: graph_consistent_def edges_ok_def)
qed

section \<open>Reachable stores\<close>

definition empty_store :: continuity_db where
  "empty_store = \<lparr>db_relationships = [], db_evidence = [], db_events = []\<rparr>"

text \<open>A capture comes with the events it writes: those of the session the transcript named before
  and names now may be replaced, events of other sessions may only arrive.\<close>

inductive continuity_step :: "continuity_db \<Rightarrow> continuity_db \<Rightarrow> bool" where
  captured: "(\<forall>ev \<in> set_option evidence. ev_source ev = source \<and> ev_locator ev = locator)
    \<Longrightarrow> same_elsewhere source (fst ` captured_identities db source locator evidence) (db_events db) es
    \<Longrightarrow> continuity_step db (capture now source locator evidence (db\<lparr>db_events := es\<rparr>))"
| indexed: "continuity_step db (db\<lparr>db_events := db_events db @ es\<rparr>)"
| reconciled: "continuity_step db (fst (reconcile now cancelled source db))"
| reconciled_captured:
    "continuity_step db (fst (reconcile_captured now cancelled order source locator scope db))"
| observed: "o_relationship obs \<notin> set CONTINUITY_RELATIONSHIPS
    \<Longrightarrow> continuity_step db (db\<lparr>db_relationships :=
      snd (record_relationship_with_child_model_mode now replace obs (active, db_relationships db))\<rparr>)"
| session_deleted: "same_elsewhere source {session} (db_events db) es
    \<Longrightarrow> continuity_step db (delete_session_edges source session (db\<lparr>db_events := es\<rparr>))"

inductive reachable_store :: "continuity_db \<Rightarrow> bool" where
  start: "reachable_store empty_store"
| step: "reachable_store db \<Longrightarrow> continuity_step db db' \<Longrightarrow> reachable_store db'"

inductive_cases continuity_stepE: "continuity_step db db'"

lemma captured_rows_stored:
  "set (List.map_filter (\<lambda>key. map_option map_evidence
      (find (\<lambda>c. evidence_at source key c \<and> v_pending_reason c \<noteq> None) (db_evidence db))) keys)
    \<subseteq> map_evidence ` set (db_evidence db)"
  by (auto simp: set_map_filter find_Some_iff)

lemma indexed_ok: "graph_consistent db \<Longrightarrow> graph_consistent (db\<lparr>db_events := db_events db @ es\<rparr>)"
proof -
  assume ok: "graph_consistent db"
  have "justified (db\<lparr>db_events := db_events db @ es\<rparr>) m r" if "justified db m r" for m r
    by (rule justified_cong [OF that]) (auto simp: holds_record_def branches_def fork_group_def)
  then show ?thesis
    using ok by (fastforce simp: graph_consistent_def tables_ok_def origins_stored_def edges_ok_def)
qed

lemma step_ok: "continuity_step db db' \<Longrightarrow> graph_consistent db \<Longrightarrow> graph_consistent db'"
proof (induction rule: continuity_step.induct)
  case (captured evidence source locator db es now)
  then show ?case
    by (cases evidence) (auto simp: capture_def record_evidence_ok clear_evidence_ok)
next
  case (reconciled db now cancelled source)
  then show ?case by (simp add: reconcile_def reconcile_rows_ok load_pending_stored)
next
  case (reconciled_captured db now cancelled order source locator scope)
  then show ?case
    unfolding reconcile_captured_def Let_def by (intro reconcile_rows_ok captured_rows_stored)
qed (simp_all add: indexed_ok observe_ok delete_session_ok)

lemma reachable_consistent: "reachable_store db \<Longrightarrow> graph_consistent db"
  by (induction rule: reachable_store.induct)
     (simp_all add: step_ok, simp add: empty_store_def graph_consistent_def tables_ok_def keys_unique_def
       origins_stored_def edges_ok_def)

section \<open>The properties of the graph\<close>


definition sample_evidence :: "string \<Rightarrow> string \<Rightarrow> string option \<Rightarrow> transcript_evidence" where
  "sample_evidence locator session target =
     \<lparr>ev_source = ''claude'', ev_locator = locator, ev_session_id = session,
      ev_file_session_id = Some session, ev_first_parent_uuid = None, ev_first_ts_ms = Some 1,
      ev_in_log_session_ids = [session], ev_has_resume_marker = target \<noteq> None,
      ev_resume_target = target, ev_continuation_targets = [], ev_fork_targets = [],
      ev_fork_refs = [], ev_continuation_ts_ms = [], ev_fork_ts_ms = [],
      ev_source_session_id = None, ev_source_version = None\<rparr>"

definition sample_graph :: continuity_db where
  "sample_graph = capture 1 ''claude'' ''s.jsonl'' (Some (sample_evidence ''s.jsonl'' ''s'' (Some ''p'')))
     empty_store"

lemma capture_reachable:
  assumes "reachable_store db" and "ev_source ev = source" and "ev_locator ev = locator"
  shows "reachable_store (capture now source locator (Some ev) db)"
proof -
  have "continuity_step db (capture now source locator (Some ev) (db\<lparr>db_events := db_events db\<rparr>))"
    using assms(2,3) by (intro captured) (auto simp: same_elsewhere_def)
  then show ?thesis using step [OF assms(1)] by simp
qed

lemma clear_reachable:
  assumes "reachable_store db"
  shows "reachable_store (capture now source locator None db)"
proof -
  have "continuity_step db (capture now source locator None (db\<lparr>db_events := db_events db\<rparr>))"
    by (intro captured) (auto simp: same_elsewhere_def)
  then show ?thesis using step [OF assms] by simp
qed

lemma sample_reachable: "reachable_store sample_graph"
  by (simp add: sample_graph_def capture_reachable start sample_evidence_def)

text \<open>The store after a pass over one transcript that resumes \<open>p\<close>.\<close>

definition sample_settled :: continuity_db where
  "sample_settled = fst (reconcile 2 (\<lambda>_. False) ''claude'' sample_graph)"

lemma sample_settled_reachable: "reachable_store sample_settled"
  unfolding sample_settled_def by (rule step [OF sample_reachable reconciled])

lemma sample_settled_rows:
  "map (\<lambda>r. (is_continuity r, r_source r)) (db_relationships sample_settled) = [(True, ''claude'')]"
  "map v_pending_reason (db_evidence sample_settled) = [None]"
  by (code_simp, code_simp)

lemma sample_settled_edge: "\<exists>r \<in> set (db_relationships sample_settled). is_continuity r \<and> r_source r = ''claude''"
  using sample_settled_rows(1) by (auto simp: map_eq_Cons_conv)


text \<open>A row of another transcript is not touched; a loop that is not cancelled ends.\<close>

lemma settle_elsewhere:
  assumes "c \<in> set (db_evidence (settle_row now ev db))" and "evidence_key c \<noteq> (ev_source ev, ev_locator ev)"
  shows "c \<in> set (db_evidence db)"
  using assms settle_evidence [of now ev db] keeps_columns_key by (fastforce simp: evidence_key_def)

lemma reconcile_loop_Cons:
  "\<not> cancelled ev \<Longrightarrow> \<exists>report'. reconcile_loop now cancelled (ev # evs) (db, report)
     = reconcile_loop now cancelled evs (settle_row now ev db, report')"
  using reconcile_row_settles [of now ev db report] by (metis prod.collapse reconcile_loop.simps(2))

lemma loop_elsewhere:
  assumes "reconcile_loop now cancelled evs (db, report) = (db', outcome)" and "c \<in> set (db_evidence db')"
    and "evidence_key c \<notin> (\<lambda>ev. (ev_source ev, ev_locator ev)) ` set evs"
  shows "c \<in> set (db_evidence db)"
  using assms
proof (induction evs arbitrary: db report)
  case (Cons ev evs)
  show ?case
  proof (cases "cancelled ev")
    case False
    then obtain report' where
      "reconcile_loop now cancelled evs (settle_row now ev db, report') = (db', outcome)"
      using reconcile_loop_Cons [of cancelled ev now evs db report] Cons.prems(1) by auto
    then have "c \<in> set (db_evidence (settle_row now ev db))" using Cons by simp
    then show ?thesis using settle_elsewhere [of c now ev db] Cons.prems(3) by simp
  qed (use Cons.prems in simp)
qed simp

lemma uncancelled: "snd (reconcile now (\<lambda>_. False) source db) \<noteq> None"
proof -
  have "snd (reconcile_loop now (\<lambda>_. False) evs st) \<noteq> None" for evs st
    by (induction evs arbitrary: st) (auto simp: split_paired_all, metis prod.collapse option.distinct(1))
  then show ?thesis by (simp add: reconcile_def reconcile_rows_def)
qed

lemma pending_settled:
  assumes "reconcile now cancelled source db = (db', outcome)" and "c \<in> set (db_evidence db')"
    and "v_source c = source"
  shows "v_pending_reason c = None
    \<or> evidence_key c \<in> (\<lambda>ev. (ev_source ev, ev_locator ev)) ` set (load_pending db source)"
proof (rule ccontr)
  assume not: "\<not> ?thesis"
  then have "c \<in> set (db_evidence db)"
    using loop_elsewhere [OF _ assms(2)] assms(1) by (auto simp: reconcile_def reconcile_rows_def)
  then have "map_evidence c \<in> set (load_pending db source)"
    using not assms(3) by (auto simp: load_pending_def)
  then show False using not by (force simp: evidence_key_def)
qed



end
