(* ===== verification/ContinuityComplete.thy ===== *)
theory ContinuityComplete
  imports ContinuitySteps
begin

text \<open>
  What a pass delivers: every transcript it considers ends with the edges its evidence states or
  resolves and with the reasons it still waits for. A transcript whose parent record has just been
  indexed is found by the scoped pass. Last, an edge that two transcripts share is lost with one.
\<close>

section \<open>Lineage rests on evidence and events\<close>

lemma holding_events: "db_events db' = db_events db \<Longrightarrow> session_holding_record db' = session_holding_record db"
  by (simp add: fun_eq_iff session_holding_record_def)

lemma lineage_events:
  assumes "db_events db' = db_events db"
  shows "lineage_edges db' = lineage_edges db" and "waits_for_parent db' = waits_for_parent db"
  by (intro ext; simp add: lineage_edges_def parent_edges_def waits_for_parent_def
      holding_events [OF assms] cong: option.case_cong)+

lemma settle_branches [simp]: "branches (settle_row now ev db) = branches db"
  using settle_evidence [of now ev db] keeps_columns_branches by metis

lemma settle_lineage [simp]:
  "lineage_edges (settle_row now ev db) = lineage_edges db"
  "row_reasons (settle_row now ev db) = row_reasons db"
proof -
  show "lineage_edges (settle_row now ev db) = lineage_edges db" by (rule lineage_events) simp
  then show "row_reasons (settle_row now ev db) = row_reasons db"
    by (intro ext) (simp add: row_reasons_def lineage_events(2) [of "settle_row now ev db" db]
        cong: option.case_cong)
qed

lemma lineage_child:
  "e \<in> set (lineage_edges db ev) \<Longrightarrow> g_child_session_id e = Some (ev_session_id ev)
    \<and> g_relationship e \<in> set CONTINUITY_RELATIONSHIPS"
  by (auto simp: lineage_edges_def stated_edges_def explicit_edges_def resume_edges_def
      parent_edges_def source_edges_def continuation_edge_def fork_edge_def resume_edge_def
      parent_edge_def source_edge_def CONTINUITY_RELATIONSHIPS_def split: if_splits option.splits)

section \<open>Keys\<close>

lemma uid_split:
  assumes "rel @ '':'' @ x = rel' @ '':'' @ y"
    and "rel \<in> set CONTINUITY_RELATIONSHIPS" and "rel' \<in> set CONTINUITY_RELATIONSHIPS"
  shows "rel = rel' \<and> x = y"
  using assms
  by (auto simp: CONTINUITY_RELATIONSHIPS_def RELATIONSHIP_CONTINUATION_def RELATIONSHIP_FORK_def
      RELATIONSHIP_RESUME_def)

definition pair_key :: "transcript_evidence \<times> continuity_edge \<Rightarrow> string \<times> string \<times> string" where
  "pair_key me = (ev_source (fst me), g_parent_session_id (snd me), edge_uid (fst me) (snd me))"

text \<open>An unlinked branch is keyed by the name of its file. Where that is a session id, its row is
  the one a linked fork of that session from the same conversation would have.\<close>

definition branch_filed_as :: "continuity_db \<Rightarrow> string \<Rightarrow> string \<Rightarrow> string \<Rightarrow> bool" where
  "branch_filed_as db source parent child \<longleftrightarrow>
     (\<exists>c \<in> set (db_evidence db). v_source c = source \<and> v_session_id c = parent
        \<and> v_origin_session_id c = Some parent \<and> branch_label (map_evidence c) = child)"

definition own_key :: "continuity_db \<Rightarrow> string \<times> string \<times> string \<Rightarrow> bool" where
  "own_key db k \<longleftrightarrow>
     (case k of (source, parent, uid) \<Rightarrow> \<forall>child. uid = RELATIONSHIP_FORK @ '':'' @ child
        \<longrightarrow> \<not> branch_filed_as db source parent child)"

lemma settle_filed [simp]: "own_key (settle_row now ev db) = own_key db"
proof -
  obtain f where f: "keeps_columns f" "db_evidence (settle_row now ev db) = map f (db_evidence db)"
    using settle_evidence [of now ev db] by auto
  have "v_source (f c) = v_source c" "v_session_id (f c) = v_session_id c" for c
    using f(1) map_evidence_key unfolding keeps_columns_def by metis+
  then have "branch_filed_as (settle_row now ev db) = branch_filed_as db"
    using f by (simp add: fun_eq_iff branch_filed_as_def keeps_columns_def)
  then show ?thesis by (simp add: fun_eq_iff own_key_def)
qed

lemma own_key_lineage:
  assumes "(m, e) \<in> set (row_edges db ev)" and "own_key db (pair_key (m, e))" and "tables_ok db"
  shows "m = ev \<and> e \<in> set (lineage_edges db ev)"
proof -
  have "(m, e) \<notin> set (group_edges db ev)"
  proof
    assume group: "(m, e) \<in> set (group_edges db ev)"
    then obtain origin where o: "ev_session_id m = origin" "e = shared_edge origin m"
      "m \<in> set (fork_group db (ev_source ev) origin)"
      using group_edges_member [OF group] assms(3) by (auto simp: tables_ok_def)
    then have "branch_filed_as db (ev_source m) origin (branch_label m)"
      by (auto simp: branch_filed_as_def fork_group_set)
    with o assms(2) show False
      by (auto simp: own_key_def pair_key_def edge_uid_def shared_edge_def)
  qed
  then show ?thesis using assms(1) by (auto simp: row_edges_def)
qed

section \<open>The edges of a pass stay\<close>

text \<open>A row at the key, written for a lineage edge of a transcript already done.\<close>

definition delivered :: "continuity_db \<Rightarrow> (string \<times> string) set \<Rightarrow> string \<times> string \<times> string \<Rightarrow> continuity_db \<Rightarrow> bool" where
  "delivered db0 done k db \<longleftrightarrow>
     (\<exists>r \<in> set (db_relationships db). \<exists>m e. row_of_edge m e r \<and> e \<in> set (lineage_edges db0 m)
        \<and> pair_key (m, e) = k \<and> (ev_source m, ev_locator m) \<in> done)"

abbreviation transcript_key :: "transcript_evidence \<Rightarrow> string \<times> string" where
  "transcript_key ev \<equiv> (ev_source ev, ev_locator ev)"

lemma settle_relationships:
  "db_relationships (settle_row now ev db) =
     filter (\<lambda>r. \<not> retracts (ev_source ev) (ev_locator ev) (row_written db ev) r)
       (db_relationships (write_edges now (row_edges db ev) db))"
  by (simp add: settle_row_def set_pending_def retract_edges_def)

lemma written_lineage:
  assumes "e \<in> set (lineage_edges db ev)" and "row_of_edge ev e r"
  shows "\<not> retracts (ev_source ev) (ev_locator ev) (row_written db ev) r"
proof -
  have "edge_key (ev, e) \<in> set (row_written db ev)"
    using assms(1) by (auto simp: row_written_def row_edges_def)
  then show ?thesis using assms(2) by (auto simp: retracts_def row_of_edge_def edge_key_def relationship_key_def)
qed

lemma settle_delivers:
  assumes tables: "tables_ok db" and key: "own_key db k"
    and pair: "(m, e) \<in> set (row_edges db ev)" "pair_key (m, e) = k"
    and origin: "db_events db = db_events db0"
  shows "delivered db0 (insert (transcript_key ev) done) k (settle_row now ev db)"
proof -
  let ?obs = "\<lambda>(m, e). edge_observed db m e"
  have own: "m' = ev \<and> e' \<in> set (lineage_edges db ev)"
    if "(m', e') \<in> set (row_edges db ev)" "pair_key (m', e') = k" for m' e'
    using own_key_lineage [OF that(1) _ tables] key that(2) by simp
  have keys: "observed_key (edge_observed db m' e') = pair_key (m', e')" for m' e'
    by (simp add: pair_key_def)
  have "\<exists>r \<in> set (fold (record_relationship now) (map ?obs (row_edges db ev)) (db_relationships db)).
      \<exists>obs \<in> set (map ?obs (row_edges db ev)). observed_key obs = k \<and> carries obs r"
  proof (rule record_all_has [where obs = "edge_observed db m e"])
    show "\<forall>obs' \<in> set (map ?obs (row_edges db ev)). observed_key obs' = k \<longrightarrow> o_child_session_id obs' \<noteq> None"
      using own lineage_child by (fastforce simp: keys simp del: observed_key_edge)
  qed (use pair in \<open>auto simp: keys image_iff simp del: observed_key_edge intro!: bexI [of _ "(m, e)"]\<close>)
  then obtain r m' e' where r: "r \<in> set (db_relationships (write_edges now (row_edges db ev) db))"
    "(m', e') \<in> set (row_edges db ev)" "pair_key (m', e') = k" "row_of_edge m' e' r"
    by (auto simp: write_all_relationships keys simp del: observed_key_edge dest: carries_edge)
  with own [OF r(2,3)] written_lineage [of e' db ev r] lineage_events(1) [OF origin]
  show ?thesis unfolding delivered_def by (auto simp: settle_relationships intro!: bexI [of _ r])
qed

lemma settle_keeps_delivered:
  assumes tables: "tables_ok db" and key: "own_key db k" and fresh: "transcript_key ev \<notin> done"
    and delivered: "delivered db0 done k db" and origin: "db_events db = db_events db0"
  shows "delivered db0 (insert (transcript_key ev) done) k (settle_row now ev db)"
proof (cases "\<exists>(m, e) \<in> set (row_edges db ev). pair_key (m, e) = k")
  case True
  then show ?thesis using settle_delivers [OF tables key _ _ origin] by auto
next
  case False
  obtain r m e where r: "r \<in> set (db_relationships db)" "row_of_edge m e r" "e \<in> set (lineage_edges db0 m)"
    "pair_key (m, e) = k" "transcript_key m \<in> done"
    using delivered by (auto simp: delivered_def)
  have "r \<in> set (db_relationships (write_edges now (row_edges db ev) db))"
    unfolding write_all_relationships
  proof (rule record_all_keeps [OF r(1)])
    show "relationship_key r \<notin> observed_key ` set (map (\<lambda>(m, e). edge_observed db m e) (row_edges db ev))"
      using False r(2,4) by (fastforce simp: row_of_edge_def pair_key_def)
    show "identity_status r = IDENTITY_OBSERVED"
      using r(2) lineage_child [OF r(3)] by (simp add: row_of_edge_def)
  qed
  moreover have "\<not> retracts (ev_source ev) (ev_locator ev) (row_written db ev) r"
    using r(2,5) fresh by (auto simp: retracts_def row_of_edge_def relationship_key_def)
  ultimately show ?thesis
    using r unfolding delivered_def settle_relationships by (intro bexI [of _ r]) auto
qed

section \<open>The outcome of a pass\<close>

definition reason_of :: "continuity_db \<Rightarrow> transcript_evidence \<Rightarrow> string option" where
  "reason_of db ev =
     (if row_reasons db ev = [] then None else Some (join_with ''; '' (row_reasons db ev)))"

definition marked :: "continuity_db \<Rightarrow> transcript_evidence \<Rightarrow> continuity_db \<Rightarrow> bool" where
  "marked db0 ev db \<longleftrightarrow> (\<exists>c \<in> set (db_evidence db). map_evidence c = ev \<and> v_pending_reason c = reason_of db0 ev)"

lemma settle_db_evidence:
  "db_evidence (settle_row now ev db) = map (\<lambda>row. if evidence_key row = transcript_key ev
     then row\<lparr>v_pending_reason := reason_of db ev, v_updated_ms := now\<rparr> else row) (db_evidence db)"
  by (simp add: settle_row_def set_pending_def retract_edges_def reason_of_def evidence_at_key)

lemma map_evidence_pending [simp]:
  "map_evidence (c\<lparr>v_pending_reason := p, v_updated_ms := t\<rparr>) = map_evidence c"
  by (simp add: map_evidence_def)

lemma settle_marks:
  assumes "ev \<in> map_evidence ` set (db_evidence db)"
  shows "marked db ev (settle_row now ev db)"
proof -
  obtain c where "c \<in> set (db_evidence db)" "map_evidence c = ev" using assms by auto
  then show ?thesis
    by (auto simp: marked_def settle_db_evidence evidence_key_def
        intro!: bexI [of _ "c\<lparr>v_pending_reason := reason_of db ev, v_updated_ms := now\<rparr>"] image_eqI [of _ _ c])
qed

lemma settle_keeps_marked:
  assumes "marked db0 ev db" and "transcript_key ev' \<noteq> transcript_key ev"
  shows "marked db0 ev (settle_row now ev' db)"
proof -
  obtain c where "c \<in> set (db_evidence db)" "map_evidence c = ev" "v_pending_reason c = reason_of db0 ev"
    using assms(1) by (auto simp: marked_def)
  moreover from this have "evidence_key c = transcript_key ev" by (auto simp: evidence_key_def)
  ultimately show ?thesis
    using assms(2) by (auto simp: marked_def settle_db_evidence intro!: bexI [of _ c] image_eqI [of _ _ c])
qed

lemma settle_tables: "tables_ok db \<Longrightarrow> tables_ok (settle_row now ev db)"
  using settle_evidence [of now ev db] keeps_columns_tables [of _ "settle_row now ev db" db]
    settle_unique [of db now ev] by (auto simp: tables_ok_def)

text \<open>What a pass owes a transcript.\<close>

definition settled_in :: "continuity_db \<Rightarrow> (string \<times> string) set \<Rightarrow> continuity_db \<Rightarrow> transcript_evidence \<Rightarrow> bool" where
  "settled_in db0 done db ev \<longleftrightarrow> marked db0 ev db
     \<and> (\<forall>e \<in> set (lineage_edges db0 ev). own_key db0 (pair_key (ev, e)) \<longrightarrow> delivered db0 done (pair_key (ev, e)) db)"

lemma loop_settles:
  assumes "reconcile_loop now cancelled evs (db, report) = (db', Some report')"
    and "tables_ok db" and "set evs \<subseteq> map_evidence ` set (db_evidence db)"
    and "distinct (map transcript_key evs)" and "done \<inter> transcript_key ` set evs = {}"
    and "db_events db = db_events db0" and "own_key db = own_key db0" and "row_reasons db = row_reasons db0"
    and "\<forall>ev \<in> old. transcript_key ev \<in> done \<and> settled_in db0 done db ev"
  shows "\<forall>ev \<in> old \<union> set evs. settled_in db0 (done \<union> transcript_key ` set evs) db' ev"
  using assms
proof (induction evs arbitrary: db report "done" old)
  case (Cons ev evs)
  let ?db1 = "settle_row now ev db"
  let ?done = "insert (transcript_key ev) done"
  have go: "\<not> cancelled ev" using Cons.prems(1) by auto
  obtain report1 where run: "reconcile_loop now cancelled evs (?db1, report1) = (db', Some report')"
    using reconcile_loop_Cons [of cancelled ev now evs db report] go Cons.prems(1) by auto
  have tables: "tables_ok ?db1" by (rule settle_tables [OF Cons.prems(2)])
  have reasons: "reason_of db ev = reason_of db0 ev" by (simp add: reason_of_def Cons.prems(8))
  have now_settled: "settled_in db0 ?done ?db1 ev"
    unfolding settled_in_def
  proof (intro conjI ballI impI)
    show "marked db0 ev ?db1"
      using settle_marks [of ev db now] Cons.prems(3) by (simp add: marked_def reasons)
    fix e assume "e \<in> set (lineage_edges db0 ev)" "own_key db0 (pair_key (ev, e))"
    then show "delivered db0 ?done (pair_key (ev, e)) ?db1"
      using Cons.prems(6,7) lineage_events(1) [OF Cons.prems(6)]
      by (intro settle_delivers [OF Cons.prems(2)]) (auto simp: row_edges_def)
  qed
  have still: "settled_in db0 ?done ?db1 ev'" if "ev' \<in> old" for ev'
    unfolding settled_in_def
  proof (intro conjI ballI impI)
    have ev': "transcript_key ev' \<in> done" "settled_in db0 done db ev'" using Cons.prems(9) that by auto
    have fresh: "transcript_key ev \<notin> done" using Cons.prems(5) by auto
    then show "marked db0 ev' ?db1"
      using ev' by (intro settle_keeps_marked) (auto simp: settled_in_def)
    fix e assume "e \<in> set (lineage_edges db0 ev')" "own_key db0 (pair_key (ev', e))"
    then show "delivered db0 ?done (pair_key (ev', e)) ?db1"
      using ev'(2) Cons.prems(6,7)
      by (intro settle_keeps_delivered [OF Cons.prems(2) _ fresh]) (auto simp: settled_in_def)
  qed
  have "\<forall>ev' \<in> insert ev old \<union> set evs. settled_in db0 (?done \<union> transcript_key ` set evs) db' ev'"
  proof (rule Cons.IH [OF run tables])
    show "set evs \<subseteq> map_evidence ` set (db_evidence ?db1)"
      using Cons.prems(3) by (simp add: settle_map_evidence)
    show "\<forall>ev' \<in> insert ev old. transcript_key ev' \<in> ?done \<and> settled_in db0 ?done ?db1 ev'"
      using now_settled still Cons.prems(9) by auto
  qed (use Cons.prems in auto)
  then show ?case by simp
qed simp

text \<open>The row of a key that is its own names the child and the relationship the edge names.\<close>

lemma delivered_edge:
  assumes "delivered db0 done (pair_key (ev, e)) db" and "e \<in> set (lineage_edges db0 ev)"
  shows "\<exists>r \<in> set (db_relationships db). r_source r = ev_source ev
    \<and> parent_session_id r = g_parent_session_id e \<and> child_session_id r = Some (ev_session_id ev)
    \<and> relationship r = g_relationship e"
proof -
  obtain r m e' where r: "r \<in> set (db_relationships db)" "row_of_edge m e' r"
    "e' \<in> set (lineage_edges db0 m)" "pair_key (m, e') = pair_key (ev, e)"
    using assms(1) by (auto simp: delivered_def)
  have "g_relationship e' @ '':'' @ ev_session_id m = g_relationship e @ '':'' @ ev_session_id ev"
    using r(4) lineage_child [OF r(3)] lineage_child [OF assms(2)] by (simp add: pair_key_def edge_uid_def)
  then have "g_relationship e' = g_relationship e \<and> ev_session_id m = ev_session_id ev"
    using lineage_child [OF r(3)] lineage_child [OF assms(2)] by (intro uid_split) auto
  then show ?thesis
    using r lineage_child [OF r(3)]
    by (intro bexI [of _ r]) (auto simp: row_of_edge_def pair_key_def relationship_key_def)
qed

definition free_key :: "continuity_db \<Rightarrow> transcript_evidence \<Rightarrow> continuity_edge \<Rightarrow> bool" where
  "free_key db ev e \<longleftrightarrow> (g_relationship e = RELATIONSHIP_FORK
     \<longrightarrow> \<not> branch_filed_as db (ev_source ev) (g_parent_session_id e) (ev_session_id ev))"

lemma free_own_key:
  assumes "e \<in> set (lineage_edges db ev)" and "free_key db ev e"
  shows "own_key db (pair_key (ev, e))"
proof -
  have "g_relationship e = RELATIONSHIP_FORK \<and> ev_session_id ev = child"
    if "g_relationship e @ '':'' @ ev_session_id ev = RELATIONSHIP_FORK @ '':'' @ child" for child
    using uid_split [OF that] lineage_child [OF assms(1)] by (simp add: CONTINUITY_RELATIONSHIPS_def)
  then show ?thesis
    using lineage_child [OF assms(1)] assms(2)
    by (auto simp: own_key_def pair_key_def edge_uid_def free_key_def)
qed

lemma rows_settle:
  assumes "graph_consistent db" and "reconcile_rows now cancelled evs db = (db', Some report)"
    and "set evs \<subseteq> map_evidence ` set (db_evidence db)" and "distinct (map transcript_key evs)"
    and "ev \<in> set evs"
  shows "(\<exists>c \<in> set (db_evidence db'). map_evidence c = ev \<and> v_pending_reason c = reason_of db ev)
    \<and> (\<forall>e \<in> set (lineage_edges db ev). free_key db ev e \<longrightarrow>
        (\<exists>r \<in> set (db_relationships db'). r_source r = ev_source ev
          \<and> parent_session_id r = g_parent_session_id e \<and> child_session_id r = Some (ev_session_id ev)
          \<and> relationship r = g_relationship e))"
proof -
  have "settled_in db (transcript_key ` set evs) db' ev"
    using loop_settles [OF assms(2) [unfolded reconcile_rows_def] _ assms(3,4), of "{}" db "{}"]
      assms(1,5) by (simp add: graph_consistent_def)
  then show ?thesis
    unfolding settled_in_def marked_def using free_own_key delivered_edge by blast
qed

lemma load_pending_distinct:
  assumes "graph_consistent db"
  shows "distinct (map transcript_key (load_pending db source))"
proof -
  have "distinct (map evidence_key (db_evidence db))"
    using assms by (simp add: graph_consistent_def tables_ok_def)
  then have "distinct (map evidence_key (sort_key v_locator (filter P (db_evidence db))))" for P
    by (auto simp: distinct_map intro: inj_on_subset)
  moreover have "transcript_key \<circ> map_evidence = evidence_key"
    by (simp add: fun_eq_iff evidence_key_def)
  ultimately show ?thesis by (simp add: load_pending_def)
qed

lemma reconcile_settles_pending_lemma:
  assumes "reachable_store db" and "snd (reconcile now cancelled source db) \<noteq> None"
    and "c \<in> set (db_evidence db)" and "v_source c = source" and "v_pending_reason c \<noteq> None"
  shows "(\<exists>c' \<in> set (db_evidence (fst (reconcile now cancelled source db))).
        map_evidence c' = map_evidence c \<and> v_pending_reason c' = reason_of db (map_evidence c))
    \<and> (\<forall>e \<in> set (lineage_edges db (map_evidence c)). free_key db (map_evidence c) e \<longrightarrow>
        (\<exists>r \<in> set (db_relationships (fst (reconcile now cancelled source db))). r_source r = source
          \<and> parent_session_id r = g_parent_session_id e \<and> child_session_id r = Some (v_session_id c)
          \<and> relationship r = g_relationship e))"
proof -
  obtain db' report where run: "reconcile now cancelled source db = (db', Some report)"
    using assms(2) by (metis not_None_eq prod.collapse)
  have graph_consistent: "graph_consistent db" by (rule reachable_consistent [OF assms(1)])
  have "map_evidence c \<in> set (load_pending db source)" using assms(3-5) by (auto simp: load_pending_def)
  from rows_settle [OF graph_consistent run [unfolded reconcile_def] load_pending_stored
      load_pending_distinct [OF graph_consistent] this]
  show ?thesis by (simp add: run assms(4))
qed


lemma sample_row: "row_of_evidence 1 (sample_evidence ''s.jsonl'' ''s'' (Some ''p'')) \<in> set (db_evidence sample_graph)"
  by (simp add: sample_graph_def capture_def record_evidence_def empty_store_def reopen_dependents_eq
      Let_def reopened_def row_of_evidence_def)


section \<open>What the reads then answer\<close>

lemma kinds_continuity_clause: "kinds_clause kinds_continuity k \<longleftrightarrow> k \<in> set CONTINUITY_RELATIONSHIPS"
  by (simp add: kinds_continuity_def kinds_only_def CONTINUITY_RELATIONSHIPS_def)

lemma read_continuity_edges:
  assumes "r \<in> set rows" and "is_continuity r" and "child_session_id r = Some session"
    and "parent_session_id r \<noteq> session"
  shows "session_relationship.truncate r \<in> set (session_continuity_edges (read_rows rows) (r_source r) session)"
  using assms
  by (auto simp: session_continuity_edges_def read_rows_def kinds_continuity_clause is_continuity_def
      session_relationship.truncate_def)

lemma explicit_origin_other:
  "explicit_origin ev \<noteq> Some (ev_session_id ev)" "Some (ev_session_id ev) \<noteq> explicit_origin ev"
  by (auto simp: explicit_origin_def split: option.splits)

lemma lineage_parent_other:
  "e \<in> set (lineage_edges db ev) \<Longrightarrow> g_parent_session_id e \<noteq> ev_session_id ev"
  by (auto simp: explicit_origin_other lineage_edges_def stated_edges_def explicit_edges_def resume_edges_def
      parent_edges_def source_edges_def continuation_edge_def fork_edge_def resume_edge_def
      parent_edge_def source_edge_def names_other_session_def
      split: if_splits option.splits)

lemma reconcile_reachable: "reachable_store db \<Longrightarrow> reachable_store (fst (reconcile now cancelled source db))"
  using step reconciled by blast

lemma pending_read_set:
  "(locator, reason) \<in> set (pending_reasons (Some (read_evidence rows)) source session) \<longleftrightarrow>
     (\<exists>d \<in> set rows. v_source d = source \<and> v_session_id d = session \<and> v_locator d = locator
        \<and> v_pending_reason d = Some reason)"
  by (auto simp: pending_reasons_def read_evidence_def image_iff)



section \<open>A parent record that has just arrived\<close>

lemma affected_finite: "finite (affected_locators db source locator origins sessions revision)"
  by (auto simp: affected_locators_def pending_on_def split: option.split)

lemma captured_rows_distinct:
  "distinct keys \<Longrightarrow> distinct (map transcript_key (List.map_filter (\<lambda>key. map_option map_evidence
     (find (\<lambda>c. evidence_at source key c \<and> P c) rows)) keys))"
proof (induction keys)
  case (Cons key keys)
  have "snd (transcript_key ev) \<in> set keys"
    if "ev \<in> set (List.map_filter (\<lambda>key. map_option map_evidence
      (find (\<lambda>c. evidence_at source key c \<and> P c) rows)) keys)" for ev
    using that by (auto simp: set_map_filter find_Some_iff evidence_at_def)
  moreover have "snd (transcript_key (map_evidence c)) = key"
    if "find (\<lambda>c. evidence_at source key c \<and> P c) rows = Some c" for c
    using that by (auto simp: find_Some_iff evidence_at_def)
  ultimately show ?case
    using Cons by (fastforce split: option.splits)
qed simp

lemma find_key:
  assumes "distinct (map evidence_key rows)" and "c \<in> set rows" and "P c"
  shows "find (\<lambda>c'. evidence_at (v_source c) (v_locator c) c' \<and> P c') rows = Some c"
  using assms by (induction rows) (auto simp: evidence_at_key evidence_key_pair image_iff)


definition late_child :: transcript_evidence where
  "late_child = (sample_evidence ''c.jsonl'' ''c'' None)\<lparr>ev_first_parent_uuid := Some ''u''\<rparr>"

definition late_event :: stored_event where
  "late_event =
     \<lparr>e_id = 1, e_source = ''claude'', e_session_id = ''p'', e_project = None, e_project_key = None,
      e_cwd = None, e_git_branch = None, e_message_id = Some ''u'', e_parent_id = None, e_ts_ms = 1,
      e_role = ''user'', e_kind = ''text'', e_text = None, e_model = None, e_token_json = None,
      e_provider = None, e_event_uid = ''u:0'', e_raw_kind = None, e_tool_use_id = None,
      e_payload_bytes = None, e_payload_truncated = None, e_payload_hash = None,
      e_call_index = None, e_event_index = None, e_result_status = None, e_event_source = None,
      e_error_signal = None, e_subagent_session_id = None, e_agent_id = None, e_request_id = None,
      e_provider_message_id = None, e_stop_reason = None, e_agent_version = None,
      e_is_sidechain = None, e_is_meta = None, e_turn_id = None, e_request_span = None,
      e_control_kind = None, e_record_token_json = None, e_revision = 5\<rparr>"

definition late_store :: continuity_db where
  "late_store = (let db = capture 1 ''claude'' ''c.jsonl'' (Some late_child) empty_store
     in db\<lparr>db_events := db_events db @ [late_event]\<rparr>)"

lemma late_reachable: "reachable_store late_store"
  unfolding late_store_def Let_def
  by (rule step [OF capture_reachable [OF start] indexed]) (simp_all add: late_child_def sample_evidence_def)

lemma captured_ends:
  "snd (reconcile_captured now (\<lambda>_. False) order source locator scope db) \<noteq> None"
proof -
  have "snd (reconcile_loop now (\<lambda>_. False) evs st) \<noteq> None" for evs st
    by (induction evs arbitrary: st) (auto simp: split_paired_all, metis prod.collapse option.distinct(1))
  then show ?thesis by (simp add: reconcile_captured_def reconcile_rows_def Let_def)
qed


section \<open>An edge two transcripts share\<close>

text \<open>Two transcripts of one session that both say \<open>/resume p\<close> write one row, cited to the one
  reconciled last. When that one is cleared the row goes, the other is not reopened (its origin is
  its own file, and no edge points at its session), and after any later pass the edge its evidence
  states is still missing.\<close>

definition shared_first :: continuity_db where
  "shared_first = capture 2 ''claude'' ''t.jsonl''
     (Some ((sample_evidence ''t.jsonl'' ''s'' (Some ''p''))\<lparr>ev_file_session_id := Some ''t''\<rparr>)) sample_graph"

definition shared_lost :: continuity_db where
  "shared_lost = capture 4 ''claude'' ''t.jsonl'' None (fst (reconcile 3 (\<lambda>_. False) ''claude'' shared_first))"

lemma shared_reachable: "reachable_store shared_lost"
proof -
  have "reachable_store shared_first"
    unfolding shared_first_def by (intro capture_reachable sample_reachable) (simp_all add: sample_evidence_def)
  then have "reachable_store (fst (reconcile 3 (\<lambda>_. False) ''claude'' shared_first))"
    by (rule step) (rule reconciled)
  then show ?thesis unfolding shared_lost_def by (rule clear_reachable)
qed

theorem shared_edge_lost:
  "reachable_store shared_lost
    \<and> map (\<lambda>r. (parent_session_id r, relationship_uid r, evidence_locator r))
        (db_relationships (fst (reconcile 3 (\<lambda>_. False) ''claude'' shared_first)))
      = [(''p'', ''resume:s'', Some ''t.jsonl'')]
    \<and> map (\<lambda>c. (v_locator c, v_resume_target c, v_pending_reason c))
        (db_evidence (fst (reconcile 5 (\<lambda>_. False) ''claude'' shared_lost)))
      = [(''s.jsonl'', Some ''p'', None)]
    \<and> db_relationships (fst (reconcile 5 (\<lambda>_. False) ''claude'' shared_lost)) = []"
proof (intro conjI)
  show "reachable_store shared_lost" by (rule shared_reachable)
  show "map (\<lambda>r. (parent_session_id r, relationship_uid r, evidence_locator r))
        (db_relationships (fst (reconcile 3 (\<lambda>_. False) ''claude'' shared_first)))
      = [(''p'', ''resume:s'', Some ''t.jsonl'')]" by code_simp
  show "map (\<lambda>c. (v_locator c, v_resume_target c, v_pending_reason c))
        (db_evidence (fst (reconcile 5 (\<lambda>_. False) ''claude'' shared_lost)))
      = [(''s.jsonl'', Some ''p'', None)]" by code_simp
  show "db_relationships (fst (reconcile 5 (\<lambda>_. False) ''claude'' shared_lost)) = []" by code_simp
qed

end
