(* ===== verification/Usage.thy ===== *)
theory Usage
  imports Json Sources
begin

text \<open>
  \<open>usage.rs\<close> and the \<open>usage\<close> module of each provider that has one: translating what a
  provider wrote about tokens into \<open>normalized_usage\<close>, and adding two such records. JSON
  rendering (\<open>Value::to_string\<close>, used in error texts) and JSON parsing are library code and
  appear as the arguments \<open>render\<close> and \<open>parse\<close>.
\<close>

section \<open>Data\<close>

datatype usage_accounting = PerRequest | PerMessage | CumulativeDelta | ContextProxy

fun accounting_as_str :: "usage_accounting \<Rightarrow> string" where
  "accounting_as_str PerRequest = ''per-request''"
| "accounting_as_str PerMessage = ''per-message''"
| "accounting_as_str CumulativeDelta = ''cumulative-delta''"
| "accounting_as_str ContextProxy = ''context-proxy''"

definition accounting_parse :: "string \<Rightarrow> usage_accounting option" where
  "accounting_parse v =
     (if v = ''per-request'' then Some PerRequest
      else if v = ''per-message'' then Some PerMessage
      else if v = ''cumulative-delta'' then Some CumulativeDelta
      else if v = ''context-proxy'' then Some ContextProxy else None)"

text \<open>The derived \<open>Ord\<close>: declaration order.\<close>

fun accounting_rank :: "usage_accounting \<Rightarrow> nat" where
  "accounting_rank PerRequest = 0"
| "accounting_rank PerMessage = 1"
| "accounting_rank CumulativeDelta = 2"
| "accounting_rank ContextProxy = 3"

lemma accounting_rank_inj: "accounting_rank a = accounting_rank b \<Longrightarrow> a = b"
  by (cases a; cases b) simp_all

instantiation usage_accounting :: linorder
begin

definition less_eq_usage_accounting where
  "(a :: usage_accounting) \<le> b \<longleftrightarrow> accounting_rank a \<le> accounting_rank b"

definition less_usage_accounting where
  "(a :: usage_accounting) < b \<longleftrightarrow> accounting_rank a < accounting_rank b"

instance
  by standard (auto simp: less_eq_usage_accounting_def less_usage_accounting_def
      intro: accounting_rank_inj)

end

record usage_coverage =
  has_input_tokens :: bool
  has_output_tokens :: bool
  has_reasoning_tokens :: bool
  has_cache_read_tokens :: bool
  has_cache_write_tokens :: bool

definition coverage_default :: usage_coverage where
  "coverage_default = \<lparr>has_input_tokens = False, has_output_tokens = False,
     has_reasoning_tokens = False, has_cache_read_tokens = False, has_cache_write_tokens = False\<rparr>"

definition coverage_is_complete :: "usage_coverage \<Rightarrow> bool" where
  "coverage_is_complete c \<longleftrightarrow> has_input_tokens c \<and> has_output_tokens c
     \<and> has_cache_read_tokens c \<and> has_cache_write_tokens c"

definition coverage_merged :: "usage_coverage \<Rightarrow> usage_coverage \<Rightarrow> usage_coverage" where
  "coverage_merged a b =
     \<lparr>has_input_tokens = (has_input_tokens a \<or> has_input_tokens b),
      has_output_tokens = (has_output_tokens a \<or> has_output_tokens b),
      has_reasoning_tokens = (has_reasoning_tokens a \<or> has_reasoning_tokens b),
      has_cache_read_tokens = (has_cache_read_tokens a \<or> has_cache_read_tokens b),
      has_cache_write_tokens = (has_cache_write_tokens a \<or> has_cache_write_tokens b)\<rparr>"

record normalized_usage =
  input_tokens :: u64
  output_tokens :: u64
  reasoning_tokens :: "u64 option"
  cache_read_tokens :: u64
  cache_write_tokens :: u64
  cache_write_5m_tokens :: "u64 option"
  cache_write_1h_tokens :: "u64 option"
  provider_total_tokens :: "u64 option"
  reported_cost_usd :: "f64 option"
  accounting :: usage_accounting
  coverage :: usage_coverage

definition usage_empty :: "usage_accounting \<Rightarrow> normalized_usage" where
  "usage_empty acc = \<lparr>input_tokens = 0, output_tokens = 0, reasoning_tokens = None,
     cache_read_tokens = 0, cache_write_tokens = 0, cache_write_5m_tokens = None,
     cache_write_1h_tokens = None, provider_total_tokens = None, reported_cost_usd = None,
     accounting = acc, coverage = coverage_default\<rparr>"

definition unwrap_or :: "'a option \<Rightarrow> 'a \<Rightarrow> 'a" where
  "unwrap_or x d = (case x of None \<Rightarrow> d | Some y \<Rightarrow> y)"

lemma unwrap_or_simps [simp]: "unwrap_or None d = d" "unwrap_or (Some y) d = y"
  by (simp_all add: unwrap_or_def)

definition usage_is_zero :: "normalized_usage \<Rightarrow> bool" where
  "usage_is_zero u \<longleftrightarrow>
     input_tokens u = 0 \<and> output_tokens u = 0 \<and> unwrap_or (reasoning_tokens u) 0 = 0
     \<and> cache_read_tokens u = 0 \<and> cache_write_tokens u = 0
     \<and> unwrap_or (cache_write_5m_tokens u) 0 = 0 \<and> unwrap_or (cache_write_1h_tokens u) 0 = 0
     \<and> unwrap_or (provider_total_tokens u) 0 = 0
     \<and> f64_eq (unwrap_or (reported_cost_usd u) f64_zero) f64_zero"

text \<open>The derived \<open>PartialEq\<close>, with the comparison of \<open>f64\<close> on costs.\<close>

definition usage_eq :: "normalized_usage \<Rightarrow> normalized_usage \<Rightarrow> bool" where
  "usage_eq a b \<longleftrightarrow>
     a\<lparr>reported_cost_usd := None\<rparr> = b\<lparr>reported_cost_usd := None\<rparr>
     \<and> (case (reported_cost_usd a, reported_cost_usd b) of
          (None, None) \<Rightarrow> True
        | (Some x, Some y) \<Rightarrow> f64_eq x y
        | _ \<Rightarrow> False)"

section \<open>Adding two records\<close>

definition split_bucket :: "normalized_usage \<Rightarrow> u64 option \<Rightarrow> u64 option" where
  "split_bucket u bucket =
     (case bucket of
        Some b \<Rightarrow> Some b
      | None \<Rightarrow> if cache_write_tokens u = 0 \<and> has_cache_write_tokens (coverage u) then Some 0 else None)"

text \<open>The outer option is the overflow signal, the inner one whether both sides reported.\<close>

fun checked_add_optional :: "u64 option \<Rightarrow> u64 option \<Rightarrow> u64 option option" where
  "checked_add_optional (Some a) (Some b) = map_option Some (checked_add_u64 a b)"
| "checked_add_optional None None = Some None"
| "checked_add_optional _ _ = Some None"

definition checked_add_split :: "u64 option \<Rightarrow> u64 option \<Rightarrow> u64 option option" where
  "checked_add_split a b = checked_add_optional a b"

fun checked_add_cost :: "f64 option \<Rightarrow> f64 option \<Rightarrow> f64 option option" where
  "checked_add_cost (Some a) (Some b) =
     (let sum = f64_add a b in if f64_is_finite sum then Some (Some sum) else None)"
| "checked_add_cost _ _ = Some None"

definition usage_checked_add :: "normalized_usage \<Rightarrow> normalized_usage \<Rightarrow> normalized_usage option" where
  "usage_checked_add a b =
     Option.bind (checked_add_u64 (input_tokens a) (input_tokens b)) (\<lambda>inp.
     Option.bind (checked_add_u64 (output_tokens a) (output_tokens b)) (\<lambda>out.
     Option.bind (checked_add_optional (reasoning_tokens a) (reasoning_tokens b)) (\<lambda>reas.
     Option.bind (checked_add_u64 (cache_read_tokens a) (cache_read_tokens b)) (\<lambda>cr.
     Option.bind (checked_add_u64 (cache_write_tokens a) (cache_write_tokens b)) (\<lambda>cw.
     Option.bind (checked_add_split (split_bucket a (cache_write_5m_tokens a))
        (split_bucket b (cache_write_5m_tokens b))) (\<lambda>w5.
     Option.bind (checked_add_split (split_bucket a (cache_write_1h_tokens a))
        (split_bucket b (cache_write_1h_tokens b))) (\<lambda>w1.
     Option.bind (checked_add_optional (provider_total_tokens a) (provider_total_tokens b)) (\<lambda>tot.
     Option.bind (checked_add_cost (reported_cost_usd a) (reported_cost_usd b)) (\<lambda>cost.
       Some \<lparr>input_tokens = inp, output_tokens = out, reasoning_tokens = reas,
         cache_read_tokens = cr, cache_write_tokens = cw, cache_write_5m_tokens = w5,
         cache_write_1h_tokens = w1, provider_total_tokens = tot, reported_cost_usd = cost,
         accounting = accounting a, coverage = coverage_merged (coverage a) (coverage b)\<rparr>)))))))))"

section \<open>Errors\<close>

datatype usage_error =
    Malformed string
  | NotAnObject
  | UnknownSource string
  | NonIntegerCounter string string
  | CounterRegressed string u64 u64
  | CounterOverflow string
  | InvalidCost string

fun usage_error_code :: "usage_error \<Rightarrow> string" where
  "usage_error_code (Malformed _) = ''USAGE_MALFORMED''"
| "usage_error_code NotAnObject = ''USAGE_NOT_AN_OBJECT''"
| "usage_error_code (UnknownSource _) = ''USAGE_UNKNOWN_SOURCE''"
| "usage_error_code (NonIntegerCounter _ _) = ''USAGE_NON_INTEGER_COUNTER''"
| "usage_error_code (CounterRegressed _ _ _) = ''USAGE_COUNTER_REGRESSED''"
| "usage_error_code (CounterOverflow _) = ''USAGE_COUNTER_OVERFLOW''"
| "usage_error_code (InvalidCost _) = ''USAGE_INVALID_COST''"

text \<open>What each provider registers: its accounting and whether one request of it is written as
  several records.\<close>

definition USAGE_REGISTRATIONS :: "(string \<times> usage_accounting \<times> bool) list" where
  "USAGE_REGISTRATIONS =
     [(''claude'', PerMessage, True), (''codex'', CumulativeDelta, False),
      (''grok'', PerRequest, False), (''muse'', PerRequest, False),
      (''pi'', PerMessage, False), (''omp'', PerMessage, False),
      (''copilot'', PerMessage, False), (''qwen-code'', PerMessage, False),
      (''codebuddy'', PerMessage, False), (''vtcode'', PerRequest, False),
      (''openclaw'', PerMessage, False)]"

definition source_splits_requests_across_records :: "string \<Rightarrow> bool" where
  "source_splits_requests_across_records source =
     (case map_of USAGE_REGISTRATIONS source of None \<Rightarrow> False | Some (_, splits) \<Rightarrow> splits)"

definition source_accounting :: "string \<Rightarrow> usage_accounting option" where
  "source_accounting source = map_option fst (map_of USAGE_REGISTRATIONS source)"

section \<open>Reading counters\<close>

type_synonym render = "json \<Rightarrow> string"
type_synonym members = "(string \<times> json) list"

definition read_counter :: "render \<Rightarrow> json option \<Rightarrow> string \<Rightarrow> usage_error + u64 option" where
  "read_counter render value field =
     (case value of
        None \<Rightarrow> Inr None
      | Some v \<Rightarrow>
          if is_null v then Inr None
          else (case as_u64 v of
                  Some n \<Rightarrow> Inr (Some n)
                | None \<Rightarrow> Inl (NonIntegerCounter field (render v))))"

text \<open>A counter read through the closure: the value, and \<open>reported\<close> brought up to date.\<close>

definition counter_from ::
  "render \<Rightarrow> members \<Rightarrow> string \<Rightarrow> bool \<Rightarrow> usage_error + (u64 option \<times> bool)" where
  "counter_from render object key reported =
     and_then (read_counter render (map_of object key) key) (\<lambda>v.
       Inr (v, reported \<or> v \<noteq> None))"

fun read_cost_keys :: "render \<Rightarrow> members \<Rightarrow> string list \<Rightarrow> usage_error + f64 option" where
  "read_cost_keys render object [] = Inr None"
| "read_cost_keys render object (key # keys) =
     (case map_of object key of
        None \<Rightarrow> read_cost_keys render object keys
      | Some v \<Rightarrow>
          if is_null v then read_cost_keys render object keys
          else (case as_f64 v of
                  Some cost \<Rightarrow>
                    if f64_is_finite cost \<and> f64_ge_zero cost then Inr (Some cost)
                    else Inl (InvalidCost (render v))
                | None \<Rightarrow> Inl (InvalidCost (render v))))"

definition read_cost :: "render \<Rightarrow> members \<Rightarrow> usage_error + f64 option" where
  "read_cost render object =
     read_cost_keys render object [''cost_usd'', ''costUSD'', ''total_cost_usd'']"

section \<open>The readers of the built-in sources\<close>

text \<open>Input that already includes cache reads, emitted exclusive of them.\<close>

definition apply_inclusive_input ::
  "normalized_usage \<Rightarrow> u64 option \<Rightarrow> u64 option \<Rightarrow> u64 option \<Rightarrow> string
    \<Rightarrow> usage_error + normalized_usage" where
  "apply_inclusive_input u inp cached cache_write field =
     (let inclusive = unwrap_or inp 0; cached_value = unwrap_or cached 0
      in and_then (ok_or (checked_sub_u64 inclusive cached_value)
              (CounterRegressed field inclusive cached_value)) (\<lambda>exclusive.
         Inr (u\<lparr>input_tokens := exclusive, cache_read_tokens := cached_value,
                cache_write_tokens := unwrap_or cache_write 0,
                coverage := (coverage u)\<lparr>has_input_tokens := inp \<noteq> None,
                  has_cache_read_tokens := cached \<noteq> None,
                  has_cache_write_tokens := cache_write \<noteq> None\<rparr>\<rparr>)))"

definition apply_codex_usage ::
  "render \<Rightarrow> members \<Rightarrow> normalized_usage \<times> bool \<Rightarrow> usage_error + (normalized_usage \<times> bool)" where
  "apply_codex_usage render object st =
     and_then (counter_from render object ''input_tokens'' (snd st)) (\<lambda>(inp, rep1).
     and_then (counter_from render object ''cached_input_tokens'' rep1) (\<lambda>(cached, rep2).
     and_then (counter_from render object ''cache_write_input_tokens'' rep2) (\<lambda>(cache_write, rep3).
     and_then (apply_inclusive_input (fst st) inp cached cache_write ''input_tokens'') (\<lambda>u.
       Inr (u, rep3)))))"

definition apply_muse_usage ::
  "render \<Rightarrow> members \<Rightarrow> normalized_usage \<times> bool \<Rightarrow> usage_error + (normalized_usage \<times> bool)" where
  "apply_muse_usage render object st =
     and_then (counter_from render object ''input_tokens'' (snd st)) (\<lambda>(inp, rep1).
     and_then (counter_from render object ''cache_read_tokens'' rep1) (\<lambda>(read, rep2).
     and_then (case read of
                 Some v \<Rightarrow> Inr (Some v, rep2)
               | None \<Rightarrow> counter_from render object ''cached_tokens'' rep2) (\<lambda>(cache_read, rep3).
     and_then (counter_from render object ''cache_write_tokens'' rep3) (\<lambda>(cache_write, rep4).
     and_then (apply_inclusive_input (fst st) inp cache_read cache_write ''input_tokens'') (\<lambda>u.
       Inr (u, rep4))))))"

definition apply_claude_usage ::
  "render \<Rightarrow> members \<Rightarrow> normalized_usage \<times> bool \<Rightarrow> usage_error + (normalized_usage \<times> bool)" where
  "apply_claude_usage render object st =
     and_then (counter_from render object ''input_tokens'' (snd st)) (\<lambda>(inp, rep1).
     and_then (counter_from render object ''cache_read_input_tokens'' rep1) (\<lambda>(cache_read, rep2).
     and_then (counter_from render object ''cache_creation_input_tokens'' rep2) (\<lambda>(write_total, rep3).
     (let creation = Option.bind (map_of object ''cache_creation'') as_object in
     and_then (read_counter render
          (Option.bind creation (\<lambda>c. map_of c ''ephemeral_5m_input_tokens''))
          ''cache_creation.ephemeral_5m_input_tokens'') (\<lambda>e5.
     and_then (read_counter render
          (Option.bind creation (\<lambda>c. map_of c ''ephemeral_1h_input_tokens''))
          ''cache_creation.ephemeral_1h_input_tokens'') (\<lambda>e1.
     and_then (case write_total of
                 Some w \<Rightarrow> Inr w
               | None \<Rightarrow> ok_or (checked_add_u64 (unwrap_or e5 0) (unwrap_or e1 0))
                          (CounterOverflow ''cache_creation'')) (\<lambda>write.
       Inr ((fst st)\<lparr>input_tokens := unwrap_or inp 0, cache_read_tokens := unwrap_or cache_read 0,
              cache_write_5m_tokens := e5, cache_write_1h_tokens := e1,
              cache_write_tokens := write,
              coverage := (coverage (fst st))\<lparr>has_input_tokens := inp \<noteq> None,
                has_cache_read_tokens := cache_read \<noteq> None,
                has_cache_write_tokens := (write_total \<noteq> None \<or> e5 \<noteq> None \<or> e1 \<noteq> None)\<rparr>\<rparr>,
            rep3 \<or> e5 \<noteq> None \<or> e1 \<noteq> None))))))))"

definition GROK_USAGE_INPUT_KEYS :: "string list" where
  "GROK_USAGE_INPUT_KEYS = [''inputTokens'', ''input_tokens'', ''promptTokens'']"
definition GROK_USAGE_OUTPUT_KEYS :: "string list" where
  "GROK_USAGE_OUTPUT_KEYS = [''outputTokens'', ''output_tokens'', ''completionTokens'']"
definition GROK_USAGE_CACHE_READ_KEYS :: "string list" where
  "GROK_USAGE_CACHE_READ_KEYS =
     [''cachedReadTokens'', ''cacheReadTokens'', ''cache_read_input_tokens'']"
definition GROK_USAGE_CACHE_WRITE_KEYS :: "string list" where
  "GROK_USAGE_CACHE_WRITE_KEYS = [''cachedWriteTokens'', ''cacheWriteTokens'',
     ''cacheCreationTokens'', ''cache_creation_input_tokens'']"
definition GROK_USAGE_REASONING_KEYS :: "string list" where
  "GROK_USAGE_REASONING_KEYS = [''reasoningTokens'', ''thoughtTokens'', ''thinkingTokens'']"

text \<open>The first of the spellings that is present and not null.\<close>

fun find_member :: "members \<Rightarrow> string list \<Rightarrow> json option" where
  "find_member object [] = None"
| "find_member object (key # keys) =
     (case map_of object key of
        Some v \<Rightarrow> if is_null v then find_member object keys else Some v
      | None \<Rightarrow> find_member object keys)"

definition grok_counter ::
  "render \<Rightarrow> members \<Rightarrow> string list \<Rightarrow> string \<Rightarrow> bool \<Rightarrow> usage_error + (u64 option \<times> bool)" where
  "grok_counter render breakdown keys field reported =
     and_then (read_counter render (find_member breakdown keys) field) (\<lambda>v.
       Inr (v, reported \<or> v \<noteq> None))"

text \<open>\<open>None\<close> is a context-window snapshot with no usage breakdown.\<close>

definition apply_grok_usage ::
  "render \<Rightarrow> members \<Rightarrow> normalized_usage \<times> bool
    \<Rightarrow> usage_error + (normalized_usage \<times> bool) option" where
  "apply_grok_usage render object st =
     (case map_of object ''usage'' of
        None \<Rightarrow> Inr None
      | Some raw \<Rightarrow>
     and_then (ok_or (as_object raw) NotAnObject) (\<lambda>breakdown.
     and_then (grok_counter render breakdown GROK_USAGE_INPUT_KEYS ''usage.inputTokens'' (snd st)) (\<lambda>(inp, rep1).
     and_then (grok_counter render breakdown GROK_USAGE_OUTPUT_KEYS ''usage.outputTokens'' rep1) (\<lambda>(out, rep2).
     and_then (grok_counter render breakdown GROK_USAGE_CACHE_READ_KEYS ''usage.cachedReadTokens'' rep2) (\<lambda>(cache_read, rep3).
     and_then (grok_counter render breakdown GROK_USAGE_CACHE_WRITE_KEYS ''usage.cachedWriteTokens'' rep3) (\<lambda>(cache_write, rep4).
     and_then (grok_counter render breakdown GROK_USAGE_REASONING_KEYS ''usage.reasoningTokens'' rep4) (\<lambda>(reasoning, rep5).
     and_then (read_counter render (find_member breakdown [''totalTokens'', ''total_tokens''])
          ''usage.totalTokens'') (\<lambda>total.
     (let cached = unwrap_or cache_read 0 in
     and_then (case inp of
                 Some inclusive \<Rightarrow> ok_or (checked_sub_u64 inclusive cached)
                    (CounterRegressed ''usage.inputTokens'' inclusive cached)
               | None \<Rightarrow> Inr 0) (\<lambda>exclusive.
       Inr (Some ((fst st)\<lparr>input_tokens := exclusive, output_tokens := unwrap_or out 0,
              reasoning_tokens := reasoning, cache_read_tokens := cached,
              cache_write_tokens := unwrap_or cache_write 0, provider_total_tokens := total,
              coverage := \<lparr>has_input_tokens = (inp \<noteq> None), has_output_tokens = (out \<noteq> None),
                has_reasoning_tokens = (reasoning \<noteq> None),
                has_cache_read_tokens = (cache_read \<noteq> None),
                has_cache_write_tokens = (cache_write \<noteq> None)\<rparr>\<rparr>, rep5))))))))))))"

text \<open>The source's own reader, after the counters every source shares.\<close>

definition apply_source_usage ::
  "render \<Rightarrow> string \<Rightarrow> members \<Rightarrow> normalized_usage \<times> bool
    \<Rightarrow> usage_error + (normalized_usage \<times> bool) option" where
  "apply_source_usage render source object st =
     (if source = ''codex'' then and_then (apply_codex_usage render object st) (\<lambda>r. Inr (Some r))
      else if source = ''muse'' then and_then (apply_muse_usage render object st) (\<lambda>r. Inr (Some r))
      else if source = ''claude'' then and_then (apply_claude_usage render object st) (\<lambda>r. Inr (Some r))
      else if source = ''grok'' then apply_grok_usage render object st
      else Inl (UnknownSource source))"

definition normalize_legacy_usage ::
  "render \<Rightarrow> string \<Rightarrow> json \<Rightarrow> usage_error + normalized_usage option" where
  "normalize_legacy_usage render source token_json =
     and_then (ok_or (source_accounting source) (UnknownSource source)) (\<lambda>acc.
     if is_null token_json then Inr None
     else and_then (ok_or (as_object token_json) NotAnObject) (\<lambda>object.
     and_then (counter_from render object ''output_tokens'' False) (\<lambda>(out, rep1).
     and_then (counter_from render object
         (if source = ''muse'' then ''reasoning_tokens'' else ''reasoning_output_tokens'') rep1)
       (\<lambda>(reasoning, rep2).
     and_then (counter_from render object ''total_tokens'' rep2) (\<lambda>(total, rep3).
     and_then (apply_source_usage render source object
         ((usage_empty acc)\<lparr>output_tokens := unwrap_or out 0, reasoning_tokens := reasoning,
            provider_total_tokens := total,
            coverage := coverage_default\<lparr>has_output_tokens := out \<noteq> None,
              has_reasoning_tokens := reasoning \<noteq> None\<rparr>\<rparr>, rep3)) (\<lambda>applied.
     (case applied of
        None \<Rightarrow> Inr None
      | Some (u, rep4) \<Rightarrow>
          and_then (read_cost render object) (\<lambda>cost.
            Inr (if rep4 \<or> cost \<noteq> None then Some (u\<lparr>reported_cost_usd := cost\<rparr>) else None)))))))))"

section \<open>The readers of the admitted providers\<close>

text \<open>A counter that must be an unsigned integer where the member is present at all.\<close>

definition strict_counter :: "render \<Rightarrow> json \<Rightarrow> string \<Rightarrow> usage_error + u64 option" where
  "strict_counter render v key =
     (case json_get v key of
        None \<Rightarrow> Inr None
      | Some n \<Rightarrow>
          (case as_u64 n of
             Some c \<Rightarrow> Inr (Some c)
           | None \<Rightarrow> Inl (NonIntegerCounter key (render n))))"

definition pi_cost :: "render \<Rightarrow> json \<Rightarrow> usage_error + f64 option" where
  "pi_cost render v =
     (case Option.bind (json_get v ''cost'') (\<lambda>c. json_get c ''total'') of
        None \<Rightarrow> Inr None
      | Some n \<Rightarrow>
          (case as_f64 n of
             Some x \<Rightarrow> if f64_is_finite x \<and> f64_ge_zero x then Inr (Some x)
                       else Inl (InvalidCost (render n))
           | None \<Rightarrow> Inl (InvalidCost (render n))))"

text \<open>Pi, and OMP, whose normalizer repeats it.\<close>

definition pi_normalize :: "render \<Rightarrow> json \<Rightarrow> usage_error + normalized_usage option" where
  "pi_normalize render v =
     (if \<not> is_object v then Inl NotAnObject
      else
     and_then (strict_counter render v ''input'') (\<lambda>inp.
     and_then (strict_counter render v ''output'') (\<lambda>out.
     and_then (strict_counter render v ''cacheRead'') (\<lambda>read.
     and_then (strict_counter render v ''cacheWrite'') (\<lambda>write.
     and_then (strict_counter render v ''totalTokens'') (\<lambda>tot.
     if list_all (\<lambda>x. x = None) [inp, out, read, write, tot] then Inr None
     else and_then (pi_cost render v) (\<lambda>cost.
       Inr (Some \<lparr>input_tokens = unwrap_or inp 0, output_tokens = unwrap_or out 0,
         reasoning_tokens = None, cache_read_tokens = unwrap_or read 0,
         cache_write_tokens = unwrap_or write 0, cache_write_5m_tokens = None,
         cache_write_1h_tokens = None, provider_total_tokens = tot, reported_cost_usd = cost,
         accounting = PerMessage,
         coverage = \<lparr>has_input_tokens = (inp \<noteq> None), has_output_tokens = (out \<noteq> None),
           has_reasoning_tokens = False, has_cache_read_tokens = (read \<noteq> None),
           has_cache_write_tokens = (write \<noteq> None)\<rparr>\<rparr>))))))))"

definition omp_normalize :: "render \<Rightarrow> json \<Rightarrow> usage_error + normalized_usage option" where
  "omp_normalize = pi_normalize"

definition copilot_normalize :: "render \<Rightarrow> json \<Rightarrow> usage_error + normalized_usage option" where
  "copilot_normalize render v =
     and_then (ok_or (as_object v) NotAnObject) (\<lambda>object.
       (case map_of object ''outputTokens'' of
          None \<Rightarrow> Inr None
        | Some n \<Rightarrow>
            and_then (ok_or (as_u64 n) (NonIntegerCounter ''outputTokens'' (render n))) (\<lambda>out.
              Inr (Some ((usage_empty PerMessage)\<lparr>output_tokens := out,
                coverage := coverage_default\<lparr>has_output_tokens := True\<rparr>\<rparr>)))))"

text \<open>Prompt counts that include the cached part, checked only when the prompt is reported.\<close>

definition exclusive_of ::
  "u64 option \<Rightarrow> u64 \<Rightarrow> string \<Rightarrow> usage_error + u64 option" where
  "exclusive_of inp sub field =
     (case inp of
        None \<Rightarrow> Inr None
      | Some n \<Rightarrow> and_then (ok_or (checked_sub_u64 n sub) (CounterRegressed field n sub))
                    (\<lambda>x. Inr (Some x)))"

definition qwen_normalize :: "render \<Rightarrow> json \<Rightarrow> usage_error + normalized_usage option" where
  "qwen_normalize render v =
     (if \<not> is_object v then Inl NotAnObject
      else
     and_then (strict_counter render v ''promptTokenCount'') (\<lambda>inp.
     and_then (strict_counter render v ''candidatesTokenCount'') (\<lambda>out.
     and_then (strict_counter render v ''cachedContentTokenCount'') (\<lambda>read.
     and_then (strict_counter render v ''totalTokenCount'') (\<lambda>tot.
     if list_all (\<lambda>x. x = None) [inp, out, read, tot] then Inr None
     else and_then (exclusive_of inp (unwrap_or read 0) ''promptTokenCount'') (\<lambda>exclusive.
       Inr (Some \<lparr>input_tokens = unwrap_or exclusive 0, output_tokens = unwrap_or out 0,
         reasoning_tokens = None, cache_read_tokens = unwrap_or read 0,
         cache_write_tokens = 0, cache_write_5m_tokens = None,
         cache_write_1h_tokens = None, provider_total_tokens = tot, reported_cost_usd = None,
         accounting = PerMessage,
         coverage = \<lparr>has_input_tokens = (inp \<noteq> None), has_output_tokens = (out \<noteq> None),
           has_reasoning_tokens = False, has_cache_read_tokens = (read \<noteq> None),
           has_cache_write_tokens = False\<rparr>\<rparr>)))))))"

definition codebuddy_normalize :: "render \<Rightarrow> json \<Rightarrow> usage_error + normalized_usage option" where
  "codebuddy_normalize render v =
     (if \<not> is_object v then Inl NotAnObject
      else
     and_then (strict_counter render v ''prompt_tokens'') (\<lambda>inp.
     and_then (strict_counter render v ''completion_tokens'') (\<lambda>out.
     and_then (strict_counter render v ''total_tokens'') (\<lambda>tot.
     and_then (strict_counter render (json_index v ''prompt_tokens_details'') ''cached_tokens'') (\<lambda>cached.
     and_then (exclusive_of inp (unwrap_or cached 0) ''prompt_tokens'') (\<lambda>exclusive.
     and_then (strict_counter render (json_index v ''completion_tokens_details'') ''reasoning_tokens'') (\<lambda>reasoning.
     if inp = None \<and> out = None \<and> tot = None then Inr None
     else Inr (Some \<lparr>input_tokens = unwrap_or exclusive 0, output_tokens = unwrap_or out 0,
         reasoning_tokens = reasoning, cache_read_tokens = unwrap_or cached 0,
         cache_write_tokens = 0, cache_write_5m_tokens = None,
         cache_write_1h_tokens = None, provider_total_tokens = tot, reported_cost_usd = None,
         accounting = PerMessage,
         coverage = \<lparr>has_input_tokens = (inp \<noteq> None), has_output_tokens = (out \<noteq> None),
           has_reasoning_tokens = (reasoning \<noteq> None), has_cache_read_tokens = (cached \<noteq> None),
           has_cache_write_tokens = False\<rparr>\<rparr>))))))))"

definition vtcode_normalize :: "render \<Rightarrow> json \<Rightarrow> usage_error + normalized_usage option" where
  "vtcode_normalize render v =
     (if \<not> is_object v then Inl NotAnObject
      else
     and_then (strict_counter render v ''input_tokens'') (\<lambda>inp.
     and_then (strict_counter render v ''cached_input_tokens'') (\<lambda>read.
     and_then (strict_counter render v ''cache_creation_tokens'') (\<lambda>write.
     and_then (strict_counter render v ''output_tokens'') (\<lambda>out.
     if list_all (\<lambda>x. x = None) [inp, read, write, out] then Inr None
     else and_then (exclusive_of inp (saturating_add_u64 (unwrap_or read 0) (unwrap_or write 0))
            ''input_tokens'') (\<lambda>exclusive.
       Inr (Some \<lparr>input_tokens = unwrap_or exclusive 0, output_tokens = unwrap_or out 0,
         reasoning_tokens = None, cache_read_tokens = unwrap_or read 0,
         cache_write_tokens = unwrap_or write 0, cache_write_5m_tokens = None,
         cache_write_1h_tokens = None, provider_total_tokens = None, reported_cost_usd = None,
         accounting = PerRequest,
         coverage = \<lparr>has_input_tokens = (inp \<noteq> None), has_output_tokens = (out \<noteq> None),
           has_reasoning_tokens = False, has_cache_read_tokens = (read \<noteq> None),
           has_cache_write_tokens = (write \<noteq> None)\<rparr>\<rparr>)))))))"

section \<open>The dispatch\<close>

text \<open>The normalizer each registration names; OpenClaw shares Pi's.\<close>

definition registered_normalize ::
  "render \<Rightarrow> string \<Rightarrow> json \<Rightarrow> usage_error + normalized_usage option" where
  "registered_normalize render source v =
     (if source \<in> {''claude'', ''codex'', ''grok'', ''muse''} then normalize_legacy_usage render source v
      else if source \<in> {''pi'', ''openclaw''} then pi_normalize render v
      else if source = ''omp'' then omp_normalize render v
      else if source = ''copilot'' then copilot_normalize render v
      else if source = ''qwen-code'' then qwen_normalize render v
      else if source = ''codebuddy'' then codebuddy_normalize render v
      else vtcode_normalize render v)"

definition normalize_usage ::
  "render \<Rightarrow> string \<Rightarrow> json \<Rightarrow> usage_error + normalized_usage option" where
  "normalize_usage render source token_json =
     (case map_of USAGE_REGISTRATIONS source of
        None \<Rightarrow> Inl (UnknownSource source)
      | Some _ \<Rightarrow> registered_normalize render source token_json)"

text \<open>\<open>parse\<close> is \<open>serde_json::from_str\<close>, with the error's text on the left.\<close>

definition normalize_usage_str ::
  "(string \<Rightarrow> string + json) \<Rightarrow> render \<Rightarrow> string \<Rightarrow> string \<Rightarrow> usage_error + normalized_usage option" where
  "normalize_usage_str parse render source raw =
     (case parse raw of
        Inl detail \<Rightarrow> Inl (Malformed detail)
      | Inr v \<Rightarrow> normalize_usage render source v)"

end
