(* ===== verification/SessionUsage.thy ===== *)
theory SessionUsage
  imports StoreRows Usage
begin

text \<open>
  \<open>session_usage.rs\<close> and \<open>session_usage/fold.rs\<close>: the \<open>session_requests\<close> view, one row per
  model request, the pages and the whole read over it, and the rollup of a session's usage.
  \<open>request_key\<close> of \<open>usage/attribution.rs\<close> stands here beside the view's own rule, because the
  two have to agree. \<open>parse\<close> and \<open>render\<close> are the JSON library, as in \<open>Usage\<close>.
\<close>

section \<open>Which request an event belongs to\<close>

datatype request_key_source = RequestId | ProviderMessageId | RequestSpan | RecordId

fun key_source_as_str :: "request_key_source \<Rightarrow> string" where
  "key_source_as_str RequestId = ''request-id''"
| "key_source_as_str ProviderMessageId = ''provider-message-id''"
| "key_source_as_str RequestSpan = ''request-span''"
| "key_source_as_str RecordId = ''record-id''"

definition key_source_parse :: "string \<Rightarrow> request_key_source option" where
  "key_source_parse v =
     (if v = ''request-id'' then Some RequestId
      else if v = ''provider-message-id'' then Some ProviderMessageId
      else if v = ''request-span'' then Some RequestSpan
      else if v = ''record-id'' then Some RecordId else None)"

fun is_request_identity :: "request_key_source \<Rightarrow> bool" where
  "is_request_identity RecordId \<longleftrightarrow> False"
| "is_request_identity _ \<longleftrightarrow> True"

definition text_or_empty :: "string option \<Rightarrow> string" where
  "text_or_empty x = (case x of None \<Rightarrow> [] | Some s \<Rightarrow> s)"

definition request_key :: "session_event \<Rightarrow> string" where
  "request_key e =
     (case nullif_empty (e_request_id e) of
        Some i \<Rightarrow> ''request-id:'' @ i
      | None \<Rightarrow>
     (case (if e_source e = ''codex'' then nullif_empty (e_request_span e) else None) of
        Some span \<Rightarrow> ''request-span:'' @ span
      | None \<Rightarrow>
     (case nullif_empty (e_provider_message_id e) of
        Some i \<Rightarrow> ''provider-message-id:'' @ i
      | None \<Rightarrow>
     (case nullif_empty (e_request_span e) of
        Some span \<Rightarrow> ''request-span:'' @ span
      | None \<Rightarrow> ''record-id:'' @ text_or_empty (e_message_id e)))))"

text \<open>The view's two \<open>CASE\<close> expressions, arm by arm. The view only selects rows with a
  message id, so the concatenation of its last arm is never with \<open>NULL\<close>.\<close>

definition view_request_key :: "session_event \<Rightarrow> string" where
  "view_request_key e =
     (if nullif_empty (e_request_id e) \<noteq> None then ''request-id:'' @ text_or_empty (e_request_id e)
      else if e_source e = ''codex'' \<and> nullif_empty (e_request_span e) \<noteq> None
        then ''request-span:'' @ text_or_empty (e_request_span e)
      else if nullif_empty (e_provider_message_id e) \<noteq> None
        then ''provider-message-id:'' @ text_or_empty (e_provider_message_id e)
      else if nullif_empty (e_request_span e) \<noteq> None
        then ''request-span:'' @ text_or_empty (e_request_span e)
      else ''record-id:'' @ text_or_empty (e_message_id e))"

definition view_key_source :: "session_event \<Rightarrow> string" where
  "view_key_source e =
     (if nullif_empty (e_request_id e) \<noteq> None then ''request-id''
      else if e_source e = ''codex'' \<and> nullif_empty (e_request_span e) \<noteq> None then ''request-span''
      else if nullif_empty (e_provider_message_id e) \<noteq> None then ''provider-message-id''
      else if nullif_empty (e_request_span e) \<noteq> None then ''request-span''
      else ''record-id'')"

section \<open>The view\<close>

record raw_request =
  rr_id :: int
  rr_source :: string
  rr_session_id :: string
  rr_request_key :: string
  rr_request_key_source :: string
  rr_message_ids :: "string list"
  rr_provider :: "string option"
  rr_provider_variants :: int
  rr_model :: "string option"
  rr_model_variants :: int
  rr_first_ts_ms :: int
  rr_last_ts_ms :: int
  rr_token_json :: "string option"
  rr_usage_variants :: int
  rr_has_thinking :: bool
  rr_event_count :: int

text \<open>Aggregates: \<open>MIN\<close> skips \<open>NULL\<close>s and is \<open>NULL\<close> when nothing is left; \<open>COUNT(DISTINCT)\<close>
  skips them too; \<open>json_group_array(DISTINCT)\<close> keeps first occurrences, in scan order, and
  decodes back to the list it encoded.\<close>

definition sql_min :: "'a::linorder list \<Rightarrow> 'a option" where
  "sql_min xs = (if xs = [] then None else Some (Min (set xs)))"

definition count_distinct :: "'a list \<Rightarrow> int" where
  "count_distinct xs = int (length (remdups xs))"

definition distinct_first :: "'a list \<Rightarrow> 'a list" where
  "distinct_first xs = rev (remdups (rev xs))"

definition in_requests_view :: "session_event \<Rightarrow> bool" where
  "in_requests_view e \<longleftrightarrow> e_role e = ''assistant'' \<and> nullif_empty (e_message_id e) \<noteq> None"

text \<open>One group of the view. Its key source is read off its first row; every row of the group
  has the same (\<open>view_key_source_of_key\<close>).\<close>

definition raw_of_group :: "session_event list \<Rightarrow> raw_request" where
  "raw_of_group g =
     \<lparr>rr_id = Min (set (map e_id g)), rr_source = e_source (hd g), rr_session_id = e_session_id (hd g),
      rr_request_key = view_request_key (hd g), rr_request_key_source = view_key_source (hd g),
      rr_message_ids = distinct_first (List.map_filter e_message_id g),
      rr_provider = sql_min (List.map_filter e_provider g),
      rr_provider_variants = count_distinct (List.map_filter e_provider g),
      rr_model = sql_min (List.map_filter e_model g),
      rr_model_variants = count_distinct (List.map_filter e_model g),
      rr_first_ts_ms = Min (set (map e_ts_ms g)), rr_last_ts_ms = Max (set (map e_ts_ms g)),
      rr_token_json = sql_min (List.map_filter e_token_json g),
      rr_usage_variants = count_distinct (List.map_filter e_token_json g),
      rr_has_thinking = list_ex (\<lambda>e. e_kind e = ''thinking'') g,
      rr_event_count = int (length g)\<rparr>"

text \<open>The rows of the view for one session, scanned through the page index.\<close>

definition view_events :: "session_event list \<Rightarrow> string \<Rightarrow> string \<Rightarrow> session_event list" where
  "view_events db source session =
     filter in_requests_view (session_events db session (Some source))"

definition request_group :: "session_event list \<Rightarrow> string \<Rightarrow> session_event list" where
  "request_group es k = filter (\<lambda>e. view_request_key e = k) es"

definition request_order :: "raw_request \<Rightarrow> int \<times> int" where
  "request_order r = (rr_first_ts_ms r, rr_id r)"

definition session_request_rows ::
  "session_event list \<Rightarrow> string \<Rightarrow> string \<Rightarrow> raw_request list" where
  "session_request_rows db source session =
     (let es = view_events db source session
      in sort_key request_order
           (map (\<lambda>k. raw_of_group (request_group es k)) (remdups (map view_request_key es))))"

section \<open>A request's usage\<close>

datatype usage_diagnostic =
    AmbiguousUsageCopies
  | UnnormalizableUsage
  | AmbiguousModel
  | AmbiguousProvider
  | UnresolvedRequestIdentity
  | PartialCacheWriteSplit
  | PartialReportedCost

fun diagnostic_as_str :: "usage_diagnostic \<Rightarrow> string" where
  "diagnostic_as_str AmbiguousUsageCopies = ''ambiguous-usage-copies''"
| "diagnostic_as_str UnnormalizableUsage = ''unnormalizable-usage''"
| "diagnostic_as_str AmbiguousModel = ''ambiguous-model''"
| "diagnostic_as_str AmbiguousProvider = ''ambiguous-provider''"
| "diagnostic_as_str UnresolvedRequestIdentity = ''unresolved-request-identity''"
| "diagnostic_as_str PartialCacheWriteSplit = ''partial-cache-write-split''"
| "diagnostic_as_str PartialReportedCost = ''partial-reported-cost''"

text \<open>The derived \<open>Ord\<close>: declaration order.\<close>

fun diagnostic_rank :: "usage_diagnostic \<Rightarrow> nat" where
  "diagnostic_rank AmbiguousUsageCopies = 0"
| "diagnostic_rank UnnormalizableUsage = 1"
| "diagnostic_rank AmbiguousModel = 2"
| "diagnostic_rank AmbiguousProvider = 3"
| "diagnostic_rank UnresolvedRequestIdentity = 4"
| "diagnostic_rank PartialCacheWriteSplit = 5"
| "diagnostic_rank PartialReportedCost = 6"

lemma diagnostic_rank_inj: "diagnostic_rank a = diagnostic_rank b \<Longrightarrow> a = b"
  by (cases a; cases b) simp_all

instantiation usage_diagnostic :: linorder
begin

definition less_eq_usage_diagnostic where
  "(a :: usage_diagnostic) \<le> b \<longleftrightarrow> diagnostic_rank a \<le> diagnostic_rank b"

definition less_usage_diagnostic where
  "(a :: usage_diagnostic) < b \<longleftrightarrow> diagnostic_rank a < diagnostic_rank b"

instance
  by standard (auto simp: less_eq_usage_diagnostic_def less_usage_diagnostic_def
      intro: diagnostic_rank_inj)

end

record resolved_usage =
  ru_usage :: "normalized_usage option"
  ru_error :: "string option"
  ru_diagnostics :: "usage_diagnostic list"

definition identity_diagnostics :: "raw_request \<Rightarrow> usage_diagnostic list" where
  "identity_diagnostics raw =
     (let keyed_on_a_record = (case key_source_parse (rr_request_key_source raw) of
            None \<Rightarrow> True | Some k \<Rightarrow> \<not> is_request_identity k)
      in (if keyed_on_a_record \<and> source_splits_requests_across_records (rr_source raw)
          then [UnresolvedRequestIdentity] else [])
       @ (if rr_model_variants raw > 1 then [AmbiguousModel] else [])
       @ (if rr_provider_variants raw > 1 then [AmbiguousProvider] else []))"

definition resolve_usage ::
  "(string \<Rightarrow> string + json) \<Rightarrow> render \<Rightarrow> raw_request \<Rightarrow> resolved_usage" where
  "resolve_usage parse render raw =
     (let ds = identity_diagnostics raw
      in if rr_usage_variants raw > 1 then
           \<lparr>ru_usage = None, ru_error = None, ru_diagnostics = ds @ [AmbiguousUsageCopies]\<rparr>
         else
           (case rr_token_json raw of
              None \<Rightarrow> \<lparr>ru_usage = None, ru_error = None, ru_diagnostics = ds\<rparr>
            | Some raw_json \<Rightarrow>
                (case normalize_usage_str parse render (rr_source raw) raw_json of
                   Inr usage \<Rightarrow> \<lparr>ru_usage = usage, ru_error = None, ru_diagnostics = ds\<rparr>
                 | Inl e \<Rightarrow> \<lparr>ru_usage = None, ru_error = Some (usage_error_code e),
                     ru_diagnostics = ds @ [UnnormalizableUsage]\<rparr>)))"

section \<open>Tool use ids\<close>

text \<open>A \<open>HashMap\<close> from message id to the ids of its tool calls, in \<open>(ts_ms, id)\<close> order.
  \<open>ORDER BY ts_ms, id\<close> puts rows without a time first.\<close>

type_synonym tool_ids = "string \<Rightarrow> string list option"

definition call_order :: "session_tool_call \<Rightarrow> bool \<times> int \<times> int" where
  "call_order r = (tc_ts_ms r \<noteq> None, (case tc_ts_ms r of None \<Rightarrow> 0 | Some t \<Rightarrow> t), tc_id r)"

definition wanted_ids :: "raw_request list \<Rightarrow> string set" where
  "wanted_ids raws = set (concat (map rr_message_ids raws))"

definition bucket_id :: "string set \<Rightarrow> session_tool_call \<Rightarrow> tool_ids \<Rightarrow> tool_ids" where
  "bucket_id wanted row out =
     (case tc_message_id row of
        None \<Rightarrow> out
      | Some m \<Rightarrow>
          if m \<notin> wanted then out
          else (case out m of
                  Some ids \<Rightarrow> out(m \<mapsto> ids @ [tc_tool_use_id row])
                | None \<Rightarrow> out(m \<mapsto> [tc_tool_use_id row])))"

definition tool_use_ids_for ::
  "session_tool_call list \<Rightarrow> string \<Rightarrow> string \<Rightarrow> raw_request list \<Rightarrow> tool_ids" where
  "tool_use_ids_for calls source session raws =
     (let wanted = wanted_ids raws
      in if wanted = {} then Map.empty
         else fold (bucket_id wanted)
           (sort_key call_order (filter (\<lambda>r. tc_source r = source \<and> tc_session_id r = session
              \<and> tc_message_id r \<noteq> None) calls)) Map.empty)"

text \<open>The two buckets of a message while rows in the other order are read: undated, dated.\<close>

definition bucket_row ::
  "string set \<Rightarrow> session_tool_call \<Rightarrow> (string \<Rightarrow> (string list \<times> string list) option)
    \<Rightarrow> (string \<Rightarrow> (string list \<times> string list) option)" where
  "bucket_row wanted row buckets =
     (case tc_message_id row of
        None \<Rightarrow> buckets
      | Some m \<Rightarrow>
          if m \<notin> wanted then buckets
          else (let (undated, dated) = (case buckets m of None \<Rightarrow> ([], []) | Some b \<Rightarrow> b)
                in buckets(m \<mapsto> (case tc_ts_ms row of
                     None \<Rightarrow> (undated @ [tc_tool_use_id row], dated)
                   | Some _ \<Rightarrow> (undated, dated @ [tc_tool_use_id row])))))"

definition tool_use_ids_from_rows :: "session_tool_call list \<Rightarrow> raw_request list \<Rightarrow> tool_ids" where
  "tool_use_ids_from_rows rows raws =
     (\<lambda>m. map_option (\<lambda>(undated, dated). undated @ dated)
        (fold (bucket_row (wanted_ids raws)) rows Map.empty m))"

section \<open>The requests of a session\<close>

record session_request =
  sq_id :: int
  sq_source :: string
  sq_session_id :: string
  sq_request_key :: string
  sq_request_key_source :: request_key_source
  sq_message_ids :: "string list"
  sq_model :: "string option"
  sq_provider :: "string option"
  sq_first_ts_ms :: int
  sq_last_ts_ms :: int
  sq_usage :: "normalized_usage option"
  sq_usage_error :: "string option"
  sq_tool_use_ids :: "string list"
  sq_has_thinking :: bool
  sq_event_count :: int
  sq_diagnostics :: "usage_diagnostic list"

definition build_request :: "raw_request \<Rightarrow> resolved_usage \<Rightarrow> tool_ids \<Rightarrow> session_request" where
  "build_request raw resolved tool_use_ids =
     \<lparr>sq_id = rr_id raw, sq_source = rr_source raw, sq_session_id = rr_session_id raw,
      sq_request_key = rr_request_key raw,
      sq_request_key_source = unwrap_or (key_source_parse (rr_request_key_source raw)) RecordId,
      sq_message_ids = rr_message_ids raw, sq_model = rr_model raw, sq_provider = rr_provider raw,
      sq_first_ts_ms = rr_first_ts_ms raw, sq_last_ts_ms = rr_last_ts_ms raw,
      sq_usage = ru_usage resolved, sq_usage_error = ru_error resolved,
      sq_tool_use_ids = concat (map (\<lambda>m. unwrap_or (tool_use_ids m) []) (rr_message_ids raw)),
      sq_has_thinking = rr_has_thinking raw, sq_event_count = rr_event_count raw,
      sq_diagnostics = ru_diagnostics resolved\<rparr>"

record session_request_cursor =
  rc_ts_ms :: int
  rc_id :: int

definition request_cursor :: "raw_request \<Rightarrow> session_request_cursor" where
  "request_cursor r = \<lparr>rc_ts_ms = rr_first_ts_ms r, rc_id = rr_id r\<rparr>"

definition after_request :: "session_request_cursor \<Rightarrow> raw_request \<Rightarrow> bool" where
  "after_request c r \<longleftrightarrow> rc_ts_ms c < rr_first_ts_ms r
     \<or> (rr_first_ts_ms r = rc_ts_ms c \<and> rc_id c < rr_id r)"

text \<open>The database a read sees, and the JSON library it is compiled with.\<close>

record usage_store =
  us_events :: "session_event list"
  us_calls :: "session_tool_call list"

definition session_requests_page ::
  "(string \<Rightarrow> string + json) \<Rightarrow> render \<Rightarrow> usage_store \<Rightarrow> string \<Rightarrow> string \<Rightarrow> int
    \<Rightarrow> session_request_cursor option \<Rightarrow> session_request list \<times> session_request_cursor option" where
  "session_requests_page parse render db source session limit after =
     (let rows = session_request_rows (us_events db) source session;
          selected = (case after of None \<Rightarrow> rows | Some c \<Rightarrow> filter (after_request c) rows);
          (raws, next_cursor) = page_of request_cursor (page_limit limit)
             (take (page_limit limit + 1) selected);
          tool_use_ids = tool_use_ids_for (us_calls db) source session raws
      in (map (\<lambda>raw. build_request raw (resolve_usage parse render raw) tool_use_ids) raws,
          next_cursor))"

section \<open>The rollup\<close>

record usage_fold =
  uf_sum :: "normalized_usage option"
  uf_overflowed :: bool
  uf_request_count :: u64
  uf_total_request_count :: u64
  uf_accounting :: "usage_accounting set"
  uf_diagnostics :: "usage_diagnostic set"
  uf_models :: "string set"
  uf_first_ts_ms :: int
  uf_last_ts_ms :: int
  uf_saw_cache_write_split :: bool
  uf_saw_reported_cost :: bool

definition I64_MAX :: int where "I64_MAX = 2 ^ 63 - 1"
definition I64_MIN :: int where "I64_MIN = - (2 ^ 63)"

definition fold_default :: usage_fold where
  "fold_default = \<lparr>uf_sum = None, uf_overflowed = False, uf_request_count = 0,
     uf_total_request_count = 0, uf_accounting = {}, uf_diagnostics = {}, uf_models = {},
     uf_first_ts_ms = I64_MAX, uf_last_ts_ms = I64_MIN, uf_saw_cache_write_split = False,
     uf_saw_reported_cost = False\<rparr>"

definition push_sum ::
  "normalized_usage option \<Rightarrow> bool \<Rightarrow> normalized_usage \<Rightarrow> normalized_usage option \<times> bool" where
  "push_sum running overflowed usage =
     (case running of
        None \<Rightarrow> (Some usage, overflowed)
      | Some r \<Rightarrow>
          (case usage_checked_add r usage of
             Some s \<Rightarrow> (Some s, overflowed)
           | None \<Rightarrow> (Some r, True)))"

definition fold_push :: "raw_request \<Rightarrow> resolved_usage \<Rightarrow> usage_fold \<Rightarrow> usage_fold" where
  "fold_push raw resolved f =
     (let f1 = f\<lparr>uf_total_request_count := saturating_add_u64 (uf_total_request_count f) 1,
            uf_first_ts_ms := min (uf_first_ts_ms f) (rr_first_ts_ms raw),
            uf_last_ts_ms := max (uf_last_ts_ms f) (rr_last_ts_ms raw),
            uf_models := (case nullif_empty (rr_model raw) of None \<Rightarrow> uf_models f
               | Some m \<Rightarrow> insert m (uf_models f)),
            uf_diagnostics := uf_diagnostics f \<union> set (ru_diagnostics resolved)\<rparr>
      in (case ru_usage resolved of
            None \<Rightarrow> f1
          | Some usage \<Rightarrow>
              f1\<lparr>uf_saw_cache_write_split := (uf_saw_cache_write_split f
                   \<or> cache_write_5m_tokens usage \<noteq> None \<or> cache_write_1h_tokens usage \<noteq> None),
                 uf_saw_reported_cost := (uf_saw_reported_cost f \<or> reported_cost_usd usage \<noteq> None),
                 uf_request_count := saturating_add_u64 (uf_request_count f) 1,
                 uf_accounting := insert (accounting usage) (uf_accounting f),
                 uf_sum := fst (push_sum (uf_sum f) (uf_overflowed f) usage),
                 uf_overflowed := snd (push_sum (uf_sum f) (uf_overflowed f) usage)\<rparr>))"

record session_usage_summary_rec =
  ss_source :: string
  ss_session_id :: string
  ss_usage :: "normalized_usage option"
  ss_request_count :: u64
  ss_total_request_count :: u64
  ss_accounting :: "usage_accounting list"
  ss_models :: "string list"
  ss_first_ts_ms :: int
  ss_last_ts_ms :: int
  ss_diagnostics :: "usage_diagnostic list"
  ss_overflowed :: bool

definition partial_diagnostics :: "usage_fold \<Rightarrow> usage_diagnostic set" where
  "partial_diagnostics f =
     (case uf_sum f of
        None \<Rightarrow> {}
      | Some folded \<Rightarrow>
          (if uf_saw_cache_write_split f
              \<and> (cache_write_5m_tokens folded = None \<or> cache_write_1h_tokens folded = None)
           then {PartialCacheWriteSplit} else {})
          \<union> (if uf_saw_reported_cost f \<and> reported_cost_usd folded = None
             then {PartialReportedCost} else {}))"

definition fold_finish :: "string \<Rightarrow> string \<Rightarrow> usage_fold \<Rightarrow> session_usage_summary_rec option" where
  "fold_finish source session f =
     (if uf_total_request_count f = 0 then None
      else
        (let unresolved_identity = (UnresolvedRequestIdentity \<in> uf_diagnostics f)
         in Some \<lparr>ss_source = source, ss_session_id = session,
              ss_usage = (if \<not> uf_overflowed f \<and> \<not> unresolved_identity then uf_sum f else None),
              ss_request_count = uf_request_count f,
              ss_total_request_count = uf_total_request_count f,
              ss_accounting = sorted_list_of_set (uf_accounting f),
              ss_models = sorted_list_of_set (uf_models f),
              ss_first_ts_ms = (if uf_first_ts_ms f = I64_MAX then 0 else uf_first_ts_ms f),
              ss_last_ts_ms = (if uf_last_ts_ms f = I64_MIN then 0 else uf_last_ts_ms f),
              ss_diagnostics = sorted_list_of_set (uf_diagnostics f \<union> partial_diagnostics f),
              ss_overflowed = uf_overflowed f\<rparr>))"

definition fold_requests ::
  "(string \<Rightarrow> string + json) \<Rightarrow> render \<Rightarrow> raw_request list \<Rightarrow> usage_fold" where
  "fold_requests parse render raws =
     fold (\<lambda>raw. fold_push raw (resolve_usage parse render raw)) raws fold_default"

definition session_usage_summary ::
  "(string \<Rightarrow> string + json) \<Rightarrow> render \<Rightarrow> usage_store \<Rightarrow> string \<Rightarrow> string
    \<Rightarrow> session_usage_summary_rec option" where
  "session_usage_summary parse render db source session =
     fold_finish source session
       (fold_requests parse render (session_request_rows (us_events db) source session))"

text \<open>Every request and the rollup from one evaluation of the view. \<open>calls\<close> are the tool calls
  the caller has already read, if it has.\<close>

definition session_requests_all ::
  "(string \<Rightarrow> string + json) \<Rightarrow> render \<Rightarrow> usage_store \<Rightarrow> string \<Rightarrow> string
    \<Rightarrow> session_tool_call list option
    \<Rightarrow> session_request list \<times> session_usage_summary_rec option" where
  "session_requests_all parse render db source session calls =
     (let raws = session_request_rows (us_events db) source session;
          tool_use_ids = (case calls of
             Some rows \<Rightarrow> tool_use_ids_from_rows rows raws
           | None \<Rightarrow> tool_use_ids_for (us_calls db) source session raws);
          f = fold_requests parse render raws
      in (map (\<lambda>raw. build_request raw (resolve_usage parse render raw) tool_use_ids) raws,
          fold_finish source session f))"

end
