(* ===== verification/Attribution.thy ===== *)
theory Attribution
  imports SessionUsage
begin

text \<open>
  \<open>usage/attribution.rs\<close>: charging each request's measured usage to the prompt that caused it.
  A \<open>HashMap\<close> keyed by message id is an association list with distinct keys; where the code
  iterates over one, the order it comes out in is not defined, and the model takes it as the
  argument \<open>ord\<close>, a function that lists the keys in some order. \<open>parse\<close> and \<open>render\<close> are the
  JSON library.
\<close>

section \<open>Text\<close>

text \<open>\<open>str::trim\<close>: the UTF-8 encodings of the characters with the property \<open>White_Space\<close> are
  stripped from both ends.\<close>

definition WHITE_SPACE :: "string list" where
  "WHITE_SPACE =
     [[CHR 0x09], [CHR 0x0A], [CHR 0x0B], [CHR 0x0C], [CHR 0x0D], [CHR 0x20],
      [CHR 0xC2, CHR 0x85], [CHR 0xC2, CHR 0xA0], [CHR 0xE1, CHR 0x9A, CHR 0x80],
      [CHR 0xE2, CHR 0x80, CHR 0x80], [CHR 0xE2, CHR 0x80, CHR 0x81], [CHR 0xE2, CHR 0x80, CHR 0x82],
      [CHR 0xE2, CHR 0x80, CHR 0x83], [CHR 0xE2, CHR 0x80, CHR 0x84], [CHR 0xE2, CHR 0x80, CHR 0x85],
      [CHR 0xE2, CHR 0x80, CHR 0x86], [CHR 0xE2, CHR 0x80, CHR 0x87], [CHR 0xE2, CHR 0x80, CHR 0x88],
      [CHR 0xE2, CHR 0x80, CHR 0x89], [CHR 0xE2, CHR 0x80, CHR 0x8A], [CHR 0xE2, CHR 0x80, CHR 0xA8],
      [CHR 0xE2, CHR 0x80, CHR 0xA9], [CHR 0xE2, CHR 0x80, CHR 0xAF], [CHR 0xE2, CHR 0x81, CHR 0x9F],
      [CHR 0xE3, CHR 0x80, CHR 0x80]]"

definition starts_with :: "string \<Rightarrow> string \<Rightarrow> bool" where
  "starts_with w s \<longleftrightarrow> take (length w) s = w"

text \<open>Strips the words of a list from the front; every word is non-empty.\<close>

function strip_words :: "string list \<Rightarrow> string \<Rightarrow> string" where
  "strip_words ws s =
     (case find (\<lambda>w. w \<noteq> [] \<and> starts_with w s) ws of
        None \<Rightarrow> s
      | Some w \<Rightarrow> strip_words ws (drop (length w) s))"
  by pat_completeness auto
termination
  by (relation "measure (\<lambda>(ws, s). length s)")
     (auto simp: find_Some_iff starts_with_def, metis diff_less length_0_conv length_greater_0_conv take_Nil)

declare strip_words.simps [simp del]

definition trim :: "string \<Rightarrow> string" where
  "trim s = rev (strip_words (map rev WHITE_SPACE) (rev (strip_words WHITE_SPACE s)))"

fun join_lines :: "string list \<Rightarrow> string" where
  "join_lines [] = []"
| "join_lines [x] = x"
| "join_lines (x # xs) = x @ CHR 0x0A # join_lines xs"

section \<open>Data\<close>

type_synonym prompt_key = "int \<times> string"

datatype record_usage = Absent | Unreadable | Measured normalized_usage

record usage_message =
  um_id :: string
  um_parent :: "string option"
  um_ts :: int
  um_role :: string
  um_text :: string
  um_usage :: record_usage
  um_request :: string
  um_control :: bool
  um_sidechain :: bool

datatype contribution =
    Silent
  | OwnedBy prompt_key
  | MeasuredBy prompt_key normalized_usage
  | Contradictory

type_synonym request_state = "(prompt_key \<times> normalized_usage option) option"
type_synonym messages = "(string \<times> usage_message) list"

section \<open>Rebuilding the records\<close>

text \<open>\<open>from_str(raw).ok()\<close> over all blobs: \<open>None\<close> as soon as one does not parse.\<close>

fun parse_all :: "(string \<Rightarrow> string + json) \<Rightarrow> string list \<Rightarrow> json list option" where
  "parse_all parse [] = Some []"
| "parse_all parse (x # xs) =
     (case parse x of
        Inl _ \<Rightarrow> None
      | Inr v \<Rightarrow> map_option (\<lambda>vs. v # vs) (parse_all parse xs))"

definition record_usage_of ::
  "(string \<Rightarrow> string + json) \<Rightarrow> render \<Rightarrow> session_event list \<Rightarrow> string \<Rightarrow> record_usage" where
  "record_usage_of parse render rows source =
     (case parse_all parse (List.map_filter e_token_json rows) of
        None \<Rightarrow> Unreadable
      | Some [] \<Rightarrow> Absent
      | Some (first # rest) \<Rightarrow>
          if list_all (\<lambda>v. json_eq v first) rest then
            (case normalize_usage render source first of
               Inr (Some usage) \<Rightarrow> if \<not> usage_is_zero usage then Measured usage else Absent
             | Inr None \<Rightarrow> Absent
             | Inl _ \<Rightarrow> Unreadable)
          else Unreadable)"

definition message_text :: "session_event list \<Rightarrow> string" where
  "message_text rows =
     join_lines (filter (\<lambda>t. t \<noteq> []) (map trim (List.map_filter e_text
       (filter (\<lambda>r. e_kind r = ''text'' \<and> e_control_kind r = None
          \<and> e_raw_kind r \<noteq> Some ''input_image'') rows))))"

text \<open>\<open>rows[0]\<close> panics on an empty slice; the groups it is called on are never empty.\<close>

definition usage_message_of ::
  "(string \<Rightarrow> string + json) \<Rightarrow> render \<Rightarrow> string \<Rightarrow> session_event list \<Rightarrow> string
    \<Rightarrow> usage_message option" where
  "usage_message_of parse render i rows source =
     (let first = hd rows in
      if list_ex (\<lambda>r. e_ts_ms r \<noteq> e_ts_ms first \<or> e_role r \<noteq> e_role first
           \<or> e_parent_id r \<noteq> e_parent_id first) rows then None
      else
     (let request = request_key first in
      if list_ex (\<lambda>r. request_key r \<noteq> request) rows then None
      else Some \<lparr>um_id = i, um_parent = e_parent_id first, um_ts = e_ts_ms first,
        um_role = e_role first, um_text = message_text rows,
        um_usage = record_usage_of parse render rows source, um_request = request,
        um_control = (e_role first = ''user'' \<and> list_all (\<lambda>r. e_control_kind r \<noteq> None) rows),
        um_sidechain = (e_role first = ''user'' \<and> list_ex (\<lambda>r. e_is_sidechain r = Some 1) rows)\<rparr>))"

definition message_ids :: "session_event list \<Rightarrow> string list" where
  "message_ids events = distinct_first (List.map_filter (\<lambda>e. nullif_empty (e_message_id e)) events)"

definition messages_of ::
  "(string \<Rightarrow> string + json) \<Rightarrow> render \<Rightarrow> session_event list \<Rightarrow> string \<Rightarrow> messages" where
  "messages_of parse render events source =
     List.map_filter (\<lambda>i. map_option (\<lambda>m. (i, m))
        (usage_message_of parse render i (filter (\<lambda>e. e_message_id e = Some i) events) source))
       (message_ids events)"

section \<open>Whose prompt it was\<close>

text \<open>The first block of an identified message at a timestamp is kept, later ones are dropped;
  unidentified rows are all kept.\<close>

fun retain_boundaries :: "(int \<times> string) set \<Rightarrow> session_event list \<Rightarrow> session_event list" where
  "retain_boundaries seen [] = []"
| "retain_boundaries seen (e # es) =
     (case nullif_empty (e_message_id e) of
        Some i \<Rightarrow>
          if (e_ts_ms e, i) \<in> seen then retain_boundaries seen es
          else e # retain_boundaries (insert (e_ts_ms e, i) seen) es
      | None \<Rightarrow> e # retain_boundaries seen es)"

definition boundaries_of :: "session_event list \<Rightarrow> session_event list" where
  "boundaries_of events =
     sort_key e_ts_ms (retain_boundaries {}
       (filter (\<lambda>e. e_role e = ''user'' \<and> e_control_kind e = None \<and> e_is_sidechain e \<noteq> Some 1) events))"

definition is_human :: "usage_message \<Rightarrow> bool" where
  "is_human m \<longleftrightarrow> um_role m = ''user'' \<and> \<not> um_control m \<and> \<not> um_sidechain m"

definition prompt_key_of :: "usage_message \<Rightarrow> prompt_key" where
  "prompt_key_of m = (um_ts m, um_text m)"

definition prompt_count :: "messages \<Rightarrow> prompt_key \<Rightarrow> nat" where
  "prompt_count msgs k = length (filter (\<lambda>(_, m). is_human m \<and> prompt_key_of m = k) msgs)"

text \<open>The walk up \<open>parent_id\<close>. The visited set makes it end on cyclic ancestry.\<close>

function parent_walk :: "messages \<Rightarrow> string set \<Rightarrow> usage_message \<Rightarrow> usage_message option" where
  "parent_walk msgs visited current =
     (if um_id current \<in> visited then None
      else if um_role current = ''user'' \<and> um_sidechain current then None
      else if um_role current = ''user'' \<and> \<not> um_control current then Some current
      else (case um_parent current of
              None \<Rightarrow> None
            | Some p \<Rightarrow>
                (case map_of msgs p of
                   None \<Rightarrow> None
                 | Some m \<Rightarrow> parent_walk msgs (insert (um_id current) visited) m)))"
  by pat_completeness auto
termination
proof (relation "measure (\<lambda>(msgs, visited, current).
      card (insert (um_id current) (um_id ` snd ` set msgs) - visited))")
  fix msgs :: messages and visited :: "string set" and current :: usage_message
    and p :: string and m :: usage_message
  let ?ids = "um_id ` snd ` set msgs"
  assume new: "um_id current \<notin> visited" and m: "map_of msgs p = Some m"
  have "um_id m \<in> ?ids" using map_of_SomeD [OF m] by force
  then have "insert (um_id m) ?ids - insert (um_id current) visited
      \<subset> insert (um_id current) ?ids - visited"
    using new by auto
  then show "((msgs, insert (um_id current) visited, m), msgs, visited, current)
      \<in> measure (\<lambda>(msgs, visited, current). card (insert (um_id current) (um_id ` snd ` set msgs) - visited))"
    by (simp add: psubset_card_mono)
qed simp

declare parent_walk.simps [simp del]

definition parent_prompt :: "usage_message \<Rightarrow> messages \<Rightarrow> usage_message option" where
  "parent_prompt message msgs = parent_walk msgs {} message"

text \<open>The Codex rule: no parent ids, only the ordered human turns. \<open>partition_point\<close> on a sorted
  slice is the length of its prefix below the timestamp.\<close>

definition codex_owner :: "usage_message \<Rightarrow> messages \<Rightarrow> session_event list \<Rightarrow> usage_message option" where
  "codex_owner message msgs boundaries =
     (let boundary = length (takeWhile (\<lambda>u. e_ts_ms u < um_ts message) boundaries) in
      if boundary < length boundaries \<and> e_ts_ms (boundaries ! boundary) = um_ts message then None
      else if boundary = 0 then None
      else
       (let i = boundary - 1; user = boundaries ! i in
        if e_ts_ms user \<le> 0 \<or> (0 < i \<and> e_ts_ms (boundaries ! (i - 1)) = e_ts_ms user) then None
        else Option.bind (e_message_id user) (map_of msgs)))"

definition owner_of ::
  "usage_message \<Rightarrow> string \<Rightarrow> messages \<Rightarrow> session_event list \<Rightarrow> bool \<Rightarrow> usage_message option" where
  "owner_of message source msgs boundaries timestamps_known =
     (if um_parent message \<noteq> None then parent_prompt message msgs
      else if source = ''codex'' \<and> 0 < um_ts message \<and> timestamps_known
        then codex_owner message msgs boundaries
      else None)"

definition contribution_of ::
  "usage_message \<Rightarrow> string \<Rightarrow> messages \<Rightarrow> session_event list \<Rightarrow> bool \<Rightarrow> contribution" where
  "contribution_of message source msgs boundaries timestamps_known =
     (if um_usage message = Unreadable then Contradictory
      else
       (case owner_of message source msgs boundaries timestamps_known of
          None \<Rightarrow> Silent
        | Some owner \<Rightarrow>
            if um_text owner = [] \<or> prompt_count msgs (prompt_key_of owner) \<noteq> 1 then Contradictory
            else (case um_usage message of
                    Measured usage \<Rightarrow> MeasuredBy (prompt_key_of owner) usage
                  | _ \<Rightarrow> OwnedBy (prompt_key_of owner))))"

section \<open>Requests, and their sums by prompt\<close>

text \<open>The entry of one request after one more record of it.\<close>

fun contribute :: "contribution \<Rightarrow> request_state option \<Rightarrow> request_state option" where
  "contribute Silent st = st"
| "contribute Contradictory st = Some None"
| "contribute (OwnedBy key) None = Some (Some (key, None))"
| "contribute (OwnedBy key) (Some st) =
     (if (case st of None \<Rightarrow> False | Some (owner, _) \<Rightarrow> owner = key) then Some st else Some None)"
| "contribute (MeasuredBy key usage) None = Some (Some (key, Some usage))"
| "contribute (MeasuredBy key usage) (Some st) =
     (if (case st of None \<Rightarrow> False
          | Some (owner, seen) \<Rightarrow> owner = key
              \<and> (case seen of None \<Rightarrow> True | Some s \<Rightarrow> usage_eq s usage))
      then Some (Some (key, Some usage)) else Some None)"

definition record_contribution ::
  "string \<Rightarrow> contribution \<Rightarrow> (string \<Rightarrow> request_state option) \<Rightarrow> (string \<Rightarrow> request_state option)" where
  "record_contribution request c requests = requests(request := contribute c (requests request))"

definition add_to_prompt ::
  "prompt_key \<times> normalized_usage \<Rightarrow> (prompt_key \<Rightarrow> normalized_usage option option)
    \<Rightarrow> (prompt_key \<Rightarrow> normalized_usage option option)" where
  "add_to_prompt ku attributed =
     attributed(fst ku \<mapsto>
       (case attributed (fst ku) of
          None \<Rightarrow> Some (snd ku)
        | Some slot \<Rightarrow> Option.bind slot (\<lambda>t. usage_checked_add t (snd ku))))"

text \<open>The requests that end with an owner and a measurement, in the order they are drained.\<close>

definition measured_requests :: "request_state option list \<Rightarrow> (prompt_key \<times> normalized_usage) list" where
  "measured_requests sts =
     List.map_filter (\<lambda>st. case st of Some (Some (key, Some usage)) \<Rightarrow> Some (key, usage) | _ \<Rightarrow> None) sts"

definition sum_requests_by_prompt ::
  "request_state option list \<Rightarrow> prompt_key \<Rightarrow> normalized_usage option" where
  "sum_requests_by_prompt sts =
     (\<lambda>k. Option.bind (fold add_to_prompt (measured_requests sts) Map.empty k) (\<lambda>x. x))"

definition assistant_messages :: "(string list \<Rightarrow> string list) \<Rightarrow> messages \<Rightarrow> usage_message list" where
  "assistant_messages ord msgs =
     filter (\<lambda>m. um_role m = ''assistant'') (List.map_filter (map_of msgs) (ord (map fst msgs)))"

definition requests_of_messages ::
  "(string list \<Rightarrow> string list) \<Rightarrow> session_event list \<Rightarrow> messages \<Rightarrow> string
    \<Rightarrow> (string \<Rightarrow> request_state option)" where
  "requests_of_messages ord events msgs source =
     (let boundaries = boundaries_of events;
          timestamps_known = list_all (\<lambda>e. 0 < e_ts_ms e) boundaries
      in fold (\<lambda>m. record_contribution (um_request m)
             (contribution_of m source msgs boundaries timestamps_known))
           (assistant_messages ord msgs) Map.empty)"

definition attribute_usage_to_prompts ::
  "(string \<Rightarrow> string + json) \<Rightarrow> render \<Rightarrow> (string list \<Rightarrow> string list)
    \<Rightarrow> session_event list \<Rightarrow> string \<Rightarrow> (prompt_key \<Rightarrow> normalized_usage option)" where
  "attribute_usage_to_prompts parse render ord events source =
     (let msgs = messages_of parse render events source;
          requests = requests_of_messages ord events msgs source
      in sum_requests_by_prompt
           (map requests (ord (remdups (map um_request (assistant_messages ord msgs))))))"

end
