(* ===== verification/UsageFacts.thy ===== *)
theory UsageFacts
  imports Usage
begin

text \<open>
  What normalization promises: counters are exact or an error, an unreported counter is zero
  and marked as such, cache reads and exclusive input add up to the provider's inclusive
  input, and adding records never wraps.
\<close>

section \<open>Adding\<close>

lemma checked_add_optional_Some:
  "checked_add_optional x y = Some z \<longleftrightarrow>
     (case (x, y) of
        (Some a, Some b) \<Rightarrow> (\<exists>c. z = Some c \<and> uint c = uint a + uint b)
      | _ \<Rightarrow> z = None)"
  by (cases x; cases y) (auto simp: checked_add_u64_Some)

lemma checked_add_optional_commute: "checked_add_optional x y = checked_add_optional y x"
  by (cases x; cases y) (auto simp: checked_add_u64_commute)

lemma checked_add_cost_commute: "checked_add_cost x y = checked_add_cost y x"
  by (cases x; cases y) (auto simp: f64_add_commute Let_def)

text \<open>A sum that is returned, field by field.\<close>

lemma usage_checked_add_fields:
  assumes "usage_checked_add a b = Some c"
  shows "checked_add_u64 (input_tokens a) (input_tokens b) = Some (input_tokens c)"
    and "checked_add_u64 (output_tokens a) (output_tokens b) = Some (output_tokens c)"
    and "checked_add_optional (reasoning_tokens a) (reasoning_tokens b) = Some (reasoning_tokens c)"
    and "checked_add_u64 (cache_read_tokens a) (cache_read_tokens b) = Some (cache_read_tokens c)"
    and "checked_add_u64 (cache_write_tokens a) (cache_write_tokens b) = Some (cache_write_tokens c)"
    and "checked_add_optional (split_bucket a (cache_write_5m_tokens a))
           (split_bucket b (cache_write_5m_tokens b)) = Some (cache_write_5m_tokens c)"
    and "checked_add_optional (split_bucket a (cache_write_1h_tokens a))
           (split_bucket b (cache_write_1h_tokens b)) = Some (cache_write_1h_tokens c)"
    and "checked_add_optional (provider_total_tokens a) (provider_total_tokens b)
           = Some (provider_total_tokens c)"
    and "checked_add_cost (reported_cost_usd a) (reported_cost_usd b) = Some (reported_cost_usd c)"
    and "accounting c = accounting a"
    and "coverage c = coverage_merged (coverage a) (coverage b)"
  using assms
  by (auto simp: usage_checked_add_def checked_add_split_def split: Option.bind_splits)

text \<open>When there is no sum: some counter, or the cost, does not fit.\<close>

lemma usage_checked_add_None:
  "usage_checked_add a b = None \<longleftrightarrow>
     checked_add_u64 (input_tokens a) (input_tokens b) = None
     \<or> checked_add_u64 (output_tokens a) (output_tokens b) = None
     \<or> checked_add_optional (reasoning_tokens a) (reasoning_tokens b) = None
     \<or> checked_add_u64 (cache_read_tokens a) (cache_read_tokens b) = None
     \<or> checked_add_u64 (cache_write_tokens a) (cache_write_tokens b) = None
     \<or> checked_add_optional (split_bucket a (cache_write_5m_tokens a))
          (split_bucket b (cache_write_5m_tokens b)) = None
     \<or> checked_add_optional (split_bucket a (cache_write_1h_tokens a))
          (split_bucket b (cache_write_1h_tokens b)) = None
     \<or> checked_add_optional (provider_total_tokens a) (provider_total_tokens b) = None
     \<or> checked_add_cost (reported_cost_usd a) (reported_cost_usd b) = None"
  by (simp add: usage_checked_add_def checked_add_split_def split: Option.bind_splits)

text \<open>Adding two usage records is exact: where a sum is returned, each counter is the sum of
  the two counters as integers, so nothing wraps, and an optional counter is reported exactly
  when both records report it.\<close>

lemma usage_checked_add_exact:
  assumes "usage_checked_add a b = Some c"
  shows "uint (input_tokens c) = uint (input_tokens a) + uint (input_tokens b)
    \<and> uint (output_tokens c) = uint (output_tokens a) + uint (output_tokens b)
    \<and> uint (cache_read_tokens c) = uint (cache_read_tokens a) + uint (cache_read_tokens b)
    \<and> uint (cache_write_tokens c) = uint (cache_write_tokens a) + uint (cache_write_tokens b)
    \<and> (reasoning_tokens c \<noteq> None \<longleftrightarrow> reasoning_tokens a \<noteq> None \<and> reasoning_tokens b \<noteq> None)
    \<and> (provider_total_tokens c \<noteq> None \<longleftrightarrow>
         provider_total_tokens a \<noteq> None \<and> provider_total_tokens b \<noteq> None)"
  using usage_checked_add_fields [OF assms]
  by (auto simp: checked_add_u64_Some checked_add_optional_Some split: option.splits)

lemma usage_checked_add_exact_witness:
  "uint (input_tokens (the (usage_checked_add
      ((usage_empty PerRequest)\<lparr>input_tokens := 3\<rparr>) ((usage_empty PerRequest)\<lparr>input_tokens := 4\<rparr>)))) = 7"
proof -
  have "usage_checked_add ((usage_empty PerRequest)\<lparr>input_tokens := 3\<rparr>)
      ((usage_empty PerRequest)\<lparr>input_tokens := 4\<rparr>)
    = Some ((usage_empty PerRequest)\<lparr>input_tokens := 7\<rparr>)"
    by code_simp
  from usage_checked_add_exact [OF this] this show ?thesis by simp
qed

section \<open>Coverage\<close>

text \<open>A counter the provider did not report is zero.\<close>

definition coverage_sound :: "normalized_usage \<Rightarrow> bool" where
  "coverage_sound u \<longleftrightarrow>
     (has_input_tokens (coverage u) \<or> input_tokens u = 0)
     \<and> (has_output_tokens (coverage u) \<or> output_tokens u = 0)
     \<and> (has_reasoning_tokens (coverage u) \<longleftrightarrow> reasoning_tokens u \<noteq> None)
     \<and> (has_cache_read_tokens (coverage u) \<or> cache_read_tokens u = 0)
     \<and> (has_cache_write_tokens (coverage u) \<or> cache_write_tokens u = 0)"

text \<open>The output side of it, which the readers of the built-in sources start from.\<close>

definition coverage_sound_out :: "normalized_usage \<Rightarrow> bool" where
  "coverage_sound_out u \<longleftrightarrow>
     (has_output_tokens (coverage u) \<or> output_tokens u = 0)
     \<and> (has_reasoning_tokens (coverage u) \<longleftrightarrow> reasoning_tokens u \<noteq> None)"

lemma checked_sub_zero: "checked_sub_u64 0 c = Some x \<Longrightarrow> x = 0"
  by (auto simp: checked_sub_u64_Some intro!: word_uint_eqI)
     (metis add_nonneg_eq_0_iff uint_ge_0)

lemma checked_add_zero: "checked_add_u64 0 0 = Some x \<Longrightarrow> x = 0"
  by (auto simp: checked_add_u64_def)

lemma apply_inclusive_input_sound:
  "apply_inclusive_input u i c w f = Inr u' \<Longrightarrow> coverage_sound_out u \<Longrightarrow> coverage_sound u'"
  by (cases i; cases c; cases w)
     (auto simp: apply_inclusive_input_def and_then_Inr ok_or_Inr coverage_sound_def
        coverage_sound_out_def dest: checked_sub_zero)

lemma apply_codex_usage_sound:
  "apply_codex_usage render obj st = Inr (u, r) \<Longrightarrow> coverage_sound_out (fst st) \<Longrightarrow> coverage_sound u"
  by (auto simp: apply_codex_usage_def and_then_Inr dest: apply_inclusive_input_sound)

lemma apply_muse_usage_sound:
  "apply_muse_usage render obj st = Inr (u, r) \<Longrightarrow> coverage_sound_out (fst st) \<Longrightarrow> coverage_sound u"
  by (auto simp: apply_muse_usage_def and_then_Inr dest: apply_inclusive_input_sound)

lemma unwrap_or_reported [simp]: "(\<exists>y. x = Some y) \<or> unwrap_or x d = d"
  by (cases x) simp_all

lemma claude_write_sound:
  "(case w of Some t \<Rightarrow> Inr t | None \<Rightarrow> ok_or (checked_add_u64 (unwrap_or a 0) (unwrap_or b 0)) e) = Inr x
    \<Longrightarrow> (w \<noteq> None \<or> a \<noteq> None \<or> b \<noteq> None) \<or> x = 0"
  by (cases w; cases a; cases b) (auto simp: ok_or_Inr dest: checked_add_zero)

lemmas and_then_unfold =
  and_then_Inr split_paired_Ex prod.case sum.inject prod.inject option.inject

lemma apply_claude_usage_sound:
  assumes "apply_claude_usage render obj st = Inr (u, r)" and "coverage_sound_out (fst st)"
  shows "coverage_sound u"
proof -
  from assms(1) obtain inp read w e5 e1 x where
    w: "(case w of Some t \<Rightarrow> Inr t | None \<Rightarrow> ok_or (checked_add_u64 (unwrap_or e5 0) (unwrap_or e1 0))
           (CounterOverflow ''cache_creation'')) = Inr x"
    and u: "u = (fst st)\<lparr>input_tokens := unwrap_or inp 0, cache_read_tokens := unwrap_or read 0,
              cache_write_5m_tokens := e5, cache_write_1h_tokens := e1, cache_write_tokens := x,
              coverage := (coverage (fst st))\<lparr>has_input_tokens := inp \<noteq> None,
                has_cache_read_tokens := read \<noteq> None,
                has_cache_write_tokens := (w \<noteq> None \<or> e5 \<noteq> None \<or> e1 \<noteq> None)\<rparr>\<rparr>"
    unfolding apply_claude_usage_def Let_def and_then_unfold by blast
  from claude_write_sound [OF w] assms(2) show ?thesis
    by (auto simp: u coverage_sound_def coverage_sound_out_def)
qed

lemma apply_grok_usage_sound:
  assumes "apply_grok_usage render obj st = Inr (Some (u, r))"
  shows "coverage_sound u"
proof (cases "map_of obj ''usage''")
  case None
  with assms show ?thesis by (simp add: apply_grok_usage_def)
next
  case (Some raw)
  have grok_input: "(case i of Some n \<Rightarrow> ok_or (checked_sub_u64 n c) (CounterRegressed f n c)
      | None \<Rightarrow> Inr 0) = Inr x \<Longrightarrow> i \<noteq> None \<or> x = 0" for i c f x
    by (cases i) auto
  from assms obtain inp out read wr reas tot x where
    i: "(case inp of Some n \<Rightarrow> ok_or (checked_sub_u64 n (unwrap_or read 0))
           (CounterRegressed ''usage.inputTokens'' n (unwrap_or read 0)) | None \<Rightarrow> Inr 0) = Inr x"
    and u: "u = (fst st)\<lparr>input_tokens := x, output_tokens := unwrap_or out 0,
        reasoning_tokens := reas, cache_read_tokens := unwrap_or read 0,
        cache_write_tokens := unwrap_or wr 0, provider_total_tokens := tot,
        coverage := \<lparr>has_input_tokens = (inp \<noteq> None), has_output_tokens = (out \<noteq> None),
          has_reasoning_tokens = (reas \<noteq> None), has_cache_read_tokens = (read \<noteq> None),
          has_cache_write_tokens = (wr \<noteq> None)\<rparr>\<rparr>"
    unfolding apply_grok_usage_def Let_def Some option.case and_then_unfold by blast
  from grok_input [OF i] show ?thesis by (auto simp: u coverage_sound_def)
qed

lemma normalize_legacy_usage_sound:
  assumes "normalize_legacy_usage render source v = Inr (Some u)"
  shows "coverage_sound u"
proof -
  have nn: "is_null v = False" using assms by (auto simp: normalize_legacy_usage_def and_then_Inr)
  from assms obtain acc obj out reas tot rep3 applied where
    applied: "apply_source_usage render source obj
      ((usage_empty acc)\<lparr>output_tokens := unwrap_or out 0, reasoning_tokens := reas,
         provider_total_tokens := tot, coverage := coverage_default\<lparr>has_output_tokens := out \<noteq> None,
           has_reasoning_tokens := reas \<noteq> None\<rparr>\<rparr>, rep3) = Inr applied"
    and res: "(case applied of
        None \<Rightarrow> Inr None
      | Some (u, rep4) \<Rightarrow>
          and_then (read_cost render obj) (\<lambda>cost.
            Inr (if rep4 \<or> cost \<noteq> None then Some (u\<lparr>reported_cost_usd := cost\<rparr>) else None)))
      = Inr (Some u)"
    unfolding normalize_legacy_usage_def nn if_False and_then_unfold by blast
  from res obtain u1 rep4 cost where a: "applied = Some (u1, rep4)" and u: "u = u1\<lparr>reported_cost_usd := cost\<rparr>"
    by (auto simp: and_then_Inr split: option.splits if_splits)
  have start: "coverage_sound_out ((usage_empty acc)\<lparr>output_tokens := unwrap_or out 0,
      reasoning_tokens := reas, provider_total_tokens := tot,
      coverage := coverage_default\<lparr>has_output_tokens := out \<noteq> None,
        has_reasoning_tokens := reas \<noteq> None\<rparr>\<rparr>)"
    by (cases out) (simp_all add: coverage_sound_out_def)
  have "coverage_sound u1"
    using applied start a
    by (auto simp: apply_source_usage_def and_then_Inr split: if_splits
        dest: apply_codex_usage_sound apply_muse_usage_sound apply_claude_usage_sound apply_grok_usage_sound)
  then show ?thesis by (simp add: u coverage_sound_def)
qed

text \<open>The providers' own normalizers build the record and its coverage together.\<close>

lemma exclusive_of_sound: "exclusive_of i c f = Inr x \<Longrightarrow> i \<noteq> None \<or> unwrap_or x 0 = 0"
  by (cases i) (auto simp: exclusive_of_def)

lemma pi_normalized:
  assumes "pi_normalize render v = Inr (Some u)"
  obtains inp out read wr tot cost where "pi_cost render v = Inr cost"
    "u = \<lparr>input_tokens = unwrap_or inp 0, output_tokens = unwrap_or out 0,
         reasoning_tokens = None, cache_read_tokens = unwrap_or read 0,
         cache_write_tokens = unwrap_or wr 0, cache_write_5m_tokens = None,
         cache_write_1h_tokens = None, provider_total_tokens = tot, reported_cost_usd = cost,
         accounting = PerMessage,
         coverage = \<lparr>has_input_tokens = (inp \<noteq> None), has_output_tokens = (out \<noteq> None),
           has_reasoning_tokens = False, has_cache_read_tokens = (read \<noteq> None),
           has_cache_write_tokens = (wr \<noteq> None)\<rparr>\<rparr>"
proof -
  from assms have o: "is_object v = True" by (simp add: pi_normalize_def split: if_splits)
  from assms obtain inp out read wr tot where
    r: "(if list_all (\<lambda>x. x = None) [inp, out, read, wr, tot] then Inr None
     else and_then (pi_cost render v) (\<lambda>cost.
       Inr (Some \<lparr>input_tokens = unwrap_or inp 0, output_tokens = unwrap_or out 0,
         reasoning_tokens = None, cache_read_tokens = unwrap_or read 0,
         cache_write_tokens = unwrap_or wr 0, cache_write_5m_tokens = None,
         cache_write_1h_tokens = None, provider_total_tokens = tot, reported_cost_usd = cost,
         accounting = PerMessage,
         coverage = \<lparr>has_input_tokens = (inp \<noteq> None), has_output_tokens = (out \<noteq> None),
           has_reasoning_tokens = False, has_cache_read_tokens = (read \<noteq> None),
           has_cache_write_tokens = (wr \<noteq> None)\<rparr>\<rparr>))) = Inr (Some u)"
    unfolding pi_normalize_def o not_True_eq_False if_False and_then_unfold by blast
  then obtain cost where "pi_cost render v = Inr cost"
    and "u = \<lparr>input_tokens = unwrap_or inp 0, output_tokens = unwrap_or out 0,
         reasoning_tokens = None, cache_read_tokens = unwrap_or read 0,
         cache_write_tokens = unwrap_or wr 0, cache_write_5m_tokens = None,
         cache_write_1h_tokens = None, provider_total_tokens = tot, reported_cost_usd = cost,
         accounting = PerMessage,
         coverage = \<lparr>has_input_tokens = (inp \<noteq> None), has_output_tokens = (out \<noteq> None),
           has_reasoning_tokens = False, has_cache_read_tokens = (read \<noteq> None),
           has_cache_write_tokens = (wr \<noteq> None)\<rparr>\<rparr>"
    by (simp add: and_then_Inr split: if_split_asm) blast
  with that show thesis by blast
qed

lemma pi_normalize_sound: "pi_normalize render v = Inr (Some u) \<Longrightarrow> coverage_sound u"
  by (erule pi_normalized) (simp add: coverage_sound_def)

lemma copilot_normalize_sound: "copilot_normalize render v = Inr (Some u) \<Longrightarrow> coverage_sound u"
  by (auto simp: copilot_normalize_def and_then_Inr coverage_sound_def usage_empty_def
      coverage_default_def split: option.splits)

lemma qwen_normalized:
  assumes "qwen_normalize render v = Inr (Some u)"
  obtains inp out read tot x where
    "strict_counter render v ''promptTokenCount'' = Inr inp"
    "exclusive_of inp (unwrap_or read 0) ''promptTokenCount'' = Inr x"
    "u = \<lparr>input_tokens = unwrap_or x 0, output_tokens = unwrap_or out 0,
         reasoning_tokens = None, cache_read_tokens = unwrap_or read 0,
         cache_write_tokens = 0, cache_write_5m_tokens = None,
         cache_write_1h_tokens = None, provider_total_tokens = tot, reported_cost_usd = None,
         accounting = PerMessage,
         coverage = \<lparr>has_input_tokens = (inp \<noteq> None), has_output_tokens = (out \<noteq> None),
           has_reasoning_tokens = False, has_cache_read_tokens = (read \<noteq> None),
           has_cache_write_tokens = False\<rparr>\<rparr>"
proof -
  from assms have o: "is_object v = True" by (simp add: qwen_normalize_def split: if_splits)
  from assms obtain inp out read tot where
    i: "strict_counter render v ''promptTokenCount'' = Inr inp" and
    r: "(if list_all (\<lambda>x. x = None) [inp, out, read, tot] then Inr None
     else and_then (exclusive_of inp (unwrap_or read 0) ''promptTokenCount'') (\<lambda>exclusive.
       Inr (Some \<lparr>input_tokens = unwrap_or exclusive 0, output_tokens = unwrap_or out 0,
         reasoning_tokens = None, cache_read_tokens = unwrap_or read 0,
         cache_write_tokens = 0, cache_write_5m_tokens = None,
         cache_write_1h_tokens = None, provider_total_tokens = tot, reported_cost_usd = None,
         accounting = PerMessage,
         coverage = \<lparr>has_input_tokens = (inp \<noteq> None), has_output_tokens = (out \<noteq> None),
           has_reasoning_tokens = False, has_cache_read_tokens = (read \<noteq> None),
           has_cache_write_tokens = False\<rparr>\<rparr>))) = Inr (Some u)"
    unfolding qwen_normalize_def o not_True_eq_False if_False and_then_unfold by blast
  from r obtain x where "exclusive_of inp (unwrap_or read 0) ''promptTokenCount'' = Inr x"
    and "u = \<lparr>input_tokens = unwrap_or x 0, output_tokens = unwrap_or out 0,
         reasoning_tokens = None, cache_read_tokens = unwrap_or read 0,
         cache_write_tokens = 0, cache_write_5m_tokens = None,
         cache_write_1h_tokens = None, provider_total_tokens = tot, reported_cost_usd = None,
         accounting = PerMessage,
         coverage = \<lparr>has_input_tokens = (inp \<noteq> None), has_output_tokens = (out \<noteq> None),
           has_reasoning_tokens = False, has_cache_read_tokens = (read \<noteq> None),
           has_cache_write_tokens = False\<rparr>\<rparr>"
    by (simp add: and_then_Inr split: if_split_asm) blast
  with i that show thesis by blast
qed

lemma qwen_normalize_sound: "qwen_normalize render v = Inr (Some u) \<Longrightarrow> coverage_sound u"
  by (erule qwen_normalized) (drule exclusive_of_sound, simp add: coverage_sound_def)

lemma codebuddy_normalized:
  assumes "codebuddy_normalize render v = Inr (Some u)"
  obtains inp out tot cached x reas where
    "strict_counter render v ''prompt_tokens'' = Inr inp"
    "exclusive_of inp (unwrap_or cached 0) ''prompt_tokens'' = Inr x"
    "u = \<lparr>input_tokens = unwrap_or x 0, output_tokens = unwrap_or out 0,
         reasoning_tokens = reas, cache_read_tokens = unwrap_or cached 0,
         cache_write_tokens = 0, cache_write_5m_tokens = None,
         cache_write_1h_tokens = None, provider_total_tokens = tot, reported_cost_usd = None,
         accounting = PerMessage,
         coverage = \<lparr>has_input_tokens = (inp \<noteq> None), has_output_tokens = (out \<noteq> None),
           has_reasoning_tokens = (reas \<noteq> None), has_cache_read_tokens = (cached \<noteq> None),
           has_cache_write_tokens = False\<rparr>\<rparr>"
proof -
  from assms have o: "is_object v = True" by (simp add: codebuddy_normalize_def split: if_splits)
  from assms obtain inp out tot cached x reas where
    i: "strict_counter render v ''prompt_tokens'' = Inr inp" and
    x: "exclusive_of inp (unwrap_or cached 0) ''prompt_tokens'' = Inr x"
    and r: "(if inp = None \<and> out = None \<and> tot = None then Inr None
     else Inr (Some \<lparr>input_tokens = unwrap_or x 0, output_tokens = unwrap_or out 0,
         reasoning_tokens = reas, cache_read_tokens = unwrap_or cached 0,
         cache_write_tokens = 0, cache_write_5m_tokens = None,
         cache_write_1h_tokens = None, provider_total_tokens = tot, reported_cost_usd = None,
         accounting = PerMessage,
         coverage = \<lparr>has_input_tokens = (inp \<noteq> None), has_output_tokens = (out \<noteq> None),
           has_reasoning_tokens = (reas \<noteq> None), has_cache_read_tokens = (cached \<noteq> None),
           has_cache_write_tokens = False\<rparr>\<rparr>)) = (Inr (Some u) :: usage_error + _)"
    unfolding codebuddy_normalize_def o not_True_eq_False if_False and_then_unfold by blast
  from r have "u = \<lparr>input_tokens = unwrap_or x 0, output_tokens = unwrap_or out 0,
         reasoning_tokens = reas, cache_read_tokens = unwrap_or cached 0,
         cache_write_tokens = 0, cache_write_5m_tokens = None,
         cache_write_1h_tokens = None, provider_total_tokens = tot, reported_cost_usd = None,
         accounting = PerMessage,
         coverage = \<lparr>has_input_tokens = (inp \<noteq> None), has_output_tokens = (out \<noteq> None),
           has_reasoning_tokens = (reas \<noteq> None), has_cache_read_tokens = (cached \<noteq> None),
           has_cache_write_tokens = False\<rparr>\<rparr>"
    by (simp split: if_split_asm)
  with i x that show thesis by blast
qed

lemma codebuddy_normalize_sound: "codebuddy_normalize render v = Inr (Some u) \<Longrightarrow> coverage_sound u"
  by (erule codebuddy_normalized) (drule exclusive_of_sound, simp add: coverage_sound_def)

lemma vtcode_normalized:
  assumes "vtcode_normalize render v = Inr (Some u)"
  obtains inp read wr out x where
    "exclusive_of inp (saturating_add_u64 (unwrap_or read 0) (unwrap_or wr 0)) ''input_tokens'' = Inr x"
    "u = \<lparr>input_tokens = unwrap_or x 0, output_tokens = unwrap_or out 0,
         reasoning_tokens = None, cache_read_tokens = unwrap_or read 0,
         cache_write_tokens = unwrap_or wr 0, cache_write_5m_tokens = None,
         cache_write_1h_tokens = None, provider_total_tokens = None, reported_cost_usd = None,
         accounting = PerRequest,
         coverage = \<lparr>has_input_tokens = (inp \<noteq> None), has_output_tokens = (out \<noteq> None),
           has_reasoning_tokens = False, has_cache_read_tokens = (read \<noteq> None),
           has_cache_write_tokens = (wr \<noteq> None)\<rparr>\<rparr>"
proof -
  from assms have o: "is_object v = True" by (simp add: vtcode_normalize_def split: if_splits)
  from assms obtain inp read wr out where
    r: "(if list_all (\<lambda>x. x = None) [inp, read, wr, out] then Inr None
     else and_then (exclusive_of inp (saturating_add_u64 (unwrap_or read 0) (unwrap_or wr 0))
            ''input_tokens'') (\<lambda>exclusive.
       Inr (Some \<lparr>input_tokens = unwrap_or exclusive 0, output_tokens = unwrap_or out 0,
         reasoning_tokens = None, cache_read_tokens = unwrap_or read 0,
         cache_write_tokens = unwrap_or wr 0, cache_write_5m_tokens = None,
         cache_write_1h_tokens = None, provider_total_tokens = None, reported_cost_usd = None,
         accounting = PerRequest,
         coverage = \<lparr>has_input_tokens = (inp \<noteq> None), has_output_tokens = (out \<noteq> None),
           has_reasoning_tokens = False, has_cache_read_tokens = (read \<noteq> None),
           has_cache_write_tokens = (wr \<noteq> None)\<rparr>\<rparr>))) = Inr (Some u)"
    unfolding vtcode_normalize_def o not_True_eq_False if_False and_then_unfold by blast
  then obtain x where
    "exclusive_of inp (saturating_add_u64 (unwrap_or read 0) (unwrap_or wr 0)) ''input_tokens'' = Inr x"
    and "u = \<lparr>input_tokens = unwrap_or x 0, output_tokens = unwrap_or out 0,
         reasoning_tokens = None, cache_read_tokens = unwrap_or read 0,
         cache_write_tokens = unwrap_or wr 0, cache_write_5m_tokens = None,
         cache_write_1h_tokens = None, provider_total_tokens = None, reported_cost_usd = None,
         accounting = PerRequest,
         coverage = \<lparr>has_input_tokens = (inp \<noteq> None), has_output_tokens = (out \<noteq> None),
           has_reasoning_tokens = False, has_cache_read_tokens = (read \<noteq> None),
           has_cache_write_tokens = (wr \<noteq> None)\<rparr>\<rparr>"
    by (simp add: and_then_Inr split: if_split_asm) blast
  with that show thesis by blast
qed

lemma vtcode_normalize_sound: "vtcode_normalize render v = Inr (Some u) \<Longrightarrow> coverage_sound u"
  by (erule vtcode_normalized) (drule exclusive_of_sound, simp add: coverage_sound_def)

lemma normalize_usage_normalizers:
  assumes "normalize_usage render source v = Inr r"
  shows "normalize_legacy_usage render source v = Inr r \<or> pi_normalize render v = Inr r
    \<or> copilot_normalize render v = Inr r \<or> qwen_normalize render v = Inr r
    \<or> codebuddy_normalize render v = Inr r \<or> vtcode_normalize render v = Inr r"
proof -
  have "registered_normalize render source v = Inr r"
    using assms by (simp add: normalize_usage_def split: option.splits)
  then show ?thesis
    unfolding registered_normalize_def omp_normalize_def by metis
qed

text \<open>Coverage tells the truth for every registered source: a counter marked as not reported
  is zero, and reasoning is present exactly when it is marked as reported, so a zero that
  nobody wrote is never presented as a measured one.\<close>

lemma normalize_usage_coverage:
  "normalize_usage render source v = Inr (Some u) \<Longrightarrow> coverage_sound u"
  using normalize_legacy_usage_sound pi_normalize_sound copilot_normalize_sound
    qwen_normalize_sound codebuddy_normalize_sound vtcode_normalize_sound
  by (blast dest: normalize_usage_normalizers)

section \<open>Costs are finite\<close>

definition cost_finite :: "normalized_usage \<Rightarrow> bool" where
  "cost_finite u \<longleftrightarrow> (case reported_cost_usd u of None \<Rightarrow> True | Some x \<Rightarrow> f64_is_finite x)"

lemma read_cost_keys_finite: "read_cost_keys render obj ks = Inr (Some x) \<Longrightarrow> f64_is_finite x"
  by (induction ks) (auto split: option.splits if_splits)

lemma read_cost_finite: "read_cost render obj = Inr (Some x) \<Longrightarrow> f64_is_finite x"
  unfolding read_cost_def by (rule read_cost_keys_finite)

lemma pi_cost_finite: "pi_cost render v = Inr (Some x) \<Longrightarrow> f64_is_finite x"
  by (auto simp: pi_cost_def split: option.splits if_splits)

lemma legacy_cost_finite:
  assumes "normalize_legacy_usage render source v = Inr (Some u)"
  shows "cost_finite u"
proof -
  have nn: "is_null v = False" using assms by (auto simp: normalize_legacy_usage_def and_then_Inr)
  from assms obtain obj applied where
    res: "(case applied of
        None \<Rightarrow> Inr None
      | Some (u, rep4) \<Rightarrow>
          and_then (read_cost render obj) (\<lambda>cost.
            Inr (if rep4 \<or> cost \<noteq> None then Some (u\<lparr>reported_cost_usd := cost\<rparr>) else None)))
      = Inr (Some u)"
    unfolding normalize_legacy_usage_def nn if_False and_then_unfold by blast
  then obtain cost u1 where "read_cost render obj = Inr cost" "u = u1\<lparr>reported_cost_usd := cost\<rparr>"
    by (auto simp: and_then_Inr split: option.splits if_splits)
  then show ?thesis
    by (auto simp: cost_finite_def dest: read_cost_finite split: option.splits)
qed

lemma pi_cost_bound: "pi_normalize render v = Inr (Some u) \<Longrightarrow> cost_finite u"
  by (erule pi_normalized) (auto simp: cost_finite_def dest: pi_cost_finite split: option.splits)

lemma normalize_usage_cost_finite: "normalize_usage render source v = Inr (Some u) \<Longrightarrow> cost_finite u"
proof -
  have copilot: "copilot_normalize render v = Inr (Some u) \<Longrightarrow> cost_finite u"
    by (auto simp: copilot_normalize_def and_then_Inr cost_finite_def usage_empty_def split: option.splits)
  have qwen: "qwen_normalize render v = Inr (Some u) \<Longrightarrow> cost_finite u"
    by (erule qwen_normalized) (simp add: cost_finite_def)
  have codebuddy: "codebuddy_normalize render v = Inr (Some u) \<Longrightarrow> cost_finite u"
    by (erule codebuddy_normalized) (simp add: cost_finite_def)
  have vtcode: "vtcode_normalize render v = Inr (Some u) \<Longrightarrow> cost_finite u"
    by (erule vtcode_normalized) (simp add: cost_finite_def)
  show "normalize_usage render source v = Inr (Some u) \<Longrightarrow> cost_finite u"
    using normalize_usage_normalizers [of render source v "Some u"]
      legacy_cost_finite [of render source v u] pi_cost_bound [of render v u] copilot qwen codebuddy vtcode
    by blast
qed

section \<open>Cache reads are counted once\<close>

text \<open>The prompt count a record of one of these sources reports, cache reads included.\<close>

definition inclusive_input :: "string \<Rightarrow> json \<Rightarrow> u64 option" where
  "inclusive_input source v =
     Option.bind
       (if source = ''qwen-code'' then json_get v ''promptTokenCount''
        else if source = ''codebuddy'' then json_get v ''prompt_tokens''
        else if source = ''grok'' then
          Option.bind (Option.bind (json_get v ''usage'') as_object)
            (\<lambda>b. find_member b GROK_USAGE_INPUT_KEYS)
        else json_get v ''input_tokens'') as_u64"

lemma read_counter_u64: "as_u64 x = Some n \<Longrightarrow> read_counter render (Some x) f = Inr y \<Longrightarrow> y = Some n"
  by (cases x) (auto simp: read_counter_def split: number.splits)

lemma counter_from_u64:
  "map_of obj k = Some x \<Longrightarrow> as_u64 x = Some n \<Longrightarrow> counter_from render obj k r = Inr (y, r') \<Longrightarrow> y = Some n"
  by (auto simp: counter_from_def and_then_Inr dest: read_counter_u64)

lemma strict_counter_u64:
  "json_get v k = Some x \<Longrightarrow> as_u64 x = Some n \<Longrightarrow> strict_counter render v k = Inr y \<Longrightarrow> y = Some n"
  by (auto simp: strict_counter_def)

lemma apply_inclusive_input_sum:
  "apply_inclusive_input u (Some n) c w f = Inr u' \<Longrightarrow>
    uint (input_tokens u') + uint (cache_read_tokens u') = uint n"
  by (auto simp: apply_inclusive_input_def Let_def and_then_Inr ok_or_Inr checked_sub_u64_Some)

lemma exclusive_of_sum: "exclusive_of (Some n) c f = Inr x \<Longrightarrow> uint (unwrap_or x 0) + uint c = uint n"
  by (auto simp: exclusive_of_def and_then_Inr ok_or_Inr checked_sub_u64_Some)

lemma strict_exclusive_sum:
  assumes "json_get v k = Some x" and "as_u64 x = Some n"
    and i: "strict_counter render v k = Inr i" and y: "exclusive_of i c f = Inr y"
  shows "uint (unwrap_or y 0) + uint c = uint n"
  using strict_counter_u64 [OF assms(1,2) i] y by (simp add: exclusive_of_sum)

lemma codex_input_sum:
  assumes "apply_codex_usage render obj st = Inr (u, r)"
    and "map_of obj ''input_tokens'' = Some x" and "as_u64 x = Some n"
  shows "uint (input_tokens u) + uint (cache_read_tokens u) = uint n"
proof -
  from assms(1) obtain i r1 c w where
    i: "counter_from render obj ''input_tokens'' (snd st) = Inr (i, r1)"
    and u: "apply_inclusive_input (fst st) i c w ''input_tokens'' = Inr u"
    unfolding apply_codex_usage_def and_then_unfold by blast
  from u counter_from_u64 [OF assms(2,3) i] show ?thesis by (auto dest: apply_inclusive_input_sum)
qed

lemma muse_input_sum:
  assumes "apply_muse_usage render obj st = Inr (u, r)"
    and "map_of obj ''input_tokens'' = Some x" and "as_u64 x = Some n"
  shows "uint (input_tokens u) + uint (cache_read_tokens u) = uint n"
proof -
  from assms(1) obtain i r1 c w where
    i: "counter_from render obj ''input_tokens'' (snd st) = Inr (i, r1)"
    and u: "apply_inclusive_input (fst st) i c w ''input_tokens'' = Inr u"
    unfolding apply_muse_usage_def and_then_unfold by blast
  from u counter_from_u64 [OF assms(2,3) i] show ?thesis by (auto dest: apply_inclusive_input_sum)
qed

lemma grok_input_sum:
  assumes "apply_grok_usage render obj st = Inr (Some (u, r))"
    and "map_of obj ''usage'' = Some raw" and "as_object raw = Some b"
    and "find_member b GROK_USAGE_INPUT_KEYS = Some x" and "as_u64 x = Some n"
  shows "uint (input_tokens u) + uint (cache_read_tokens u) = uint n"
proof -
  from assms(1) obtain i read x' where
    i: "grok_counter render b GROK_USAGE_INPUT_KEYS ''usage.inputTokens'' (snd st) = Inr i"
    and x': "(case fst i of Some n \<Rightarrow> ok_or (checked_sub_u64 n read)
           (CounterRegressed ''usage.inputTokens'' n read) | None \<Rightarrow> Inr 0) = Inr x'"
    and u: "input_tokens u = x'" "cache_read_tokens u = read"
    unfolding apply_grok_usage_def Let_def assms(2,3) option.case ok_or_simps and_then_simps
      and_then_unfold by fastforce
  from i assms(4,5) have "fst i = Some n"
    by (auto simp: grok_counter_def and_then_Inr dest: read_counter_u64)
  with x' u show ?thesis by (auto simp: ok_or_Inr checked_sub_u64_Some)
qed

lemma legacy_applied:
  assumes "normalize_legacy_usage render source v = Inr (Some u)"
  obtains obj st u1 r cost where "as_object v = Some obj"
    and "apply_source_usage render source obj st = Inr (Some (u1, r))"
    and "u = u1\<lparr>reported_cost_usd := cost\<rparr>"
proof -
  have nn: "is_null v = False" using assms by (auto simp: normalize_legacy_usage_def and_then_Inr)
  from assms obtain obj st applied where
    o: "ok_or (as_object v) NotAnObject = Inr obj"
    and a: "apply_source_usage render source obj st = Inr applied"
    and res: "(case applied of
        None \<Rightarrow> Inr None
      | Some (u, rep4) \<Rightarrow>
          and_then (read_cost render obj) (\<lambda>cost.
            Inr (if rep4 \<or> cost \<noteq> None then Some (u\<lparr>reported_cost_usd := cost\<rparr>) else None)))
      = Inr (Some u)"
    unfolding normalize_legacy_usage_def nn if_False and_then_unfold by blast
  from res obtain u1 rep4 cost where "applied = Some (u1, rep4)" "u = u1\<lparr>reported_cost_usd := cost\<rparr>"
    by (auto simp: and_then_Inr split: option.splits if_splits)
  with o a that show thesis by (auto simp: ok_or_Inr)
qed

text \<open>Cache reads are counted once: for the sources whose prompt count includes them, the
  exclusive input and the cache reads of an accepted record add up, as integers, to the prompt
  count the provider wrote. In particular a record with more cache reads than prompt tokens is
  never accepted.\<close>

lemma normalize_usage_conserves_input:
  assumes norm: "normalize_usage render source v = Inr (Some u)"
    and src: "source \<in> {''codex'', ''muse'', ''grok'', ''qwen-code'', ''codebuddy''}"
    and inp: "inclusive_input source v = Some n"
  shows "uint (input_tokens u) + uint (cache_read_tokens u) = uint n"
proof -
  have legacy: ?thesis if s: "source \<in> {''codex'', ''muse'', ''grok''}"
  proof -
    have "normalize_legacy_usage render source v = Inr (Some u)"
      using norm s by (auto simp: normalize_usage_def registered_normalize_def split: option.splits)
    then obtain obj st u1 r cost where o: "as_object v = Some obj"
      and a: "apply_source_usage render source obj st = Inr (Some (u1, r))"
      and u: "u = u1\<lparr>reported_cost_usd := cost\<rparr>" by (rule legacy_applied)
    show ?thesis
      using a s inp o
      by (auto simp: apply_source_usage_def and_then_Inr inclusive_input_def json_get_def u
          Option.bind_eq_Some_conv intro: codex_input_sum muse_input_sum grok_input_sum)
  qed
  have reg: "registered_normalize render source v = Inr (Some u)"
    using norm by (simp add: normalize_usage_def split: option.splits)
  have qwen: ?thesis if s: "source = ''qwen-code''"
  proof -
    from inp s obtain x where "json_get v ''promptTokenCount'' = Some x" "as_u64 x = Some n"
      by (auto simp: inclusive_input_def Option.bind_eq_Some_conv)
    moreover have "qwen_normalize render v = Inr (Some u)"
      using reg s by (simp add: registered_normalize_def)
    ultimately show ?thesis
      by (auto elim!: qwen_normalized intro: strict_exclusive_sum)
  qed
  have codebuddy: ?thesis if s: "source = ''codebuddy''"
  proof -
    from inp s obtain x where "json_get v ''prompt_tokens'' = Some x" "as_u64 x = Some n"
      by (auto simp: inclusive_input_def Option.bind_eq_Some_conv)
    moreover have "codebuddy_normalize render v = Inr (Some u)"
      using reg s by (simp add: registered_normalize_def)
    ultimately show ?thesis
      by (auto elim!: codebuddy_normalized intro: strict_exclusive_sum)
  qed
  show ?thesis using src legacy qwen codebuddy by auto
qed

text \<open>A Claude record with a cache write split, and a Codex record whose prompt includes its
  cache reads.\<close>

definition claude_record :: json where
  "claude_record = JObject [(''input_tokens'', JNumber (PosInt 10)),
     (''cache_creation'', JObject [(''ephemeral_5m_input_tokens'', JNumber (PosInt 4))])]"

definition codex_record :: json where
  "codex_record = JObject [(''cached_input_tokens'', JNumber (PosInt 30)),
     (''input_tokens'', JNumber (PosInt 100)), (''output_tokens'', JNumber (PosInt 5))]"

lemma normalize_usage_coverage_witness:
  "coverage_sound (the (projr (normalize_usage (\<lambda>_. []) ''claude'' claude_record)))"
proof -
  have "normalize_usage (\<lambda>_. []) ''claude'' claude_record
     = Inr (Some (the (projr (normalize_usage (\<lambda>_. []) ''claude'' claude_record))))"
    by code_simp
  then show ?thesis by (rule normalize_usage_coverage)
qed

lemma normalize_usage_conserves_input_witness:
  "let u = the (projr (normalize_usage (\<lambda>_. []) ''codex'' codex_record))
   in uint (input_tokens u) + uint (cache_read_tokens u) = 100"
proof -
  let ?u = "the (projr (normalize_usage (\<lambda>_. []) ''codex'' codex_record))"
  have "normalize_usage (\<lambda>_. []) ''codex'' codex_record = Inr (Some ?u)"
    by code_simp
  moreover have "inclusive_input ''codex'' codex_record = Some 100" by code_simp
  ultimately have "uint (input_tokens ?u) + uint (cache_read_tokens ?u) = uint (100 :: u64)"
    using normalize_usage_conserves_input [of "\<lambda>_. []" "''codex''" codex_record ?u 100] by simp
  then show ?thesis by (simp add: Let_def)
qed

end
