(* ===== verification/SessionUsageFacts.thy ===== *)
theory SessionUsageFacts
  imports SessionUsage UsageFacts
begin

text \<open>
  What the requests of a session promise: one row per request key under the rule the Rust side
  uses too, pages that add up to the whole read, tool use ids that do not depend on how the
  tool calls were read, usage that every copy agrees on, and a rollup that is an exact sum.
\<close>

section \<open>The two request keys\<close>

text \<open>The rule exists twice, in Rust for prompt attribution and in SQL for the view, and both
  give every event the same request key.\<close>

lemma request_key_agrees: "request_key e = view_request_key e"
  by (simp add: request_key_def view_request_key_def nullif_empty_def text_or_empty_def
      split: option.split)

text \<open>The key names its namespace, so the key source is a function of the key.\<close>

lemma view_key_source_of_key:
  "view_request_key e = view_request_key e' \<Longrightarrow> view_key_source e = view_key_source e'"
  by (auto simp: view_request_key_def view_key_source_def split: if_splits)

lemma key_source_parse_as_str: "key_source_parse (key_source_as_str k) = Some k"
  by (cases k) (simp_all add: key_source_parse_def)

section \<open>The groups of the view\<close>

lemma set_view_events:
  "set (view_events db source session) =
     {e \<in> set db. in_requests_view e \<and> e_source e = source \<and> e_session_id e = session}"
  by (auto simp: view_events_def session_events_def of_source_def)

lemma request_group_sorted:
  "request_group (view_events db source session) k =
     sort_key event_order (filter (\<lambda>e. in_requests_view e \<and> e_source e = source
       \<and> e_session_id e = session \<and> request_key e = k) db)"
  by (simp add: request_group_def view_events_def session_events_def of_source_def filter_sort
      filter_filter request_key_agrees conj_ac)

lemma length_request_group:
  "length (request_group (view_events db source session) k) =
     length (filter (\<lambda>e. in_requests_view e \<and> e_source e = source \<and> e_session_id e = session
       \<and> request_key e = k) db)"
  by (simp add: request_group_sorted)

lemma request_group_nonempty:
  "k \<in> view_request_key ` set es \<Longrightarrow> request_group es k \<noteq> []"
  by (auto simp: request_group_def filter_empty_conv)

lemma raw_of_group_key:
  "k \<in> view_request_key ` set es \<Longrightarrow> rr_request_key (raw_of_group (request_group es k)) = k"
  using hd_in_set [OF request_group_nonempty [of k es]]
  by (auto simp: raw_of_group_def request_group_def)

lemma raw_of_group_id:
  "k \<in> view_request_key ` set es \<Longrightarrow>
    \<exists>e \<in> set es. view_request_key e = k \<and> e_id e = rr_id (raw_of_group (request_group es k))"
proof -
  assume "k \<in> view_request_key ` set es"
  then have "Min (e_id ` set (request_group es k)) \<in> e_id ` set (request_group es k)"
    using request_group_nonempty [of k es] by (intro Min_in) auto
  then show ?thesis by (auto simp: raw_of_group_def request_group_def)
qed

lemma request_keys_distinct:
  "distinct (map rr_request_key (map (\<lambda>k. raw_of_group (request_group es k))
     (remdups (map view_request_key es))))"
proof -
  have "map rr_request_key (map (\<lambda>k. raw_of_group (request_group es k)) (remdups (map view_request_key es)))
      = remdups (map view_request_key es)"
    by (simp only: map_map comp_def, rule map_idI) (simp add: raw_of_group_key)
  then show ?thesis by (metis distinct_remdups)
qed

lemma mset_session_request_rows:
  "mset (session_request_rows db source session) =
     mset (map (\<lambda>k. raw_of_group (request_group (view_events db source session) k))
       (remdups (map view_request_key (view_events db source session))))"
  by (simp add: session_request_rows_def Let_def)

text \<open>The requests of a session partition its assistant events: no two rows share a request key,
  and the row of a key counts exactly the events of the session that the Rust rule gives that
  key. An event that is counted in no row, or in two, would show in these counts.\<close>

lemma session_request_rows_partition:
  "distinct (map rr_request_key (session_request_rows db source session))
   \<and> map_of (map (\<lambda>r. (rr_request_key r, rr_event_count r)) (session_request_rows db source session)) k
     = (let n = length (filter (\<lambda>e. in_requests_view e \<and> e_source e = source
              \<and> e_session_id e = session \<and> request_key e = k) db)
        in if n = 0 then None else Some (int n))"
proof -
  define es where "es = view_events db source session"
  let ?rows = "session_request_rows db source session"
  have mset: "mset ?rows = mset (map (\<lambda>k. raw_of_group (request_group es k)) (remdups (map view_request_key es)))"
    unfolding es_def by (rule mset_session_request_rows)
  then have set: "set ?rows = (\<lambda>k. raw_of_group (request_group es k)) ` view_request_key ` set es"
    by (metis mset_eq_setD set_map set_remdups)
  have dist: "distinct (map rr_request_key ?rows)"
    using request_keys_distinct [of es] mset
    by (metis mset_eq_imp_distinct_iff mset_map)
  have "map_of (map (\<lambda>r. (rr_request_key r, rr_event_count r)) ?rows) k
      = (if k \<in> view_request_key ` set es then Some (int (length (request_group es k))) else None)"
  proof (cases "k \<in> view_request_key ` set es")
    case True
    let ?r = "raw_of_group (request_group es k)"
    have "?r \<in> set ?rows" using True by (simp add: set)
    moreover have "rr_event_count ?r = int (length (request_group es k))"
      by (simp add: raw_of_group_def)
    ultimately have "(k, int (length (request_group es k)))
        \<in> set (map (\<lambda>r. (rr_request_key r, rr_event_count r)) ?rows)"
      using raw_of_group_key [OF True] by (metis (mono_tags, lifting) image_eqI set_map)
    moreover have "distinct (map fst (map (\<lambda>r. (rr_request_key r, rr_event_count r)) ?rows))"
      using dist by (simp add: comp_def)
    ultimately show ?thesis using True by (simp only: map_of_eq_Some_iff if_True)
  next
    case False
    then show ?thesis by (auto simp: map_of_eq_None_iff set raw_of_group_key)
  qed
  moreover have "k \<in> view_request_key ` set es \<longleftrightarrow> length (request_group es k) \<noteq> 0"
    by (auto simp: request_group_def filter_empty_conv)
  ultimately show ?thesis
    using dist length_request_group [of db source session k]
    by (simp add: Let_def es_def)
qed

section \<open>Tool use ids\<close>

definition ids_of :: "string \<Rightarrow> session_tool_call list \<Rightarrow> string list" where
  "ids_of m rows = map tc_tool_use_id (filter (\<lambda>r. tc_message_id r = Some m) rows)"

lemma ids_of_simps [simp]:
  "ids_of m [] = []"
  "ids_of m (r # rows) = (if tc_message_id r = Some m then tc_tool_use_id r # ids_of m rows else ids_of m rows)"
  by (simp_all add: ids_of_def)

definition found :: "'a list \<Rightarrow> 'a list option" where
  "found xs = (if xs = [] then None else Some xs)"

lemma bucket_id_apply:
  "bucket_id wanted r out m =
     (if m \<in> wanted \<and> tc_message_id r = Some m
      then Some (unwrap_or (out m) [] @ [tc_tool_use_id r]) else out m)"
  by (auto simp: bucket_id_def split: option.splits)

lemma fold_bucket_id:
  "(\<And>m. out m \<noteq> Some []) \<Longrightarrow>
   fold (bucket_id wanted) rows out m =
     (if m \<in> wanted then found (unwrap_or (out m) [] @ ids_of m rows) else out m)"
proof (induction rows arbitrary: out)
  case Nil
  then show ?case by (cases "out m") (auto simp: found_def)
next
  case (Cons r rows)
  have "bucket_id wanted r out m' \<noteq> Some []" for m'
    using Cons.prems by (simp add: bucket_id_apply)
  then show ?case
    by (simp add: Cons.IH) (simp add: bucket_id_apply)
qed

lemma fold_bucket_row:
  "fold (bucket_row wanted) rows b m =
     (if m \<in> wanted \<and> (b m \<noteq> None \<or> ids_of m rows \<noteq> [])
      then Some (fst (unwrap_or (b m) ([], [])) @ ids_of m (filter (\<lambda>r. tc_ts_ms r = None) rows),
             snd (unwrap_or (b m) ([], [])) @ ids_of m (filter (\<lambda>r. tc_ts_ms r \<noteq> None) rows))
      else b m)"
proof (induction rows arbitrary: b)
  case Nil
  then show ?case by (cases "b m") auto
next
  case (Cons r rows)
  show ?case
    by (simp only: fold_simps Cons.IH)
       (auto simp: bucket_row_def Let_def unwrap_or_def split: option.splits prod.splits)
qed

text \<open>The tool calls of one message in the order \<open>ORDER BY ts_ms, id\<close>.\<close>

definition message_calls ::
  "session_tool_call list \<Rightarrow> string \<Rightarrow> string \<Rightarrow> string \<Rightarrow> string list" where
  "message_calls calls source session m =
     map tc_tool_use_id (sort_key call_order
       (filter (\<lambda>r. tc_source r = source \<and> tc_session_id r = session \<and> tc_message_id r = Some m) calls))"

lemma tool_use_ids_for_eq:
  "tool_use_ids_for calls source session raws m =
     (if m \<in> wanted_ids raws then found (message_calls calls source session m) else None)"
proof -
  have "ids_of m (sort_key call_order (filter (\<lambda>r. tc_source r = source \<and> tc_session_id r = session
      \<and> tc_message_id r \<noteq> None) calls)) = message_calls calls source session m"
    by (auto simp: ids_of_def message_calls_def filter_sort filter_filter intro!: arg_cong [where f = "map _"]
        arg_cong [where f = "sort_key _"] filter_cong)
  then show ?thesis
    by (auto simp: tool_use_ids_for_def Let_def fold_bucket_id)
qed

lemma call_order_inj: "distinct (map tc_id db) \<Longrightarrow> inj_on call_order (set (filter P db))"
  by (rule inj_onI) (auto simp: call_order_def distinct_map inj_on_def)

lemma undated_then_dated:
  assumes "distinct (map tc_id db)"
  shows "filter (\<lambda>r. tc_ts_ms r = None) (sort_key (evidence_order tc_ts_ms tc_id) (filter P db))
      @ filter (\<lambda>r. tc_ts_ms r \<noteq> None) (sort_key (evidence_order tc_ts_ms tc_id) (filter P db))
    = sort_key call_order (filter P db)"
proof -
  have part: "filter Q (sort_key (evidence_order tc_ts_ms tc_id) (filter P db))
      = sort_key call_order (filter Q (filter P db))"
    if "\<And>x y. Q x \<Longrightarrow> Q y \<Longrightarrow> tc_ts_ms x = None \<longleftrightarrow> tc_ts_ms y = None" for Q
    unfolding filter_sort
  proof (rule sort_key_order_cong)
    fix x y
    assume "x \<in> set (filter Q (filter P db))" and "y \<in> set (filter Q (filter P db))"
    then have "tc_ts_ms x = None \<longleftrightarrow> tc_ts_ms y = None" by (intro that) simp_all
    then show "evidence_order tc_ts_ms tc_id x \<le> evidence_order tc_ts_ms tc_id y
        \<longleftrightarrow> call_order x \<le> call_order y"
      by (auto simp: evidence_order_def call_order_def)
  qed
  have "sort_key call_order (filter P db) =
      sort_key call_order (filter (\<lambda>r. tc_ts_ms r = None) (filter P db))
      @ sort_key call_order (filter (\<lambda>r. \<not> tc_ts_ms r = None) (filter P db))"
    by (rule sort_key_split) (use call_order_inj [OF assms] in \<open>auto simp: call_order_def\<close>)
  moreover have "filter (\<lambda>r. tc_ts_ms r = None) (sort_key (evidence_order tc_ts_ms tc_id) (filter P db))
      = sort_key call_order (filter (\<lambda>r. tc_ts_ms r = None) (filter P db))"
    by (rule part) auto
  moreover have "filter (\<lambda>r. \<not> tc_ts_ms r = None) (sort_key (evidence_order tc_ts_ms tc_id) (filter P db))
      = sort_key call_order (filter (\<lambda>r. \<not> tc_ts_ms r = None) (filter P db))"
    by (rule part) auto
  ultimately show ?thesis by (simp only:)
qed

text \<open>Tool use ids do not depend on how the tool calls were read: bucketing the rows the caller
  already has, whose order puts undated calls last, gives every message the same ids in the
  same order as the query of its own.\<close>

lemma tool_use_ids_agree:
  assumes "distinct (map tc_id calls)"
  shows "tool_use_ids_from_rows (session_tool_calls calls session (Some source)) raws
    = tool_use_ids_for calls source session raws"
proof (rule ext)
  fix m
  let ?P = "\<lambda>r. tc_source r = source \<and> tc_session_id r = session"
  let ?rows = "session_tool_calls calls session (Some source)"
  have rows: "?rows = sort_key (evidence_order tc_ts_ms tc_id) (filter ?P calls)"
    by (simp add: session_tool_calls_def of_source_def conj_commute)
  have "ids_of m (filter (\<lambda>r. tc_ts_ms r = None) ?rows) @ ids_of m (filter (\<lambda>r. tc_ts_ms r \<noteq> None) ?rows)
      = ids_of m (sort_key call_order (filter ?P calls))"
    unfolding rows undated_then_dated [OF assms, symmetric] by (simp add: ids_of_def)
  also have "\<dots> = message_calls calls source session m"
    by (simp add: ids_of_def message_calls_def filter_sort filter_filter conj_assoc)
  finally have both: "ids_of m (filter (\<lambda>r. tc_ts_ms r = None) ?rows)
      @ ids_of m (filter (\<lambda>r. tc_ts_ms r \<noteq> None) ?rows) = message_calls calls source session m" .
  have "ids_of m ?rows = [] \<longleftrightarrow> message_calls calls source session m = []"
    by (auto simp: rows ids_of_def message_calls_def filter_empty_conv)
  then show "tool_use_ids_from_rows ?rows raws m = tool_use_ids_for calls source session raws m"
    using both by (auto simp: tool_use_ids_from_rows_def fold_bucket_row tool_use_ids_for_eq found_def)
qed

section \<open>Pages and the whole read\<close>

text \<open>A request as every read builds it: only its own message ids reach the tool call map.\<close>

definition built_request ::
  "(string \<Rightarrow> string + json) \<Rightarrow> render \<Rightarrow> usage_store \<Rightarrow> string \<Rightarrow> string \<Rightarrow> raw_request \<Rightarrow> session_request" where
  "built_request parse render db source session raw =
     build_request raw (resolve_usage parse render raw)
       (\<lambda>m. found (message_calls (us_calls db) source session m))"

lemma build_request_wanted:
  "raw \<in> set raws \<Longrightarrow>
    build_request raw r (tool_use_ids_for calls source session raws)
      = build_request raw r (\<lambda>m. found (message_calls calls source session m))"
  by (auto simp: build_request_def tool_use_ids_for_eq wanted_ids_def intro!: arg_cong [where f = concat])

lemma session_requests_all_fst:
  "fst (session_requests_all parse render db source session None) =
     map (built_request parse render db source session)
       (session_request_rows (us_events db) source session)"
  by (simp add: session_requests_all_def Let_def built_request_def build_request_wanted)

definition sq_order :: "session_request \<Rightarrow> int \<times> int" where
  "sq_order r = (sq_first_ts_ms r, sq_id r)"

definition sq_cursor :: "session_request \<Rightarrow> session_request_cursor" where
  "sq_cursor r = \<lparr>rc_ts_ms = sq_first_ts_ms r, rc_id = sq_id r\<rparr>"

definition request_cursor_order :: "session_request_cursor \<Rightarrow> int \<times> int" where
  "request_cursor_order c = (rc_ts_ms c, rc_id c)"

lemma built_request_order: "sq_order (built_request parse render db source session raw) = request_order raw"
  by (simp add: sq_order_def built_request_def build_request_def request_order_def)

lemma built_request_cursor: "sq_cursor (built_request parse render db source session raw) = request_cursor raw"
  by (simp add: sq_cursor_def built_request_def build_request_def request_cursor_def)

lemma after_request_order: "after_request c = (\<lambda>r. request_cursor_order c < request_order r)"
  by (auto simp: after_request_def request_cursor_order_def request_order_def fun_eq_iff)

lemma fst_page_of_subset: "set (fst (page_of cursor lim read)) \<subseteq> set read"
  by (auto simp: page_of_def Let_def dest: in_set_takeD)

lemma session_requests_page_keyset:
  "session_requests_page parse render db source session limit after =
     keyset_page sq_order request_cursor_order sq_cursor
       (fst (session_requests_all parse render db source session None)) (page_limit limit) after"
proof -
  let ?rows = "session_request_rows (us_events db) source session"
  let ?B = "built_request parse render db source session"
  define selected where
    "selected = (case after of None \<Rightarrow> ?rows | Some c \<Rightarrow> filter (after_request c) ?rows)"
  define pg where "pg = page_of request_cursor (page_limit limit) (take (Suc (page_limit limit)) selected)"
  have "session_requests_page parse render db source session limit after = (map ?B (fst pg), snd pg)"
    by (simp add: session_requests_page_def Let_def selected_def [symmetric] pg_def [symmetric]
        built_request_def build_request_wanted split: prod.split)
  moreover have "pg = keyset_page request_order request_cursor_order request_cursor ?rows (page_limit limit) after"
    by (simp add: pg_def page_of_take keyset_page_def Let_def selected_def after_request_order
        split: option.split)
  ultimately show ?thesis
    using keyset_page_map [of "page_limit limit" sq_order ?B request_order sq_cursor request_cursor
        request_cursor_order ?rows after]
    by (simp add: session_requests_all_fst built_request_order built_request_cursor)
qed

text \<open>Ids tell requests apart: each is the id of one of its own events.\<close>

lemma request_ids_distinct:
  assumes "distinct (map e_id db)"
  shows "distinct (map rr_id (session_request_rows db source session))"
proof -
  define es where "es = view_events db source session"
  have ids: "inj_on e_id (set es)"
    using assms by (auto simp: es_def set_view_events distinct_map inj_on_def)
  have "inj_on (\<lambda>k. rr_id (raw_of_group (request_group es k))) (view_request_key ` set es)"
  proof (rule inj_onI)
    fix k k'
    assume k: "k \<in> view_request_key ` set es" "k' \<in> view_request_key ` set es"
      and eq: "rr_id (raw_of_group (request_group es k)) = rr_id (raw_of_group (request_group es k'))"
    from raw_of_group_id [OF k(1)] raw_of_group_id [OF k(2)] eq obtain e e'
      where "e \<in> set es" "e' \<in> set es" "view_request_key e = k" "view_request_key e' = k'" "e_id e = e_id e'"
      by auto
    with ids show "k = k'" by (metis inj_onD)
  qed
  then have "distinct (map rr_id (map (\<lambda>k. raw_of_group (request_group es k)) (remdups (map view_request_key es))))"
    by (simp add: distinct_map comp_def)
  then show ?thesis
    using mset_session_request_rows [of db source session]
    by (metis es_def mset_eq_imp_distinct_iff mset_map)
qed

lemma session_requests_strict:
  assumes "distinct (map e_id (us_events db))"
  shows "sorted_wrt (\<lambda>a b. sq_order a < sq_order b)
    (fst (session_requests_all parse render db source session None))"
proof -
  let ?rows = "session_request_rows (us_events db) source session"
  have ids: "distinct (map rr_id ?rows)" by (rule request_ids_distinct [OF assms])
  have "?rows = sort_key request_order ?rows"
    by (simp add: session_request_rows_def Let_def sort_key_idem)
  also have "sorted_wrt (\<lambda>a b. request_order a < request_order b) \<dots>"
    using ids by (intro sort_key_strict) (auto simp: distinct_map inj_on_def request_order_def)
  finally show ?thesis
    by (simp add: session_requests_all_fst sorted_wrt_map built_request_order)
qed

definition requests_of ::
  "(string \<Rightarrow> string + json) \<Rightarrow> render \<Rightarrow> usage_store \<Rightarrow> string \<times> string \<Rightarrow> session_request list" where
  "requests_of parse render db q = fst (session_requests_all parse render db (fst q) (snd q) None)"

definition requests_page_of ::
  "(string \<Rightarrow> string + json) \<Rightarrow> render \<Rightarrow> usage_store \<Rightarrow> string \<times> string \<Rightarrow> int
    \<Rightarrow> session_request_cursor option \<Rightarrow> session_request list \<times> session_request_cursor option" where
  "requests_page_of parse render db q = session_requests_page parse render db (fst q) (snd q)"

interpretation request_pages: keyset_paging "\<lambda>db. distinct (map e_id (us_events db))"
  "requests_of parse render" sq_order request_cursor_order sq_cursor page_limit
  "requests_page_of parse render" for parse render
proof unfold_locales
  fix db :: usage_store and q
  assume "distinct (map e_id (us_events db))"
  then show "sorted_wrt (\<lambda>a b. sq_order a < sq_order b) (requests_of parse render db q)"
    unfolding requests_of_def by (rule session_requests_strict)
qed (simp_all add: requests_of_def requests_page_of_def session_requests_page_keyset
      request_cursor_order_def sq_cursor_def sq_order_def)

text \<open>C5. The whole read of a session's requests is exactly its pages put together: following the
  page cursors gives the same requests in the same order, with the same usage and the same
  tool use ids, although every page reads the tool calls for its own requests only.\<close>

theorem session_requests_pages_complete:
  assumes "distinct (map e_id (us_events db))"
    and "length (fst (session_requests_all parse render db source session None)) < fuel"
  shows "walk_pages (session_requests_page parse render db source session limit) fuel None
    = Some (fst (session_requests_all parse render db source session None))"
proof -
  have "requests_page_of parse render db (source, session) limit
      = session_requests_page parse render db source session limit"
    by (simp add: requests_page_of_def fun_eq_iff)
  then show ?thesis
    using request_pages.walk_all [of db parse render "(source, session)" fuel limit] assms
    by (simp add: requests_of_def)
qed

section \<open>The rollup is an exact sum\<close>

definition request_usages :: "session_request list \<Rightarrow> normalized_usage list" where
  "request_usages rs = List.map_filter sq_usage rs"

definition sum_of :: "(normalized_usage \<Rightarrow> u64) \<Rightarrow> normalized_usage list \<Rightarrow> int" where
  "sum_of g us = (\<Sum>u\<leftarrow>us. uint (g u))"

lemma sum_of_simps [simp]:
  "sum_of g [] = 0" "sum_of g (u # us) = uint (g u) + sum_of g us"
  "sum_of g (us @ vs) = sum_of g us + sum_of g vs"
  by (simp_all add: sum_of_def)

definition totals :: "normalized_usage \<Rightarrow> normalized_usage list \<Rightarrow> bool" where
  "totals s us \<longleftrightarrow>
     uint (input_tokens s) = sum_of input_tokens us \<and> uint (output_tokens s) = sum_of output_tokens us
     \<and> uint (cache_read_tokens s) = sum_of cache_read_tokens us
     \<and> uint (cache_write_tokens s) = sum_of cache_write_tokens us"

definition resolved_usages ::
  "(string \<Rightarrow> string + json) \<Rightarrow> render \<Rightarrow> raw_request list \<Rightarrow> normalized_usage list" where
  "resolved_usages parse render raws = List.map_filter (\<lambda>r. ru_usage (resolve_usage parse render r)) raws"

lemma request_usages_all:
  "request_usages (fst (session_requests_all parse render db source session None)) =
     resolved_usages parse render (session_request_rows (us_events db) source session)"
  by (simp add: request_usages_def resolved_usages_def session_requests_all_fst map_filter_def
      comp_def filter_map built_request_def build_request_def)

definition fold_inv :: "usage_fold \<Rightarrow> normalized_usage list \<Rightarrow> bool" where
  "fold_inv f us \<longleftrightarrow>
     (uf_sum f = None \<longleftrightarrow> us = [])
     \<and> (\<not> uf_overflowed f \<longrightarrow> (\<forall>s. uf_sum f = Some s \<longrightarrow> totals s us))
     \<and> uint (uf_request_count f) = min (int (length us)) (2 ^ 64 - 1)"

lemma usage_checked_add_totals:
  assumes "usage_checked_add a b = Some c" and "totals a us"
  shows "totals c (us @ [b])"
  using usage_checked_add_fields(1,2,4,5) [OF assms(1)] assms(2)
  by (simp add: totals_def checked_add_u64_Some)

lemma fold_push_inv:
  assumes "fold_inv f us"
  shows "fold_inv (fold_push raw r f) (us @ (case ru_usage r of None \<Rightarrow> [] | Some u \<Rightarrow> [u]))"
proof (cases "ru_usage r")
  case None
  with assms show ?thesis by (simp add: fold_push_def fold_inv_def Let_def)
next
  case (Some u)
  show ?thesis
  proof (cases "uf_sum f")
    case None
    with assms have "us = []" by (simp add: fold_inv_def)
    with None Some assms show ?thesis
      by (simp add: fold_push_def fold_inv_def Let_def push_sum_def totals_def
          uint_saturating_add_u64)
  next
    case (Some s)
    with \<open>ru_usage r = Some u\<close> assms show ?thesis
      by (auto simp: fold_push_def fold_inv_def Let_def push_sum_def uint_saturating_add_u64
          intro: usage_checked_add_totals split: option.splits)
  qed
qed

lemma fold_requests_snoc:
  "fold_requests parse render (raws @ [raw]) =
     fold_push raw (resolve_usage parse render raw) (fold_requests parse render raws)"
  by (simp add: fold_requests_def)

lemma resolved_usages_snoc:
  "resolved_usages parse render (raws @ [raw]) = resolved_usages parse render raws
     @ (case ru_usage (resolve_usage parse render raw) of None \<Rightarrow> [] | Some u \<Rightarrow> [u])"
  by (simp add: resolved_usages_def map_filter_def split: option.split)

lemma fold_requests_inv: "fold_inv (fold_requests parse render raws) (resolved_usages parse render raws)"
proof (induction raws rule: rev_induct)
  case Nil
  then show ?case
    by (simp add: fold_inv_def fold_requests_def fold_default_def resolved_usages_def map_filter_def)
next
  case (snoc raw raws)
  from fold_push_inv [OF this] show ?case
    by (simp only: fold_requests_snoc resolved_usages_snoc)
qed

lemma fold_requests_count:
  "uint (uf_total_request_count (fold_requests parse render raws)) = min (int (length raws)) (2 ^ 64 - 1)"
proof (induction raws rule: rev_induct)
  case (snoc raw raws)
  then show ?case
    by (simp only: fold_requests_snoc)
       (auto simp: fold_push_def Let_def uint_saturating_add_u64 split: option.splits)
qed (simp add: fold_requests_def fold_default_def)

lemma fold_requests_diagnostics:
  "uf_diagnostics (fold_requests parse render raws) =
     (\<Union>raw \<in> set raws. set (ru_diagnostics (resolve_usage parse render raw)))"
proof (induction raws rule: rev_induct)
  case (snoc raw raws)
  then show ?case
    by (simp only: fold_requests_snoc)
       (auto simp: fold_push_def Let_def split: option.splits)
qed (simp add: fold_requests_def fold_default_def)

text \<open>C4. A session's totals are exact: when the summary reports usage, each counter is the sum, as
  integers, over the requests of the session that report usage, each counted once, and
  \<open>request_count\<close> says how many they are (saturating at the width of the field).\<close>

theorem session_usage_summary_exact:
  assumes "session_usage_summary parse render db source session = Some s" and "ss_usage s = Some u"
  shows "totals u (request_usages (fst (session_requests_all parse render db source session None)))
    \<and> uint (ss_request_count s)
      = min (int (length (request_usages (fst (session_requests_all parse render db source session None)))))
          (2 ^ 64 - 1)"
proof -
  let ?rows = "session_request_rows (us_events db) source session"
  have "fold_inv (fold_requests parse render ?rows) (resolved_usages parse render ?rows)"
    by (rule fold_requests_inv)
  then show ?thesis
    using assms unfolding request_usages_all
    by (auto simp: session_usage_summary_def fold_finish_def fold_inv_def Let_def split: if_splits)
qed

lemma fold_requests_nonempty:
  "uf_total_request_count (fold_requests parse render raws) = 0 \<longleftrightarrow> raws = []"
proof -
  have "uf_total_request_count (fold_requests parse render raws) = 0
      \<longleftrightarrow> uint (uf_total_request_count (fold_requests parse render raws)) = 0"
    by (simp add: uint_0_iff)
  then show ?thesis by (auto simp: fold_requests_count min_def)
qed

text \<open>The summary withholds its totals in exactly three cases: no request reports usage, some
  addition overflowed, or some request is keyed on a record of a source that writes one request
  as several records. In every other case the totals are there.\<close>

lemma session_usage_summary_withholds:
  assumes "session_usage_summary parse render db source session = Some s"
  shows "ss_usage s = None \<longleftrightarrow>
    request_usages (fst (session_requests_all parse render db source session None)) = []
    \<or> ss_overflowed s
    \<or> (\<exists>r \<in> set (fst (session_requests_all parse render db source session None)).
         UnresolvedRequestIdentity \<in> set (sq_diagnostics r))"
proof -
  let ?rows = "session_request_rows (us_events db) source session"
  let ?f = "fold_requests parse render ?rows"
  have "uf_sum ?f = None \<longleftrightarrow> resolved_usages parse render ?rows = []"
    using fold_requests_inv [of parse render ?rows] by (simp add: fold_inv_def)
  moreover have "UnresolvedRequestIdentity \<in> uf_diagnostics ?f \<longleftrightarrow>
      (\<exists>r \<in> set (fst (session_requests_all parse render db source session None)).
         UnresolvedRequestIdentity \<in> set (sq_diagnostics r))"
    by (simp add: fold_requests_diagnostics session_requests_all_fst built_request_def build_request_def)
  ultimately show ?thesis
    using assms unfolding request_usages_all
    by (auto simp: session_usage_summary_def fold_finish_def Let_def split: if_splits)
qed

text \<open>The whole read and the summary agree, whichever way the tool calls are supplied, and there
  is no summary exactly when the session has no request.\<close>

lemma session_requests_all_summary:
  "snd (session_requests_all parse render db source session calls)
     = session_usage_summary parse render db source session
   \<and> (session_usage_summary parse render db source session = None
      \<longleftrightarrow> fst (session_requests_all parse render db source session None) = [])"
  by (simp add: session_requests_all_def session_usage_summary_def Let_def fold_finish_def
      fold_requests_nonempty)

section \<open>A session whose counters fit is totalled\<close>

text \<open>The eight token counters, an optional one read as zero where it is absent.\<close>

definition usage_counters :: "(normalized_usage \<Rightarrow> u64) list" where
  "usage_counters = [input_tokens, output_tokens, \<lambda>u. unwrap_or (reasoning_tokens u) 0,
     cache_read_tokens, cache_write_tokens, \<lambda>u. unwrap_or (cache_write_5m_tokens u) 0,
     \<lambda>u. unwrap_or (cache_write_1h_tokens u) 0, \<lambda>u. unwrap_or (provider_total_tokens u) 0]"

definition usages_fit :: "normalized_usage list \<Rightarrow> bool" where
  "usages_fit us \<longleftrightarrow> (\<forall>g \<in> set usage_counters. sum_of g us < 2 ^ 64)
     \<and> (\<forall>u \<in> set us. reported_cost_usd u = None)"

definition bounded_by :: "normalized_usage \<Rightarrow> normalized_usage list \<Rightarrow> bool" where
  "bounded_by s us \<longleftrightarrow> (\<forall>g \<in> set usage_counters. uint (g s) \<le> sum_of g us)
     \<and> reported_cost_usd s = None"

lemma split_bucket_bound: "uint (unwrap_or (split_bucket u b) 0) = uint (unwrap_or b 0)"
  by (cases b) (auto simp: split_bucket_def)

lemma checked_add_optional_fits:
  assumes "uint (unwrap_or x 0) + uint (unwrap_or y 0) < 2 ^ 64"
  obtains z where "checked_add_optional x y = Some z"
    and "uint (unwrap_or z 0) \<le> uint (unwrap_or x 0) + uint (unwrap_or y 0)"
proof (cases "(x, y)" rule: checked_add_optional.cases)
  case (1 a b)
  then obtain c where "checked_add_u64 a b = Some c"
    using assms by (auto simp: checked_add_u64_def)
  with 1 that [of "Some c"] show thesis by (simp add: checked_add_u64_Some)
qed (use that [of None] in simp_all)

lemma usage_checked_add_fits:
  assumes bounded: "bounded_by a us" and fits: "usages_fit (us @ [b])"
  obtains c where "usage_checked_add a b = Some c" and "bounded_by c (us @ [b])"
proof -
  have lt: "uint (g a) + uint (g b) < 2 ^ 64" if "g \<in> set usage_counters" for g
  proof -
    have "uint (g a) \<le> sum_of g us" using bounded that by (simp add: bounded_by_def)
    moreover have "sum_of g us + uint (g b) < 2 ^ 64"
      using fits that by (simp add: usages_fit_def)
    ultimately show ?thesis by linarith
  qed
  have costs: "reported_cost_usd a = None" "reported_cost_usd b = None"
    using bounded fits by (simp_all add: bounded_by_def usages_fit_def)
  have plain: "checked_add_u64 (g a) (g b) \<noteq> None" if "g \<in> set usage_counters" for g
    using lt [OF that] by (simp add: checked_add_u64_None)
  have opt: "checked_add_optional x y \<noteq> None"
    if "uint (unwrap_or x 0) + uint (unwrap_or y 0) < 2 ^ 64" for x y
    using that by (rule checked_add_optional_fits) simp
  have "usage_checked_add a b \<noteq> None"
    using plain [of input_tokens] plain [of output_tokens] plain [of cache_read_tokens]
      plain [of cache_write_tokens] opt [OF lt [of "\<lambda>u. unwrap_or (reasoning_tokens u) 0"]]
      opt [OF lt [of "\<lambda>u. unwrap_or (provider_total_tokens u) 0"]]
      opt [of "split_bucket a (cache_write_5m_tokens a)" "split_bucket b (cache_write_5m_tokens b)"]
      opt [of "split_bucket a (cache_write_1h_tokens a)" "split_bucket b (cache_write_1h_tokens b)"]
      lt [of "\<lambda>u. unwrap_or (cache_write_5m_tokens u) 0"]
      lt [of "\<lambda>u. unwrap_or (cache_write_1h_tokens u) 0"] costs
    by (simp add: usage_checked_add_None split_bucket_bound usage_counters_def)
  then obtain c where c: "usage_checked_add a b = Some c" by blast
  have le: "uint (unwrap_or z 0) \<le> uint (unwrap_or x 0) + uint (unwrap_or y 0)"
    if "checked_add_optional x y = Some z" for x y z :: "u64 option"
    using that by (cases x; cases y) (auto simp: checked_add_u64_Some)
  have "uint (g c) \<le> uint (g a) + uint (g b)" if "g \<in> set usage_counters" for g
    using that usage_checked_add_fields(1,2,4,5) [OF c] le [OF usage_checked_add_fields(3) [OF c]]
      le [OF usage_checked_add_fields(6) [OF c]] le [OF usage_checked_add_fields(7) [OF c]]
      le [OF usage_checked_add_fields(8) [OF c]]
    by (auto simp: usage_counters_def checked_add_u64_Some split_bucket_bound)
  moreover have "reported_cost_usd c = None"
    using usage_checked_add_fields(9) [OF c] costs by simp
  ultimately have "bounded_by c (us @ [b])"
    using bounded by (fastforce simp: bounded_by_def)
  with c that show thesis by blast
qed

definition fold_bounded :: "usage_fold \<Rightarrow> normalized_usage list \<Rightarrow> bool" where
  "fold_bounded f us \<longleftrightarrow> \<not> uf_overflowed f
     \<and> (case uf_sum f of None \<Rightarrow> us = [] | Some s \<Rightarrow> bounded_by s us)"

lemma sum_of_nonneg: "0 \<le> sum_of g vs"
  by (induction vs) simp_all

lemma usages_fit_prefix:
  assumes "usages_fit (us @ vs)"
  shows "usages_fit us"
proof -
  have "sum_of g us < 2 ^ 64" if "g \<in> set usage_counters" for g
  proof -
    have "sum_of g us + sum_of g vs < 2 ^ 64" using assms that by (simp add: usages_fit_def)
    then show ?thesis using sum_of_nonneg [of g vs] by linarith
  qed
  with assms show ?thesis by (simp add: usages_fit_def)
qed

lemma fold_push_bounded:
  assumes "fold_bounded f us" and "usages_fit (us @ (case ru_usage r of None \<Rightarrow> [] | Some u \<Rightarrow> [u]))"
  shows "fold_bounded (fold_push raw r f) (us @ (case ru_usage r of None \<Rightarrow> [] | Some u \<Rightarrow> [u]))"
proof (cases "ru_usage r")
  case None
  with assms show ?thesis by (simp add: fold_push_def fold_bounded_def Let_def)
next
  case (Some u)
  show ?thesis
  proof (cases "uf_sum f")
    case None
    with Some assms show ?thesis
      by (simp add: fold_push_def fold_bounded_def Let_def push_sum_def bounded_by_def usages_fit_def)
  next
    case (Some s)
    with assms \<open>ru_usage r = Some u\<close> obtain c where "usage_checked_add s u = Some c"
      and "bounded_by c (us @ [u])"
      by (auto simp: fold_bounded_def elim: usage_checked_add_fits)
    with Some \<open>ru_usage r = Some u\<close> assms show ?thesis
      by (simp add: fold_push_def fold_bounded_def Let_def push_sum_def)
  qed
qed

lemma fold_requests_bounded:
  "usages_fit (resolved_usages parse render raws) \<Longrightarrow>
    fold_bounded (fold_requests parse render raws) (resolved_usages parse render raws)"
proof (induction raws rule: rev_induct)
  case Nil
  then show ?case
    by (simp add: fold_bounded_def fold_requests_def fold_default_def resolved_usages_def map_filter_def)
next
  case (snoc raw raws)
  then show ?case
    by (simp only: fold_requests_snoc resolved_usages_snoc)
       (intro fold_push_bounded snoc.IH, auto dest: usages_fit_prefix)
qed

text \<open>No false overflow: when the requests' counters, summed as integers, fit the width of the
  fields and none carries a cost, the summary does not report an overflow.\<close>

lemma session_usage_summary_no_false_overflow:
  assumes "session_usage_summary parse render db source session = Some s"
    and "usages_fit (request_usages (fst (session_requests_all parse render db source session None)))"
  shows "\<not> ss_overflowed s"
  using assms fold_requests_bounded [of parse render "session_request_rows (us_events db) source session"]
  unfolding request_usages_all
  by (auto simp: session_usage_summary_def fold_finish_def fold_bounded_def Let_def split: if_splits)

section \<open>Usage every copy agrees on\<close>

lemma sql_min_count_distinct:
  assumes "\<not> 1 < count_distinct xs" and "sql_min xs = Some j"
  shows "set xs = {j}"
proof -
  have "xs \<noteq> []" and "Min (set xs) = j" using assms(2) by (auto simp: sql_min_def split: if_splits)
  moreover have "card (set xs) \<le> 1"
    using assms(1) by (simp add: count_distinct_def length_remdups_card_conv)
  ultimately have "card (set xs) = 1"
    by (metis One_nat_def card_0_eq finite_set le_antisym less_one not_le set_empty2)
  then obtain x where "set xs = {x}" by (auto simp: card_1_singleton_iff)
  with \<open>Min (set xs) = j\<close> show ?thesis by simp
qed

text \<open>A request's usage is what its own records say: when a request reports usage, at least one
  of its events carries a usage blob, every event of the request that carries one carries that
  same blob, and the usage is the normalization of it. Copies that disagree are never summed
  and never chosen between.\<close>

lemma session_request_usage_agreed:
  assumes "r \<in> set (fst (session_requests_all parse render db source session None))"
    and "sq_usage r = Some u"
  shows "\<exists>j. normalize_usage_str parse render source j = Inr (Some u)
    \<and> {e_token_json e | e. e \<in> set (us_events db) \<and> in_requests_view e \<and> e_source e = source
        \<and> e_session_id e = session \<and> request_key e = sq_request_key r} - {None} = {Some j}"
proof -
  define es where "es = view_events (us_events db) source session"
  have "set (session_request_rows (us_events db) source session)
      = (\<lambda>k. raw_of_group (request_group es k)) ` view_request_key ` set es"
    using mset_session_request_rows [of "us_events db" source session]
    by (metis es_def mset_eq_setD set_map set_remdups)
  with assms(1) obtain k where k: "k \<in> view_request_key ` set es"
    and r: "r = built_request parse render db source session (raw_of_group (request_group es k))"
    by (auto simp: session_requests_all_fst)
  let ?g = "request_group es k"
  have g: "set ?g = {e \<in> set (us_events db). in_requests_view e \<and> e_source e = source
        \<and> e_session_id e = session \<and> request_key e = k}"
    by (auto simp: es_def request_group_sorted)
  have src: "rr_source (raw_of_group ?g) = source"
    using hd_in_set [OF request_group_nonempty [OF k]] g by (simp add: raw_of_group_def)
  have "ru_usage (resolve_usage parse render (raw_of_group ?g)) = Some u"
    using assms(2) by (simp add: r built_request_def build_request_def)
  then obtain j where variants: "\<not> 1 < rr_usage_variants (raw_of_group ?g)"
    and j: "rr_token_json (raw_of_group ?g) = Some j"
    and norm: "normalize_usage_str parse render source j = Inr (Some u)"
    by (auto simp: resolve_usage_def Let_def src split: if_splits option.splits sum.splits)
  have "set (List.map_filter e_token_json ?g) = {j}"
    using variants j by (intro sql_min_count_distinct) (simp_all add: raw_of_group_def)
  then have "{e_token_json e | e. e \<in> set ?g} - {None} = {Some j}"
    by (auto simp: set_map_filter set_eq_iff) (metis not_None_eq)+
  moreover have "sq_request_key r = k"
    by (simp add: r built_request_def build_request_def raw_of_group_key [OF k])
  ultimately show ?thesis using norm g by auto
qed

section \<open>Two requests of a session\<close>

text \<open>A Claude request written as two records with one usage blob, then a second request.\<close>

definition example_parse :: "string \<Rightarrow> string + json" where
  "example_parse s = (if s = ''u'' then Inr (JObject [(''input_tokens'', JNumber (PosInt 3))]) else Inl s)"

definition example_event :: "int \<Rightarrow> string \<Rightarrow> string \<Rightarrow> session_event" where
  "example_event i m r = (blank_event i (10 * i))\<lparr>e_role := ''assistant'', e_message_id := Some m,
     e_request_id := Some r, e_token_json := Some ''u''\<rparr>"

definition example_store :: usage_store where
  "example_store = \<lparr>us_events = [example_event 3 ''c'' ''r2'', example_event 1 ''a'' ''r1'',
       example_event 2 ''b'' ''r1''],
     us_calls = [(blank_call 1 (Some 5))\<lparr>tc_message_id := Some ''b''\<rparr>,
       (blank_call 2 None)\<lparr>tc_message_id := Some ''b''\<rparr>]\<rparr>"

abbreviation example_requests :: "session_request list" where
  "example_requests \<equiv> fst (session_requests_all example_parse (\<lambda>_. []) example_store ''claude'' ''s1'' None)"

abbreviation example_summary :: "session_usage_summary_rec option" where
  "example_summary \<equiv> session_usage_summary example_parse (\<lambda>_. []) example_store ''claude'' ''s1''"

lemma example_summary_is:
  "map_option (\<lambda>s. (map_option input_tokens (ss_usage s), ss_request_count s, ss_overflowed s)) example_summary
     = Some (Some 6, 2, False)"
  by code_simp

lemma example_requests_are: "map sq_request_key example_requests = [''request-id:r1'', ''request-id:r2'']"
  by code_simp

lemma example_ids: "distinct (map e_id (us_events example_store))" "distinct (map tc_id (us_calls example_store))"
  by code_simp+

lemma example_summary_Some: "example_summary = Some (the example_summary)"
  and example_usage_Some: "ss_usage (the example_summary) = Some (the (ss_usage (the example_summary)))"
  using example_summary_is by auto

lemma example_fits: "usages_fit (request_usages example_requests)"
  by code_simp

lemma tool_use_ids_agree_witness:
  "tool_use_ids_from_rows (session_tool_calls (us_calls example_store) ''s1'' (Some ''claude''))
      (session_request_rows (us_events example_store) ''claude'' ''s1'')
    = tool_use_ids_for (us_calls example_store) ''claude'' ''s1''
      (session_request_rows (us_events example_store) ''claude'' ''s1'')"
  by (rule tool_use_ids_agree [OF example_ids(2)])

theorem session_requests_pages_complete_witness:
  "walk_pages (session_requests_page example_parse (\<lambda>_. []) example_store ''claude'' ''s1'' 1) 3 None
    = Some example_requests"
proof (rule session_requests_pages_complete [OF example_ids(1)])
  show "length example_requests < 3"
    using arg_cong [OF example_requests_are, of length] by simp
qed

theorem session_usage_summary_exact_witness:
  "totals (the (ss_usage (the example_summary))) (request_usages example_requests)"
  using session_usage_summary_exact [OF example_summary_Some example_usage_Some] by simp

lemma session_usage_summary_withholds_witness:
  "request_usages example_requests \<noteq> []"
  using session_usage_summary_withholds [OF example_summary_Some] example_usage_Some by auto

lemma session_usage_summary_no_false_overflow_witness: "\<not> ss_overflowed (the example_summary)"
  by (rule session_usage_summary_no_false_overflow [OF example_summary_Some example_fits])

lemma session_request_usage_agreed_witness:
  "\<exists>j u. normalize_usage_str example_parse (\<lambda>_. []) ''claude'' j = Inr (Some u)
    \<and> {e_token_json e | e. e \<in> set (us_events example_store) \<and> in_requests_view e
        \<and> e_source e = ''claude'' \<and> e_session_id e = ''s1''
        \<and> request_key e = sq_request_key (hd example_requests)} - {None} = {Some j}"
proof -
  have "example_requests \<noteq> []" using example_requests_are by auto
  then have hd: "hd example_requests \<in> set example_requests" by simp
  have "sq_usage (hd example_requests) \<noteq> None" by code_simp
  then obtain u where "sq_usage (hd example_requests) = Some u" by blast
  from session_request_usage_agreed [OF hd this] show ?thesis by blast
qed

end
