(* ===== verification/AttributionFacts.thy ===== *)
theory AttributionFacts
  imports Attribution SessionUsageFacts
begin

text \<open>
  What prompt attribution promises: a prompt is charged only when it is the one human message
  with its text and time, every request is added once, to one prompt, all records of a counted
  request agree on the prompt and the measurement, and the order in which hash maps are
  iterated does not show in the counters.
\<close>

section \<open>Equality of measurements\<close>

lemma f64_eq_refl: "f64_is_finite x \<Longrightarrow> f64_eq x x"
  by (cases x) auto

lemma f64_eq_sym: "f64_eq x y \<Longrightarrow> f64_eq y x"
  by (cases x; cases y) auto

lemma f64_eq_trans: "f64_eq x y \<Longrightarrow> f64_eq y z \<Longrightarrow> f64_eq x z"
  by (cases x; cases y; cases z) auto

lemma usage_eq_refl: "cost_finite u \<Longrightarrow> usage_eq u u"
  by (auto simp: usage_eq_def cost_finite_def intro: f64_eq_refl split: option.splits)

lemma usage_eq_sym: "usage_eq u v \<Longrightarrow> usage_eq v u"
  by (auto simp: usage_eq_def intro: f64_eq_sym split: option.splits)

lemma usage_eq_trans: "usage_eq u v \<Longrightarrow> usage_eq v w \<Longrightarrow> usage_eq u w"
  by (auto simp: usage_eq_def intro: f64_eq_trans split: option.splits)

lemma usage_eq_counters:
  assumes "usage_eq u v"
  shows "input_tokens u = input_tokens v" and "output_tokens u = output_tokens v"
    and "cache_read_tokens u = cache_read_tokens v" and "cache_write_tokens u = cache_write_tokens v"
proof -
  have "u\<lparr>reported_cost_usd := None\<rparr> = v\<lparr>reported_cost_usd := None\<rparr>"
    using assms by (simp add: usage_eq_def)
  from arg_cong [OF this, of input_tokens] arg_cong [OF this, of output_tokens]
    arg_cong [OF this, of cache_read_tokens] arg_cong [OF this, of cache_write_tokens]
  show "input_tokens u = input_tokens v" "output_tokens u = output_tokens v"
    "cache_read_tokens u = cache_read_tokens v" "cache_write_tokens u = cache_write_tokens v"
    by simp_all
qed

section \<open>The verdict on a request\<close>

definition owners :: "contribution set \<Rightarrow> prompt_key set" where
  "owners cs = {k. OwnedBy k \<in> cs \<or> (\<exists>u. MeasuredBy k u \<in> cs)}"

definition measured_in :: "contribution set \<Rightarrow> normalized_usage set" where
  "measured_in cs = {u. \<exists>k. MeasuredBy k u \<in> cs}"

definition consistent :: "contribution set \<Rightarrow> bool" where
  "consistent cs \<longleftrightarrow> Contradictory \<notin> cs \<and> (\<forall>k \<in> owners cs. \<forall>k' \<in> owners cs. k = k')
     \<and> (\<forall>u \<in> measured_in cs. \<forall>v \<in> measured_in cs. usage_eq u v)"

lemma owners_insert:
  "owners (insert c cs) = owners cs \<union> (case c of OwnedBy k \<Rightarrow> {k} | MeasuredBy k u \<Rightarrow> {k} | _ \<Rightarrow> {})"
  by (auto simp: owners_def split: contribution.splits)

lemma measured_insert:
  "measured_in (insert c cs) = measured_in cs \<union> (case c of MeasuredBy k u \<Rightarrow> {u} | _ \<Rightarrow> {})"
  by (auto simp: measured_in_def split: contribution.splits)

lemma owners_measured: "u \<in> measured_in cs \<Longrightarrow> owners cs \<noteq> {}"
  by (auto simp: owners_def measured_in_def)

lemma consistent_mono: "consistent (insert c cs) \<Longrightarrow> consistent cs"
  unfolding consistent_def owners_def measured_in_def by blast

text \<open>What an entry says of the contributions folded into it.\<close>

fun verdict :: "request_state option \<Rightarrow> contribution set \<Rightarrow> bool" where
  "verdict None cs \<longleftrightarrow> owners cs = {} \<and> Contradictory \<notin> cs"
| "verdict (Some None) cs \<longleftrightarrow> \<not> consistent cs"
| "verdict (Some (Some (k, None))) cs \<longleftrightarrow> consistent cs \<and> owners cs = {k} \<and> measured_in cs = {}"
| "verdict (Some (Some (k, Some u))) cs \<longleftrightarrow> consistent cs \<and> owners cs = {k} \<and> u \<in> measured_in cs"

lemma verdict_contribute:
  assumes "verdict st cs" and finite: "\<And>u. u \<in> measured_in (insert c cs) \<Longrightarrow> usage_eq u u"
  shows "verdict (contribute c st) (insert c cs)"
proof (cases st rule: option.exhaust)
  case None
  then have cs: "owners cs = {}" "measured_in cs = {}" "Contradictory \<notin> cs"
    using assms(1) owners_measured [of _ cs] by auto
  then show ?thesis
    using None finite
    by (cases c) (auto simp: consistent_def owners_insert measured_insert)
next
  case (Some st')
  show ?thesis
  proof (cases st')
    case None
    with Some assms(1) have "\<not> consistent cs" by simp
    then have "\<not> consistent (insert c cs)"
      using consistent_mono by blast
    then show ?thesis
      using \<open>st = Some st'\<close> None \<open>\<not> consistent cs\<close> by (cases c) simp_all
  next
    case (Some km)
    obtain k m where km: "km = (k, m)" by fastforce
    have cs: "consistent cs" "owners cs = {k}"
      using assms(1) \<open>st = Some st'\<close> Some km by (cases m; simp)+
    show ?thesis
    proof (cases m)
      case None
      then have "measured_in cs = {}" using assms(1) \<open>st = Some st'\<close> Some km by simp
      then show ?thesis
        using cs finite None \<open>st = Some st'\<close> Some km
        by (cases c) (auto simp: consistent_def owners_insert measured_insert)
    next
      case m: (Some u)
      then have u: "u \<in> measured_in cs" using assms(1) \<open>st = Some st'\<close> Some km by simp
      show ?thesis
      proof (cases c)
        case (MeasuredBy k' v)
        have "(\<forall>x \<in> measured_in cs. usage_eq x v \<and> usage_eq v x) \<longleftrightarrow> usage_eq u v"
          using cs(1) u unfolding consistent_def by (meson usage_eq_trans usage_eq_sym)
        then show ?thesis
          using cs u m finite MeasuredBy \<open>st = Some st'\<close> Some km
          by (auto simp: consistent_def owners_insert measured_insert)
      qed (use cs u m \<open>st = Some st'\<close> Some km in
          \<open>auto simp: consistent_def owners_insert measured_insert\<close>)
    qed
  qed
qed

lemma verdict_fold:
  "(\<And>u. u \<in> measured_in (set cs) \<Longrightarrow> usage_eq u u) \<Longrightarrow> verdict (fold contribute cs None) (set cs)"
proof (induction cs rule: rev_induct)
  case Nil
  then show ?case by (simp add: owners_def)
next
  case (snoc c cs)
  have "verdict (fold contribute cs None) (set cs)"
    by (rule snoc.IH) (simp add: snoc.prems measured_insert)
  then show ?case
    using verdict_contribute [of "fold contribute cs None" "set cs" c] snoc.prems
    by (simp add: insert_commute)
qed

section \<open>The state of a session's requests\<close>

lemma fold_record_contribution:
  "fold (\<lambda>m. record_contribution (um_request m) (f m)) ms R r =
     fold contribute (map f (filter (\<lambda>m. um_request m = r) ms)) (R r)"
  by (induction ms arbitrary: R) (auto simp: record_contribution_def)

definition contributions ::
  "session_event list \<Rightarrow> messages \<Rightarrow> string \<Rightarrow> string \<Rightarrow> contribution set" where
  "contributions events msgs source r =
     (\<lambda>m. contribution_of m source msgs (boundaries_of events)
        (list_all (\<lambda>e. 0 < e_ts_ms e) (boundaries_of events)))
     ` {m \<in> ran (map_of msgs). um_role m = ''assistant'' \<and> um_request m = r}"

text \<open>\<open>ord\<close> enumerates the keys of a map: each once, in some order.\<close>

definition enumerates :: "(string list \<Rightarrow> string list) \<Rightarrow> bool" where
  "enumerates ord \<longleftrightarrow> (\<forall>ks. mset (ord ks) = mset ks)"

lemma enumerates_set: "enumerates ord \<Longrightarrow> set (ord ks) = set ks"
  by (metis enumerates_def mset_eq_setD)

lemma enumerates_distinct: "enumerates ord \<Longrightarrow> distinct (ord ks) \<longleftrightarrow> distinct ks"
  by (metis enumerates_def mset_eq_imp_distinct_iff)

lemma set_assistant_messages:
  assumes "enumerates ord"
  shows "set (assistant_messages ord msgs) = {m \<in> ran (map_of msgs). um_role m = ''assistant''}"
proof -
  have dom: "x \<in> fst ` set msgs" if "map_of msgs x = Some y" for x y
    using map_of_SomeD [OF that] by (rule rev_image_eqI) simp
  have "set (List.map_filter (map_of msgs) (ord (map fst msgs))) = ran (map_of msgs)"
    unfolding set_map_filter enumerates_set [OF assms] set_map ran_def using dom by blast
  then show ?thesis by (auto simp: assistant_messages_def)
qed

lemma measured_cost_finite:
  assumes "msgs = messages_of parse render events source"
    and "u \<in> measured_in (contributions events msgs source r)"
  shows "usage_eq u u"
proof -
  from assms(2) obtain m k b t where m: "m \<in> ran (map_of msgs)"
    and "contribution_of m source msgs b t = MeasuredBy k u"
    unfolding measured_in_def contributions_def by (smt (verit) image_iff mem_Collect_eq)
  then have "um_usage m = Measured u"
    by (auto simp: contribution_of_def split: if_splits option.splits record_usage.splits)
  moreover from m obtain i where "(i, m) \<in> set msgs" by (auto simp: ran_def dest: map_of_SomeD)
  ultimately obtain rows where "record_usage_of parse render rows source = Measured u"
    by (auto simp: assms(1) messages_of_def set_map_filter usage_message_of_def Let_def split: if_splits)
  then obtain v where "normalize_usage render source v = Inr (Some u)"
    by (auto simp: record_usage_of_def split: option.splits list.splits if_splits sum.splits)
  then show ?thesis by (intro usage_eq_refl normalize_usage_cost_finite)
qed

lemma requests_verdict:
  assumes "msgs = messages_of parse render events source" and "enumerates ord"
  shows "verdict (requests_of_messages ord events msgs source r) (contributions events msgs source r)"
proof -
  let ?f = "\<lambda>m. contribution_of m source msgs (boundaries_of events)
      (list_all (\<lambda>e. 0 < e_ts_ms e) (boundaries_of events))"
  let ?cs = "map ?f (filter (\<lambda>m. um_request m = r) (assistant_messages ord msgs))"
  have cs: "set ?cs = contributions events msgs source r"
    by (auto simp: contributions_def set_assistant_messages [OF assms(2)])
  have "requests_of_messages ord events msgs source r = fold contribute ?cs None"
    by (simp add: requests_of_messages_def Let_def fold_record_contribution)
  then show ?thesis
    using verdict_fold [of ?cs] measured_cost_finite [OF assms(1), of _ r] by (simp only: cs)
qed

text \<open>A request is charged only on agreeing evidence: when its records establish a prompt and a
  measurement, every record of it that says anything names that prompt, no record is
  contradictory, and every record that measures reports that same measurement.\<close>

lemma attribution_request_agrees:
  assumes "enumerates ord" and "msgs = messages_of parse render events source"
    and "requests_of_messages ord events msgs source r = Some (Some (key, Some u))"
    and "c \<in> contributions events msgs source r"
  shows "c = Silent \<or> c = OwnedBy key \<or> (\<exists>v. c = MeasuredBy key v \<and> usage_eq u v)"
proof -
  have cons: "consistent (contributions events msgs source r)"
    and own: "owners (contributions events msgs source r) = {key}"
    and u: "u \<in> measured_in (contributions events msgs source r)"
    using requests_verdict [OF assms(2,1), of r] assms(3) by simp_all
  show ?thesis
  proof (cases c)
    case (MeasuredBy k v)
    have "v \<in> measured_in (contributions events msgs source r)"
      using assms(4) unfolding measured_in_def MeasuredBy by blast
    moreover have "k \<in> owners (contributions events msgs source r)"
      using assms(4) unfolding owners_def MeasuredBy by blast
    ultimately show ?thesis using cons own u by (auto simp: MeasuredBy consistent_def)
  next
    case (OwnedBy k)
    then have "k \<in> owners (contributions events msgs source r)"
      using assms(4) unfolding owners_def by blast
    then show ?thesis using own OwnedBy by simp
  qed (use cons assms(4) in \<open>auto simp: consistent_def\<close>)
qed

section \<open>Sums by prompt\<close>

definition add_slot :: "normalized_usage \<Rightarrow> normalized_usage option \<Rightarrow> normalized_usage option" where
  "add_slot u slot = Option.bind slot (\<lambda>t. usage_checked_add t u)"

lemma add_slot_simps [simp]: "add_slot u None = None" "add_slot u (Some t) = usage_checked_add t u"
  by (simp_all add: add_slot_def)

lemma add_to_prompt_apply:
  "add_to_prompt ku M k =
     (if fst ku = k then Some (case M k of None \<Rightarrow> Some (snd ku) | Some slot \<Rightarrow> add_slot (snd ku) slot)
      else M k)"
  by (auto simp: add_to_prompt_def add_slot_def split: option.splits)

lemma fold_add_to_prompt:
  "fold add_to_prompt kus M k =
     (case (M k, map snd (filter (\<lambda>ku. fst ku = k) kus)) of
        (None, []) \<Rightarrow> None
      | (None, u # us) \<Rightarrow> Some (fold add_slot us (Some u))
      | (Some slot, us) \<Rightarrow> Some (fold add_slot us slot))"
proof (induction kus arbitrary: M)
  case Nil
  then show ?case by (simp split: option.split)
next
  case (Cons ku kus)
  have IH: "fold add_to_prompt (ku # kus) M k =
     (case (add_to_prompt ku M k, map snd (filter (\<lambda>ku. fst ku = k) kus)) of
        (None, []) \<Rightarrow> None
      | (None, u # us) \<Rightarrow> Some (fold add_slot us (Some u))
      | (Some slot, us) \<Rightarrow> Some (fold add_slot us slot))"
    using Cons.IH [of "add_to_prompt ku M"] by simp
  show ?case
    by (cases "fst ku = k"; cases "M k")
       (simp_all only: IH add_to_prompt_apply [of ku M k], simp_all)
qed

lemma fold_add_slot_None: "fold add_slot us None = None"
  by (induction us) simp_all

lemma fold_add_slot_totals:
  "fold add_slot us (Some t) = Some u \<Longrightarrow> totals t vs \<Longrightarrow> totals u (vs @ us)"
proof (induction us arbitrary: t vs)
  case (Cons x us)
  then obtain t' where t': "usage_checked_add t x = Some t'"
    by (cases "usage_checked_add t x") (simp_all add: fold_add_slot_None)
  have "totals u ((vs @ [x]) @ us)"
    using Cons.prems usage_checked_add_totals [OF t'] t'
    by (intro Cons.IH [of t']) simp_all
  then show ?case by simp
qed simp

lemma sum_requests_totals:
  assumes "sum_requests_by_prompt sts key = Some u"
  shows "totals u (map snd (filter (\<lambda>ku. fst ku = key) (measured_requests sts)))"
proof (cases "map snd (filter (\<lambda>ku. fst ku = key) (measured_requests sts))")
  case Nil
  with assms show ?thesis by (simp add: sum_requests_by_prompt_def fold_add_to_prompt)
next
  case (Cons v vs)
  with assms have "fold add_slot vs (Some v) = Some u"
    by (simp add: sum_requests_by_prompt_def fold_add_to_prompt)
  from fold_add_slot_totals [OF this, of "[v]"] show ?thesis
    by (simp add: Cons totals_def)
qed

text \<open>The requests a prompt owns, and the measurement of each.\<close>

definition owned_requests :: "(string \<Rightarrow> request_state option) \<Rightarrow> prompt_key \<Rightarrow> string set" where
  "owned_requests R key = {r. \<exists>u. R r = Some (Some (key, Some u))}"

definition measurement :: "(string \<Rightarrow> request_state option) \<Rightarrow> string \<Rightarrow> normalized_usage" where
  "measurement R r = (case R r of Some (Some (_, Some u)) \<Rightarrow> u | _ \<Rightarrow> usage_empty PerRequest)"

lemma owned_measured:
  "map snd (filter (\<lambda>ku. fst ku = key) (measured_requests (map R rs))) =
     map (measurement R) (filter (\<lambda>r. r \<in> owned_requests R key) rs)"
  by (induction rs)
     (auto simp: measured_requests_def owned_requests_def measurement_def split: option.split)

lemma requests_domain:
  assumes "R = requests_of_messages ord events msgs source" and "R r \<noteq> None"
  shows "r \<in> um_request ` set (assistant_messages ord msgs)"
proof (rule ccontr)
  assume "r \<notin> um_request ` set (assistant_messages ord msgs)"
  then have "filter (\<lambda>m. um_request m = r) (assistant_messages ord msgs) = []"
    by (auto simp: filter_empty_conv)
  then have "R r = None"
    by (simp add: assms(1) requests_of_messages_def Let_def fold_record_contribution)
  with assms(2) show False by simp
qed

lemma sum_over_owned:
  assumes "distinct rs" and "owned_requests R key \<subseteq> set rs"
  shows "sum_of g (map (measurement R) (filter (\<lambda>r. r \<in> owned_requests R key) rs))
    = (\<Sum>r \<in> owned_requests R key. uint (g (measurement R r)))"
proof -
  have "set (filter (\<lambda>r. r \<in> owned_requests R key) rs) = owned_requests R key"
    using assms(2) by auto
  then show ?thesis
    using assms(1) by (simp add: sum_of_def comp_def sum_list_distinct_conv_sum_set)
qed

text \<open>C3. What a prompt is charged is exact and counts every request once: each counter is the sum,
  as integers, over the requests whose records establish this prompt and a measurement, however
  many records a request is written as.\<close>

theorem attribution_exact:
  assumes "enumerates ord"
    and "R = requests_of_messages ord events (messages_of parse render events source) source"
    and "attribute_usage_to_prompts parse render ord events source key = Some u"
  shows "uint (input_tokens u) = (\<Sum>r \<in> owned_requests R key. uint (input_tokens (measurement R r)))
    \<and> uint (output_tokens u) = (\<Sum>r \<in> owned_requests R key. uint (output_tokens (measurement R r)))
    \<and> uint (cache_read_tokens u) = (\<Sum>r \<in> owned_requests R key. uint (cache_read_tokens (measurement R r)))
    \<and> uint (cache_write_tokens u) = (\<Sum>r \<in> owned_requests R key. uint (cache_write_tokens (measurement R r)))"
proof -
  define msgs where "msgs = messages_of parse render events source"
  define rs where "rs = ord (remdups (map um_request (assistant_messages ord msgs)))"
  have "distinct rs" by (simp add: rs_def enumerates_distinct [OF assms(1)])
  moreover have "owned_requests R key \<subseteq> set rs"
    using requests_domain [of R ord events msgs source] assms(2)
    by (auto simp: rs_def enumerates_set [OF assms(1)] owned_requests_def msgs_def [symmetric])
  moreover have "totals u (map (measurement R) (filter (\<lambda>r. r \<in> owned_requests R key) rs))"
    using assms(3) unfolding owned_measured [symmetric]
    by (intro sum_requests_totals)
       (simp add: attribute_usage_to_prompts_def Let_def msgs_def [symmetric] rs_def assms(2))
  ultimately show ?thesis by (simp add: totals_def sum_over_owned)
qed

section \<open>Hash order\<close>

lemma verdict_unique:
  assumes "verdict st cs" and "verdict st' cs"
  shows "rel_option (rel_option (\<lambda>(k, m) (k', m'). k = k' \<and> rel_option usage_eq m m')) st st'"
proof (cases "owners cs = {} \<and> Contradictory \<notin> cs")
  case True
  then have "consistent cs" using owners_measured [of _ cs] by (auto simp: consistent_def)
  with True assms show ?thesis
    by (cases "(st, cs)" rule: verdict.cases; cases "(st', cs)" rule: verdict.cases) auto
next
  case False
  with assms show ?thesis
    by (cases "(st, cs)" rule: verdict.cases; cases "(st', cs)" rule: verdict.cases)
       (auto simp: consistent_def)
qed


section \<open>Owners\<close>

lemma contribution_owner:
  "contribution_of m source msgs b t = OwnedBy k \<or> contribution_of m source msgs b t = MeasuredBy k u
    \<Longrightarrow> snd k \<noteq> [] \<and> prompt_count msgs k = 1"
  by (auto simp: contribution_of_def prompt_key_of_def split: if_splits option.splits record_usage.splits)

lemma set_measured_requests:
  "(k, u) \<in> set (measured_requests sts) \<longleftrightarrow> Some (Some (k, Some u)) \<in> set sts"
  by (induction sts) (auto simp: measured_requests_def split: option.split)

text \<open>Only an unmistakable prompt is charged: a charged key has a text, and exactly one human
  message of the session has that text at that time.\<close>

lemma attribution_prompt_unique:
  assumes "enumerates ord"
    and "attribute_usage_to_prompts parse render ord events source (ts, body) = Some u"
  shows "body \<noteq> [] \<and> prompt_count (messages_of parse render events source) (ts, body) = 1"
proof -
  define msgs where "msgs = messages_of parse render events source"
  define R where "R = requests_of_messages ord events msgs source"
  define sts where "sts = map R (ord (remdups (map um_request (assistant_messages ord msgs))))"
  have "sum_requests_by_prompt sts (ts, body) = Some u"
    using assms(2) by (simp add: attribute_usage_to_prompts_def Let_def msgs_def R_def sts_def)
  then have "filter (\<lambda>ku. fst ku = (ts, body)) (measured_requests sts) \<noteq> []"
    by (auto simp: sum_requests_by_prompt_def fold_add_to_prompt)
  then obtain r v where "R r = Some (Some ((ts, body), Some v))"
    by (auto simp: filter_empty_conv set_measured_requests sts_def) (metis)
  then have "(ts, body) \<in> owners (contributions events msgs source r)"
    using requests_verdict [OF msgs_def assms(1), of r] by (simp add: R_def)
  then obtain m b t w where "contribution_of m source msgs b t = OwnedBy (ts, body)
      \<or> contribution_of m source msgs b t = MeasuredBy (ts, body) w"
    unfolding owners_def contributions_def by (smt (verit) imageE mem_Collect_eq)
  from contribution_owner [OF this] show ?thesis by (simp add: msgs_def)
qed

text \<open>One step of the walk: from a record that is neither a human prompt nor a subagent's, to the
  record its parent id names.\<close>

definition ancestry :: "messages \<Rightarrow> (usage_message \<times> usage_message) set" where
  "ancestry msgs = {(m, m'). \<not> is_human m \<and> \<not> (um_role m = ''user'' \<and> um_sidechain m)
     \<and> (\<exists>p. um_parent m = Some p \<and> map_of msgs p = Some m')}"

lemma ancestry_deterministic: "(m, x) \<in> ancestry msgs \<Longrightarrow> (m, y) \<in> ancestry msgs \<Longrightarrow> x = y"
  by (auto simp: ancestry_def)

lemma ancestry_ends:
  "(m, p) \<in> ancestry msgs ^^ n \<Longrightarrow> is_human p \<Longrightarrow> (m, q) \<in> ancestry msgs ^^ k \<Longrightarrow> k \<le> n"
proof (induction n arbitrary: m k)
  case 0
  have "(p, y) \<notin> ancestry msgs" for y using 0 by (simp add: ancestry_def)
  moreover have "m = p" using 0 by simp
  ultimately show ?case using 0(3) by (cases k) (simp, metis relpow_Suc_D2)
next
  case (Suc n)
  show ?case
  proof (cases k)
    case (Suc k')
    from Suc.prems(1) obtain x where x: "(m, x) \<in> ancestry msgs" "(x, p) \<in> ancestry msgs ^^ n"
      by (rule relpow_Suc_E2)
    from Suc.prems(3) have "(m, q) \<in> ancestry msgs ^^ Suc k'" by (simp only: Suc)
    then obtain y where y: "(m, y) \<in> ancestry msgs" "(y, q) \<in> ancestry msgs ^^ k'"
      by (rule relpow_Suc_E2)
    have "k' \<le> n"
      using Suc.IH [OF x(2) Suc.prems(2)] y ancestry_deterministic [OF x(1) y(1)] by blast
    then show ?thesis by (simp add: Suc)
  qed simp
qed

lemma ancestry_known:
  assumes keys: "\<And>i a. map_of msgs i = Some a \<Longrightarrow> um_id a = i" and m: "map_of msgs (um_id m) = Some m"
  shows "(m, q) \<in> (ancestry msgs)\<^sup>* \<Longrightarrow> map_of msgs (um_id q) = Some q"
proof (induction rule: rtrancl_induct)
  case (step y z)
  then obtain i where i: "map_of msgs i = Some z" by (auto simp: ancestry_def)
  with keys [OF i] show ?case by simp
qed (rule m)

lemma parent_walk_finds:
  assumes keys: "\<And>i a. map_of msgs i = Some a \<Longrightarrow> um_id a = i"
  shows "map_of msgs (um_id m) = Some m \<Longrightarrow> (m, p) \<in> ancestry msgs ^^ n \<Longrightarrow> is_human p
    \<Longrightarrow> (\<And>q. (m, q) \<in> (ancestry msgs)\<^sup>* \<Longrightarrow> um_id q \<notin> visited)
    \<Longrightarrow> parent_walk msgs visited m = Some p"
proof (induction n arbitrary: m visited)
  case 0
  then have "m = p" by simp
  moreover have "um_id p \<notin> visited" using 0(4) [of p] \<open>m = p\<close> by simp
  ultimately show ?case
    using 0(3) by (simp add: parent_walk.simps [of msgs visited p] is_human_def)
next
  case (Suc n)
  from Suc.prems(2) obtain x where x: "(m, x) \<in> ancestry msgs" "(x, p) \<in> ancestry msgs ^^ n"
    by (rule relpow_Suc_E2)
  have known: "(m, q) \<in> (ancestry msgs)\<^sup>* \<Longrightarrow> map_of msgs (um_id q) = Some q" for q
    using ancestry_known [OF keys Suc.prems(1)] by blast
  have fresh: "um_id q \<notin> insert (um_id m) visited" if q: "(x, q) \<in> (ancestry msgs)\<^sup>*" for q
  proof
    assume "um_id q \<in> insert (um_id m) visited"
    moreover have mq: "(m, q) \<in> (ancestry msgs)\<^sup>*" using x(1) q by (rule converse_rtrancl_into_rtrancl)
    ultimately have "um_id q = um_id m" using Suc.prems(4) by blast
    with known [OF mq] Suc.prems(1) have "q = m" by (metis option.inject)
    have "(x, m) \<in> (ancestry msgs)\<^sup>*" using q unfolding \<open>q = m\<close> .
    then obtain k where "(x, m) \<in> ancestry msgs ^^ k" unfolding rtrancl_power by blast
    from relpow_Suc_I2 [OF x(1) this] have k: "(m, m) \<in> ancestry msgs ^^ Suc k" .
    have "(m, p) \<in> ancestry msgs ^^ (Suc k + Suc n)"
      using k Suc.prems(2) unfolding relpow_add by blast
    from ancestry_ends [OF Suc.prems(2,3) this] show False by simp
  qed
  have "map_of msgs (um_id x) = Some x" using x(1) by (intro known) simp
  then have walk: "parent_walk msgs (insert (um_id m) visited) x = Some p"
    using x(2) Suc.prems(3) fresh by (rule Suc.IH)
  have "um_id m \<notin> visited" by (rule Suc.prems(4)) simp
  moreover obtain i where "um_parent m = Some i" "map_of msgs i = Some x" "\<not> is_human m"
    "\<not> (um_role m = ''user'' \<and> um_sidechain m)"
    using x(1) by (auto simp: ancestry_def)
  ultimately show ?case
    using walk by (auto simp: parent_walk.simps [of msgs visited m] is_human_def)
qed

lemma parent_walk_sound:
  "parent_walk msgs visited m = Some p \<Longrightarrow> is_human p \<and> (m, p) \<in> (ancestry msgs)\<^sup>*"
proof (induction msgs visited m rule: parent_walk.induct)
  case (1 msgs visited m)
  show ?case
  proof (cases "is_human m \<or> um_id m \<in> visited \<or> um_role m = ''user'' \<and> um_sidechain m")
    case True
    then show ?thesis
      using "1.prems" by (auto simp: parent_walk.simps [of msgs visited m] is_human_def split: if_splits)
  next
    case False
    then have "\<not> (um_role m = ''user'' \<and> \<not> um_control m)" by (auto simp: is_human_def)
    with False "1.prems" obtain q x where q: "um_parent m = Some q" "map_of msgs q = Some x"
      and walk: "parent_walk msgs (insert (um_id m) visited) x = Some p"
      by (auto simp: parent_walk.simps [of msgs visited m] split: if_splits option.splits)
    have "is_human p \<and> (x, p) \<in> (ancestry msgs)\<^sup>*"
      using "1.IH" [OF _ _ _ q walk] False \<open>\<not> (um_role m = ''user'' \<and> \<not> um_control m)\<close> by blast
    moreover have "(m, x) \<in> ancestry msgs" using False q by (simp add: ancestry_def)
    ultimately show ?thesis by (meson converse_rtrancl_into_rtrancl)
  qed
qed

lemma messages_of_ids:
  "map_of (messages_of parse render events source) i = Some m \<Longrightarrow> um_id m = i"
  by (auto simp: messages_of_def set_map_filter usage_message_of_def Let_def
      dest!: map_of_SomeD split: if_splits)

text \<open>The owner of a record is found on its ancestry and only there: the walk up the parent ids
  answers a human prompt exactly when following the parents, through assistant records and
  harness rows but not through a subagent's, reaches that prompt; broken and cyclic ancestry
  ends the walk with no owner.\<close>

lemma parent_prompt_iff:
  assumes "map_of (messages_of parse render events source) i = Some m"
  shows "parent_prompt m (messages_of parse render events source) = Some p
    \<longleftrightarrow> is_human p \<and> (m, p) \<in> (ancestry (messages_of parse render events source))\<^sup>*"
proof -
  define msgs where "msgs = messages_of parse render events source"
  have keys: "map_of msgs i = Some a \<Longrightarrow> um_id a = i" for i a
    using messages_of_ids by (simp add: msgs_def)
  with assms have m: "map_of msgs (um_id m) = Some m" by (simp add: msgs_def)
  show ?thesis
  proof
    assume "parent_prompt m (messages_of parse render events source) = Some p"
    then show "is_human p \<and> (m, p) \<in> (ancestry (messages_of parse render events source))\<^sup>*"
      by (simp add: parent_prompt_def parent_walk_sound)
  next
    assume p: "is_human p \<and> (m, p) \<in> (ancestry (messages_of parse render events source))\<^sup>*"
    then obtain n where "(m, p) \<in> ancestry msgs ^^ n" by (auto simp: msgs_def rtrancl_power)
    then show "parent_prompt m (messages_of parse render events source) = Some p"
      using parent_walk_finds [OF keys m, of p n "{}"] p by (simp add: parent_prompt_def msgs_def)
  qed
qed

section \<open>A prompt answered by one request in two records\<close>

definition prompt_events :: "session_event list" where
  "prompt_events =
     [(blank_event 1 5)\<lparr>e_message_id := Some ''p'', e_text := Some '' hi ''\<rparr>,
      (example_event 2 ''a'' ''r1'')\<lparr>e_parent_id := Some ''p''\<rparr>,
      (example_event 3 ''b'' ''r1'')\<lparr>e_parent_id := Some ''a''\<rparr>]"

abbreviation prompt_messages :: messages where
  "prompt_messages \<equiv> messages_of example_parse (\<lambda>_. []) prompt_events ''claude''"

abbreviation prompt_charge :: "(string list \<Rightarrow> string list) \<Rightarrow> normalized_usage option" where
  "prompt_charge ord \<equiv>
     attribute_usage_to_prompts example_parse (\<lambda>_. []) ord prompt_events ''claude'' (5, ''hi'')"

lemma enumerates_id: "enumerates (\<lambda>ks. ks)" and enumerates_rev: "enumerates rev"
  by (simp_all add: enumerates_def)

lemma prompt_charge_is: "map_option input_tokens (prompt_charge (\<lambda>ks. ks)) = Some 3"
  by code_simp

lemma prompt_charge_rev_is: "map_option input_tokens (prompt_charge rev) = Some 3"
  by code_simp

lemma prompt_charges: "prompt_charge (\<lambda>ks. ks) = Some (the (prompt_charge (\<lambda>ks. ks)))"
  "prompt_charge rev = Some (the (prompt_charge rev))"
  using prompt_charge_is prompt_charge_rev_is by auto

theorem attribution_exact_witness:
  "(\<Sum>r \<in> owned_requests (requests_of_messages (\<lambda>ks. ks) prompt_events prompt_messages ''claude'') (5, ''hi'').
     uint (input_tokens (measurement (requests_of_messages (\<lambda>ks. ks) prompt_events prompt_messages ''claude'') r)))
   = 3"
  using attribution_exact [OF enumerates_id refl prompt_charges(1)] prompt_charge_is by auto


lemma attribution_prompt_unique_witness: "prompt_count prompt_messages (5, ''hi'') = 1"
  using attribution_prompt_unique [OF enumerates_id prompt_charges(1)] by simp

lemma attribution_request_agrees_witness:
  "\<exists>key u. requests_of_messages (\<lambda>ks. ks) prompt_events prompt_messages ''claude'' ''request-id:r1''
      = Some (Some (key, Some u))
    \<and> contributions prompt_events prompt_messages ''claude'' ''request-id:r1''
      \<subseteq> {Silent, OwnedBy key} \<union> {MeasuredBy key v | v. usage_eq u v}"
proof -
  let ?R = "requests_of_messages (\<lambda>ks. ks) prompt_events prompt_messages ''claude''"
  have "map_option (map_option (\<lambda>(k, m). (k, map_option input_tokens m))) (?R ''request-id:r1'')
      = Some (Some ((5, ''hi''), Some 3))"
    by code_simp
  then obtain key u where R: "?R ''request-id:r1'' = Some (Some (key, Some u))" by auto
  have "contributions prompt_events prompt_messages ''claude'' ''request-id:r1''
      \<subseteq> {Silent, OwnedBy key} \<union> {MeasuredBy key v | v. usage_eq u v}"
    using attribution_request_agrees [OF enumerates_id refl R] by auto
  with R show ?thesis by blast
qed

lemma parent_prompt_iff_witness:
  "\<exists>m p. map_of prompt_messages ''b'' = Some m \<and> parent_prompt m prompt_messages = Some p
    \<and> (m, p) \<in> (ancestry prompt_messages)\<^sup>*"
proof -
  have "Option.bind (map_of prompt_messages ''b'') (\<lambda>m. map_option um_id (parent_prompt m prompt_messages))
      = Some ''p''"
    by code_simp
  then obtain m p where m: "map_of prompt_messages ''b'' = Some m"
    and p: "parent_prompt m prompt_messages = Some p"
    by (auto simp: bind_eq_Some_conv)
  from parent_prompt_iff [OF m, of p] m p show ?thesis by blast
qed

end
