(* ===== verification/SessionTree.thy ===== *)
theory SessionTree
  imports RelationshipGraph
begin

text \<open>
  \<open>relationship_graph/tree.rs\<close>: the bounded depth-first walk of the recorded delegation
  tree. The loop's local variables are one record; its body is \<open>tree_step\<close>, which answers
  \<open>Panic\<close> where the Rust indexes a vector out of range. A Rust \<open>Vec\<close> used as a stack is a
  list whose head is the top.
\<close>

section \<open>Data\<close>

record session_tree_node =
  n_source :: string
  n_session_id :: string
  n_depth :: nat
  n_parent_session_id :: "string option"
  n_relationship :: "session_relationship option"
  n_child_count :: nat
  n_has_events :: bool
  n_truncated :: bool

record session_tree_options =
  max_depth :: nat
  max_nodes :: nat
  tree_kinds :: relationship_kinds

definition default_tree_options :: session_tree_options where
  "default_tree_options = \<lparr>max_depth = DEFAULT_TREE_MAX_DEPTH,
     max_nodes = DEFAULT_TREE_MAX_NODES, tree_kinds = kinds_delegation\<rparr>"

record session_tree_rec =
  t_contract_version :: nat
  t_source :: string
  t_root_session_id :: string
  t_nodes :: "session_tree_node list"
  t_unlinked :: "session_relationship list"
  t_capabilities :: relationship_capabilities_rec
  t_diagnostics :: "relationship_diagnostic list"
  t_truncated :: bool
  t_max_depth_reached :: nat

record pending =
  p_session_id :: string
  p_depth :: nat
  p_parent_index :: "nat option"
  p_parent_session_id :: "string option"
  p_relationship :: "session_relationship option"

definition pending_uid :: "pending \<Rightarrow> string option" where
  "pending_uid p = map_option relationship_uid (p_relationship p)"

text \<open>What a walk reads and never changes: the store's rows, the source, the options.\<close>

record tree_ctx =
  ctx_rows :: relationship_rows
  ctx_events :: "(string \<times> string) list"
  ctx_source :: string
  ctx_kinds :: relationship_kinds
  ctx_max_depth :: nat
  ctx_max_nodes :: nat

record walk_state =
  nodes :: "session_tree_node list"
  parents :: "nat option list"
  unlinked :: "session_relationship list"
  diagnostics :: "relationship_diagnostic list"
  visited :: "string set"
  truncated :: bool
  max_depth_reached :: nat
  stack :: "pending list"

section \<open>The operations of the walk\<close>

definition has_events :: "(string \<times> string) list \<Rightarrow> string \<Rightarrow> string \<Rightarrow> bool" where
  "has_events events source session \<longleftrightarrow> (source, session) \<in> set events"

text \<open>\<open>nodes[i].truncated = true\<close>, which panics out of range.\<close>

definition mark_truncated :: "session_tree_node list \<Rightarrow> nat \<Rightarrow> session_tree_node list option" where
  "mark_truncated ns i =
     (if i < length ns then Some (ns[i := (ns ! i)\<lparr>n_truncated := True\<rparr>]) else None)"

definition cycle_diagnostic :: "pending \<Rightarrow> relationship_diagnostic" where
  "cycle_diagnostic p = \<lparr>d_code = ''RELATIONSHIP_CYCLE'',
     d_message = p_session_id p @ '' already appears in this branch; not expanded again'',
     d_relationship_uid = pending_uid p\<rparr>"

definition mark_cycle ::
  "session_tree_node list \<Rightarrow> pending \<Rightarrow> (session_tree_node list \<times> relationship_diagnostic) option" where
  "mark_cycle ns p =
     map_option (\<lambda>ns'. (ns', cycle_diagnostic p))
       (case p_parent_index p of None \<Rightarrow> Some ns | Some i \<Rightarrow> mark_truncated ns i)"

fun split_unlinked ::
  "session_relationship list \<Rightarrow> (string \<times> session_relationship) list \<Rightarrow> session_relationship list
    \<Rightarrow> relationship_diagnostic list
    \<Rightarrow> (string \<times> session_relationship) list \<times> session_relationship list \<times> relationship_diagnostic list" where
  "split_unlinked [] linked un ds = (linked, un, ds)"
| "split_unlinked (r # rs) linked un ds =
     (case child_session_id r of
        Some child \<Rightarrow>
          if \<not> is_unlinked r then split_unlinked rs (linked @ [(child, r)]) un ds
          else split_unlinked rs linked (un @ [r]) (ds @ [unlinked_diagnostic r])
      | None \<Rightarrow> split_unlinked rs linked (un @ [r]) (ds @ [unlinked_diagnostic r]))"

definition child_pending :: "pending \<Rightarrow> nat \<Rightarrow> string \<times> session_relationship \<Rightarrow> pending" where
  "child_pending parent index c = \<lparr>p_session_id = fst c, p_depth = p_depth parent + 1,
     p_parent_index = Some index, p_parent_session_id = Some (p_session_id parent),
     p_relationship = Some (snd c)\<rparr>"

text \<open>Pushed in reverse, so the stack pops the children in the order of \<open>linked\<close>.\<close>

definition push_children ::
  "pending list \<Rightarrow> (string \<times> session_relationship) list \<Rightarrow> pending \<Rightarrow> nat \<Rightarrow> pending list" where
  "push_children st linked parent index =
     foldl (\<lambda>st c. child_pending parent index c # st) st (rev linked)"

text \<open>The climb from \<open>from\<close> to the root. \<open>None\<close> is a panic or a climb that never ends.\<close>

partial_function (option) is_ancestor ::
  "session_tree_node list \<Rightarrow> nat option list \<Rightarrow> nat option \<Rightarrow> string \<Rightarrow> bool option" where
  "is_ancestor ns ps from session =
     (case from of
        None \<Rightarrow> Some False
      | Some current \<Rightarrow>
          if current < length ns then
            if n_session_id (ns ! current) = session then Some True
            else if current < length ps then is_ancestor ns ps (ps ! current) session
            else None
          else None)"

fun mark_all :: "session_tree_node list \<Rightarrow> nat list \<Rightarrow> session_tree_node list option" where
  "mark_all ns [] = Some ns"
| "mark_all ns (i # is) = (case mark_truncated ns i of None \<Rightarrow> None | Some ns' \<Rightarrow> mark_all ns' is)"

definition tree_truncated_diagnostic :: "nat \<Rightarrow> relationship_diagnostic" where
  "tree_truncated_diagnostic n = \<lparr>d_code = ''RELATIONSHIP_TREE_TRUNCATED'',
     d_message = ''tree exceeded max_nodes='' @ nat_to_dec n, d_relationship_uid = None\<rparr>"

definition depth_limit_diagnostic :: "pending \<Rightarrow> nat \<Rightarrow> relationship_diagnostic" where
  "depth_limit_diagnostic p d = \<lparr>d_code = ''RELATIONSHIP_TREE_DEPTH_LIMIT'',
     d_message = p_session_id p @ '' has children beyond max_depth='' @ nat_to_dec d
       @ ''; not expanded'',
     d_relationship_uid = pending_uid p\<rparr>"

declare is_ancestor.simps [code]

text \<open>The repeat of a session: a diagnostic when the edge points back into its own branch.\<close>

definition visit_again :: "walk_state \<Rightarrow> pending \<Rightarrow> walk_state turn" where
  "visit_again s p =
     (case is_ancestor (nodes s) (parents s) (p_parent_index p) (p_session_id p) of
        None \<Rightarrow> Panic
      | Some False \<Rightarrow> Continue s
      | Some True \<Rightarrow>
          (case mark_cycle (nodes s) p of
             None \<Rightarrow> Panic
           | Some (ns, d) \<Rightarrow> Continue (s\<lparr>nodes := ns, diagnostics := diagnostics s @ [d]\<rparr>)))"

text \<open>The node budget is spent: every parent still waiting on the stack is marked.\<close>

definition stop_at_budget :: "tree_ctx \<Rightarrow> walk_state \<Rightarrow> pending \<Rightarrow> walk_state turn" where
  "stop_at_budget c s p =
     (case mark_all (nodes s) (List.map_filter p_parent_index (p # stack s)) of
        None \<Rightarrow> Panic
      | Some ns \<Rightarrow> Break (s\<lparr>truncated := True, nodes := ns,
          diagnostics := diagnostics s @ [tree_truncated_diagnostic (ctx_max_nodes c)]\<rparr>))"

definition new_node :: "tree_ctx \<Rightarrow> pending \<Rightarrow> session_tree_node" where
  "new_node c p = \<lparr>n_source = ctx_source c, n_session_id = p_session_id p, n_depth = p_depth p,
     n_parent_session_id = p_parent_session_id p, n_relationship = p_relationship p,
     n_child_count = 0,
     n_has_events = (case p_relationship p of Some r \<Rightarrow> child_has_events r
        | None \<Rightarrow> has_events (ctx_events c) (ctx_source c) (p_session_id p)),
     n_truncated = False\<rparr>"

text \<open>Rust's \<open>as u32\<close> on a length.\<close>

definition as_u32 :: "nat \<Rightarrow> nat" where
  "as_u32 n = nat (int n mod 2 ^ 32)"

text \<open>Emitting a node: its row, its children, then the depth boundary or the push.\<close>

definition emit_node :: "tree_ctx \<Rightarrow> walk_state \<Rightarrow> pending \<Rightarrow> walk_state turn" where
  "emit_node c s p =
     (let index = length (nodes s);
          children = session_children (ctx_rows c) (ctx_source c) (p_session_id p) (ctx_kinds c);
          (linked, un, ds) = split_unlinked children [] (unlinked s) (diagnostics s);
          node = (new_node c p)\<lparr>n_child_count := as_u32 (length linked)\<rparr>;
          s' = s\<lparr>max_depth_reached := max (max_depth_reached s) (p_depth p),
                 parents := parents s @ [p_parent_index p],
                 unlinked := un, diagnostics := ds\<rparr>
      in if ctx_max_depth c \<le> p_depth p then
           if linked \<noteq> [] then
             Continue (s'\<lparr>nodes := nodes s @ [node\<lparr>n_truncated := True\<rparr>], truncated := True,
               diagnostics := ds @ [depth_limit_diagnostic p (ctx_max_depth c)]\<rparr>)
           else Continue (s'\<lparr>nodes := nodes s @ [node]\<rparr>)
         else Continue (s'\<lparr>nodes := nodes s @ [node],
                stack := push_children (stack s) linked p index\<rparr>))"

definition tree_step :: "tree_ctx \<Rightarrow> walk_state \<Rightarrow> pending \<Rightarrow> walk_state turn" where
  "tree_step c s p =
     (if p_session_id p \<in> visited s then visit_again s p
      else let s' = s\<lparr>visited := insert (p_session_id p) (visited s)\<rparr>
           in if ctx_max_nodes c \<le> length (nodes s') then stop_at_budget c s' p
              else emit_node c s' p)"

text \<open>Every turn that goes round again either pops a repeated session or emits a node.\<close>

lemma mark_truncated_length: "mark_truncated ns i = Some ns' \<Longrightarrow> length ns' = length ns"
  by (auto simp: mark_truncated_def split: if_splits)

lemma visit_again_Continue:
  "visit_again s p = Continue s' \<Longrightarrow> stack s' = stack s \<and> length (nodes s') = length (nodes s)"
  by (auto simp: visit_again_def mark_cycle_def dest: mark_truncated_length
      split: option.splits bool.splits)

lemma emit_node_Continue:
  "emit_node c s p = Continue s' \<Longrightarrow> length (nodes s') = Suc (length (nodes s))"
  by (auto simp: emit_node_def Let_def split: prod.splits if_splits)

lemma stop_at_budget_not_Continue: "stop_at_budget c s p \<noteq> Continue s'"
  by (auto simp: stop_at_budget_def split: option.splits)

lemma tree_step_decreases:
  "tree_step c (s\<lparr>stack := rest\<rparr>) p = Continue s' \<Longrightarrow> stack s = p # rest \<Longrightarrow>
    (s', s) \<in> measures [\<lambda>s. ctx_max_nodes c - length (nodes s), \<lambda>s. length (stack s)]"
  by (auto simp: tree_step_def Let_def stop_at_budget_not_Continue
      dest!: visit_again_Continue emit_node_Continue split: if_splits)

function tree_loop :: "tree_ctx \<Rightarrow> walk_state \<Rightarrow> walk_state option" where
  "tree_loop c s =
     (case stack s of
        [] \<Rightarrow> Some s
      | p # rest \<Rightarrow>
          (case tree_step c (s\<lparr>stack := rest\<rparr>) p of
             Panic \<Rightarrow> None
           | Break s' \<Rightarrow> Some s'
           | Continue s' \<Rightarrow> tree_loop c s'))"
  by pat_completeness auto
termination
  by (relation "measures [\<lambda>(c, s). ctx_max_nodes c - length (nodes s), \<lambda>(c, s). length (stack s)]")
     (auto dest: tree_step_decreases)

declare tree_loop.simps [simp del]

section \<open>The walk\<close>

definition clamp_u32 :: "nat \<Rightarrow> nat \<Rightarrow> nat" where
  "clamp_u32 x hi = max 1 (min x hi)"

definition tree_context ::
  "relationship_rows \<Rightarrow> (string \<times> string) list \<Rightarrow> string \<Rightarrow> session_tree_options \<Rightarrow> tree_ctx" where
  "tree_context db events source opts = \<lparr>ctx_rows = db, ctx_events = events, ctx_source = source,
     ctx_kinds = tree_kinds opts,
     ctx_max_depth = clamp_u32 (max_depth opts) MAX_TREE_MAX_DEPTH,
     ctx_max_nodes = clamp_u32 (max_nodes opts) MAX_TREE_MAX_NODES\<rparr>"

definition root_pending :: "string \<Rightarrow> pending" where
  "root_pending session = \<lparr>p_session_id = session, p_depth = 0, p_parent_index = None,
     p_parent_session_id = None, p_relationship = None\<rparr>"

definition initial_walk :: "string \<Rightarrow> walk_state" where
  "initial_walk session = \<lparr>nodes = [], parents = [], unlinked = [], diagnostics = [],
     visited = {}, truncated = False, max_depth_reached = 0, stack = [root_pending session]\<rparr>"

definition finish_tree :: "string \<Rightarrow> string \<Rightarrow> walk_state \<Rightarrow> session_tree_rec" where
  "finish_tree source session s =
     \<lparr>t_contract_version = SESSION_RELATIONSHIP_CONTRACT_VERSION, t_source = source,
      t_root_session_id = session, t_nodes = nodes s, t_unlinked = unlinked s,
      t_capabilities = relationship_capabilities source, t_diagnostics = diagnostics s,
      t_truncated = truncated s, t_max_depth_reached = max_depth_reached s\<rparr>"

text \<open>\<open>None\<close> is a panic; \<open>session_tree_returns\<close> below says there is none.\<close>

definition session_tree ::
  "relationship_rows \<Rightarrow> (string \<times> string) list \<Rightarrow> string \<Rightarrow> string \<Rightarrow> session_tree_options
    \<Rightarrow> session_tree_rec option" where
  "session_tree db events source session opts =
     map_option (finish_tree source session)
       (tree_loop (tree_context db events source opts) (initial_walk session))"

end
