(* ===== verification/SessionTreeFacts.thy ===== *)
theory SessionTreeFacts
  imports SessionTree
begin

text \<open>
  What the walk of \<open>SessionTree\<close> keeps true: every node stands under an earlier node by a
  recorded, linked edge; a session has one node; what a node's edges name is in the tree or
  on the stack until a budget stops the walk. The walk's result is then the part of the graph
  that the recorded edges reach.
\<close>

section \<open>The graph the walk explores\<close>

definition linked_of :: "session_relationship list \<Rightarrow> (string \<times> session_relationship) list" where
  "linked_of rs = map (\<lambda>r. (the (child_session_id r), r)) (filter (\<lambda>r. \<not> is_unlinked r) rs)"

definition ctx_children :: "tree_ctx \<Rightarrow> string \<Rightarrow> session_relationship list" where
  "ctx_children c session =
     session_children (ctx_rows c) (ctx_source c) session (ctx_kinds c)"

definition linked_edges :: "tree_ctx \<Rightarrow> (string \<times> string) set" where
  "linked_edges c = {(a, b). b \<in> fst ` set (linked_of (ctx_children c a))}"

lemma split_unlinked_eq:
  "split_unlinked rs linked un ds =
     (linked @ linked_of rs, un @ filter is_unlinked rs,
      ds @ map unlinked_diagnostic (filter is_unlinked rs))"
  by (induction rs arbitrary: linked un ds)
     (auto simp: linked_of_def is_unlinked_def split: option.splits)

lemma push_children_eq:
  "push_children st linked p i = map (child_pending p i) linked @ st"
proof -
  have "foldl (\<lambda>st c. child_pending p i c # st) st xs = rev (map (child_pending p i) xs) @ st" for xs
    by (induction xs arbitrary: st) simp_all
  then show ?thesis by (simp add: push_children_def rev_map)
qed

section \<open>The invariant\<close>

text \<open>The fields of a node that no later turn writes.\<close>

definition node_core :: "session_tree_node \<Rightarrow> session_tree_node" where
  "node_core n = n\<lparr>n_truncated := False\<rparr>"

definition cores :: "session_tree_node list \<Rightarrow> session_tree_node list" where
  "cores ns = map node_core ns"

definition ids :: "session_tree_node list \<Rightarrow> string list" where
  "ids ns = map n_session_id ns"

text \<open>A session one linked edge below a node inside the depth budget.\<close>

definition edge_to ::
  "tree_ctx \<Rightarrow> session_tree_node \<Rightarrow> string \<Rightarrow> nat \<Rightarrow> string option \<Rightarrow> session_relationship option \<Rightarrow> bool" where
  "edge_to c n session d par rel \<longleftrightarrow>
     n_depth n < ctx_max_depth c \<and> d = Suc (n_depth n) \<and> par = Some (n_session_id n)
     \<and> (\<exists>r. rel = Some r \<and> (session, r) \<in> set (linked_of (ctx_children c (n_session_id n))))"

definition placed :: "tree_ctx \<Rightarrow> string \<Rightarrow> session_tree_node list \<Rightarrow> nat option list \<Rightarrow> nat \<Rightarrow> bool" where
  "placed c root ns ps i \<longleftrightarrow>
     (if i = 0 then ps ! i = None \<and> n_session_id (ns ! i) = root \<and> n_depth (ns ! i) = 0
        \<and> n_parent_session_id (ns ! i) = None \<and> n_relationship (ns ! i) = None
      else \<exists>j<i. ps ! i = Some j \<and> edge_to c (ns ! j) (n_session_id (ns ! i)) (n_depth (ns ! i))
             (n_parent_session_id (ns ! i)) (n_relationship (ns ! i)))"

definition nodes_ok :: "tree_ctx \<Rightarrow> string \<Rightarrow> session_tree_node list \<Rightarrow> nat option list \<Rightarrow> bool" where
  "nodes_ok c root ns ps \<longleftrightarrow> length ps = length ns \<and> distinct (ids ns)
     \<and> length ns \<le> ctx_max_nodes c \<and> (\<forall>i<length ns. placed c root ns ps i)"

definition pending_ok :: "tree_ctx \<Rightarrow> session_tree_node list \<Rightarrow> pending \<Rightarrow> bool" where
  "pending_ok c ns p \<longleftrightarrow>
     (\<exists>j<length ns. p_parent_index p = Some j
        \<and> edge_to c (ns ! j) (p_session_id p) (p_depth p) (p_parent_session_id p) (p_relationship p))"

definition stack_ok :: "tree_ctx \<Rightarrow> string \<Rightarrow> session_tree_node list \<Rightarrow> pending list \<Rightarrow> bool" where
  "stack_ok c root ns st \<longleftrightarrow>
     (if ns = [] then st = [root_pending root] else \<forall>p\<in>set st. pending_ok c ns p)"

definition covered :: "tree_ctx \<Rightarrow> session_tree_node list \<Rightarrow> pending list \<Rightarrow> bool" where
  "covered c ns st \<longleftrightarrow> (\<forall>a\<in>set (ids ns). \<forall>b. (a, b) \<in> linked_edges c
     \<longrightarrow> b \<in> set (ids ns) \<union> p_session_id ` set st)"

definition cycles_real :: "tree_ctx \<Rightarrow> relationship_diagnostic list \<Rightarrow> bool" where
  "cycles_real c ds \<longleftrightarrow> (\<forall>d\<in>set ds. d_code d = ''RELATIONSHIP_CYCLE''
     \<longrightarrow> (\<exists>a. (a, a) \<in> (linked_edges c)\<^sup>+))"

definition walk_inv :: "tree_ctx \<Rightarrow> string \<Rightarrow> walk_state \<Rightarrow> bool" where
  "walk_inv c root s \<longleftrightarrow>
     nodes_ok c root (cores (nodes s)) (parents s)
     \<and> stack_ok c root (cores (nodes s)) (stack s)
     \<and> visited s = set (ids (cores (nodes s)))
     \<and> (\<not> truncated s \<longrightarrow> covered c (cores (nodes s)) (stack s))
     \<and> cycles_real c (diagnostics s)"

definition walk_done :: "tree_ctx \<Rightarrow> string \<Rightarrow> walk_state \<Rightarrow> bool" where
  "walk_done c root s \<longleftrightarrow>
     nodes s \<noteq> [] \<and> nodes_ok c root (cores (nodes s)) (parents s)
     \<and> (\<not> truncated s \<longrightarrow> covered c (cores (nodes s)) [])
     \<and> cycles_real c (diagnostics s)"

lemma cores_simps [simp]:
  "cores [] = []" "length (cores ns) = length ns" "ids (cores ns) = ids ns" "(cores ns = []) = (ns = [])"
  "cores (ns @ ms) = cores ns @ cores ms" "cores [n] = [node_core n]"
  by (auto simp: cores_def ids_def node_core_def)

lemma cores_nth: "i < length ns \<Longrightarrow> cores ns ! i = node_core (ns ! i)"
  by (simp add: cores_def)

lemma node_core_fields [simp]:
  "n_session_id (node_core n) = n_session_id n" "n_depth (node_core n) = n_depth n"
  "n_parent_session_id (node_core n) = n_parent_session_id n"
  "n_relationship (node_core n) = n_relationship n"
  "node_core (n\<lparr>n_truncated := b\<rparr>) = node_core n"
  by (simp_all add: node_core_def)

lemma ids_simps [simp]: "ids [] = []" "ids (n # ns) = n_session_id n # ids ns"
    "ids (ns @ ms) = ids ns @ ids ms"
  by (simp_all add: ids_def)

section \<open>Marking changes no core\<close>

lemma mark_truncated_cores: "mark_truncated ns i = Some ns' \<Longrightarrow> cores ns' = cores ns"
  by (auto simp: mark_truncated_def cores_def node_core_def map_update split: if_splits
      intro!: nth_equalityI simp: nth_list_update)

lemma mark_all_total: "\<forall>i\<in>set is. i < length ns \<Longrightarrow> \<exists>ns'. mark_all ns is = Some ns' \<and> cores ns' = cores ns"
proof (induction "is" arbitrary: ns)
  case Nil
  then show ?case by simp
next
  case (Cons i "is")
  then obtain ns1 where m: "mark_truncated ns i = Some ns1"
    by (auto simp: mark_truncated_def)
  then have "\<forall>j\<in>set is. j < length ns1"
    using Cons.prems by (simp add: mark_truncated_length)
  with Cons.IH obtain ns2 where "mark_all ns1 is = Some ns2" "cores ns2 = cores ns1" by blast
  with m show ?case by (simp add: mark_truncated_cores)
qed

section \<open>The climb to the root ends and tells the truth\<close>

lemma edge_to_edge:
  "edge_to c n b d par rel \<Longrightarrow> (n_session_id n, b) \<in> linked_edges c"
  by (force simp: edge_to_def linked_edges_def)

lemma is_ancestor_total:
  assumes ok: "nodes_ok c root (cores ns) ps" and i: "i < length ns"
  shows "\<exists>b. is_ancestor ns ps (Some i) session = Some b
    \<and> (b \<longrightarrow> (session, n_session_id (ns ! i)) \<in> (linked_edges c)\<^sup>*)"
  using i
proof (induction i rule: less_induct)
  case (less i)
  have len: "length ps = length ns" and pl: "placed c root (cores ns) ps i"
    using ok less.prems by (auto simp: nodes_ok_def)
  show ?case
  proof (cases "n_session_id (ns ! i) = session")
    case True
    with less.prems show ?thesis by (auto simp: is_ancestor.simps)
  next
    case False
    note unfold = is_ancestor.simps [of ns ps "Some i" session]
    show ?thesis
    proof (cases "i = 0")
      case True
      with pl have "ps ! i = None" by (simp add: placed_def)
      with False less.prems len show ?thesis
        by (intro exI [of _ False]) (simp add: unfold is_ancestor.simps [of ns ps None])
    next
      case nz: False
      with pl obtain j where j: "j < i" "ps ! i = Some j"
        and e: "edge_to c (cores ns ! j) (n_session_id (cores ns ! i)) (n_depth (cores ns ! i))
             (n_parent_session_id (cores ns ! i)) (n_relationship (cores ns ! i))"
        by (auto simp: placed_def)
      have jn: "j < length ns" using j(1) less.prems by simp
      from less.IH [OF j(1) jn] obtain b where
        b: "is_ancestor ns ps (Some j) session = Some b"
          "b \<longrightarrow> (session, n_session_id (ns ! j)) \<in> (linked_edges c)\<^sup>*" by blast
      have "(n_session_id (ns ! j), n_session_id (ns ! i)) \<in> linked_edges c"
        using edge_to_edge [OF e] jn less.prems by (simp add: cores_nth)
      with b False less.prems len j show ?thesis
        by (auto simp: unfold intro: rtrancl_into_rtrancl)
    qed
  qed
qed

section \<open>One turn keeps the invariant\<close>

lemma placed_append:
  assumes "placed c root ns ps i" and "i < length ns" and "length ps = length ns"
  shows "placed c root (ns @ [n]) (ps @ [q]) i"
proof (cases "i = 0")
  case True
  with assms show ?thesis by (simp add: placed_def nth_append)
next
  case False
  with assms(1) obtain j where "j < i" "ps ! i = Some j" "edge_to c (ns ! j) (n_session_id (ns ! i))
      (n_depth (ns ! i)) (n_parent_session_id (ns ! i)) (n_relationship (ns ! i))"
    by (auto simp: placed_def)
  with False assms(2,3) show ?thesis by (auto simp: placed_def nth_append intro!: exI [of _ j])
qed

lemma nodes_ok_append:
  assumes "nodes_ok c root ns ps" and "length ns < ctx_max_nodes c"
    and "n_session_id n \<notin> set (ids ns)" and "placed c root (ns @ [n]) (ps @ [q]) (length ns)"
  shows "nodes_ok c root (ns @ [n]) (ps @ [q])"
proof -
  have len: "length ps = length ns" using assms(1) by (simp add: nodes_ok_def)
  have "placed c root (ns @ [n]) (ps @ [q]) i" if "i < length ns" for i
    using assms(1) that len by (auto simp: nodes_ok_def intro: placed_append)
  then show ?thesis using assms len by (auto simp: nodes_ok_def less_Suc_eq)
qed

lemma pending_ok_append: "pending_ok c ns p \<Longrightarrow> pending_ok c (ns @ ms) p"
  by (force simp: pending_ok_def nth_append)

lemma pending_ok_child:
  assumes "cr \<in> set (linked_of (ctx_children c (p_session_id p)))" and "p_depth p < ctx_max_depth c"
    and "n_session_id n = p_session_id p" and "n_depth n = p_depth p"
  shows "pending_ok c (ns @ [n]) (child_pending p (length ns) cr)"
  using assms by (simp add: pending_ok_def child_pending_def edge_to_def)

lemma covered_append:
  assumes "covered c ns (p # st)" and "n_session_id n = p_session_id p"
    and "\<forall>b. (p_session_id p, b) \<in> linked_edges c \<longrightarrow> b \<in> set (ids ns) \<union> {p_session_id p} \<union> p_session_id ` set st'"
    and "set st \<subseteq> set st'"
  shows "covered c (ns @ [n]) st'"
  using assms by (fastforce simp: covered_def)

lemma linked_edges_iff:
  "(a, b) \<in> linked_edges c \<longleftrightarrow> b \<in> fst ` set (linked_of (ctx_children c a))"
  by (simp add: linked_edges_def)

lemma cycles_real_append [simp]:
  "cycles_real c (ds @ ds') \<longleftrightarrow> cycles_real c ds \<and> cycles_real c ds'"
  by (auto simp: cycles_real_def)

lemma cycles_real_others [simp]:
  "cycles_real c []" "cycles_real c (map unlinked_diagnostic rs)"
  "cycles_real c [depth_limit_diagnostic p d]" "cycles_real c [tree_truncated_diagnostic m]"
  by (auto simp: cycles_real_def unlinked_diagnostic_def depth_limit_diagnostic_def
      tree_truncated_diagnostic_def)

text \<open>A popped session the tree already holds.\<close>

lemma visit_again_inv:
  assumes inv: "walk_inv c root s" and st: "stack s = p # rest" and seen: "p_session_id p \<in> visited s"
  shows "\<exists>s'. visit_again (s\<lparr>stack := rest\<rparr>) p = Continue s' \<and> walk_inv c root s'"
proof -
  have ne: "nodes s \<noteq> []" using inv seen by (auto simp: walk_inv_def)
  then obtain j where j: "j < length (nodes s)" "p_parent_index p = Some j"
    and e: "edge_to c (cores (nodes s) ! j) (p_session_id p) (p_depth p) (p_parent_session_id p) (p_relationship p)"
    using inv st by (auto simp: walk_inv_def stack_ok_def pending_ok_def)
  obtain b where b: "is_ancestor (nodes s) (parents s) (Some j) (p_session_id p) = Some b"
    "b \<longrightarrow> (p_session_id p, n_session_id (nodes s ! j)) \<in> (linked_edges c)\<^sup>*"
    using is_ancestor_total [of c root "nodes s" "parents s" j "p_session_id p"] inv j(1)
    unfolding walk_inv_def by blast
  have edge: "(n_session_id (nodes s ! j), p_session_id p) \<in> linked_edges c"
    using edge_to_edge [OF e] j(1) by (simp add: cores_nth)
  have cov: "covered c ns (p # rest) \<Longrightarrow> p_session_id p \<in> set (ids ns) \<Longrightarrow> covered c ns rest" for ns
    by (auto simp: covered_def)
  have rest: "stack_ok c root (cores (nodes s)) rest" using inv st ne by (auto simp: walk_inv_def stack_ok_def)
  have inv': "walk_inv c root (s\<lparr>stack := rest\<rparr>)"
    using inv st seen rest cov by (auto simp: walk_inv_def)
  show ?thesis
  proof (cases b)
    case False
    with b j inv' show ?thesis by (simp add: visit_again_def)
  next
    case True
    then have "(n_session_id (nodes s ! j), n_session_id (nodes s ! j)) \<in> (linked_edges c)\<^sup>+"
      using b(2) edge by (auto intro: rtrancl_into_trancl2)
    then have cyc: "cycles_real c [cycle_diagnostic p]" by (auto simp: cycles_real_def)
    obtain ns' where m: "mark_truncated (nodes s) j = Some ns'"
      using j(1) by (auto simp: mark_truncated_def)
    let ?t = "s\<lparr>stack := rest, nodes := ns', diagnostics := diagnostics s @ [cycle_diagnostic p]\<rparr>"
    have "visit_again (s\<lparr>stack := rest\<rparr>) p = Continue ?t"
      using True b(1) j(2) m by (simp add: visit_again_def mark_cycle_def)
    moreover have "walk_inv c root ?t"
      using inv' cyc mark_truncated_cores [OF m] by (simp add: walk_inv_def)
    ultimately show ?thesis by blast
  qed
qed

lemma map_filter_bound:
  "\<forall>q\<in>set qs. \<forall>j. f q = Some j \<longrightarrow> j < n \<Longrightarrow> \<forall>i\<in>set (List.map_filter f qs). i < n"
  by (induction qs) (auto simp: List.map_filter_simps split: option.splits)

lemma stop_at_budget_done:
  assumes inv: "walk_inv c root s" and st: "stack s = p # rest" and ne: "nodes s \<noteq> []"
  shows "\<exists>s'. stop_at_budget c (s\<lparr>stack := rest, visited := v\<rparr>) p = Break s' \<and> walk_done c root s'"
proof -
  have "\<forall>q\<in>set (p # rest). \<forall>j. p_parent_index q = Some j \<longrightarrow> j < length (nodes s)"
    using inv st ne by (auto simp: walk_inv_def stack_ok_def pending_ok_def)
  then have "\<forall>i\<in>set (List.map_filter p_parent_index (p # rest)). i < length (nodes s)"
    by (rule map_filter_bound)
  then obtain ns' where ns': "mark_all (nodes s) (List.map_filter p_parent_index (p # rest)) = Some ns'"
      and c: "cores ns' = cores (nodes s)"
    using mark_all_total by blast
  moreover have "ns' \<noteq> []" using c ne by (metis cores_simps(4))
  ultimately show ?thesis
    using inv by (auto simp: stop_at_budget_def walk_done_def walk_inv_def)
qed

text \<open>A session the tree does not hold yet, within the node budget.\<close>

lemma emit_node_inv:
  assumes inv: "walk_inv c root s" and st: "stack s = p # rest" and new: "p_session_id p \<notin> visited s"
    and room: "length (nodes s) < ctx_max_nodes c"
  shows "\<exists>s'. emit_node c (s\<lparr>stack := rest, visited := insert (p_session_id p) (visited s)\<rparr>) p = Continue s'
    \<and> walk_inv c root s'"
proof -
  define linked where "linked = linked_of (ctx_children c (p_session_id p))"
  define node0 where "node0 = (new_node c p)\<lparr>n_child_count := as_u32 (length linked)\<rparr>"
  define node where "node = node_core node0"
  have node_fields: "n_session_id node = p_session_id p" "n_depth node = p_depth p"
    "n_parent_session_id node = p_parent_session_id p" "n_relationship node = p_relationship p"
    by (simp_all add: node_def node0_def new_node_def)
  let ?cs = "cores (nodes s)"
  have len: "length (parents s) = length ?cs" using inv by (simp add: walk_inv_def nodes_ok_def)
  have place: "placed c root (?cs @ [node]) (parents s @ [p_parent_index p]) (length ?cs)"
  proof (cases "nodes s = []")
    case True
    then have "p = root_pending root" using inv st by (simp add: walk_inv_def stack_ok_def)
    with True len show ?thesis by (simp add: placed_def node_fields root_pending_def)
  next
    case False
    then have "pending_ok c ?cs p" using inv st by (simp add: walk_inv_def stack_ok_def)
    then show ?thesis using False len
      by (auto simp: placed_def pending_ok_def nth_append node_fields)
  qed
  have nodes: "nodes_ok c root (?cs @ [node]) (parents s @ [p_parent_index p])"
    using inv new room place by (intro nodes_ok_append) (auto simp: walk_inv_def node_fields)
  have rest_ok: "\<forall>q\<in>set rest. pending_ok c (?cs @ [node]) q"
    using inv st by (auto simp: walk_inv_def stack_ok_def intro: pending_ok_append split: if_splits)
  have kids_ok: "\<forall>q\<in>set (map (child_pending p (length (nodes s))) linked). pending_ok c (?cs @ [node]) q"
    if "p_depth p < ctx_max_depth c"
    using that pending_ok_child [of _ c p node ?cs] by (auto simp: linked_def node_fields)
  have kids_ids: "p_session_id ` child_pending p i ` set linked = fst ` set linked" for i
    by (force simp: child_pending_def)
  have cov_push: "covered c (?cs @ [node]) (map (child_pending p (length (nodes s))) linked @ rest)"
    if "\<not> truncated s"
    using inv st that
    by (intro covered_append [where p = p and st = rest])
       (auto simp: walk_inv_def node_fields linked_edges_iff image_Un kids_ids simp flip: linked_def)
  have cov_none: "covered c (?cs @ [node]) rest" if "\<not> truncated s" "linked = []"
    using cov_push [OF that(1)] that(2) by simp
  have split: "split_unlinked (session_children (ctx_rows c) (ctx_source c) (p_session_id p) (ctx_kinds c))
      [] u d = (linked, u @ filter is_unlinked (ctx_children c (p_session_id p)),
        d @ map unlinked_diagnostic (filter is_unlinked (ctx_children c (p_session_id p))))" for u d
    by (simp add: split_unlinked_eq linked_def ctx_children_def)
  let ?s = "s\<lparr>stack := rest, visited := insert (p_session_id p) (visited s)\<rparr>"
  let ?ds = "diagnostics s @ map unlinked_diagnostic (filter is_unlinked (ctx_children c (p_session_id p)))"
  let ?un = "unlinked s @ filter is_unlinked (ctx_children c (p_session_id p))"
  let ?s' = "?s\<lparr>max_depth_reached := max (max_depth_reached s) (p_depth p),
      parents := parents s @ [p_parent_index p], unlinked := ?un, diagnostics := ?ds\<rparr>"
  have seen: "insert (p_session_id p) (visited s) = set (ids (?cs @ [node]))"
    using inv by (simp add: walk_inv_def node_fields)
  have ds: "cycles_real c ?ds" using inv by (simp add: walk_inv_def)
  have st_rest: "stack_ok c root (?cs @ [node]) rest" using rest_ok by (simp add: stack_ok_def)
  show ?thesis
  proof (cases "ctx_max_depth c \<le> p_depth p")
    case True
    show ?thesis
    proof (cases "linked = []")
      case lk: True
      have "emit_node c ?s p = Continue (?s'\<lparr>nodes := nodes s @ [node0]\<rparr>)"
        using True lk by (simp add: emit_node_def Let_def split node0_def)
      moreover have "walk_inv c root (?s'\<lparr>nodes := nodes s @ [node0]\<rparr>)"
        using nodes st_rest seen ds cov_none lk by (simp add: walk_inv_def node_def)
      ultimately show ?thesis by blast
    next
      case lk: False
      let ?t = "?s'\<lparr>nodes := nodes s @ [node0\<lparr>n_truncated := True\<rparr>], truncated := True,
          diagnostics := ?ds @ [depth_limit_diagnostic p (ctx_max_depth c)]\<rparr>"
      have "emit_node c ?s p = Continue ?t"
        using True lk by (simp add: emit_node_def Let_def split node0_def)
      moreover have "walk_inv c root ?t"
        using nodes st_rest seen ds by (simp add: walk_inv_def node_def)
      ultimately show ?thesis by blast
    qed
  next
    case False
    let ?t = "?s'\<lparr>nodes := nodes s @ [node0], stack := push_children rest linked p (length (nodes s))\<rparr>"
    have "emit_node c ?s p = Continue ?t"
      using False by (simp add: emit_node_def Let_def split node0_def)
    moreover have "stack_ok c root (?cs @ [node]) (stack ?t)"
      using rest_ok kids_ok False by (auto simp: stack_ok_def push_children_eq)
    then have "walk_inv c root ?t"
      using nodes seen ds cov_push by (simp add: walk_inv_def node_def push_children_eq)
    ultimately show ?thesis by blast
  qed
qed

section \<open>The walk ends, without a panic\<close>

lemma tree_loop_done:
  assumes "walk_inv c root s" and "1 \<le> ctx_max_nodes c"
  shows "\<exists>t. tree_loop c s = Some t \<and> walk_done c root t"
  using assms
proof (induction c s rule: tree_loop.induct)
  case (1 c s)
  note unfold = tree_loop.simps [of c s]
  show ?case
  proof (cases "stack s")
    case Nil
    with "1.prems"(1) show ?thesis
      by (auto simp: unfold walk_inv_def walk_done_def stack_ok_def split: if_splits)
  next
    case (Cons p rest)
    show ?thesis
    proof (cases "p_session_id p \<in> visited s")
      case True
      then obtain s' where "visit_again (s\<lparr>stack := rest\<rparr>) p = Continue s'" "walk_inv c root s'"
        using visit_again_inv [OF "1.prems"(1) Cons] by blast
      with "1.IH" [OF Cons, of s'] "1.prems"(2) True Cons show ?thesis
        by (simp add: unfold tree_step_def)
    next
      case False
      show ?thesis
      proof (cases "ctx_max_nodes c \<le> length (nodes s)")
        case True
        then have "nodes s \<noteq> []" using "1.prems"(2) by auto
        then obtain s' where "stop_at_budget c (s\<lparr>stack := rest,
            visited := insert (p_session_id p) (visited s)\<rparr>) p = Break s'" "walk_done c root s'"
          using stop_at_budget_done [OF "1.prems"(1) Cons] by blast
        with True False Cons show ?thesis by (simp add: unfold tree_step_def)
      next
        case room: False
        then obtain s' where "emit_node c (s\<lparr>stack := rest,
            visited := insert (p_session_id p) (visited s)\<rparr>) p = Continue s'" "walk_inv c root s'"
          using emit_node_inv [OF "1.prems"(1) Cons False] by auto
        with "1.IH" [OF Cons, of s'] "1.prems"(2) False Cons room show ?thesis
          by (simp add: unfold tree_step_def)
      qed
    qed
  qed
qed

section \<open>The tree and the recorded graph\<close>

text \<open>The edges the rows record: a linked child of the source, of a kind that is followed.\<close>

definition recorded_edges ::
  "relationship_rows \<Rightarrow> string \<Rightarrow> relationship_kinds \<Rightarrow> (string \<times> string) set" where
  "recorded_edges db source kinds = {(a, b). \<exists>r\<in>set db. r_source r = source
     \<and> parent_session_id r = a \<and> child_session_id r = Some b \<and> \<not> is_unlinked r
     \<and> kinds_clause kinds (relationship r)}"

lemma linked_edges_recorded:
  "linked_edges (tree_context db ev source opts) = recorded_edges db source (tree_kinds opts)"
  by (force simp: linked_edges_def recorded_edges_def linked_of_def ctx_children_def
      tree_context_def set_session_children image_iff is_unlinked_def)

lemma walk_inv_initial: "walk_inv c root (initial_walk root)"
  by (simp add: walk_inv_def initial_walk_def nodes_ok_def stack_ok_def covered_def)

lemma clamp_u32_bounds: "1 \<le> clamp_u32 x hi" "1 \<le> hi \<Longrightarrow> clamp_u32 x hi \<le> hi"
  by (auto simp: clamp_u32_def)

lemma session_tree_walk:
  obtains s where "session_tree db ev source root opts = Some (finish_tree source root s)"
    and "walk_done (tree_context db ev source opts) root s"
proof -
  have "1 \<le> ctx_max_nodes (tree_context db ev source opts)"
    by (simp add: tree_context_def clamp_u32_def)
  from tree_loop_done [OF walk_inv_initial this] that show thesis
    by (auto simp: session_tree_def)
qed

lemma nodes_ok_depth: "nodes_ok c root ns ps \<Longrightarrow> n \<in> set ns \<Longrightarrow> n_depth n \<le> ctx_max_depth c"
  by (auto simp: nodes_ok_def placed_def edge_to_def in_set_conv_nth split: if_splits)

lemma cores_set: "n \<in> set ns \<Longrightarrow> node_core n \<in> set (cores ns)"
  by (simp add: cores_def)

lemma walk_done_root: "walk_done c root s \<Longrightarrow> n_session_id (nodes s ! 0) = root"
  by (auto simp: walk_done_def nodes_ok_def placed_def cores_nth dest!: spec [of _ 0])

lemma placed_edge:
  assumes "walk_done c root s" and "i < length (nodes s)" and "i \<noteq> 0"
  obtains j where "j < i" and "edge_to c (nodes s ! j) (n_session_id (nodes s ! i))
    (n_depth (nodes s ! i)) (n_parent_session_id (nodes s ! i)) (n_relationship (nodes s ! i))"
proof -
  have "placed c root (cores (nodes s)) (parents s) i"
    using assms by (simp add: walk_done_def nodes_ok_def)
  then obtain j where "j < i" "edge_to c (cores (nodes s) ! j) (n_session_id (cores (nodes s) ! i))
      (n_depth (cores (nodes s) ! i)) (n_parent_session_id (cores (nodes s) ! i))
      (n_relationship (cores (nodes s) ! i))"
    using assms(3) by (auto simp: placed_def)
  with assms(2) that show thesis by (auto simp: cores_nth edge_to_def)
qed

lemma walk_done_reachable:
  assumes "walk_done c root s" and "i < length (nodes s)"
  shows "(root, n_session_id (nodes s ! i)) \<in> (linked_edges c)\<^sup>*"
  using assms(2)
proof (induction i rule: less_induct)
  case (less i)
  show ?case
  proof (cases "i = 0")
    case True
    with walk_done_root [OF assms(1)] show ?thesis by simp
  next
    case False
    from placed_edge [OF assms(1) less.prems False] obtain j where "j < i"
      and e: "edge_to c (nodes s ! j) (n_session_id (nodes s ! i)) (n_depth (nodes s ! i))
        (n_parent_session_id (nodes s ! i)) (n_relationship (nodes s ! i))" .
    with less.IH [of j] less.prems edge_to_edge [OF e] show ?thesis
      by (auto intro: rtrancl_into_rtrancl)
  qed
qed

lemma walk_done_complete:
  assumes "walk_done c root s" and "\<not> truncated s" and "(root, b) \<in> (linked_edges c)\<^sup>*"
  shows "b \<in> set (ids (nodes s))"
  using assms(3)
proof (induction rule: rtrancl_induct)
  case base
  have "nodes s \<noteq> []" using assms(1) by (simp add: walk_done_def)
  with walk_done_root [OF assms(1)] show ?case by (metis ids_def length_greater_0_conv length_map nth_map nth_mem)
next
  case (step a b)
  then show ?case using assms(1,2) by (auto simp: walk_done_def covered_def)
qed

text \<open>C15. The tree read returns for every store: no index panics and no evidence, cyclic or
  not, makes the walk run on. The root is the first node, a session has at most one node, and
  the depth and node budgets hold.\<close>

theorem session_tree_returns:
  "\<exists>t. session_tree db events source root opts = Some t
     \<and> t_nodes t \<noteq> [] \<and> n_session_id (t_nodes t ! 0) = root
     \<and> distinct (ids (t_nodes t))
     \<and> length (t_nodes t) \<le> clamp_u32 (max_nodes opts) MAX_TREE_MAX_NODES
     \<and> (\<forall>n\<in>set (t_nodes t). n_depth n \<le> clamp_u32 (max_depth opts) MAX_TREE_MAX_DEPTH)"
proof -
  let ?c = "tree_context db events source opts"
  obtain s where s: "session_tree db events source root opts = Some (finish_tree source root s)"
    and w: "walk_done ?c root s" by (rule session_tree_walk)
  have ok: "nodes_ok ?c root (cores (nodes s)) (parents s)" and ne: "nodes s \<noteq> []"
    using w by (simp_all add: walk_done_def)
  have "n_depth n \<le> ctx_max_depth ?c" if "n \<in> set (nodes s)" for n
    using nodes_ok_depth [OF ok cores_set [OF that]] by simp
  then show ?thesis
    using s ok ne walk_done_root [OF w] by (simp add: finish_tree_def nodes_ok_def tree_context_def)
qed

text \<open>C1. An untruncated tree is the whole answer: its nodes are exactly the sessions that the
  recorded edges of the followed kinds reach from the root.\<close>

theorem session_tree_complete:
  assumes "session_tree db events source root opts = Some t" and "\<not> t_truncated t"
  shows "set (ids (t_nodes t)) = (recorded_edges db source (tree_kinds opts))\<^sup>* `` {root}"
proof -
  let ?c = "tree_context db events source opts"
  obtain s where s: "session_tree db events source root opts = Some (finish_tree source root s)"
    and w: "walk_done ?c root s" by (rule session_tree_walk)
  with assms have t: "t_nodes t = nodes s" "\<not> truncated s" by (auto simp: finish_tree_def)
  show ?thesis
    using walk_done_reachable [OF w] walk_done_complete [OF w t(2)]
    by (fastforce simp: t(1) ids_def in_set_conv_nth linked_edges_recorded)
qed

text \<open>C2. Nothing is fabricated: every node but the root stands after a node whose session is
  its recorded parent, one level deeper, and carries the row that links them.\<close>

theorem session_tree_sound:
  assumes "session_tree db events source root opts = Some t"
    and "i < length (t_nodes t)" and "i \<noteq> 0"
  shows "\<exists>j<i. \<exists>r\<in>set db. n_relationship (t_nodes t ! i) = Some r
     \<and> parent_session_id r = n_session_id (t_nodes t ! j)
     \<and> child_session_id r = Some (n_session_id (t_nodes t ! i))
     \<and> r_source r = source \<and> \<not> is_unlinked r
     \<and> n_depth (t_nodes t ! i) = Suc (n_depth (t_nodes t ! j))"
proof -
  let ?c = "tree_context db events source opts"
  obtain s where s: "session_tree db events source root opts = Some (finish_tree source root s)"
    and w: "walk_done ?c root s" by (rule session_tree_walk)
  with assms have t: "t_nodes t = nodes s" by (auto simp: finish_tree_def)
  with assms(2,3) obtain j where j: "j < i"
    and e: "edge_to ?c (nodes s ! j) (n_session_id (nodes s ! i))
      (n_depth (nodes s ! i)) (n_parent_session_id (nodes s ! i)) (n_relationship (nodes s ! i))"
    using placed_edge [OF w, of i] by auto
  then show ?thesis
    unfolding t
    by (intro exI [of _ j]) (auto simp: edge_to_def linked_of_def ctx_children_def
        set_session_children tree_context_def is_unlinked_def)
qed

text \<open>A diamond is not a cycle: where the recorded edges have no cycle, the walk reports
  none, however many paths lead to a session.\<close>

lemma session_tree_no_false_cycle:
  assumes "session_tree db events source root opts = Some t"
    and "acyclic (recorded_edges db source (tree_kinds opts))" and "d \<in> set (t_diagnostics t)"
  shows "d_code d \<noteq> ''RELATIONSHIP_CYCLE''"
proof -
  let ?c = "tree_context db events source opts"
  obtain s where s: "session_tree db events source root opts = Some (finish_tree source root s)"
    and w: "walk_done ?c root s" by (rule session_tree_walk)
  with assms have "d \<in> set (diagnostics s)" by (auto simp: finish_tree_def)
  with w assms(2) show ?thesis
    by (auto simp: walk_done_def cycles_real_def acyclic_def linked_edges_recorded)
qed

lemma new_node_cong:
  "ctx_events c = ctx_events c' \<Longrightarrow> ctx_source c = ctx_source c' \<Longrightarrow> new_node c = new_node c'"
  by (simp add: new_node_def fun_eq_iff split: option.split)

lemma emit_node_cong:
  assumes "ctx_children c = ctx_children c'" and "new_node c = new_node c'"
    and "ctx_max_depth c = ctx_max_depth c'"
  shows "emit_node c s p = emit_node c' s p"
proof -
  have "session_children (ctx_rows c) (ctx_source c) x (ctx_kinds c) =
      session_children (ctx_rows c') (ctx_source c') x (ctx_kinds c')" for x
    using assms(1) by (simp add: ctx_children_def fun_eq_iff)
  then show ?thesis by (simp only: emit_node_def assms(2,3))
qed

lemma tree_step_cong:
  assumes "ctx_max_nodes c = ctx_max_nodes c'" and "\<And>s p. emit_node c s p = emit_node c' s p"
  shows "tree_step c s p = tree_step c' s p"
  by (simp only: tree_step_def stop_at_budget_def Let_def assms)

lemma tree_loop_cong:
  assumes "\<And>s p. tree_step c s p = tree_step c' s p"
  shows "tree_loop c s = tree_loop c' s"
  using assms
proof (induction c s rule: tree_loop.induct)
  case (1 c s)
  show ?case
  proof (cases "stack s")
    case Nil
    then show ?thesis by (simp add: tree_loop.simps [of _ s])
  next
    case (Cons p rest)
    with "1.IH" [OF Cons] "1.prems" show ?thesis
      by (auto simp: tree_loop.simps [of _ s] split: turn.split)
  qed
qed

text \<open>The tree depends on the recorded evidence, not on the order in which it was
  written.\<close>

lemma session_tree_perm:
  assumes "pk_unique db" and "mset db = mset db'"
  shows "session_tree db events source root opts = session_tree db' events source root opts"
proof -
  let ?c = "tree_context db events source opts" and ?c' = "tree_context db' events source opts"
  have "ctx_children ?c = ctx_children ?c'"
    using session_children_perm [OF assms] by (simp add: ctx_children_def tree_context_def fun_eq_iff)
  then have "emit_node ?c s p = emit_node ?c' s p" for s p
    by (rule emit_node_cong) (rule new_node_cong, simp_all add: tree_context_def)
  then have "tree_step ?c s p = tree_step ?c' s p" for s p
    by (intro tree_step_cong) (simp_all add: tree_context_def)
  then show ?thesis by (simp add: session_tree_def tree_loop_cong [of ?c ?c'])
qed

section \<open>The diamond store\<close>

definition diamond_tree :: session_tree_rec where
  "diamond_tree = the (session_tree diamond_rows [] ''codex'' ''root'' default_tree_options)"

abbreviation diamond_read :: "session_tree_rec option" where
  "diamond_read \<equiv> session_tree diamond_rows [] ''codex'' ''root'' default_tree_options"

lemma diamond_tree_facts:
  "ids (t_nodes diamond_tree) = [''root'', ''b'', ''c'']"
  "\<not> t_truncated diamond_tree" "length (t_diagnostics diamond_tree) = 0"
  by code_simp+

lemma diamond_read_Some: "diamond_read = Some diamond_tree"
  using session_tree_walk [of diamond_rows "[]" "''codex''" "''root''" default_tree_options]
  by (metis diamond_tree_def option.sel)

lemma diamond_edges:
  "recorded_edges diamond_rows ''codex'' (tree_kinds default_tree_options) =
     {(''root'', ''c''), (''root'', ''b''), (''b'', ''c'')}"
  by (auto simp: recorded_edges_def diamond_rows_def edge_row_def default_tree_options_def
      is_unlinked_def IDENTITY_UNLINKED_def kinds_delegation_def CONTINUITY_RELATIONSHIPS_def
      RELATIONSHIP_DELEGATED_def RELATIONSHIP_CONTINUATION_def RELATIONSHIP_FORK_def
      RELATIONSHIP_RESUME_def)

lemma diamond_acyclic:
  "acyclic (recorded_edges diamond_rows ''codex'' (tree_kinds default_tree_options))"
  by (rule acyclic_ranked [where f = "\<lambda>x. if x = ''root'' then 0 else if x = ''b'' then 1 else 2"])
     (auto simp: diamond_edges)

theorem session_tree_returns_witness:
  "t_nodes diamond_tree \<noteq> [] \<and> n_depth (t_nodes diamond_tree ! 0) \<le> 32
    \<and> length (t_nodes diamond_tree) \<le> 1000"
proof -
  have opts: "clamp_u32 (max_depth default_tree_options) MAX_TREE_MAX_DEPTH = 32"
      "clamp_u32 (max_nodes default_tree_options) MAX_TREE_MAX_NODES = 1000"
    by (simp_all add: default_tree_options_def clamp_u32_def DEFAULT_TREE_MAX_DEPTH_def
        MAX_TREE_MAX_DEPTH_def DEFAULT_TREE_MAX_NODES_def MAX_TREE_MAX_NODES_def)
  show ?thesis
    using session_tree_returns [of diamond_rows "[]" "''codex''" "''root''" default_tree_options]
      diamond_read_Some nth_mem [of 0 "t_nodes diamond_tree"]
    by (auto simp: opts)
qed

theorem session_tree_complete_witness:
  "{''root'', ''b'', ''c''} = {(''root'', ''c''), (''root'', ''b''), (''b'', ''c'')}\<^sup>* `` {''root''}"
  using session_tree_complete [OF diamond_read_Some diamond_tree_facts(2)]
  by (simp add: diamond_tree_facts(1) diamond_edges)

theorem session_tree_sound_witness:
  "\<exists>j<2. \<exists>r\<in>set diamond_rows. n_relationship (t_nodes diamond_tree ! 2) = Some r
     \<and> parent_session_id r = n_session_id (t_nodes diamond_tree ! j)"
proof -
  have "length (ids (t_nodes diamond_tree)) = 3" by (simp add: diamond_tree_facts(1))
  then have "2 < length (t_nodes diamond_tree)" by (simp add: ids_def)
  from session_tree_sound [OF diamond_read_Some this] show ?thesis by auto
qed

lemma session_tree_no_false_cycle_witness:
  "''RELATIONSHIP_CYCLE'' \<notin> d_code ` set (t_diagnostics diamond_tree)"
proof
  assume "''RELATIONSHIP_CYCLE'' \<in> d_code ` set (t_diagnostics diamond_tree)"
  then obtain d where d: "''RELATIONSHIP_CYCLE'' = d_code d" "d \<in> set (t_diagnostics diamond_tree)"
    by (rule imageE)
  from session_tree_no_false_cycle [OF diamond_read_Some diamond_acyclic d(2)] d(1) show False
    by simp
qed

lemma session_tree_perm_witness:
  "diamond_read = session_tree (rev diamond_rows) [] ''codex'' ''root'' default_tree_options"
  by (rule session_tree_perm) (simp_all add: diamond_pk_unique)

end
