(* ===== verification/UserTurns.thy ===== *)
theory UserTurns
  imports StoreRows
begin

text \<open>
  User turns: \<open>store.rs\<close> (\<open>session_user_turns_page\<close>, \<open>read_user_turns\<close>, \<open>fill_user_turns\<close>) and
  \<open>store/user_turn_page.rs\<close> (\<open>page_headers\<close>). A turn is the rows that arrived on one user
  message; it is derived from \<open>session_events\<close> on every read. Reads that fail (a \<open>NULL\<close> where
  an integer is read, two turns with one anchor) are values of \<open>turn_error\<close>.
\<close>

section \<open>Which rows, and which turn\<close>

datatype turn_error = SharedAnchor | NullByteLen

text \<open>\<open>USER_TURN_ROW_FILTER\<close> and \<open>USER_TURN_KEY\<close>.\<close>

definition user_turn_row :: "session_event \<Rightarrow> bool" where
  "user_turn_row e \<longleftrightarrow>
     (case e_is_sidechain e of None \<Rightarrow> True | Some i \<Rightarrow> i = 0)
     \<and> ((e_role e = ''user'' \<and> e_control_kind e = None)
        \<or> (e_role e = ''tool_result'' \<and> e_event_source e = Some ''tool_result''))"

definition named :: "session_event \<Rightarrow> string option" where
  "named e = nullif_empty (e_message_id e)"

definition turn_key_of :: "string option \<Rightarrow> int \<Rightarrow> string" where
  "turn_key_of message_id i =
     (case message_id of
        Some m \<Rightarrow> if m \<noteq> [] then m else ''event:'' @ int_to_dec i
      | None \<Rightarrow> ''event:'' @ int_to_dec i)"

definition turn_key :: "session_event \<Rightarrow> string" where
  "turn_key e = turn_key_of (named e) (e_id e)"

record user_turn_header =
  uh_key :: string
  uh_ts_ms :: int
  uh_id :: int
  uh_message_id :: "string option"
  uh_last_ts_ms :: int

definition anchor :: "user_turn_header \<Rightarrow> int \<times> int" where
  "anchor h = (uh_ts_ms h, uh_id h)"

definition session_rows :: "session_event list \<Rightarrow> string \<Rightarrow> string \<Rightarrow> session_event list" where
  "session_rows db source session =
     sort_key event_order (filter (\<lambda>e. e_source e = source \<and> e_session_id e = session) db)"

section \<open>Headers, grouped in one statement\<close>

definition turn_group :: "session_event list \<Rightarrow> string \<Rightarrow> session_event list" where
  "turn_group rows k = filter (\<lambda>e. user_turn_row e \<and> turn_key e = k) rows"

definition header_of_group :: "string \<Rightarrow> session_event list \<Rightarrow> user_turn_header" where
  "header_of_group k g =
     \<lparr>uh_key = k, uh_ts_ms = Min (set (map e_ts_ms g)), uh_id = Min (set (map e_id g)),
      uh_message_id = (let ns = List.map_filter named g
                       in if ns = [] then None else Some (Min (set ns))),
      uh_last_ts_ms = Max (set (map e_ts_ms g))\<rparr>"

definition grouped_turn_headers ::
  "session_event list \<Rightarrow> string \<Rightarrow> string \<Rightarrow> user_turn_header list" where
  "grouped_turn_headers db source session =
     (let rows = session_rows db source session
      in sort_key anchor
           (map (\<lambda>k. header_of_group k (turn_group rows k))
             (remdups (map turn_key (filter user_turn_row rows)))))"

section \<open>Headers, walked forward from a cursor\<close>

text \<open>\<open>str::parse::<i64>\<close>: an optional sign, then at least one digit, in range.\<close>

definition parse_i64 :: "string \<Rightarrow> int option" where
  "parse_i64 s =
     (case s of
        [] \<Rightarrow> None
      | c # cs \<Rightarrow>
          (let (sign, ds) = (if c = CHR ''-'' then (-1, cs) else if c = CHR ''+'' then (1, cs) else (1, s))
           in if ds = [] then None
              else Option.bind (digits_value 0 ds) (\<lambda>v.
                if - (2 ^ 63) \<le> sign * v \<and> sign * v < 2 ^ 63 then Some (sign * v) else None)))"

definition colliding_event_id :: "string \<Rightarrow> int option" where
  "colliding_event_id key =
     (if take 6 key = ''event:'' then
        Option.bind (parse_i64 (drop 6 key)) (\<lambda>i.
          if ''event:'' @ int_to_dec i = key then Some i else None)
      else None)"

record turn_fold =
  tf_ts_ms :: int
  tf_id :: int
  tf_last_ts_ms :: int
  tf_named :: bool

definition fold_seed :: "session_event \<Rightarrow> turn_fold" where
  "fold_seed e = \<lparr>tf_ts_ms = e_ts_ms e, tf_id = e_id e, tf_last_ts_ms = e_ts_ms e,
     tf_named = (named e \<noteq> None)\<rparr>"

definition fold_observe :: "session_event \<Rightarrow> turn_fold \<Rightarrow> turn_fold" where
  "fold_observe e f = \<lparr>tf_ts_ms = min (tf_ts_ms f) (e_ts_ms e), tf_id = min (tf_id f) (e_id e),
     tf_last_ts_ms = max (tf_last_ts_ms f) (e_ts_ms e), tf_named = (tf_named f \<or> named e \<noteq> None)\<rparr>"

definition fold_header :: "turn_fold \<Rightarrow> string \<Rightarrow> user_turn_header" where
  "fold_header f key = \<lparr>uh_key = key, uh_ts_ms = tf_ts_ms f, uh_id = tf_id f,
     uh_message_id = (if tf_named f then Some key else None), uh_last_ts_ms = tf_last_ts_ms f\<rparr>"

text \<open>The rows of one message, and the unnamed row an \<open>event:<id>\<close> key collides with.\<close>

definition named_rows :: "session_event list \<Rightarrow> string \<Rightarrow> session_event list" where
  "named_rows rows key = filter (\<lambda>e. e_message_id e = Some key \<and> user_turn_row e) rows"

definition collided_rows :: "session_event list \<Rightarrow> int \<Rightarrow> session_event list" where
  "collided_rows rows i = filter (\<lambda>e. e_id e = i \<and> named e = None \<and> user_turn_row e) rows"

definition aggregate :: "session_event list \<Rightarrow> string \<Rightarrow> session_event \<Rightarrow> user_turn_header" where
  "aggregate rows key row =
     fold_header
       (fold fold_observe
         (named_rows rows key
          @ (case colliding_event_id key of None \<Rightarrow> [] | Some i \<Rightarrow> collided_rows rows i))
         (fold_seed row)) key"

definition past_cursor :: "session_event_cursor option \<Rightarrow> user_turn_header \<Rightarrow> bool" where
  "past_cursor after h \<longleftrightarrow>
     (case after of
        None \<Rightarrow> True
      | Some c \<Rightarrow> ec_ts_ms c < uh_ts_ms h \<or> (uh_ts_ms h = ec_ts_ms c \<and> ec_id c < uh_id h))"

text \<open>\<open>candidates\<close> is a \<open>BTreeMap\<close> by anchor: its values in order.\<close>

record page_state =
  ps_current_ts :: "int option"
  ps_frozen :: bool
  ps_extra :: bool
  ps_seen :: "string set"
  ps_candidates :: "user_turn_header list"

definition page_state_new :: page_state where
  "page_state_new = \<lparr>ps_current_ts = None, ps_frozen = False, ps_extra = False, ps_seen = {},
     ps_candidates = []\<rparr>"

type_synonym header_page = "user_turn_header list \<times> bool"

definition page_out :: "nat \<Rightarrow> page_state \<Rightarrow> bool \<Rightarrow> header_page" where
  "page_out lim s has_more = (take lim (ps_candidates s), has_more)"

definition consider_row ::
  "session_event list \<Rightarrow> session_event_cursor option \<Rightarrow> session_event \<Rightarrow> page_state
    \<Rightarrow> turn_error + page_state" where
  "consider_row rows after row s =
     (let key = turn_key_of (named row) (e_id row) in
      if key \<in> ps_seen s then Inr s
      else
       (let s1 = s\<lparr>ps_seen := insert key (ps_seen s)\<rparr>; header = aggregate rows key row in
        if \<not> past_cursor after header then Inr s1
        else if anchor header \<in> anchor ` set (ps_candidates s1) then Inl SharedAnchor
        else Inr (s1\<lparr>ps_candidates := insort_key anchor header (ps_candidates s1),
               ps_extra := (ps_extra s1 \<or> ps_frozen s1)\<rparr>)))"

definition starts_later :: "page_state \<Rightarrow> int \<Rightarrow> bool" where
  "starts_later s ts = (case ps_current_ts s of None \<Rightarrow> False | Some prev \<Rightarrow> prev < ts)"

text \<open>One scanned row: the page when it is complete, or the state to go on with.\<close>

definition observe_row ::
  "session_event list \<Rightarrow> nat \<Rightarrow> session_event_cursor option \<Rightarrow> session_event \<Rightarrow> page_state
    \<Rightarrow> turn_error + (header_page option \<times> page_state)" where
  "observe_row rows lim after row s =
     (if starts_later s (e_ts_ms row) \<and> lim < length (ps_candidates s)
      then Inr (Some (page_out lim s True), s)
      else
       (let s1 = (if starts_later s (e_ts_ms row) \<and> length (ps_candidates s) = lim
                  then s\<lparr>ps_frozen := True\<rparr> else s);
            s2 = s1\<lparr>ps_current_ts := Some (e_ts_ms row)\<rparr>
        in and_then (if user_turn_row row then consider_row rows after row s2 else Inr s2) (\<lambda>s3.
             Inr (if ps_extra s3 then Some (page_out lim s3 True) else None, s3))))"

fun walk_headers ::
  "session_event list \<Rightarrow> nat \<Rightarrow> session_event_cursor option \<Rightarrow> session_event list \<Rightarrow> page_state
    \<Rightarrow> turn_error + header_page" where
  "walk_headers rows lim after [] s = Inr (page_out lim s (lim < length (ps_candidates s)))"
| "walk_headers rows lim after (row # rest) s =
     and_then (observe_row rows lim after row s) (\<lambda>(page, s').
       case page of Some p \<Rightarrow> Inr p | None \<Rightarrow> walk_headers rows lim after rest s')"

definition page_headers ::
  "session_event list \<Rightarrow> string \<Rightarrow> string \<Rightarrow> nat \<Rightarrow> session_event_cursor option
    \<Rightarrow> turn_error + header_page" where
  "page_headers db source session lim after =
     (let rows = session_rows db source session
      in walk_headers rows lim after
           (filter (\<lambda>e. case after of None \<Rightarrow> True | Some c \<Rightarrow> after_event c e) rows) page_state_new)"

section \<open>Blocks and neighbours, from one ordered pass\<close>

record user_turn_block =
  ub_kind :: string
  ub_tool_use_id :: "string option"
  ub_byte_len :: int
  ub_is_error :: "int option"

record session_user_turn =
  ut_id :: int
  ut_source :: string
  ut_session_id :: string
  ut_message_id :: "string option"
  ut_preceding_message_id :: "string option"
  ut_following_message_id :: "string option"
  ut_ts_ms :: int
  ut_blocks :: "user_turn_block list"

text \<open>\<open>COALESCE(payload_bytes, octet_length(text), 0)\<close>.\<close>

definition user_turn_byte_len :: "session_event \<Rightarrow> int" where
  "user_turn_byte_len e =
     (case e_payload_bytes e of
        Some b \<Rightarrow> b
      | None \<Rightarrow> (case e_text e of Some t \<Rightarrow> int (length t) | None \<Rightarrow> 0))"

definition user_turn_block_of ::
  "string \<Rightarrow> string \<Rightarrow> string option \<Rightarrow> int \<Rightarrow> string option \<Rightarrow> user_turn_block" where
  "user_turn_block_of role kind tool_use_id byte_len result_status =
     (let is_tool_result = (role = ''tool_result'' \<or> kind = ''tool_result'')
      in \<lparr>ub_kind = (if is_tool_result then ''tool_result'' else ''text''),
          ub_tool_use_id = (if is_tool_result then tool_use_id else None),
          ub_byte_len = byte_len,
          ub_is_error =
            (if result_status = Some ''errored'' \<or> result_status = Some ''cancelled'' then Some 1
             else if result_status = Some ''completed'' then Some 0 else None)\<rparr>)"

record named_trail =
  nt_last :: "string option"
  nt_previous :: "string option"

definition trail_preceding :: "named_trail \<Rightarrow> string \<Rightarrow> string option" where
  "trail_preceding t key =
     (case nt_last t of
        Some l \<Rightarrow> if l \<noteq> key then Some l else nt_previous t
      | None \<Rightarrow> nt_previous t)"

definition trail_observe :: "string \<Rightarrow> named_trail \<Rightarrow> named_trail" where
  "trail_observe m t =
     (if nt_last t \<noteq> Some m then \<lparr>nt_last = Some m, nt_previous = nt_last t\<rparr> else t)"

text \<open>\<open>USER_TURN_NAMED_BEFORE\<close>: the nearest named message before a position, other than \<open>skip\<close>.\<close>

definition named_before ::
  "session_event list \<Rightarrow> int \<times> int \<Rightarrow> string \<Rightarrow> string option" where
  "named_before rows pos skip =
     (case filter (\<lambda>e. event_order e < pos \<and> named e \<noteq> None \<and> named e \<noteq> Some skip) rows of
        [] \<Rightarrow> None
      | r # rs \<Rightarrow> named (last (r # rs)))"

definition empty_turn :: "string \<Rightarrow> string \<Rightarrow> user_turn_header \<Rightarrow> session_user_turn" where
  "empty_turn source session h =
     \<lparr>ut_id = uh_id h, ut_source = source, ut_session_id = session,
      ut_message_id = uh_message_id h, ut_preceding_message_id = None,
      ut_following_message_id = None, ut_ts_ms = uh_ts_ms h, ut_blocks = []\<rparr>"

record fill_state =
  fs_turns :: "session_user_turn list"
  fs_trail :: named_trail
  fs_awaiting :: "nat list"
  fs_next_anchor :: nat

text \<open>The anchors at or before a row, reached in order: their preceding message is settled.\<close>

function reach_anchors :: "user_turn_header list \<Rightarrow> int \<times> int \<Rightarrow> fill_state \<Rightarrow> fill_state" where
  "reach_anchors hs at s =
     (if fs_next_anchor s < length hs \<and> \<not> at < anchor (hs ! fs_next_anchor s) then
        (let i = fs_next_anchor s
         in reach_anchors hs at
              (s\<lparr>fs_turns := (fs_turns s)[i := (fs_turns s ! i)\<lparr>ut_preceding_message_id :=
                     trail_preceding (fs_trail s) (uh_key (hs ! i))\<rparr>],
                 fs_awaiting := fs_awaiting s @ [i], fs_next_anchor := i + 1\<rparr>))
      else s)"
  by pat_completeness auto
termination
  by (relation "measure (\<lambda>(hs, at, s). length hs - fs_next_anchor s)") (auto simp: Let_def)

declare reach_anchors.simps [simp del]

definition released :: "user_turn_header \<Rightarrow> int \<times> int \<Rightarrow> string \<Rightarrow> bool" where
  "released h at m \<longleftrightarrow> anchor h < at \<and> uh_key h \<noteq> m"

text \<open>\<open>awaiting_following.retain(...)\<close>: the turns a named row settles leave the list.\<close>

definition release_following ::
  "user_turn_header list \<Rightarrow> int \<times> int \<Rightarrow> string \<Rightarrow> fill_state \<Rightarrow> fill_state" where
  "release_following hs at m s =
     s\<lparr>fs_turns := fold (\<lambda>i ts. if released (hs ! i) at m
           then ts[i := (ts ! i)\<lparr>ut_following_message_id := Some m\<rparr>] else ts)
         (fs_awaiting s) (fs_turns s),
       fs_awaiting := filter (\<lambda>i. \<not> released (hs ! i) at m) (fs_awaiting s)\<rparr>"

definition index_of_key :: "user_turn_header list \<Rightarrow> string \<Rightarrow> nat option" where
  "index_of_key hs key = map_of (rev (map (\<lambda>i. (uh_key (hs ! i), i)) [0..<length hs])) key"

text \<open>The stream selects the byte length only for block rows at or before \<open>last_block_ts\<close>; for
  any other row the column is \<open>NULL\<close>, and reading it as an integer fails.\<close>

definition push_turn_block ::
  "user_turn_header list \<Rightarrow> int \<Rightarrow> session_event \<Rightarrow> session_user_turn list
    \<Rightarrow> turn_error + session_user_turn list" where
  "push_turn_block hs last_block_ts row turns =
     (case index_of_key hs (turn_key_of (named row) (e_id row)) of
        None \<Rightarrow> Inr turns
      | Some i \<Rightarrow>
          if e_ts_ms row \<le> last_block_ts then
            Inr (turns[i := (turns ! i)\<lparr>ut_blocks := ut_blocks (turns ! i)
              @ [user_turn_block_of (e_role row) (e_kind row) (e_tool_use_id row)
                   (user_turn_byte_len row) (e_result_status row)]\<rparr>])
          else Inl NullByteLen)"

definition fill_step ::
  "user_turn_header list \<Rightarrow> int \<Rightarrow> session_event \<Rightarrow> fill_state \<Rightarrow> turn_error + fill_state" where
  "fill_step hs last_block_ts row s =
     (let at = event_order row;
          s1 = reach_anchors hs at s;
          s2 = (case named row of
                  Some m \<Rightarrow> (release_following hs at m s1)\<lparr>fs_trail := trail_observe m (fs_trail s1)\<rparr>
                | None \<Rightarrow> s1)
      in if user_turn_row row
         then and_then (push_turn_block hs last_block_ts row (fs_turns s2)) (\<lambda>ts.
                Inr (s2\<lparr>fs_turns := ts\<rparr>))
         else Inr s2)"

fun fill_rows ::
  "user_turn_header list \<Rightarrow> int \<Rightarrow> session_event list \<Rightarrow> fill_state \<Rightarrow> turn_error + fill_state" where
  "fill_rows hs last_block_ts [] s = Inr s"
| "fill_rows hs last_block_ts (row # rest) s =
     (if fs_next_anchor s = length hs \<and> fs_awaiting s = [] \<and> last_block_ts < e_ts_ms row then Inr s
      else and_then (fill_step hs last_block_ts row s) (fill_rows hs last_block_ts rest))"

definition fill_user_turns ::
  "session_event list \<Rightarrow> string \<Rightarrow> string \<Rightarrow> user_turn_header list
    \<Rightarrow> turn_error + session_user_turn list" where
  "fill_user_turns db source session hs =
     (case hs of
        [] \<Rightarrow> Inr []
      | first # _ \<Rightarrow>
          (let rows = session_rows db source session;
               last_block_ts = foldl (\<lambda>m h. max m (uh_last_ts_ms h)) (uh_last_ts_ms first) hs;
               last = named_before rows (anchor first) [];
               previous = (case last of Some l \<Rightarrow> named_before rows (anchor first) l | None \<Rightarrow> None)
           in and_then (fill_rows hs last_block_ts (filter (\<lambda>e. \<not> event_order e < anchor first) rows)
                \<lparr>fs_turns = map (empty_turn source session) hs,
                 fs_trail = \<lparr>nt_last = last, nt_previous = previous\<rparr>,
                 fs_awaiting = [], fs_next_anchor = 0\<rparr>) (\<lambda>s. Inr (fs_turns s))))"

section \<open>The reads\<close>

definition turn_cursor :: "session_user_turn \<Rightarrow> session_event_cursor" where
  "turn_cursor t = \<lparr>ec_ts_ms = ut_ts_ms t, ec_id = ut_id t\<rparr>"

definition read_user_turns ::
  "session_event list \<Rightarrow> string \<Rightarrow> string \<Rightarrow> nat option \<Rightarrow> session_event_cursor option
    \<Rightarrow> turn_error + (session_user_turn list \<times> session_event_cursor option)" where
  "read_user_turns db source session limit after =
     and_then (case limit of
         Some lim \<Rightarrow> page_headers db source session lim after
       | None \<Rightarrow> Inr (grouped_turn_headers db source session, False)) (\<lambda>(headers, has_more).
     and_then (fill_user_turns db source session headers) (\<lambda>turns.
       Inr (turns, if turns \<noteq> [] \<and> has_more then Some (turn_cursor (last turns)) else None)))"

definition session_user_turns_page ::
  "session_event list \<Rightarrow> string \<Rightarrow> string \<Rightarrow> int \<Rightarrow> session_event_cursor option
    \<Rightarrow> turn_error + (session_user_turn list \<times> session_event_cursor option)" where
  "session_user_turns_page db source session limit after =
     read_user_turns db source session (Some (page_limit limit)) after"

definition session_user_turns_all ::
  "session_event list \<Rightarrow> string \<Rightarrow> string \<Rightarrow> turn_error + session_user_turn list" where
  "session_user_turns_all db source session =
     and_then (read_user_turns db source session None None) (\<lambda>(turns, _). Inr turns)"

end
