(* ===== verification/UserTurnsFacts.thy ===== *)
theory UserTurnsFacts
  imports UserTurns
begin

text \<open>
  What user turns promise: the streaming walk of \<open>store/user_turn_page.rs\<close>, which stops as soon
  as a page is certain, answers what grouping the whole session answers; the one ordered pass of
  \<open>fill_user_turns\<close> answers what a query per turn answers; and pages put together are the
  whole read.
\<close>

section \<open>Decimal ids in turn keys\<close>

lemma parse_int_to_dec:
  "parse_i64 (int_to_dec i) = (if - (2 ^ 63) \<le> i \<and> i < 2 ^ 63 then Some i else None)"
proof (cases "i < 0")
  case True
  moreover have "nat_to_dec (nat (- i)) \<noteq> []" using nat_to_dec_Cons [of "nat (- i)"] by auto
  ultimately show ?thesis
    by (auto simp: int_to_dec_def parse_i64_def digits_value_nat)
next
  case False
  obtain c cs where cs: "nat_to_dec (nat i) = c # cs" "dec_digit c"
    using nat_to_dec_Cons by blast
  then have "c \<noteq> CHR ''-''" "c \<noteq> CHR ''+''" by (auto simp: dec_digit_def)
  moreover have "digits_value 0 (c # cs) = Some i"
    using digits_value_nat [of "nat i"] False cs(1) by simp
  ultimately show ?thesis using False cs(1)
    by (simp add: int_to_dec_def parse_i64_def del: digits_value.simps)
qed

text \<open>A turn key names an unnamed row exactly when it is the fallback key of that row: reading
  back the key an unnamed row gets finds its id, for every id SQLite can hold, and no other
  spelling of a number (\<open>event:012\<close>, \<open>event:+5\<close>) is taken for a row.\<close>

lemma colliding_event_id_iff:
  "colliding_event_id key = Some i \<longleftrightarrow>
     key = turn_key_of None i \<and> - (2 ^ 63) \<le> i \<and> i < 2 ^ 63"
proof
  assume "colliding_event_id key = Some i"
  then have "parse_i64 (drop 6 key) = Some i" and key: "''event:'' @ int_to_dec i = key"
    by (auto simp: colliding_event_id_def bind_eq_Some_conv split: if_splits)
  moreover from key have "drop 6 key = int_to_dec i" by (auto simp flip: key)
  ultimately show "key = turn_key_of None i \<and> - (2 ^ 63) \<le> i \<and> i < 2 ^ 63"
    by (auto simp: parse_int_to_dec turn_key_of_def split: if_splits)
next
  assume "key = turn_key_of None i \<and> - (2 ^ 63) \<le> i \<and> i < 2 ^ 63"
  then show "colliding_event_id key = Some i"
    by (auto simp: colliding_event_id_def turn_key_of_def parse_int_to_dec)
qed

section \<open>A turn aggregated from its own rows\<close>

definition in_i64 :: "int \<Rightarrow> bool" where
  "in_i64 i \<longleftrightarrow> - (2 ^ 63) \<le> i \<and> i < 2 ^ 63"

lemma named_not_empty: "named e = Some m \<Longrightarrow> m \<noteq> []"
  by (auto simp: named_def nullif_empty_def split: if_splits)

lemma named_message: "named e = Some m \<longleftrightarrow> e_message_id e = Some m \<and> m \<noteq> []"
  by (auto simp: named_def nullif_empty_def)

lemma turn_key_named: "named e = Some m \<Longrightarrow> turn_key e = m"
  by (auto simp: turn_key_def turn_key_of_def dest: named_not_empty)

lemma turn_key_unnamed: "named e = None \<Longrightarrow> turn_key e = turn_key_of None (e_id e)"
  by (simp add: turn_key_def)

lemma turn_key_not_Nil: "turn_key e \<noteq> []"
  by (auto simp: turn_key_def turn_key_of_def split: option.splits)

lemma group_rows:
  assumes "\<And>e. e \<in> set rows \<Longrightarrow> in_i64 (e_id e)" and "key \<noteq> []"
  shows "set (named_rows rows key
           @ (case colliding_event_id key of None \<Rightarrow> [] | Some i \<Rightarrow> collided_rows rows i))
         = set (turn_group rows key)" (is "?A = ?B")
proof
  show "?A \<subseteq> ?B"
  proof
    fix e assume "e \<in> ?A"
    then consider "e \<in> set (named_rows rows key)"
      | i where "colliding_event_id key = Some i" "e \<in> set (collided_rows rows i)"
      by (cases "colliding_event_id key") auto
    then show "e \<in> ?B"
    proof cases
      case 1
      then show ?thesis using assms(2)
        by (auto simp: named_rows_def turn_group_def
            intro: turn_key_named [OF named_message [THEN iffD2]])
    next
      case 2
      then have "key = turn_key_of None i" by (simp add: colliding_event_id_iff)
      then show ?thesis using 2(2) by (auto simp: collided_rows_def turn_group_def turn_key_unnamed)
    qed
  qed
  show "?B \<subseteq> ?A"
  proof
    fix e assume "e \<in> ?B"
    then have e: "e \<in> set rows" "user_turn_row e" "turn_key e = key" by (auto simp: turn_group_def)
    show "e \<in> ?A"
    proof (cases "named e")
      case None
      then have "colliding_event_id key = Some (e_id e)"
        using e assms(1) by (auto simp: colliding_event_id_iff turn_key_unnamed in_i64_def)
      then show ?thesis using e None by (simp add: collided_rows_def)
    next
      case (Some m)
      then have "m = key" using e(3) turn_key_named by blast
      then show ?thesis using e Some by (simp add: named_rows_def named_message)
    qed
  qed
qed

lemma fold_observe_fields:
  "fold fold_observe es f =
     \<lparr>tf_ts_ms = Min (insert (tf_ts_ms f) (e_ts_ms ` set es)),
      tf_id = Min (insert (tf_id f) (e_id ` set es)),
      tf_last_ts_ms = Max (insert (tf_last_ts_ms f) (e_ts_ms ` set es)),
      tf_named = (tf_named f \<or> (\<exists>e \<in> set es. named e \<noteq> None))\<rparr>"
proof (induction es arbitrary: f)
  case (Cons e es)
  show ?case
    unfolding fold_simps Cons.IH
    by (cases "es = []") (simp_all add: fold_observe_def min.assoc max.assoc disj_assoc)
qed simp

lemma aggregate_group:
  assumes "\<And>e. e \<in> set rows \<Longrightarrow> in_i64 (e_id e)" and "row \<in> set rows" and "user_turn_row row"
  shows "aggregate rows (turn_key row) row
    = header_of_group (turn_key row) (turn_group rows (turn_key row))"
proof -
  let ?k = "turn_key row" and ?g = "set (turn_group rows (turn_key row))"
  have row: "row \<in> ?g" using assms by (simp add: turn_group_def)
  have names: "named e = Some m \<Longrightarrow> m = ?k" if "e \<in> ?g" for e m
    using that turn_key_named [of e m] unfolding turn_group_def by simp
  have names: "uh_message_id (header_of_group ?k (turn_group rows ?k))
      = (if \<exists>e \<in> ?g. named e \<noteq> None then Some ?k else None)"
  proof (cases "\<exists>e \<in> ?g. named e \<noteq> None")
    case True
    then obtain e m where e: "e \<in> ?g" "named e = Some m" by blast
    then have ns: "set (List.map_filter named (turn_group rows ?k)) = {?k}"
      unfolding set_map_filter using names by blast
    then have "List.map_filter named (turn_group rows ?k) \<noteq> []" by (metis empty_set insert_not_empty)
    then have "uh_message_id (header_of_group ?k (turn_group rows ?k)) = Some ?k"
      by (simp add: header_of_group_def Let_def ns)
    then show ?thesis by (simp only: True if_True)
  next
    case False
    then have "set (List.map_filter named (turn_group rows ?k)) = {}"
      by (auto simp: set_map_filter)
    then show ?thesis using False by (simp add: header_of_group_def)
  qed
  have here: "insert (e_ts_ms row) (e_ts_ms ` ?g) = e_ts_ms ` ?g"
    "insert (e_id row) (e_id ` ?g) = e_id ` ?g"
    "(named row \<noteq> None \<or> (\<exists>e \<in> ?g. named e \<noteq> None)) = (\<exists>e \<in> ?g. named e \<noteq> None)"
    using row by auto
  have grouped: "set (named_rows rows ?k
      @ (case colliding_event_id ?k of None \<Rightarrow> [] | Some i \<Rightarrow> collided_rows rows i)) = ?g"
    using assms(1) by (rule group_rows) (assumption, rule turn_key_not_Nil)
  have "aggregate rows ?k row = \<lparr>uh_key = ?k, uh_ts_ms = Min (e_ts_ms ` ?g), uh_id = Min (e_id ` ?g),
      uh_message_id = (if \<exists>e \<in> ?g. named e \<noteq> None then Some ?k else None),
      uh_last_ts_ms = Max (e_ts_ms ` ?g)\<rparr>"
    unfolding aggregate_def fold_observe_fields grouped fold_seed_def fold_header_def turn_fold.simps here ..
  also have "\<dots> = header_of_group ?k (turn_group rows ?k)"
    by (rule user_turn_header.equality) (simp_all add: names, simp_all add: header_of_group_def)
  finally show ?thesis .
qed

section \<open>The headers of a session\<close>

lemma turn_group_empty: "turn_group rows k = [] \<longleftrightarrow> k \<notin> turn_key ` {e \<in> set rows. user_turn_row e}"
  by (auto simp: turn_group_def filter_empty_conv)

lemma header_of_group_simps [simp]:
  "uh_key (header_of_group k g) = k"
  "uh_ts_ms (header_of_group k g) = Min (e_ts_ms ` set g)"
  "uh_id (header_of_group k g) = Min (e_id ` set g)"
  "uh_last_ts_ms (header_of_group k g) = Max (e_ts_ms ` set g)"
  by (simp_all add: header_of_group_def)

definition turn_headers :: "session_event list \<Rightarrow> user_turn_header list" where
  "turn_headers rows = sort_key anchor
     (map (\<lambda>k. header_of_group k (turn_group rows k))
       (remdups (map turn_key (filter user_turn_row rows))))"

lemma grouped_turn_headers_rows:
  "grouped_turn_headers db source session = turn_headers (session_rows db source session)"
  by (simp add: grouped_turn_headers_def turn_headers_def Let_def)

lemma set_turn_headers:
  "set (turn_headers rows) =
     (\<lambda>k. header_of_group k (turn_group rows k)) ` turn_key ` {e \<in> set rows. user_turn_row e}"
  by (auto simp: turn_headers_def)

lemma turn_headers_eq_iff:
  assumes "h \<in> set (turn_headers rows)"
  shows "h = header_of_group (uh_key h) (turn_group rows (uh_key h))"
  using assms by (auto simp: set_turn_headers)

lemma header_id_in_group:
  assumes "k \<in> turn_key ` {e \<in> set rows. user_turn_row e}"
  obtains e where "e \<in> set rows" "user_turn_row e" "turn_key e = k"
    "e_id e = uh_id (header_of_group k (turn_group rows k))"
proof -
  have "turn_group rows k \<noteq> []" using assms by (simp add: turn_group_empty)
  then have "Min (e_id ` set (turn_group rows k)) \<in> e_id ` set (turn_group rows k)" by simp
  then show ?thesis using that by (auto simp: turn_group_def)
qed

lemma header_id_inj:
  assumes "inj_on e_id (set rows)"
    and "k \<in> turn_key ` {e \<in> set rows. user_turn_row e}"
    and "k' \<in> turn_key ` {e \<in> set rows. user_turn_row e}"
    and "uh_id (header_of_group k (turn_group rows k)) = uh_id (header_of_group k' (turn_group rows k'))"
  shows "k = k'"
proof -
  obtain e where e: "e \<in> set rows" "turn_key e = k"
      "e_id e = uh_id (header_of_group k (turn_group rows k))"
    using header_id_in_group [OF assms(2)] by metis
  obtain e' where e': "e' \<in> set rows" "turn_key e' = k'"
      "e_id e' = uh_id (header_of_group k' (turn_group rows k'))"
    using header_id_in_group [OF assms(3)] by metis
  have "e_id e = e_id e'" using assms(4) e(3) e'(3) by simp
  then have "e = e'" using inj_onD [OF assms(1)] e(1) e'(1) by blast
  then show ?thesis using e e' by simp
qed

lemma anchor_inj:
  assumes "inj_on e_id (set rows)"
  shows "inj_on anchor (set (turn_headers rows))"
proof (rule inj_onI)
  fix h h'
  assume h: "h \<in> set (turn_headers rows)" "h' \<in> set (turn_headers rows)" and eq: "anchor h = anchor h'"
  then have "uh_id h = uh_id h'" by (simp add: anchor_def)
  then have "uh_key h = uh_key h'"
    using h header_id_inj [OF assms, of "uh_key h" "uh_key h'"] by (auto simp: set_turn_headers)
  then show "h = h'" using h turn_headers_eq_iff by metis
qed

lemma turn_headers_strict:
  assumes "inj_on e_id (set rows)"
  shows "sorted_wrt (\<lambda>a b. anchor a < anchor b) (turn_headers rows)"
proof -
  let ?hs = "map (\<lambda>k. header_of_group k (turn_group rows k))
       (remdups (map turn_key (filter user_turn_row rows)))"
  have "set ?hs = set (turn_headers rows)" by (simp add: turn_headers_def)
  then have "inj_on anchor (set ?hs)" using anchor_inj [OF assms] by simp
  moreover have "distinct ?hs"
    by (auto simp: distinct_map intro!: inj_onI dest: arg_cong [where f = uh_key])
  ultimately show ?thesis unfolding turn_headers_def by (rule sort_key_strict)
qed

lemma header_in_turn_headers:
  assumes "e \<in> set rows" and "user_turn_row e"
  shows "header_of_group (turn_key e) (turn_group rows (turn_key e)) \<in> set (turn_headers rows)"
  using assms by (auto simp: set_turn_headers)

lemma header_le_row:
  assumes "e \<in> set rows" and "user_turn_row e"
  shows "uh_ts_ms (header_of_group (turn_key e) (turn_group rows (turn_key e))) \<le> e_ts_ms e"
    and "uh_id (header_of_group (turn_key e) (turn_group rows (turn_key e))) \<le> e_id e"
  using assms by (auto simp: turn_group_def)

section \<open>Stopping early loses nothing\<close>

lemma take_filter_mono:
  assumes "filter p xs = take n xs" and "\<And>x. p x \<Longrightarrow> q x"
  shows "take n (filter q xs) = take n xs"
proof -
  have "p x" if "x \<in> set (take n xs)" for x
    using that by (metis (no_types, lifting) assms(1) filter_set mem_Collect_eq set_filter)
  then have "filter q (take n xs) = take n xs" using assms(2) by (simp add: filter_id_conv)
  then have "filter q xs = take n xs @ filter q (drop n xs)"
    by (metis append_take_drop_id filter_append)
  then show ?thesis by (cases "n \<le> length xs") simp_all
qed

lemma filter_le_take:
  assumes "sorted (map f xs)"
  shows "filter (\<lambda>x. f x \<le> c) xs = take (length (filter (\<lambda>x. f x \<le> c) xs)) xs"
  using assms
proof (induction xs)
  case (Cons x xs)
  then show ?case
  proof (cases "f x \<le> c")
    case False
    then have "filter (\<lambda>x. f x \<le> c) xs = []"
      using Cons.prems by (auto simp: filter_empty_conv)
    then show ?thesis using False by simp
  qed simp
qed simp

lemma insort_key_filter:
  assumes "sorted_wrt (\<lambda>a b. f a < f b) xs" and "x \<in> set xs" and "\<not> p x"
  shows "insort_key f x (filter p xs) = filter (\<lambda>y. y = x \<or> p y) xs"
  using assms
proof (induction xs)
  case (Cons y ys)
  show ?case
  proof (cases "x = y")
    case True
    have "f y < f z" if "z \<in> set ys" for z using that Cons.prems(1) by simp
    moreover from this have "filter (\<lambda>z. z = x \<or> p z) ys = filter p ys"
      using True by (intro filter_cong) auto
    moreover have "insort_key f y (filter p ys) = y # filter p ys"
      using calculation(1) by (intro insort_is_Cons) (auto intro: less_imp_le)
    ultimately show ?thesis using True Cons.prems(3) by simp
  next
    case False
    then have "x \<in> set ys" using Cons.prems(2) by simp
    moreover from this have "f y < f x" using Cons.prems(1) by simp
    ultimately show ?thesis using False Cons by auto
  qed
qed simp

lemma sorted_map_last: "sorted (map f xs) \<Longrightarrow> x \<in> set xs \<Longrightarrow> f x \<le> f (last xs)"
  by (induction xs) (auto split: if_splits)

definition walk_rows :: "session_event list \<Rightarrow> bool" where
  "walk_rows rows \<longleftrightarrow> sorted (map event_order rows) \<and> inj_on e_id (set rows)
     \<and> e_id ` set rows \<subseteq> {i. in_i64 i}"

definition headers_after :: "session_event list \<Rightarrow> session_event_cursor option \<Rightarrow> user_turn_header list" where
  "headers_after rows after = filter (past_cursor after) (turn_headers rows)"

definition rows_after :: "session_event list \<Rightarrow> session_event_cursor option \<Rightarrow> session_event list" where
  "rows_after rows after = filter (\<lambda>e. case after of None \<Rightarrow> True | Some c \<Rightarrow> after_event c e) rows"

lemma headers_after_sorted:
  assumes "walk_rows rows"
  shows "sorted_wrt (\<lambda>a b. anchor a < anchor b) (headers_after rows after)"
  using assms turn_headers_strict by (auto simp: walk_rows_def headers_after_def intro: sorted_wrt_filter)

lemma headers_after_ts_sorted:
  assumes "walk_rows rows"
  shows "sorted (map uh_ts_ms (headers_after rows after))"
proof -
  have "sorted_wrt (\<lambda>a b. uh_ts_ms a \<le> uh_ts_ms b) (headers_after rows after)"
    by (rule sorted_wrt_mono_rel [OF _ headers_after_sorted [OF assms]])
       (auto simp: anchor_def less_prod_def)
  then show ?thesis by (simp add: sorted_map)
qed

lemma rows_after_sorted: "walk_rows rows \<Longrightarrow> sorted (map e_ts_ms (rows_after rows after))"
  by (auto simp: walk_rows_def rows_after_def sorted_map event_order_def
      intro!: sorted_wrt_filter elim: sorted_wrt_mono_rel [rotated])

text \<open>Every row of a turn past the cursor is itself past the cursor.\<close>

lemma rows_of_header_after:
  assumes "h \<in> set (headers_after rows after)"
    and "e \<in> set rows" and "user_turn_row e" and "turn_key e = uh_key h"
  shows "e \<in> set (rows_after rows after)"
proof (cases after)
  case (Some c)
  have "h = header_of_group (uh_key h) (turn_group rows (uh_key h))"
    using assms(1) turn_headers_eq_iff by (simp add: headers_after_def)
  then have "uh_ts_ms h \<le> e_ts_ms e" "uh_id h \<le> e_id e"
    using header_le_row [OF assms(2,3)] assms(4) by simp_all
  moreover have "past_cursor after h" using assms(1) by (simp add: headers_after_def)
  ultimately show ?thesis
    using assms(2) Some by (auto simp: rows_after_def past_cursor_def after_event_def)
qed (use assms in \<open>simp add: rows_after_def\<close>)

definition seen_keys :: "session_event list \<Rightarrow> string set" where
  "seen_keys P = turn_key ` {e \<in> set P. user_turn_row e}"

lemma seen_keys_snoc:
  "seen_keys (P @ [e]) = (if user_turn_row e then insert (turn_key e) (seen_keys P) else seen_keys P)"
  by (auto simp: seen_keys_def)

lemma header_seen_iff:
  assumes "walk_rows rows" and W: "rows_after rows after = P @ r # R" and "P \<noteq> []"
    and later: "e_ts_ms (last P) < e_ts_ms r" and h: "h \<in> set (headers_after rows after)"
  shows "uh_key h \<in> seen_keys P \<longleftrightarrow> uh_ts_ms h \<le> e_ts_ms (last P)"
proof
  have sorted: "sorted (map e_ts_ms (P @ r # R))"
    using rows_after_sorted [OF assms(1), of after] W by simp
  have P: "e_ts_ms e \<le> e_ts_ms (last P)" if "e \<in> set P" for e
    using sorted that by (intro sorted_map_last) (simp_all add: sorted_append)
  have R: "e_ts_ms (last P) < e_ts_ms e" if "e \<in> set (r # R)" for e
    using sorted that later by (auto simp: sorted_append)
  have heq: "h = header_of_group (uh_key h) (turn_group rows (uh_key h))"
    using h turn_headers_eq_iff by (simp add: headers_after_def)
  have sub: "set (P @ r # R) \<subseteq> set rows" by (metis W filter_is_subset rows_after_def)
  show "uh_ts_ms h \<le> e_ts_ms (last P)" if "uh_key h \<in> seen_keys P"
  proof -
    obtain e where e: "e \<in> set P" "user_turn_row e" "turn_key e = uh_key h"
      using \<open>uh_key h \<in> seen_keys P\<close> by (auto simp: seen_keys_def)
    then have "uh_ts_ms h \<le> e_ts_ms e" using header_le_row(1) [of e rows] sub heq by auto
    then show ?thesis using P [OF e(1)] by simp
  qed
  show "uh_key h \<in> seen_keys P" if "uh_ts_ms h \<le> e_ts_ms (last P)"
  proof -
    have "uh_key h \<in> turn_key ` {e \<in> set rows. user_turn_row e}"
      using h by (auto simp: headers_after_def set_turn_headers)
    then have "turn_group rows (uh_key h) \<noteq> []" by (simp add: turn_group_empty)
    then have "uh_ts_ms h \<in> e_ts_ms ` set (turn_group rows (uh_key h))"
      by (subst heq) simp
    then obtain e where e: "e \<in> set rows" "user_turn_row e" "turn_key e = uh_key h"
        "e_ts_ms e = uh_ts_ms h"
      by (auto simp: turn_group_def)
    then have "e \<in> set (P @ r # R)" using rows_of_header_after [OF h] W by metis
    then have "e \<in> set P" using R [of e] e(4) that by force
    then have "turn_key e \<in> seen_keys P" using e(2) by (auto simp: seen_keys_def)
    then show ?thesis using e(3) by simp
  qed
qed

definition walk_inv ::
  "session_event list \<Rightarrow> nat \<Rightarrow> session_event_cursor option \<Rightarrow> session_event list \<Rightarrow> page_state \<Rightarrow> bool" where
  "walk_inv rows lim after P s \<longleftrightarrow>
     ps_seen s = seen_keys P
     \<and> ps_candidates s = filter (\<lambda>h. uh_key h \<in> seen_keys P) (headers_after rows after)
     \<and> ps_current_ts s = (if P = [] then None else Some (e_ts_ms (last P)))
     \<and> \<not> ps_extra s
     \<and> (ps_frozen s \<longrightarrow> ps_candidates s = take lim (headers_after rows after))"

lemma candidates_prefix:
  assumes "walk_rows rows" and "rows_after rows after = P @ r # R"
    and "walk_inv rows lim after P s" and "starts_later s (e_ts_ms r)"
  shows "ps_candidates s = take (length (ps_candidates s)) (headers_after rows after)"
proof -
  have P: "P \<noteq> []" "e_ts_ms (last P) < e_ts_ms r"
    using assms(3,4) by (auto simp: walk_inv_def starts_later_def split: if_splits)
  then have "ps_candidates s = filter (\<lambda>h. uh_ts_ms h \<le> e_ts_ms (last P)) (headers_after rows after)"
    using assms(3) header_seen_iff [OF assms(1,2) P] by (auto simp: walk_inv_def intro: filter_cong)
  then show ?thesis using filter_le_take [OF headers_after_ts_sorted [OF assms(1)]] by metis
qed

lemma aggregate_walk:
  assumes "walk_rows rows" and "row \<in> set rows" and "user_turn_row row"
  shows "aggregate rows (turn_key row) row
    = header_of_group (turn_key row) (turn_group rows (turn_key row))"
  using assms(2,3) by (intro aggregate_group) (use assms(1) in \<open>auto simp: walk_rows_def\<close>)

lemma header_of_row_after:
  assumes "walk_rows rows" and "row \<in> set rows" and "user_turn_row row"
    and "past_cursor after (aggregate rows (turn_key row) row)"
  shows "aggregate rows (turn_key row) row \<in> set (headers_after rows after)"
  using assms(4) aggregate_walk [OF assms(1-3)] header_in_turn_headers [OF assms(2,3)]
  by (simp add: headers_after_def)

lemma headers_after_key_inj:
  assumes "h \<in> set (headers_after rows after)" and "h' \<in> set (headers_after rows after)"
    and "uh_key h = uh_key h'"
  shows "h = h'"
  using assms turn_headers_eq_iff unfolding headers_after_def by (metis filter_is_subset subsetD)

text \<open>One scanned row keeps the invariant, or completes the page.\<close>

lemma consider_row_inv:
  assumes rows: "walk_rows rows" and row: "row \<in> set rows" "user_turn_row row"
    and seen: "ps_seen s = seen_keys P"
    and cand: "ps_candidates s = filter (\<lambda>h. uh_key h \<in> seen_keys P) (headers_after rows after)"
    and ext: "\<not> ps_extra s"
  obtains s' where "consider_row rows after row s = Inr s'"
    and "ps_seen s' = seen_keys (P @ [row])"
    and "ps_candidates s' = filter (\<lambda>h. uh_key h \<in> seen_keys (P @ [row])) (headers_after rows after)"
    and "ps_current_ts s' = ps_current_ts s" and "ps_frozen s' = ps_frozen s"
    and "ps_extra s' \<longleftrightarrow> ps_frozen s \<and> ps_candidates s' \<noteq> ps_candidates s"
    and "ps_candidates s' = ps_candidates s \<or> length (ps_candidates s') = Suc (length (ps_candidates s))"
proof -
  let ?H = "headers_after rows after" and ?k = "turn_key row"
  have keys: "seen_keys (P @ [row]) = insert ?k (seen_keys P)" using row(2) by (simp add: seen_keys_snoc)
  have agg: "aggregate rows ?k row = header_of_group ?k (turn_group rows ?k)"
    using rows row by (rule aggregate_walk)
  have key_def: "turn_key_of (named row) (e_id row) = ?k" by (simp add: turn_key_def)
  show ?thesis
  proof (cases "?k \<in> seen_keys P")
    case True
    then have "insert ?k (seen_keys P) = seen_keys P" by blast
    then show ?thesis
      using True seen cand ext by (intro that [of s]) (simp_all add: consider_row_def key_def keys Let_def)
  next
    case new: False
    show ?thesis
    proof (cases "past_cursor after (aggregate rows ?k row)")
      case False
      have "uh_key h \<noteq> ?k" if "h \<in> set ?H" for h
        using that False agg turn_headers_eq_iff [of h rows] by (auto simp: headers_after_def)
      then have "filter (\<lambda>h. uh_key h \<in> insert ?k (seen_keys P)) ?H = ps_candidates s"
        unfolding cand by (intro filter_cong) auto
      then show ?thesis
        using False seen ext new
        by (intro that [of "s\<lparr>ps_seen := insert ?k (ps_seen s)\<rparr>"])
           (simp_all add: consider_row_def key_def keys Let_def)
    next
      case True
      let ?h = "aggregate rows ?k row"
      have h: "?h \<in> set ?H" using header_of_row_after [OF rows row True] .
      have hk: "uh_key ?h = ?k" by (simp add: agg)
      have fresh: "anchor ?h \<notin> anchor ` set (ps_candidates s)"
      proof
        assume "anchor ?h \<in> anchor ` set (ps_candidates s)"
        then obtain h' where h': "h' \<in> set (ps_candidates s)" "anchor ?h = anchor h'" by auto
        then have "h' \<in> set ?H" "uh_key h' \<in> seen_keys P" by (simp_all add: cand)
        moreover have "inj_on anchor (set ?H)"
          using anchor_inj rows by (auto simp: walk_rows_def headers_after_def intro: inj_on_subset)
        ultimately have "?h = h'" using h h'(2) by (meson inj_onD)
        then show False using \<open>uh_key h' \<in> seen_keys P\<close> hk new by simp
      qed
      have "(uh_key h \<in> insert ?k (seen_keys P)) = (h = ?h \<or> uh_key h \<in> seen_keys P)"
        if "h \<in> set ?H" for h
        using headers_after_key_inj [OF that h] hk by auto
      then have "filter (\<lambda>h. uh_key h \<in> insert ?k (seen_keys P)) ?H
          = filter (\<lambda>h. h = ?h \<or> uh_key h \<in> seen_keys P) ?H"
        by (rule filter_cong [OF refl])
      also have "\<dots> = insort_key anchor ?h (ps_candidates s)"
        unfolding cand using h hk new
        by (intro insort_key_filter [symmetric] headers_after_sorted rows) simp_all
      finally have ins: "filter (\<lambda>h. uh_key h \<in> insert ?k (seen_keys P)) ?H
          = insort_key anchor ?h (ps_candidates s)" .
      have len: "length (insort_key anchor ?h (ps_candidates s)) = Suc (length (ps_candidates s))"
        by simp
      then have "insort_key anchor ?h (ps_candidates s) \<noteq> ps_candidates s" by (metis n_not_Suc_n)
      then show ?thesis
        using True seen ext new fresh ins
        by (intro that [of "s\<lparr>ps_seen := insert ?k (ps_seen s),
              ps_candidates := insort_key anchor ?h (ps_candidates s), ps_extra := ps_frozen s\<rparr>"])
           (simp_all add: consider_row_def key_def keys Let_def)
    qed
  qed
qed

lemma observe_row_inv:
  assumes rows: "walk_rows rows" and W: "rows_after rows after = P @ r # R"
    and inv: "walk_inv rows lim after P s"
  shows "\<exists>page s'. observe_row rows lim after r s = Inr (page, s')
    \<and> (case page of
         Some p \<Rightarrow> p = (take lim (headers_after rows after), True) \<and> lim < length (headers_after rows after)
       | None \<Rightarrow> walk_inv rows lim after (P @ [r]) s')"
proof -
  let ?H = "headers_after rows after" and ?c = "ps_candidates s"
  have prefix: "?c = take (length ?c) ?H" if "starts_later s (e_ts_ms r)"
    using candidates_prefix [OF rows W inv that] .
  show ?thesis
  proof (cases "starts_later s (e_ts_ms r) \<and> lim < length ?c")
    case True
    then have "take lim ?c = take lim ?H" using prefix by (metis less_imp_le min.absorb1 take_take)
    moreover have "length ?c \<le> length ?H" using prefix True by (metis length_take min.cobounded1)
    ultimately show ?thesis using True by (simp add: observe_row_def page_out_def)
  next
    case False
    define s1 where "s1 = (if starts_later s (e_ts_ms r) \<and> length ?c = lim
                           then s\<lparr>ps_frozen := True\<rparr> else s)"
    define s2 where "s2 = s1\<lparr>ps_current_ts := Some (e_ts_ms r)\<rparr>"
    have s2: "ps_seen s2 = seen_keys P" "ps_candidates s2 = ?c" "\<not> ps_extra s2"
        "?c = filter (\<lambda>h. uh_key h \<in> seen_keys P) ?H" "ps_current_ts s2 = Some (e_ts_ms r)"
      using inv by (simp_all add: s2_def s1_def walk_inv_def)
    have frozen: "?c = take lim ?H" if "ps_frozen s2"
      using that inv prefix by (auto simp: s2_def s1_def walk_inv_def split: if_splits)
    have obs: "observe_row rows lim after r s =
        and_then (if user_turn_row r then consider_row rows after r s2 else Inr s2) (\<lambda>s3.
             Inr (if ps_extra s3 then Some (page_out lim s3 True) else None, s3))"
      unfolding observe_row_def s2_def s1_def Let_def using False by (rule if_not_P)
    show ?thesis
    proof (cases "user_turn_row r")
      case plain: False
      then have "walk_inv rows lim after (P @ [r]) s2"
        using s2 frozen by (simp add: walk_inv_def seen_keys_snoc)
      then show ?thesis using plain s2(3) by (simp add: obs)
    next
      case True
      have "r \<in> set (rows_after rows after)" using W by simp
      then have r: "r \<in> set rows" by (auto simp: rows_after_def)
      obtain s3 where s3: "consider_row rows after r s2 = Inr s3"
          "ps_seen s3 = seen_keys (P @ [r])"
          "ps_candidates s3 = filter (\<lambda>h. uh_key h \<in> seen_keys (P @ [r])) ?H"
          "ps_current_ts s3 = ps_current_ts s2" "ps_frozen s3 = ps_frozen s2"
          "ps_extra s3 \<longleftrightarrow> ps_frozen s2 \<and> ps_candidates s3 \<noteq> ps_candidates s2"
          "ps_candidates s3 = ps_candidates s2
             \<or> length (ps_candidates s3) = Suc (length (ps_candidates s2))"
        using consider_row_inv [OF rows r True s2(1) _ s2(3), of after] s2(2,4) by metis
      show ?thesis
      proof (cases "ps_extra s3")
        case False
        then have "walk_inv rows lim after (P @ [r]) s3"
          using s3 s2 frozen by (auto simp: walk_inv_def)
        then show ?thesis using False True s3(1) by (simp add: obs)
      next
        case extra: True
        then have fz: "?c = take lim ?H" and grown: "length (ps_candidates s3) = Suc (length ?c)"
          using frozen s3(6,7) s2(2) by auto
        have "take lim (ps_candidates s3) = take lim ?H"
          unfolding s3(3)
          by (rule take_filter_mono [where p = "\<lambda>h. uh_key h \<in> seen_keys P"])
             (use fz s2(4) True in \<open>auto simp: seen_keys_snoc\<close>)
        moreover have "length ?c = min (length ?H) lim" by (simp add: fz [THEN arg_cong])
        moreover have "length (ps_candidates s3) \<le> length ?H" unfolding s3(3) by simp
        ultimately show ?thesis using grown extra True s3(1)
          by (simp add: obs page_out_def)
      qed
    qed
  qed
qed

lemma walk_headers_from:
  assumes rows: "walk_rows rows" and "rows_after rows after = P @ R"
    and "walk_inv rows lim after P s"
  shows "walk_headers rows lim after R s =
    Inr (take lim (headers_after rows after), lim < length (headers_after rows after))"
  using assms(2,3)
proof (induction R arbitrary: P s)
  case Nil
  let ?H = "headers_after rows after"
  have "uh_key h \<in> seen_keys P" if h: "h \<in> set ?H" for h
  proof -
    have "uh_key h \<in> turn_key ` {e \<in> set rows. user_turn_row e}"
      using h by (auto simp: headers_after_def set_turn_headers)
    then obtain e where e: "e \<in> set rows" "user_turn_row e" "turn_key e = uh_key h" by auto
    then have "e \<in> set P" using rows_of_header_after [OF h e] Nil.prems(1) by simp
    then have "turn_key e \<in> seen_keys P" using e(2) by (auto simp: seen_keys_def)
    then show ?thesis using e(3) by simp
  qed
  then have "ps_candidates s = ?H" using Nil.prems(2) by (simp add: walk_inv_def)
  then show ?case by (simp add: page_out_def)
next
  case (Cons r R)
  obtain page s' where step: "observe_row rows lim after r s = Inr (page, s')"
    and page: "case page of
         Some p \<Rightarrow> p = (take lim (headers_after rows after), True) \<and> lim < length (headers_after rows after)
       | None \<Rightarrow> walk_inv rows lim after (P @ [r]) s'"
    using observe_row_inv [OF rows Cons.prems] by blast
  show ?case
  proof (cases page)
    case None
    then show ?thesis using step page Cons.prems(1) Cons.IH [of "P @ [r]" s'] by simp
  next
    case (Some p)
    then show ?thesis using step page by simp
  qed
qed

lemma session_rows_walk:
  assumes "distinct (map e_id db)" and "e_id ` set db \<subseteq> {i. in_i64 i}"
  shows "walk_rows (session_rows db source session)"
  using assms by (auto simp: walk_rows_def session_rows_def distinct_map intro: inj_on_subset)

lemma page_headers_walk:
  assumes "distinct (map e_id db)" and "e_id ` set db \<subseteq> {i. in_i64 i}"
  shows "page_headers db source session lim after =
    (let hs = filter (past_cursor after) (grouped_turn_headers db source session)
     in Inr (take lim hs, lim < length hs))"
proof -
  have "walk_inv (session_rows db source session) lim after [] page_state_new"
    by (simp add: walk_inv_def page_state_new_def seen_keys_def)
  then show ?thesis
    using walk_headers_from [OF session_rows_walk [OF assms], where P = "[]" and after = after]
    by (simp add: page_headers_def grouped_turn_headers_rows headers_after_def rows_after_def Let_def)
qed

end
