(* ===== verification/UserTurnsFill.thy ===== *)
theory UserTurnsFill
  imports UserTurnsFacts
begin

text \<open>
  The one ordered pass of \<open>fill_user_turns\<close> against a query per turn: the message before a turn,
  the message after it, and its blocks. The pass keeps a trail of the two nearest names, a list
  of turns still waiting for a following message, and the number of anchors reached; the
  invariant says what each of them is of the rows read so far.
\<close>

section \<open>A query per turn\<close>

text \<open>The named rows other than \<open>skip\<close>; the nearest one is the last of a prefix.\<close>

definition named_but :: "string \<Rightarrow> session_event \<Rightarrow> bool" where
  "named_but skip e \<longleftrightarrow> named e \<noteq> None \<and> named e \<noteq> Some skip"

definition nearest_named :: "session_event list \<Rightarrow> string \<Rightarrow> string option" where
  "nearest_named xs skip =
     (case rev (filter (named_but skip) xs) of [] \<Rightarrow> None | e # _ \<Rightarrow> named e)"

definition first_named :: "session_event list \<Rightarrow> string \<Rightarrow> string option" where
  "first_named xs skip =
     (case filter (named_but skip) xs of [] \<Rightarrow> None | e # _ \<Rightarrow> named e)"

definition block_of_row :: "session_event \<Rightarrow> user_turn_block" where
  "block_of_row e = user_turn_block_of (e_role e) (e_kind e) (e_tool_use_id e)
     (user_turn_byte_len e) (e_result_status e)"

definition turn_by_queries ::
  "session_event list \<Rightarrow> string \<Rightarrow> string \<Rightarrow> user_turn_header \<Rightarrow> session_user_turn" where
  "turn_by_queries rows source session h =
     (empty_turn source session h)
       \<lparr>ut_preceding_message_id := nearest_named (filter (\<lambda>e. event_order e < anchor h) rows) (uh_key h),
        ut_following_message_id := first_named (filter (\<lambda>e. anchor h < event_order e) rows) (uh_key h),
        ut_blocks := map block_of_row (turn_group rows (uh_key h))\<rparr>"

lemma nearest_named_snoc:
  "nearest_named (xs @ [e]) skip = (if named_but skip e then named e else nearest_named xs skip)"
  by (simp add: nearest_named_def)

lemma nearest_named_Nil [simp]: "nearest_named [] skip = None"
  by (simp add: nearest_named_def)

lemma first_named_append:
  "first_named (xs @ ys) skip =
     (case first_named xs skip of None \<Rightarrow> first_named ys skip | Some m \<Rightarrow> Some m)"
  by (induction xs) (auto simp: first_named_def named_but_def)

lemma first_named_single: "first_named [e] skip = (if named_but skip e then named e else None)"
  by (simp add: first_named_def)

lemma first_named_Nil [simp]: "first_named [] skip = None"
  by (simp add: first_named_def)

lemma named_before_nearest:
  "named_before rows pos skip = nearest_named (filter (\<lambda>e. event_order e < pos) rows) skip"
proof -
  define xs where "xs = filter (\<lambda>e. event_order e < pos \<and> named e \<noteq> None \<and> named e \<noteq> Some skip) rows"
  have "filter (named_but skip) (filter (\<lambda>e. event_order e < pos) rows) = xs"
    unfolding xs_def filter_filter by (rule filter_cong) (auto simp: named_but_def)
  then have "nearest_named (filter (\<lambda>e. event_order e < pos) rows) skip =
      (case rev xs of [] \<Rightarrow> None | e # _ \<Rightarrow> named e)"
    by (simp add: nearest_named_def)
  also have "\<dots> = (if xs = [] then None else named (last xs))"
    by (cases xs rule: rev_cases) simp_all
  also have "\<dots> = (case xs of [] \<Rightarrow> None | r # rs \<Rightarrow> named (last (r # rs)))"
    by (cases xs) simp_all
  finally show ?thesis by (simp add: named_before_def xs_def)
qed

section \<open>The trail of names\<close>

definition trail_of :: "session_event list \<Rightarrow> named_trail" where
  "trail_of xs = \<lparr>nt_last = nearest_named xs [],
     nt_previous = (case nearest_named xs [] of None \<Rightarrow> None | Some l \<Rightarrow> nearest_named xs l)\<rparr>"

lemma named_but_empty: "named_but [] e \<longleftrightarrow> named e \<noteq> None"
  using named_not_empty [of e "[]"] by (auto simp: named_but_def)

lemma nearest_named_None: "nearest_named xs [] = None \<Longrightarrow> nearest_named xs skip = None"
  by (induction xs rule: rev_induct)
     (auto simp: nearest_named_snoc named_but_def split: if_splits dest: named_not_empty)

lemma nearest_named_other:
  "nearest_named xs [] = Some l \<Longrightarrow> skip \<noteq> l \<Longrightarrow> nearest_named xs skip = Some l"
  by (induction xs rule: rev_induct)
     (auto simp: nearest_named_snoc named_but_def split: if_splits dest: named_not_empty)

lemma trail_preceding_of: "trail_preceding (trail_of xs) key = nearest_named xs key"
  using nearest_named_None [of xs key] nearest_named_other [of xs _ key]
  by (auto simp: trail_preceding_def trail_of_def split: option.splits)

lemma trail_observe_of:
  assumes "named e = Some m"
  shows "trail_observe m (trail_of xs) = trail_of (xs @ [e])"
proof (cases "nearest_named xs [] = Some m")
  case True
  then show ?thesis using assms
    by (simp add: trail_observe_def trail_of_def nearest_named_snoc named_but_empty)
       (simp add: named_but_def)
next
  case False
  then have "nearest_named xs m = nearest_named xs []"
    using nearest_named_None [of xs m] nearest_named_other [of xs _ m]
    by (cases "nearest_named xs []") auto
  then show ?thesis using False assms
    by (simp add: trail_observe_def trail_of_def nearest_named_snoc named_but_empty)
       (simp add: named_but_def)
qed

lemma trail_of_unnamed: "named e = None \<Longrightarrow> trail_of (xs @ [e]) = trail_of xs"
  by (simp add: trail_of_def nearest_named_snoc named_but_def cong: option.case_cong)

section \<open>Anchors reached\<close>

definition reached :: "user_turn_header list \<Rightarrow> int \<times> int \<Rightarrow> nat" where
  "reached hs at = length (filter (\<lambda>h. anchor h \<le> at) hs)"

lemma reached_iff:
  assumes "sorted_wrt (\<lambda>a b. anchor a < anchor b) hs" and "i < length hs"
  shows "anchor (hs ! i) \<le> at \<longleftrightarrow> i < reached hs at"
proof -
  have "sorted (map anchor hs)"
    using assms(1) by (auto simp: sorted_map elim: sorted_wrt_mono_rel [rotated] intro: less_imp_le)
  then have take: "filter (\<lambda>h. anchor h \<le> at) hs = take (reached hs at) hs"
    unfolding reached_def by (rule filter_le_take)
  show ?thesis
  proof
    assume "i < reached hs at"
    then have "hs ! i \<in> set (take (reached hs at) hs)"
      using assms(2) by (auto simp: in_set_conv_nth intro!: exI [of _ i])
    then show "anchor (hs ! i) \<le> at" by (simp flip: take)
  next
    assume "anchor (hs ! i) \<le> at"
    then have "hs ! i \<in> set (take (reached hs at) hs)" using assms(2) by (simp flip: take)
    then obtain j where j: "j < reached hs at" "j < length hs" "hs ! j = hs ! i"
      by (auto simp: in_set_conv_nth)
    moreover have "distinct hs"
      using assms(1) by (simp add: distinct_conv_nth sorted_wrt_iff_nth_less) (metis less_irrefl linorder_neqE_nat)
    ultimately show "i < reached hs at" using assms(2) by (simp add: nth_eq_iff_index_eq)
  qed
qed

lemma reached_le: "reached hs at \<le> length hs"
  by (simp add: reached_def)

lemma map_upt_update:
  "i < n \<Longrightarrow> (map g [0..<n])[i := x] = map (g(i := x)) [0..<n]"
  by (rule nth_equalityI) (auto simp: nth_list_update)

lemma reach_anchors_eq:
  assumes "sorted_wrt (\<lambda>a b. anchor a < anchor b) hs"
    and "fs_turns s = map g [0..<length hs]" and "fs_next_anchor s \<le> reached hs at"
  shows "reach_anchors hs at s =
     s\<lparr>fs_turns := map (\<lambda>i. if fs_next_anchor s \<le> i \<and> i < reached hs at
           then (g i)\<lparr>ut_preceding_message_id := trail_preceding (fs_trail s) (uh_key (hs ! i))\<rparr>
           else g i) [0..<length hs],
       fs_awaiting := fs_awaiting s @ [fs_next_anchor s..<reached hs at],
       fs_next_anchor := reached hs at\<rparr>"
  using assms
proof (induction "reached hs at - fs_next_anchor s" arbitrary: s g)
  case 0
  then have eq: "fs_next_anchor s = reached hs at" by simp
  then have "\<not> (fs_next_anchor s < length hs \<and> \<not> at < anchor (hs ! fs_next_anchor s))"
    using reached_iff [OF assms(1), of "reached hs at" at] by (auto simp: not_less)
  then have "reach_anchors hs at s = s" by (subst reach_anchors.simps) (rule if_not_P)
  moreover have "(\<lambda>i. if fs_next_anchor s \<le> i \<and> i < reached hs at
      then (g i)\<lparr>ut_preceding_message_id := trail_preceding (fs_trail s) (uh_key (hs ! i))\<rparr>
      else g i) = g"
    using eq by (intro ext) auto
  ultimately show ?case using 0(3) eq by simp
next
  case (Suc k)
  let ?i = "fs_next_anchor s"
  have i: "?i < reached hs at" using Suc.hyps(2) by simp
  then have "?i < length hs" using reached_le [of hs at] by simp
  then have step: "?i < length hs \<and> \<not> at < anchor (hs ! ?i)"
    using reached_iff [OF assms(1), of ?i at] i by (simp add: not_less)
  define g' where "g' = g(?i := (g ?i)\<lparr>ut_preceding_message_id :=
      trail_preceding (fs_trail s) (uh_key (hs ! ?i))\<rparr>)"
  let ?s = "s\<lparr>fs_turns := map g' [0..<length hs], fs_awaiting := fs_awaiting s @ [?i],
      fs_next_anchor := ?i + 1\<rparr>"
  have "reach_anchors hs at s = reach_anchors hs at ?s"
    using step Suc.prems(2)
    by (subst reach_anchors.simps) (simp add: Let_def map_upt_update g'_def)
  also have "\<dots> = ?s\<lparr>fs_turns := map (\<lambda>i. if ?i + 1 \<le> i \<and> i < reached hs at
           then (g' i)\<lparr>ut_preceding_message_id := trail_preceding (fs_trail s) (uh_key (hs ! i))\<rparr>
           else g' i) [0..<length hs],
       fs_awaiting := (fs_awaiting s @ [?i]) @ [?i + 1..<reached hs at],
       fs_next_anchor := reached hs at\<rparr>"
    using Suc.hyps(1) [of ?s g'] Suc.hyps(2) assms(1) i by simp
  also have "\<dots> = s\<lparr>fs_turns := map (\<lambda>i. if ?i \<le> i \<and> i < reached hs at
           then (g i)\<lparr>ut_preceding_message_id := trail_preceding (fs_trail s) (uh_key (hs ! i))\<rparr>
           else g i) [0..<length hs],
       fs_awaiting := fs_awaiting s @ [?i..<reached hs at],
       fs_next_anchor := reached hs at\<rparr>"
    using i by (auto simp: g'_def upt_conv_Cons)
  finally show ?case .
qed

section \<open>One row of the pass\<close>

lemma release_following_eq:
  assumes "fs_turns s = map g [0..<n]" and "set (fs_awaiting s) \<subseteq> {..<n}"
  shows "release_following hs at m s =
     s\<lparr>fs_turns := map (\<lambda>i. if i \<in> set (fs_awaiting s) \<and> released (hs ! i) at m
           then (g i)\<lparr>ut_following_message_id := Some m\<rparr> else g i) [0..<n],
       fs_awaiting := filter (\<lambda>i. \<not> released (hs ! i) at m) (fs_awaiting s)\<rparr>"
proof -
  have "fold (\<lambda>i ts. if released (hs ! i) at m
           then ts[i := (ts ! i)\<lparr>ut_following_message_id := Some m\<rparr>] else ts) js (map g [0..<n])
      = map (\<lambda>i. if i \<in> set js \<and> released (hs ! i) at m
           then (g i)\<lparr>ut_following_message_id := Some m\<rparr> else g i) [0..<n]"
    if "set js \<subseteq> {..<n}" for js
    using that
  proof (induction js rule: rev_induct)
    case (snoc j js)
    then show ?case
      by (auto simp: map_upt_update fun_upd_def)
  qed simp
  then show ?thesis using assms by (simp add: release_following_def)
qed

lemma index_of_key_Some:
  assumes "distinct (map uh_key hs)" and "i < length hs"
  shows "index_of_key hs (uh_key (hs ! i)) = Some i"
proof -
  let ?al = "map (\<lambda>i. (uh_key (hs ! i), i)) [0..<length hs]"
  have keys: "map fst ?al = map uh_key hs" by (rule nth_equalityI) simp_all
  have "(uh_key (hs ! i), i) \<in> set (rev ?al)" using assms(2) by simp
  moreover have "distinct (map fst (rev ?al))"
    using assms(1) keys by (metis distinct_rev rev_map)
  ultimately show ?thesis unfolding index_of_key_def by (rule map_of_is_SomeI [rotated])
qed

lemma index_of_key_None:
  "k \<notin> uh_key ` set hs \<Longrightarrow> index_of_key hs k = None"
  by (auto simp: index_of_key_def map_of_eq_None_iff image_iff)

definition turn_so_far ::
  "session_event list \<Rightarrow> string \<Rightarrow> string \<Rightarrow> session_event list \<Rightarrow> user_turn_header
    \<Rightarrow> session_user_turn" where
  "turn_so_far rows source session P h =
     (empty_turn source session h)
       \<lparr>ut_preceding_message_id := (if P \<noteq> [] \<and> anchor h \<le> event_order (last P)
            then nearest_named (filter (\<lambda>e. event_order e < anchor h) rows) (uh_key h) else None),
        ut_following_message_id := first_named (filter (\<lambda>e. anchor h < event_order e) P) (uh_key h),
        ut_blocks := map block_of_row (turn_group P (uh_key h))\<rparr>"

definition reached_by :: "user_turn_header list \<Rightarrow> session_event list \<Rightarrow> nat" where
  "reached_by hs P = (if P = [] then 0 else reached hs (event_order (last P)))"

definition fill_inv ::
  "session_event list \<Rightarrow> string \<Rightarrow> string \<Rightarrow> user_turn_header list \<Rightarrow> session_event list
    \<Rightarrow> session_event list \<Rightarrow> fill_state \<Rightarrow> bool" where
  "fill_inv rows source session hs B P s \<longleftrightarrow>
     fs_turns s = map (\<lambda>i. turn_so_far rows source session P (hs ! i)) [0..<length hs]
     \<and> fs_trail s = trail_of (B @ P)
     \<and> fs_next_anchor s = reached_by hs P
     \<and> set (fs_awaiting s) = {i. i < reached_by hs P
          \<and> first_named (filter (\<lambda>e. anchor (hs ! i) < event_order e) P) (uh_key (hs ! i)) = None}"

text \<open>What the headers of a page are, for the pass: turns of these rows, in strict order.\<close>

definition turns_of_rows :: "session_event list \<Rightarrow> user_turn_header list \<Rightarrow> bool" where
  "turns_of_rows rows hs \<longleftrightarrow>
     sorted_wrt (\<lambda>a b. anchor a < anchor b) hs \<and> set hs \<subseteq> set (turn_headers rows)"

lemma turns_of_rows_keys:
  assumes "turns_of_rows rows hs"
  shows "distinct (map uh_key hs)"
proof -
  have "distinct hs"
    using assms unfolding turns_of_rows_def distinct_conv_nth sorted_wrt_iff_nth_less
    by (metis less_irrefl linorder_neqE_nat)
  moreover have "inj_on uh_key (set hs)"
    using assms turn_headers_eq_iff unfolding turns_of_rows_def by (intro inj_onI) (metis subsetD)
  ultimately show ?thesis by (simp add: distinct_map)
qed

lemma row_of_header:
  assumes "turns_of_rows rows hs" and "h \<in> set hs" and "e \<in> set rows" and "user_turn_row e"
    and "turn_key e = uh_key h"
  shows "anchor h \<le> event_order e" and "e_ts_ms e \<le> uh_last_ts_ms h"
proof -
  have h: "h = header_of_group (uh_key h) (turn_group rows (uh_key h))"
    using assms(1,2) turn_headers_eq_iff by (auto simp: turns_of_rows_def)
  then show "anchor h \<le> event_order e"
    using header_le_row [OF assms(3,4)] assms(5) by (simp add: anchor_def event_order_def)
  have "e \<in> set (turn_group rows (uh_key h))" using assms by (simp add: turn_group_def)
  then show "e_ts_ms e \<le> uh_last_ts_ms h" by (subst h) simp
qed

lemma push_turn_block_eq:
  assumes "turns_of_rows rows hs" and "row \<in> set rows" and "user_turn_row row"
    and "\<And>h. h \<in> set hs \<Longrightarrow> uh_last_ts_ms h \<le> last_block_ts"
    and "ts = map g [0..<length hs]"
  shows "push_turn_block hs last_block_ts row ts =
    Inr (map (\<lambda>i. if uh_key (hs ! i) = turn_key row
        then (g i)\<lparr>ut_blocks := ut_blocks (g i) @ [block_of_row row]\<rparr> else g i) [0..<length hs])"
proof (cases "turn_key row \<in> uh_key ` set hs")
  case False
  then have "uh_key (hs ! i) \<noteq> turn_key row" if "i < length hs" for i
    using that by (metis image_eqI nth_mem)
  then have "map (\<lambda>i. if uh_key (hs ! i) = turn_key row
        then (g i)\<lparr>ut_blocks := ut_blocks (g i) @ [block_of_row row]\<rparr> else g i) [0..<length hs] = ts"
    using assms(5) by simp
  then show ?thesis
    using index_of_key_None [OF False] by (simp add: push_turn_block_def turn_key_def)
next
  case True
  then obtain i where i: "i < length hs" "uh_key (hs ! i) = turn_key row"
    by (auto simp: in_set_conv_nth)
  have keys: "distinct (map uh_key hs)" by (rule turns_of_rows_keys [OF assms(1)])
  have idx: "index_of_key hs (turn_key_of (named row) (e_id row)) = Some i"
    using index_of_key_Some [OF keys i(1)] i(2) by (simp add: turn_key_def)
  have "hs ! i \<in> set hs" using i(1) by simp
  then have "e_ts_ms row \<le> last_block_ts"
    using row_of_header(2) [OF assms(1) _ assms(2,3), of "hs ! i"] i(2) assms(4) [of "hs ! i"] by simp
  moreover have "uh_key (hs ! j) = turn_key row \<longleftrightarrow> j = i" if "j < length hs" for j
    using keys that i by (metis distinct_conv_nth length_map nth_map)
  ultimately show ?thesis
    using idx i(1) by (simp add: push_turn_block_def assms(5) map_upt_update block_of_row_def fun_upd_def)
qed

lemma reached_mono: "a \<le> b \<Longrightarrow> reached hs a \<le> reached hs b"
  unfolding reached_def by (induction hs) (auto intro: order_trans)

lemma turn_group_snoc:
  "turn_group (P @ [r]) k =
     turn_group P k @ (if user_turn_row r \<and> turn_key r = k then [r] else [])"
  by (simp add: turn_group_def)

lemma settle_cases:
  assumes "A \<Longrightarrow> C"
  shows "(case F of Some x \<Rightarrow> Some x | None \<Rightarrow> if A \<and> K then Some m else None)
    = (if (C \<and> F = None) \<and> A \<and> K then Some m else F)"
  using assms by (cases F) auto

lemma fill_step_inv:
  assumes rows: "rows = B @ P @ r # R" and sorted: "sorted_wrt (\<lambda>a b. event_order a < event_order b) rows"
    and hs: "turns_of_rows rows hs"
    and lower: "\<And>h e. h \<in> set hs \<Longrightarrow> e \<in> set B \<Longrightarrow> event_order e < anchor h"
    and lbt: "\<And>h. h \<in> set hs \<Longrightarrow> uh_last_ts_ms h \<le> last_block_ts"
    and inv: "fill_inv rows source session hs B P s"
  shows "\<exists>s'. fill_step hs last_block_ts r s = Inr s' \<and> fill_inv rows source session hs B (P @ [r]) s'"
proof -
  let ?at = "event_order r" and ?N = "length hs"
  let ?n = "reached_by hs P" and ?c = "reached hs (event_order r)"
  let ?key = "\<lambda>i. uh_key (hs ! i)" and ?anc = "\<lambda>i. anchor (hs ! i)"
  let ?t = "\<lambda>i. turn_so_far rows source session P (hs ! i)"
  let ?f = "\<lambda>P i. first_named (filter (\<lambda>e. ?anc i < event_order e) P) (?key i)"
  have strict: "sorted_wrt (\<lambda>a b. anchor a < anchor b) hs" using hs by (simp add: turns_of_rows_def)
  have before_r: "event_order e < ?at" if "e \<in> set (B @ P)" for e
    using that sorted rows by (auto simp: sorted_wrt_append)
  have last_P: "event_order (last P) < ?at" if "P \<noteq> []" using before_r that by simp
  have nc: "?n \<le> ?c"
    using last_P reached_mono [of "event_order (last P)" ?at hs] by (auto simp: reached_by_def)
  have reach: "i < ?c \<longleftrightarrow> ?anc i \<le> ?at" if "i < ?N" for i
    using reached_iff [OF strict that] by simp
  have reach_n: "i < ?n \<longleftrightarrow> P \<noteq> [] \<and> ?anc i \<le> event_order (last P)" if "i < ?N" for i
    using reached_iff [OF strict that] by (simp add: reached_by_def)
  have cN: "?c \<le> ?N" by (rule reached_le)
  have P_le: "event_order e \<le> event_order (last P)" if "e \<in> set P" for e
  proof -
    have "sorted (map event_order P)"
      using sorted rows by (auto simp: sorted_map sorted_wrt_append
          elim: sorted_wrt_mono_rel [rotated] intro: less_imp_le)
    then show ?thesis using that by (rule sorted_map_last)
  qed
  have fresh: "filter (\<lambda>e. ?anc i < event_order e) P = []" if "i < ?N" "\<not> i < ?n" for i
    using that reach_n [OF that(1)] P_le by (fastforce simp: filter_empty_conv)
  have here: "filter (\<lambda>e. event_order e < ?anc i) rows = B @ P" if "i < ?N" "?n \<le> i" "i < ?c" for i
  proof -
    have "filter (\<lambda>e. event_order e < ?anc i) (B @ P) = B @ P"
      using lower [of "hs ! i"] that reach_n [OF that(1)] P_le
      by (fastforce simp: filter_id_conv)
    moreover have "filter (\<lambda>e. event_order e < ?anc i) (r # R) = []"
      using sorted rows reach [OF that(1)] that(3) by (fastforce simp: filter_empty_conv sorted_wrt_append)
    ultimately show ?thesis using rows by simp
  qed
  define u where "u i = (if ?n \<le> i \<and> i < ?c
      then (?t i)\<lparr>ut_preceding_message_id := nearest_named (B @ P) (?key i)\<rparr> else ?t i)" for i
  define s1 where "s1 = reach_anchors hs ?at s"
  have s1: "fs_turns s1 = map u [0..<?N]" "set (fs_awaiting s1) = {i. i < ?c \<and> ?f P i = None}"
      "fs_trail s1 = trail_of (B @ P)" "fs_next_anchor s1 = ?c"
    using reach_anchors_eq [OF strict, of s ?t ?at] inv nc fresh cN
    by (auto simp: s1_def fill_inv_def trail_preceding_of u_def)
  define g where "g i = (turn_so_far rows source session (P @ [r]) (hs ! i))
      \<lparr>ut_blocks := map block_of_row (turn_group P (?key i))\<rparr>" for i
  have f_snoc: "?f (P @ [r]) i = (case ?f P i of Some m \<Rightarrow> Some m
      | None \<Rightarrow> if ?anc i < ?at \<and> named_but (?key i) r then named r else None)" for i
    by (auto simp: first_named_append first_named_single split: option.split)
  have u_following: "ut_following_message_id (u i) = ?f P i" for i
    by (simp add: u_def turn_so_far_def)
  have u_preceding: "ut_preceding_message_id (u i) = ut_preceding_message_id (g i)" if "i < ?N" for i
    using that reach [OF that] reach_n [OF that] here [OF that] last_P
    by (auto simp: u_def g_def turn_so_far_def not_le)
  have u_g: "(u i)\<lparr>ut_following_message_id := ?f (P @ [r]) i\<rparr> = g i" if "i < ?N" for i
    using u_preceding [OF that] by (auto simp: u_def g_def turn_so_far_def)
  have u_same: "(u i)\<lparr>ut_following_message_id := ?f P i\<rparr> = u i" for i
    unfolding u_following [symmetric] by simp
  define s2 where "s2 = (case named r of
      Some m \<Rightarrow> (release_following hs ?at m s1)\<lparr>fs_trail := trail_observe m (fs_trail s1)\<rparr>
    | None \<Rightarrow> s1)"
  have s2: "fs_turns s2 = map g [0..<?N] \<and> set (fs_awaiting s2) = {i. i < ?c \<and> ?f (P @ [r]) i = None}
      \<and> fs_trail s2 = trail_of (B @ P @ [r]) \<and> fs_next_anchor s2 = ?c"
  proof (cases "named r")
    case None
    have same: "?f (P @ [r]) i = ?f P i" for i
      unfolding f_snoc using None by (simp add: named_but_def split: option.split)
    have "map u [0..<?N] = map g [0..<?N]"
      using u_g u_same unfolding same by (intro map_cong refl) simp
    then show ?thesis
      unfolding same using None s1 trail_of_unnamed [OF None, of "B @ P"] by (simp add: s2_def)
  next
    case (Some m)
    have settled: "?f (P @ [r]) i = (if i \<in> set (fs_awaiting s1) \<and> released (hs ! i) ?at m
        then Some m else ?f P i)" if "i < ?N" for i
    proof -
      have nb: "named_but (?key i) r \<longleftrightarrow> ?key i \<noteq> m" using Some by (auto simp: named_but_def)
      have le: "?anc i < ?at \<Longrightarrow> i < ?c" using reach [OF that] by (simp only: less_imp_le)
      show ?thesis
        unfolding f_snoc s1(2) released_def nb mem_Collect_eq Some
        using le by (rule settle_cases)
    qed
    have aw: "set (fs_awaiting s1) \<subseteq> {..<?N}"
      unfolding s1(2) by (rule subsetI) (drule CollectD, rule lessThan_iff [THEN iffD2],
        rule order.strict_trans2 [OF conjunct1 cN])
    have "map (\<lambda>i. if i \<in> set (fs_awaiting s1) \<and> released (hs ! i) ?at m
          then (u i)\<lparr>ut_following_message_id := Some m\<rparr> else u i) [0..<?N] = map g [0..<?N]"
    proof (rule map_cong [OF refl])
      fix i assume "i \<in> set [0..<?N]"
      then have i: "i < ?N" by simp
      show "(if i \<in> set (fs_awaiting s1) \<and> released (hs ! i) ?at m
          then (u i)\<lparr>ut_following_message_id := Some m\<rparr> else u i) = g i"
        using u_g [OF i] u_same [of i] unfolding settled [OF i]
        by (cases "i \<in> set (fs_awaiting s1) \<and> released (hs ! i) ?at m")
           (simp_all only: if_P if_not_P not_False_eq_True)
    qed
    moreover have "{i \<in> set (fs_awaiting s1). \<not> released (hs ! i) ?at m}
        = {i. i < ?c \<and> ?f (P @ [r]) i = None}"
    proof (rule set_eqI)
      fix i
      show "i \<in> {i \<in> set (fs_awaiting s1). \<not> released (hs ! i) ?at m} \<longleftrightarrow>
          i \<in> {i. i < ?c \<and> ?f (P @ [r]) i = None}"
      proof (cases "i < ?c")
        case True
        then have "i < ?N" using cN by simp
        then show ?thesis unfolding mem_Collect_eq settled [OF \<open>i < ?N\<close>] unfolding s1(2)
          using True by (cases "?f P i") simp_all
      qed (simp add: s1(2))
    qed
    ultimately show ?thesis
      using Some s1 release_following_eq [OF s1(1) aw, of hs ?at m] trail_observe_of [OF Some, of "B @ P"]
      by (simp add: s2_def)
  qed
  have step: "fill_step hs last_block_ts r s =
      (if user_turn_row r then and_then (push_turn_block hs last_block_ts r (fs_turns s2)) (\<lambda>ts.
         Inr (s2\<lparr>fs_turns := ts\<rparr>)) else Inr s2)"
    unfolding fill_step_def s1_def s2_def Let_def ..
  show ?thesis
  proof (cases "user_turn_row r")
    case True
    have "r \<in> set rows" using rows by simp
    have push: "push_turn_block hs last_block_ts r (fs_turns s2) =
        Inr (map (\<lambda>i. if ?key i = turn_key r
          then (g i)\<lparr>ut_blocks := ut_blocks (g i) @ [block_of_row r]\<rparr> else g i) [0..<?N])"
      using s2 by (intro push_turn_block_eq [OF hs \<open>r \<in> set rows\<close> True lbt]) simp_all
    have turns: "(if ?key i = turn_key r then (g i)\<lparr>ut_blocks := ut_blocks (g i) @ [block_of_row r]\<rparr>
        else g i) = turn_so_far rows source session (P @ [r]) (hs ! i)" for i
      using True by (auto simp: g_def turn_so_far_def turn_group_snoc)
    show ?thesis
      using True push s2 unfolding turns step
      by (simp add: fill_inv_def reached_by_def)
  next
    case False
    then have "g i = turn_so_far rows source session (P @ [r]) (hs ! i)" for i
      by (auto simp: g_def turn_so_far_def turn_group_snoc)
    then show ?thesis
      using False s2 unfolding step by (simp add: fill_inv_def reached_by_def)
  qed
qed

section \<open>The whole pass\<close>

text \<open>Turns that are complete when the pass may stop, or ends.\<close>

lemma turn_so_far_done:
  assumes rows: "rows = B @ P @ R" and sorted: "sorted_wrt (\<lambda>a b. event_order a < event_order b) rows"
    and hs: "turns_of_rows rows hs" and h: "h \<in> set hs"
    and lower: "\<And>e. e \<in> set B \<Longrightarrow> event_order e < anchor h"
    and reached: "P \<noteq> [] \<and> anchor h \<le> event_order (last P)"
    and settled: "R = [] \<or> first_named (filter (\<lambda>e. anchor h < event_order e) P) (uh_key h) \<noteq> None"
    and blocks: "\<And>e. e \<in> set R \<Longrightarrow> uh_last_ts_ms h < e_ts_ms e"
  shows "turn_so_far rows source session P h = turn_by_queries rows source session h"
proof -
  have "filter (\<lambda>e. anchor h < event_order e) B = []"
    using lower by (auto simp: filter_empty_conv dest: order_less_not_sym)
  then have "first_named (filter (\<lambda>e. anchor h < event_order e) rows) (uh_key h)
      = first_named (filter (\<lambda>e. anchor h < event_order e) P) (uh_key h)"
    using settled by (auto simp: rows first_named_append split: option.split)
  moreover have "turn_group B (uh_key h) = []"
    using lower row_of_header(1) [OF hs h] rows by (fastforce simp: turn_group_def filter_empty_conv)
  moreover have "turn_group R (uh_key h) = []"
    using blocks row_of_header(2) [OF hs h] rows by (fastforce simp: turn_group_def filter_empty_conv)
  moreover have "turn_group rows (uh_key h)
      = turn_group B (uh_key h) @ turn_group P (uh_key h) @ turn_group R (uh_key h)"
    by (simp add: rows turn_group_def)
  ultimately show ?thesis
    using reached by (simp add: turn_so_far_def turn_by_queries_def)
qed

lemma map_nth_upt: "map (\<lambda>i. f (hs ! i)) [0..<length hs] = map f hs"
  by (rule nth_equalityI) simp_all

lemma fill_rows_from:
  assumes rows: "rows = B @ P @ R" and sorted: "sorted_wrt (\<lambda>a b. event_order a < event_order b) rows"
    and hs: "turns_of_rows rows hs"
    and lower: "\<And>h e. h \<in> set hs \<Longrightarrow> e \<in> set B \<Longrightarrow> event_order e < anchor h"
    and lbt: "\<And>h. h \<in> set hs \<Longrightarrow> uh_last_ts_ms h \<le> last_block_ts"
    and inv: "fill_inv rows source session hs B P s"
  shows "\<exists>s'. fill_rows hs last_block_ts R s = Inr s'
    \<and> fs_turns s' = map (turn_by_queries rows source session) hs"
  using rows inv
proof (induction R arbitrary: P s)
  case Nil
  have "turn_so_far rows source session P h = turn_by_queries rows source session h"
    if h: "h \<in> set hs" for h
  proof (rule turn_so_far_done [OF _ sorted hs h lower [OF h]])
    show "rows = B @ P @ []" using Nil.prems by simp
    have "uh_key h \<in> turn_key ` {e \<in> set rows. user_turn_row e}"
      using h hs by (auto simp: turns_of_rows_def set_turn_headers)
    then obtain e where e: "e \<in> set rows" "user_turn_row e" "turn_key e = uh_key h" by auto
    have "anchor h \<le> event_order e" by (rule row_of_header(1) [OF hs h e])
    then have "e \<in> set P" using lower [OF h, of e] e(1) Nil.prems(1) by (auto simp: not_less [symmetric])
    moreover have "sorted (map event_order P)"
      using sorted Nil.prems(1) by (auto simp: sorted_map sorted_wrt_append
          elim: sorted_wrt_mono_rel [rotated] intro: less_imp_le)
    ultimately show "P \<noteq> [] \<and> anchor h \<le> event_order (last P)"
      using \<open>anchor h \<le> event_order e\<close> sorted_map_last [of event_order P e] by auto
  qed simp_all
  then show ?case using Nil.prems(2)
    by (simp add: fill_inv_def map_nth_upt [of "turn_so_far rows source session P"])
next
  case (Cons r R)
  show ?case
  proof (cases "fs_next_anchor s = length hs \<and> fs_awaiting s = [] \<and> last_block_ts < e_ts_ms r")
    case True
    have strict: "sorted_wrt (\<lambda>a b. anchor a < anchor b) hs" using hs by (simp add: turns_of_rows_def)
    have ts: "e_ts_ms r \<le> e_ts_ms e" if "e \<in> set (r # R)" for e
      using that sorted Cons.prems(1) by (auto simp: sorted_wrt_append event_order_def less_prod_def)
    have "turn_so_far rows source session P h = turn_by_queries rows source session h"
      if h: "h \<in> set hs" for h
    proof (rule turn_so_far_done [OF Cons.prems(1) sorted hs h lower [OF h]])
      obtain i where i: "i < length hs" "hs ! i = h" using h by (auto simp: in_set_conv_nth)
      have n: "reached_by hs P = length hs" using True Cons.prems(2) by (simp add: fill_inv_def)
      then have P: "P \<noteq> []" using i by (auto simp: reached_by_def)
      then show "P \<noteq> [] \<and> anchor h \<le> event_order (last P)"
        using n i reached_iff [OF strict i(1), of "event_order (last P)"] by (simp add: reached_by_def)
      show "r # R = [] \<or> first_named (filter (\<lambda>e. anchor h < event_order e) P) (uh_key h) \<noteq> None"
        using True Cons.prems(2) i n by (auto simp: fill_inv_def)
      show "uh_last_ts_ms h < e_ts_ms e" if "e \<in> set (r # R)" for e
        using ts [OF that] True lbt [OF h] by simp
    qed
    then show ?thesis using True Cons.prems(2)
      by (simp add: fill_inv_def map_nth_upt [of "turn_so_far rows source session P"])
  next
    case False
    obtain s' where "fill_step hs last_block_ts r s = Inr s'"
        "fill_inv rows source session hs B (P @ [r]) s'"
      using fill_step_inv [OF Cons.prems(1) sorted hs lower lbt Cons.prems(2)] by blast
    then show ?thesis using False Cons.IH [of "P @ [r]" s'] Cons.prems(1) by auto
  qed
qed

lemma foldl_max_ge:
  "a \<le> foldl (\<lambda>m h. max m (f h)) (a :: int) hs
   \<and> (h \<in> set hs \<longrightarrow> f h \<le> foldl (\<lambda>m h. max m (f h)) a hs)"
proof (induction hs arbitrary: a)
  case (Cons x hs)
  let ?m = "foldl (\<lambda>m h. max m (f h)) (max a (f x)) hs"
  have "max a (f x) \<le> ?m" "h \<in> set hs \<longrightarrow> f h \<le> ?m" using Cons [of "max a (f x)"] by blast+
  then show ?case by auto
qed simp

lemma sorted_wrt_filter_split:
  assumes "sorted_wrt (\<lambda>a b. f a < f b) xs"
  shows "xs = filter (\<lambda>x. f x < (c :: 'b :: linorder)) xs @ filter (\<lambda>x. \<not> f x < c) xs"
  using assms
proof (induction xs)
  case (Cons x xs)
  show ?case
  proof (cases "f x < c")
    case False
    then have "\<not> f y < c" if "y \<in> set xs" for y using that Cons.prems by (auto simp: not_less)
    then show ?thesis using False by (simp add: filter_empty_conv)
  qed (use Cons in simp)
qed simp

lemma session_rows_strict:
  assumes "distinct (map e_id db)"
  shows "sorted_wrt (\<lambda>a b. event_order a < event_order b) (session_rows db source session)"
  unfolding session_rows_def
  using assms by (intro sort_key_strict event_order_inj distinct_filter) (auto simp: distinct_map)

lemma fill_pass:
  assumes "distinct (map e_id db)" and "turns_of_rows (session_rows db source session) hs"
  shows "fill_user_turns db source session hs =
    Inr (map (turn_by_queries (session_rows db source session) source session) hs)"
proof (cases hs)
  case Nil
  then show ?thesis by (simp add: fill_user_turns_def)
next
  case (Cons first more)
  let ?rows = "session_rows db source session"
  let ?B = "filter (\<lambda>e. event_order e < anchor first) ?rows"
  let ?S = "filter (\<lambda>e. \<not> event_order e < anchor first) ?rows"
  define lbt where "lbt = foldl (\<lambda>m h. max m (uh_last_ts_ms h)) (uh_last_ts_ms first) hs"
  define s where "s = \<lparr>fs_turns = map (empty_turn source session) hs, fs_trail = trail_of ?B,
      fs_awaiting = [], fs_next_anchor = 0\<rparr>"
  have strict: "sorted_wrt (\<lambda>a b. event_order a < event_order b) ?rows"
    by (rule session_rows_strict [OF assms(1)])
  have split: "?rows = ?B @ [] @ ?S" using sorted_wrt_filter_split [OF strict] by simp
  have lower: "event_order e < anchor h" if "h \<in> set hs" "e \<in> set ?B" for h e
    using that assms(2) Cons by (auto simp: turns_of_rows_def dest: less_trans)
  have "turn_so_far ?rows source session [] h = empty_turn source session h" for h
    by (simp add: turn_so_far_def turn_group_def empty_turn_def)
  then have inv: "fill_inv ?rows source session hs ?B [] s"
    by (simp add: fill_inv_def s_def reached_by_def map_nth_upt [of "empty_turn source session"])
  have "uh_last_ts_ms h \<le> lbt" if "h \<in> set hs" for h
    using that foldl_max_ge [of "uh_last_ts_ms first" uh_last_ts_ms hs h] by (simp add: lbt_def)
  then obtain s' where s': "fill_rows hs lbt ?S s = Inr s'"
      "fs_turns s' = map (turn_by_queries ?rows source session) hs"
    using fill_rows_from [OF split strict assms(2) lower _ inv] by blast
  have trail: "\<lparr>nt_last = named_before ?rows (anchor first) [],
      nt_previous = (case named_before ?rows (anchor first) [] of
         Some l \<Rightarrow> named_before ?rows (anchor first) l | None \<Rightarrow> None)\<rparr> = trail_of ?B"
    by (auto simp: named_before_nearest trail_of_def split: option.split)
  have "fill_user_turns db source session hs =
      and_then (fill_rows hs lbt ?S s) (\<lambda>s. Inr (fs_turns s))"
    unfolding fill_user_turns_def Let_def s_def lbt_def trail [symmetric] Cons list.case ..
  then show ?thesis using s' by simp
qed

section \<open>The reads\<close>

text \<open>The turns of a session, as the whole read answers them.\<close>

definition user_turns_of ::
  "session_event list \<Rightarrow> string \<times> string \<Rightarrow> session_user_turn list" where
  "user_turns_of db = (\<lambda>(source, session).
     map (turn_by_queries (session_rows db source session) source session)
       (grouped_turn_headers db source session))"

definition ids_valid :: "session_event list \<Rightarrow> bool" where
  "ids_valid db \<longleftrightarrow> distinct (map e_id db) \<and> e_id ` set db \<subseteq> {i. in_i64 i}"

lemma turns_of_rows_grouped:
  assumes "distinct (map e_id db)"
  shows "turns_of_rows (session_rows db source session) (grouped_turn_headers db source session)"
proof -
  have "inj_on e_id (set (session_rows db source session))"
    using assms by (auto simp: session_rows_def distinct_map intro: inj_on_subset)
  then show ?thesis
    by (simp add: turns_of_rows_def grouped_turn_headers_rows turn_headers_strict)
qed

lemma turns_of_rows_sub:
  assumes "turns_of_rows rows hs"
  shows "turns_of_rows rows (take n (filter p hs))"
  using assms set_take_subset [of n "filter p hs"]
  by (auto simp: turns_of_rows_def intro!: sorted_wrt_take sorted_wrt_filter)

definition turn_order :: "session_user_turn \<Rightarrow> int \<times> int" where
  "turn_order t = (ut_ts_ms t, ut_id t)"

lemma turn_by_queries_order: "turn_order (turn_by_queries rows source session h) = anchor h"
  by (simp add: turn_order_def turn_by_queries_def empty_turn_def anchor_def)

lemma past_cursor_order:
  "past_cursor after h \<longleftrightarrow> (case after of None \<Rightarrow> True | Some c \<Rightarrow> event_cursor_order c < anchor h)"
  by (auto simp: past_cursor_def event_cursor_order_def anchor_def split: option.split)

lemma session_user_turns_page_keyset:
  assumes "ids_valid db"
  shows "session_user_turns_page db source session limit after =
    Inr (keyset_page turn_order event_cursor_order turn_cursor (user_turns_of db (source, session))
      (page_limit limit) after)"
proof -
  let ?hs = "grouped_turn_headers db source session" and ?lim = "page_limit limit"
  let ?past = "filter (past_cursor after) ?hs"
  let ?t = "turn_by_queries (session_rows db source session) source session"
  have ids: "distinct (map e_id db)" using assms by (simp add: ids_valid_def)
  have rest: "(case after of None \<Rightarrow> map ?t ?hs
      | Some c \<Rightarrow> filter (\<lambda>x. event_cursor_order c < turn_order x) (map ?t ?hs)) = map ?t ?past"
    by (cases after)
       (simp_all add: filter_map comp_def turn_by_queries_order past_cursor_order cong: filter_cong)
  have "page_headers db source session ?lim after = Inr (take ?lim ?past, ?lim < length ?past)"
    using page_headers_walk assms by (simp add: ids_valid_def Let_def)
  then have "session_user_turns_page db source session limit after =
      Inr (map ?t (take ?lim ?past), if take ?lim ?past \<noteq> [] \<and> ?lim < length ?past
        then Some (turn_cursor (last (map ?t (take ?lim ?past)))) else None)"
    using fill_pass [OF ids turns_of_rows_sub [OF turns_of_rows_grouped [OF ids]]]
    by (simp add: session_user_turns_page_def read_user_turns_def)
  also have "\<dots> = Inr (keyset_page turn_order event_cursor_order turn_cursor
      (user_turns_of db (source, session)) ?lim after)"
    using page_limit_pos [of limit]
    by (auto simp: keyset_page_def user_turns_of_def rest take_map Let_def)
  finally show ?thesis .
qed

text \<open>The page as a client that gets no error reads it.\<close>

definition page_result :: "'e + ('a list \<times> 'c option) \<Rightarrow> 'a list \<times> 'c option" where
  "page_result r = (case r of Inl _ \<Rightarrow> ([], None) | Inr p \<Rightarrow> p)"

definition user_turns_page_of ::
  "session_event list \<Rightarrow> string \<times> string \<Rightarrow> int \<Rightarrow> session_event_cursor option
    \<Rightarrow> session_user_turn list \<times> session_event_cursor option" where
  "user_turns_page_of db = (\<lambda>(source, session) limit after.
     page_result (session_user_turns_page db source session limit after))"

interpretation turn_pages: keyset_paging ids_valid user_turns_of turn_order event_cursor_order
  turn_cursor page_limit user_turns_page_of
proof unfold_locales
  fix db :: "session_event list" and q :: "string \<times> string"
  assume "ids_valid db"
  then have "turns_of_rows (session_rows db (fst q) (snd q)) (grouped_turn_headers db (fst q) (snd q))"
    by (intro turns_of_rows_grouped) (simp add: ids_valid_def)
  then show "sorted_wrt (\<lambda>a b. turn_order a < turn_order b) (user_turns_of db q)"
    by (simp add: user_turns_of_def case_prod_beta sorted_wrt_map turn_by_queries_order turns_of_rows_def)
next
  fix db q limit after
  assume "ids_valid db"
  then show "user_turns_page_of db q limit after = keyset_page turn_order event_cursor_order turn_cursor
      (user_turns_of db q) (page_limit limit) after"
    by (cases q) (simp add: user_turns_page_of_def page_result_def session_user_turns_page_keyset)
qed (simp_all add: page_limit_pos event_cursor_order_def turn_cursor_def turn_order_def)

section \<open>What a reader of user turns may rely on\<close>

text \<open>C17. The streaming walk that fills one page of turn headers, and stops at the first row that
  makes the page certain, answers exactly what grouping the whole session answers: the first
  \<open>lim\<close> of the grouped headers past the cursor, with more announced exactly when more exist. It
  never meets two turns with one anchor.\<close>

theorem page_headers_grouped:
  assumes "ids_valid db"
  shows "page_headers db source session lim after =
    (let hs = filter (past_cursor after) (grouped_turn_headers db source session)
     in Inr (take lim hs, lim < length hs))"
  using assms unfolding ids_valid_def by (elim conjE) (rule page_headers_walk)

text \<open>C16. The one ordered pass over a session's rows answers, for any strictly ordered list of its
  turns, what three queries per turn answer: the nearest message before the anchor that is not
  the turn's own, the first such message after it, and the turn's rows as blocks in row order.
  It stops early without losing a block or a neighbour, and never reads a byte length that the
  statement left \<open>NULL\<close>.\<close>

theorem fill_user_turns_queries:
  assumes "distinct (map e_id db)" and "turns_of_rows (session_rows db source session) hs"
  shows "fill_user_turns db source session hs =
    Inr (map (turn_by_queries (session_rows db source session) source session) hs)"
  using assms by (rule fill_pass)

text \<open>Reading a session's user turns page by page and following the cursors returns the same
  turns as the whole read, each once and in order, with the same neighbours and blocks. No page
  and no whole read fails.\<close>

lemma session_user_turns_pages_complete:
  assumes "ids_valid db" and "length (user_turns_of db (source, session)) < fuel"
  shows "session_user_turns_all db source session = Inr (user_turns_of db (source, session))
    \<and> walk_pages (\<lambda>after. page_result (session_user_turns_page db source session limit after)) fuel None
      = Some (user_turns_of db (source, session))
    \<and> (\<exists>page. session_user_turns_page db source session limit after = Inr page)"
proof -
  have ids: "distinct (map e_id db)" using assms(1) by (simp add: ids_valid_def)
  have "session_user_turns_all db source session = Inr (user_turns_of db (source, session))"
    using fill_pass [OF ids turns_of_rows_grouped [OF ids]]
    by (simp add: session_user_turns_all_def read_user_turns_def user_turns_of_def)
  moreover have "walk_pages (\<lambda>after. page_result (session_user_turns_page db source session limit after)) fuel None
      = Some (user_turns_of db (source, session))"
    using turn_pages.walk_all [OF assms, of limit] by (simp add: user_turns_page_of_def)
  ultimately show ?thesis using session_user_turns_page_keyset [OF assms(1)] by blast
qed

section \<open>A session with a colliding key\<close>

text \<open>Rows 1 and 2 are one turn: row 2 stores the literal key that unnamed row 1 falls back to.\<close>

definition turn_example :: "session_event list" where
  "turn_example =
     [blank_event 1 5,
      (blank_event 2 6)\<lparr>e_role := ''tool_result'', e_kind := ''tool_result'',
         e_event_source := Some ''tool_result'', e_message_id := Some ''event:1'',
         e_tool_use_id := Some ''t1'', e_payload_bytes := Some 40, e_result_status := Some ''errored''\<rparr>,
      (blank_event 3 7)\<lparr>e_role := ''assistant'', e_message_id := Some ''m3''\<rparr>,
      (blank_event 4 8)\<lparr>e_message_id := Some ''m4'', e_text := Some ''hi''\<rparr>]"

lemma turn_example_ids: "ids_valid turn_example"
  by (simp add: ids_valid_def turn_example_def blank_event_def in_i64_def)

theorem page_headers_grouped_witness:
  "page_headers turn_example ''claude'' ''s1'' 1 None =
     Inr ([\<lparr>uh_key = ''event:1'', uh_ts_ms = 5, uh_id = 1, uh_message_id = Some ''event:1'',
            uh_last_ts_ms = 6\<rparr>], True)"
  unfolding page_headers_grouped [OF turn_example_ids] by code_simp

theorem fill_user_turns_queries_witness:
  "fill_user_turns turn_example ''claude'' ''s1'' (grouped_turn_headers turn_example ''claude'' ''s1'') =
     Inr (map (turn_by_queries (session_rows turn_example ''claude'' ''s1'') ''claude'' ''s1'')
       (grouped_turn_headers turn_example ''claude'' ''s1''))
   \<and> map ut_following_message_id
       (map (turn_by_queries (session_rows turn_example ''claude'' ''s1'') ''claude'' ''s1'')
         (grouped_turn_headers turn_example ''claude'' ''s1'')) = [Some ''m3'', None]"
proof (intro conjI)
  have "distinct (map e_id turn_example)" using turn_example_ids by (simp add: ids_valid_def)
  then show "fill_user_turns turn_example ''claude'' ''s1'' (grouped_turn_headers turn_example ''claude'' ''s1'') =
     Inr (map (turn_by_queries (session_rows turn_example ''claude'' ''s1'') ''claude'' ''s1'')
       (grouped_turn_headers turn_example ''claude'' ''s1''))"
    by (intro fill_user_turns_queries turns_of_rows_grouped)
qed code_simp

lemma session_user_turns_pages_complete_witness:
  "session_user_turns_all turn_example ''claude'' ''s1'' = Inr (user_turns_of turn_example (''claude'', ''s1''))
   \<and> walk_pages (\<lambda>after. page_result (session_user_turns_page turn_example ''claude'' ''s1'' 1 after)) 9 None
      = Some (user_turns_of turn_example (''claude'', ''s1''))"
proof -
  have "length (user_turns_of turn_example (''claude'', ''s1'')) < 9" by code_simp
  then show ?thesis
    using session_user_turns_pages_complete [OF turn_example_ids, of "''claude''" "''s1''" 9 1] by simp
qed

end
