(* ===== verification/ObjectKeys.thy ===== *)
theory ObjectKeys
  imports Prelude "HOL-Library.Word"
begin

text \<open>
  Object keys and the bucket layout of the object-store plugin
  (\<open>src/plugins/object-store/rust/src/key.rs\<close>, \<open>layout.rs\<close>, \<open>error.rs\<close>): which keys are accepted
  on every backend, where a session's objects live, and the names of raw chunks. An error keeps
  its variant and the key it is about; the English of its message is left out.
\<close>

section \<open>Errors\<close>

datatype key_fault =
    KeyEmpty
  | KeyTooLong
  | LeadingDot
  | EmptySegment
  | DotSegment
  | BadCharacter
  | KeyRefused

datatype store_error =
    NotFound string
  | AlreadyExists string
  | PreconditionFailed string
  | ContentMismatch string string string
  | InvalidKey string key_fault
  | InvalidArgument
  | Unsupported
  | Unauthorized
  | Transient
  | ManifestContended string nat
  | BackendError

definition is_retryable :: "store_error \<Rightarrow> bool" where
  "is_retryable e \<longleftrightarrow> (case e of Transient \<Rightarrow> True | ManifestContended _ _ \<Rightarrow> True | _ \<Rightarrow> False)"

section \<open>Keys\<close>

definition MAX_KEY_BYTES :: nat where
  "MAX_KEY_BYTES = 1024"

definition ascii_graphic :: "char \<Rightarrow> bool" where
  "ascii_graphic c \<longleftrightarrow> (33 :: nat) \<le> of_char c \<and> of_char c \<le> (126 :: nat)"

text \<open>The loop over the segments, which stops at the first bad one.\<close>

fun segment_fault :: "string list \<Rightarrow> key_fault option" where
  "segment_fault [] = None"
| "segment_fault (s # ss) =
     (if s = [] then Some EmptySegment
      else if s = ''.'' \<or> s = ''..'' then Some DotSegment
      else segment_fault ss)"

definition key_character :: "char \<Rightarrow> bool" where
  "key_character c \<longleftrightarrow>
     ascii_graphic c \<and> of_char c \<noteq> (92 :: nat)
     \<and> c \<notin> set [CHR ''%'', CHR ''*'', CHR ''?'', CHR ''#'', CHR ''['', CHR '']'']"

definition key_fault_of :: "string \<Rightarrow> key_fault option" where
  "key_fault_of key =
     (if key = [] then Some KeyEmpty
      else if MAX_KEY_BYTES < length key then Some KeyTooLong
      else if hd key = CHR ''.'' then Some LeadingDot
      else (case segment_fault (split_char (CHR ''/'') key) of
              Some f \<Rightarrow> Some f
            | None \<Rightarrow> if list_all key_character key then None else Some BadCharacter))"

text \<open>\<open>ObjectKey\<close> is a newtype over a string that passed \<open>validate\<close>.\<close>

datatype object_key = ObjectKey (as_str_key: string)

definition object_key_new :: "string \<Rightarrow> store_error + object_key" where
  "object_key_new key =
     (case key_fault_of key of None \<Rightarrow> Inr (ObjectKey key) | Some f \<Rightarrow> Inl (InvalidKey key f))"

definition key_join :: "object_key \<Rightarrow> string \<Rightarrow> store_error + object_key" where
  "key_join k rest = object_key_new (as_str_key k @ ''/'' @ rest)"

definition file_name :: "object_key \<Rightarrow> string" where
  "file_name k = last (split_char (CHR ''/'') (as_str_key k))"

section \<open>The layout of a session\<close>

definition LAYOUT_VERSION :: string where
  "LAYOUT_VERSION = ''v1''"

definition MANIFEST_FILE :: string where
  "MANIFEST_FILE = ''manifest.json''"

datatype raw_format = Jsonl | Ndjson | SqliteRows

fun extension :: "raw_format \<Rightarrow> string" where
  "extension Jsonl = ''jsonl''"
| "extension Ndjson = ''ndjson''"
| "extension SqliteRows = ''sqlite-rows''"

text \<open>\<open>chrono::NaiveDate\<close> by its year, month and day.\<close>

record naive_date =
  nd_year :: int
  nd_month :: nat
  nd_day :: nat

record session_location =
  sl_prefix :: "string option"
  sl_workspace_id :: string
  sl_machine_id :: string
  sl_harness :: string
  sl_start_date :: naive_date
  sl_session_id :: string

definition ascii_digit :: "char \<Rightarrow> bool" where
  "ascii_digit c \<longleftrightarrow> (48 :: nat) \<le> of_char c \<and> of_char c \<le> (57 :: nat)"

definition ascii_lower :: "char \<Rightarrow> bool" where
  "ascii_lower c \<longleftrightarrow> (97 :: nat) \<le> of_char c \<and> of_char c \<le> (122 :: nat)"

definition ascii_upper :: "char \<Rightarrow> bool" where
  "ascii_upper c \<longleftrightarrow> (65 :: nat) \<le> of_char c \<and> of_char c \<le> (90 :: nat)"

definition ascii_hexdigit :: "char \<Rightarrow> bool" where
  "ascii_hexdigit c \<longleftrightarrow> ascii_digit c
     \<or> ((97 :: nat) \<le> of_char c \<and> of_char c \<le> (102 :: nat))
     \<or> ((65 :: nat) \<le> of_char c \<and> of_char c \<le> (70 :: nat))"

definition to_ascii_lower :: "char \<Rightarrow> char" where
  "to_ascii_lower c = (if ascii_upper c then char_of (of_char c + 32 :: nat) else c)"

definition component_character :: "char \<Rightarrow> bool" where
  "component_character c \<longleftrightarrow> ascii_digit c \<or> ascii_lower c \<or> ascii_upper c
     \<or> c = CHR ''-'' \<or> c = CHR ''_'' \<or> c = CHR ''.''"

definition component_ok :: "string \<Rightarrow> bool" where
  "component_ok v \<longleftrightarrow> v \<noteq> [] \<and> length v \<le> 128 \<and> hd v \<noteq> CHR ''.'' \<and> list_all component_character v"

definition check_component :: "string \<Rightarrow> store_error + unit" where
  "check_component v = (if component_ok v then Inr () else Inl InvalidArgument)"

text \<open>\<open>{:0w}\<close>: digits after zeros up to the width, the sign counted in it.\<close>

definition zero_pad :: "nat \<Rightarrow> string \<Rightarrow> string" where
  "zero_pad w ds = replicate (w - length ds) (CHR ''0'') @ ds"

definition pad_int :: "nat \<Rightarrow> int \<Rightarrow> string" where
  "pad_int w i = (if i < 0 then CHR ''-'' # zero_pad (w - 1) (nat_to_dec (nat (- i)))
                  else zero_pad w (nat_to_dec (nat i)))"

definition trim_slashes :: "string \<Rightarrow> string" where
  "trim_slashes s = rev (dropWhile (\<lambda>c. c = CHR ''/'') (rev (dropWhile (\<lambda>c. c = CHR ''/'') s)))"

definition under_prefix :: "string option \<Rightarrow> string \<Rightarrow> store_error + object_key" where
  "under_prefix prefix tail =
     (case map_option trim_slashes prefix of
        Some p \<Rightarrow> if p \<noteq> [] then object_key_new (p @ ''/'' @ tail) else object_key_new tail
      | None \<Rightarrow> object_key_new tail)"

definition date_path :: "naive_date \<Rightarrow> string" where
  "date_path d = pad_int 4 (nd_year d) @ ''/'' @ zero_pad 2 (nat_to_dec (nd_month d))
     @ ''/'' @ zero_pad 2 (nat_to_dec (nd_day d))"

definition machine_tail :: "session_location \<Rightarrow> string" where
  "machine_tail l = LAYOUT_VERSION @ ''/ws='' @ sl_workspace_id l @ ''/m='' @ sl_machine_id l"

definition session_prefix :: "session_location \<Rightarrow> store_error + object_key" where
  "session_prefix l =
     and_then (check_component (sl_workspace_id l)) (\<lambda>_.
     and_then (check_component (sl_machine_id l)) (\<lambda>_.
     and_then (check_component (sl_harness l)) (\<lambda>_.
     and_then (check_component (sl_session_id l)) (\<lambda>_.
       under_prefix (sl_prefix l)
         (machine_tail l @ ''/h='' @ sl_harness l @ ''/d='' @ date_path (sl_start_date l)
            @ ''/s='' @ sl_session_id l)))))"

definition machine_prefix :: "session_location \<Rightarrow> store_error + object_key" where
  "machine_prefix l =
     and_then (check_component (sl_workspace_id l)) (\<lambda>_.
     and_then (check_component (sl_machine_id l)) (\<lambda>_.
       under_prefix (sl_prefix l) (machine_tail l)))"

definition manifest_key :: "session_location \<Rightarrow> store_error + object_key" where
  "manifest_key l = and_then (session_prefix l) (\<lambda>k. key_join k MANIFEST_FILE)"

definition chunk_file_name :: "64 word \<Rightarrow> 64 word \<Rightarrow> string \<Rightarrow> raw_format \<Rightarrow> string" where
  "chunk_file_name seq start_offset short fmt =
     zero_pad 10 (nat_to_dec (unat seq)) @ ''-'' @ nat_to_dec (unat start_offset) @ ''-'' @ short
       @ ''.'' @ extension fmt @ ''.zst''"

definition raw_chunk ::
  "session_location \<Rightarrow> 64 word \<Rightarrow> 64 word \<Rightarrow> string \<Rightarrow> raw_format \<Rightarrow> store_error + object_key" where
  "raw_chunk l seq start_offset sha256_hex fmt =
     (if length sha256_hex < 8 \<or> \<not> list_all ascii_hexdigit sha256_hex then Inl InvalidArgument
      else and_then (session_prefix l) (\<lambda>k.
        key_join k (''raw/''
          @ chunk_file_name seq start_offset (map to_ascii_lower (take 8 sha256_hex)) fmt)))"

definition raw_prefix :: "session_location \<Rightarrow> store_error + object_key" where
  "raw_prefix l = and_then (session_prefix l) (\<lambda>k. key_join k ''raw'')"

definition normalized_key :: "session_location \<Rightarrow> 32 word \<Rightarrow> string \<Rightarrow> store_error + object_key" where
  "normalized_key l version name =
     and_then (session_prefix l) (\<lambda>k.
       key_join k (''normalized/v'' @ nat_to_dec (unat version) @ ''/'' @ name))"

section \<open>Reading a chunk name back\<close>

record raw_chunk_name =
  rc_seq :: "64 word"
  rc_start_offset :: "64 word"
  rc_sha256_8 :: string
  rc_format :: raw_format

definition strip_suffix :: "string \<Rightarrow> string \<Rightarrow> string option" where
  "strip_suffix suf s =
     (if length suf \<le> length s \<and> drop (length s - length suf) s = suf
      then Some (take (length s - length suf) s) else None)"

definition ends_with :: "string \<Rightarrow> string \<Rightarrow> bool" where
  "ends_with suf s \<longleftrightarrow> strip_suffix suf s \<noteq> None"

text \<open>\<open>str::parse::<u64>\<close>: an optional \<open>+\<close>, then at least one digit, in range.\<close>

definition parse_u64 :: "string \<Rightarrow> 64 word option" where
  "parse_u64 s =
     (let ds = (case s of c # cs \<Rightarrow> if c = CHR ''+'' then cs else s | [] \<Rightarrow> s)
      in if ds = [] then None
         else Option.bind (digits_value 0 ds) (\<lambda>v. if v < 2 ^ 64 then Some (word_of_int v) else None))"

definition split_once :: "char \<Rightarrow> string \<Rightarrow> (string \<times> string) option" where
  "split_once d s =
     (case dropWhile (\<lambda>c. c \<noteq> d) s of
        [] \<Rightarrow> None
      | _ # rest \<Rightarrow> Some (takeWhile (\<lambda>c. c \<noteq> d) s, rest))"

text \<open>\<open>find_map\<close> over the formats in declaration order.\<close>

definition strip_format :: "string \<Rightarrow> (string \<times> raw_format) option" where
  "strip_format stem =
     List.find (\<lambda>_. True) (List.map_filter (\<lambda>f.
       map_option (\<lambda>s. (s, f)) (Option.bind (strip_suffix (extension f) stem) (strip_suffix ''.'')))
       [Jsonl, Ndjson, SqliteRows])"

definition parse_chunk_name :: "string \<Rightarrow> raw_chunk_name option" where
  "parse_chunk_name name =
     Option.bind (strip_suffix ''.zst'' name) (\<lambda>stem.
     Option.bind (strip_format stem) (\<lambda>(stem, fmt).
     Option.bind (split_once (CHR ''-'') stem) (\<lambda>(seq, rest).
     Option.bind (split_once (CHR ''-'') rest) (\<lambda>(offset, sha).
     Option.bind (parse_u64 offset) (\<lambda>start_offset.
       if length seq \<noteq> 10 \<or> length sha \<noteq> 8 then None
       else map_option (\<lambda>n. \<lparr>rc_seq = n, rc_start_offset = start_offset, rc_sha256_8 = sha,
              rc_format = fmt\<rparr>) (parse_u64 seq))))))"

end
