(* ===== verification/Manifest.thy ===== *)
theory Manifest
  imports ObjectKeys Json
begin

text \<open>
  The session manifest of the object-store plugin (\<open>src/plugins/object-store/rust/src/manifest\<close>):
  its types (\<open>types.rs\<close>), the rules every reader checks (\<open>validate.rs\<close>), the edits of the
  client (\<open>client.rs\<close>) and of the server (\<open>server.rs\<close>). SHA-256, hex coding and RFC 3339
  parsing are library code and come in as the record \<open>manifest_lib\<close>; the current time is an
  argument. An issue keeps its JSON path and the rule it breaks.
\<close>

type_synonym u32 = "32 word"

section \<open>Types\<close>

definition MANIFEST_SCHEMA_VERSION :: u32 where
  "MANIFEST_SCHEMA_VERSION = 1"

type_synonym extra = "(string \<times> json) list"

record session_section =
  ss_workspace_id :: string
  ss_machine_id :: string
  ss_harness :: string
  ss_session_id :: string
  ss_started_at :: string
  ss_ended_at :: "string option"
  ss_harness_version :: "string option"
  ss_cwd_sha256 :: "string option"
  ss_parent_session_id :: "string option"
  ss_extra :: extra

record writer_section =
  ws_delivery_instance_id :: string
  ws_plugin_version :: string
  ws_host_version :: "string option"
  ws_extra :: extra

datatype raw_state = Open | Closed

datatype compression = Zstd

record scrub_marker =
  sc_ruleset :: string
  sc_version :: u32
  sc_extra :: extra

datatype epoch_reason = Initial | Truncated | Rewritten

record epoch_record =
  er_epoch :: u32
  er_opened_at :: string
  er_reason :: epoch_reason
  er_first_seq :: u64
  er_opened_by :: string
  er_extra :: extra

record chunk_entry =
  ce_seq :: u64
  ce_epoch :: u32
  ce_start_offset :: u64
  ce_bytes :: u64
  ce_stored_bytes :: u64
  ce_sha256 :: string
  ce_sha256_8 :: string
  ce_stored_sha256 :: string
  ce_stored_raw_bytes :: "u64 option"
  ce_raw_sha256 :: "string option"
  ce_compression :: compression
  ce_records :: "u64 option"
  ce_first_ts :: "string option"
  ce_last_ts :: "string option"
  ce_extra :: extra

record raw_section =
  rw_owner :: string
  rw_state :: raw_state
  rw_updated_at :: string
  rw_format :: raw_format
  rw_compression :: compression
  rw_chunk_count :: u64
  rw_raw_bytes :: u64
  rw_stored_bytes :: u64
  rw_content_sha256 :: string
  rw_epoch :: u32
  rw_epochs :: "epoch_record list"
  rw_next_offset :: u64
  rw_chunks :: "chunk_entry list"
  rw_scrub :: "scrub_marker option"
  rw_extra :: extra

datatype lifecycle = Active | Idle | Abandoned | Archived

record normalized_section =
  nm_version :: u32
  nm_source_content_sha256 :: string
  nm_source_epoch :: u32
  nm_built_at :: string
  nm_manifest_key :: "string option"
  nm_extra :: extra

record retention_section =
  rt_delete_after :: "string option"
  rt_legal_hold :: "bool option"
  rt_extra :: extra

record server_section =
  sv_updated_at :: string
  sv_normalized :: "normalized_section option"
  sv_lifecycle :: lifecycle
  sv_lifecycle_at :: string
  sv_lifecycle_reason :: "string option"
  sv_retention :: "retention_section option"
  sv_extra :: extra

record manifest =
  mf_schema_v :: u32
  mf_layout :: string
  mf_trace_id :: string
  mf_revision :: u64
  mf_created_at :: string
  mf_updated_at :: string
  mf_session :: session_section
  mf_writer :: writer_section
  mf_raw :: raw_section
  mf_server :: "server_section option"
  mf_extensions :: "extra option"
  mf_extra :: extra

datatype effective_state = EClosed | EActive | EIdle | EAbandoned | EArchived

definition manifest_lifecycle :: "manifest \<Rightarrow> lifecycle" where
  "manifest_lifecycle m = (case mf_server m of None \<Rightarrow> Active | Some s \<Rightarrow> sv_lifecycle s)"

definition effective_state_of :: "manifest \<Rightarrow> effective_state" where
  "effective_state_of m =
     (if rw_state (mf_raw m) = Closed then EClosed
      else (case manifest_lifecycle m of
              Active \<Rightarrow> EActive | Idle \<Rightarrow> EIdle | Abandoned \<Rightarrow> EAbandoned | Archived \<Rightarrow> EArchived))"

definition is_scrubbed :: "manifest \<Rightarrow> bool" where
  "is_scrubbed m \<longleftrightarrow> rw_scrub (mf_raw m) \<noteq> None"

definition normalized_is_current :: "manifest \<Rightarrow> bool" where
  "normalized_is_current m =
     (case Option.bind (mf_server m) sv_normalized of
        None \<Rightarrow> False
      | Some n \<Rightarrow> nm_source_content_sha256 n = rw_content_sha256 (mf_raw m)
                  \<and> nm_source_epoch n = rw_epoch (mf_raw m))"

section \<open>Library code\<close>

text \<open>\<open>ml_utc_date t\<close> is \<open>None\<close> where \<open>t\<close> is not RFC 3339, and otherwise its UTC date as
  \<open>%Y/%m/%d\<close>.\<close>

record manifest_lib =
  ml_sha256 :: "string \<Rightarrow> string"
  ml_hex_encode :: "string \<Rightarrow> string"
  ml_hex_decode :: "string \<Rightarrow> string option"
  ml_utc_date :: "string \<Rightarrow> string option"

section \<open>The hash chain\<close>

text \<open>\<open>to_be_bytes\<close> of a word of \<open>n\<close> bytes.\<close>

definition be_bytes :: "nat \<Rightarrow> nat \<Rightarrow> string" where
  "be_bytes n v = map (\<lambda>i. char_of (v div 256 ^ i)) (rev [0..<n])"

definition chain_step :: "manifest_lib \<Rightarrow> string \<Rightarrow> chunk_entry \<Rightarrow> string" where
  "chain_step lib h c =
     ml_sha256 lib (h @ be_bytes 4 (unat (ce_epoch c)) @ be_bytes 8 (unat (ce_start_offset c))
       @ be_bytes 8 (unat (ce_bytes c))
       @ (case ml_hex_decode lib (ce_sha256 c) of Some d \<Rightarrow> d | None \<Rightarrow> replicate 32 (char_of (0 :: nat))))"

definition content_sha256 :: "manifest_lib \<Rightarrow> chunk_entry list \<Rightarrow> string" where
  "content_sha256 lib cs =
     ml_hex_encode lib (foldl (chain_step lib) (replicate 32 (char_of (0 :: nat))) cs)"

section \<open>Validation\<close>

datatype rule =
    WrongSchema | WrongLayout | NotUuidV7 | NotPositive | NotRfc3339 | NotHex64 | BadComponent | IsEmpty
  | CountDiffers | SumDiffers | SumOverflows | ChainDiffers | NoEpochs | WrongNumber | WrongReason
  | WrongFirstSeq | EpochCountDiffers | NotDigestPrefix | EmptyChunk | BeyondEpoch | EpochDecreases
  | EndOverflows | NotContiguous | WrongEpochStart | MissingField | KeyDiffers

type_synonym issue = "string \<times> rule"

definition check_that :: "bool \<Rightarrow> string \<Rightarrow> rule \<Rightarrow> issue list" where
  "check_that ok path r = (if ok then [] else [(path, r)])"

definition check_timestamp :: "manifest_lib \<Rightarrow> string \<Rightarrow> string \<Rightarrow> issue list" where
  "check_timestamp lib path t = check_that (ml_utc_date lib t \<noteq> None) path NotRfc3339"

definition is_hex64 :: "string \<Rightarrow> bool" where
  "is_hex64 s \<longleftrightarrow> length s = 64
     \<and> list_all (\<lambda>c. ascii_digit c \<or> ((97 :: nat) \<le> of_char c \<and> of_char c \<le> (102 :: nat))) s"

definition check_hex64 :: "string \<Rightarrow> string \<Rightarrow> issue list" where
  "check_hex64 path s = check_that (is_hex64 s) path NotHex64"

definition check_opt :: "('a \<Rightarrow> issue list) \<Rightarrow> 'a option \<Rightarrow> issue list" where
  "check_opt f x = (case x of None \<Rightarrow> [] | Some y \<Rightarrow> f y)"

text \<open>The \<open>&&\<close> of the code stops before an index out of range.\<close>

definition is_uuid_v7 :: "string \<Rightarrow> bool" where
  "is_uuid_v7 s \<longleftrightarrow> length s = 36
     \<and> list_all (\<lambda>i. s ! i = CHR ''-'') [8, 13, 18, 23]
     \<and> s ! 14 = CHR ''7''
     \<and> to_ascii_lower (s ! 19) \<in> set ''89ab''
     \<and> list_all (\<lambda>i. i \<in> set [8, 13, 18, 23] \<or> ascii_hexdigit (s ! i)) [0..<36]"

definition check_header :: "manifest_lib \<Rightarrow> manifest \<Rightarrow> issue list" where
  "check_header lib m =
     check_that (mf_schema_v m = MANIFEST_SCHEMA_VERSION) ''schema_v'' WrongSchema
     @ check_that (mf_layout m = LAYOUT_VERSION) ''layout'' WrongLayout
     @ check_that (is_uuid_v7 (mf_trace_id m)) ''trace_id'' NotUuidV7
     @ check_that (mf_revision m \<noteq> 0) ''revision'' NotPositive
     @ check_timestamp lib ''created_at'' (mf_created_at m)
     @ check_timestamp lib ''updated_at'' (mf_updated_at m)"

definition check_session :: "manifest_lib \<Rightarrow> manifest \<Rightarrow> issue list" where
  "check_session lib m =
     (let s = mf_session m in
      concat (map (\<lambda>(path, v). check_that (component_ok v) path BadComponent)
        [(''session.workspace_id'', ss_workspace_id s), (''session.machine_id'', ss_machine_id s),
         (''session.harness'', ss_harness s), (''session.session_id'', ss_session_id s)])
      @ check_timestamp lib ''session.started_at'' (ss_started_at s)
      @ check_opt (check_timestamp lib ''session.ended_at'') (ss_ended_at s)
      @ check_opt (check_hex64 ''session.cwd_sha256'') (ss_cwd_sha256 s)
      @ check_that (rw_owner (mf_raw m) \<noteq> []) ''raw.owner'' IsEmpty
      @ check_timestamp lib ''raw.updated_at'' (rw_updated_at (mf_raw m)))"

text \<open>\<open>try_fold(0, u64::checked_add)\<close>.\<close>

fun try_sum :: "u64 \<Rightarrow> u64 list \<Rightarrow> u64 option" where
  "try_sum acc [] = Some acc"
| "try_sum acc (x # xs) = Option.bind (checked_add_u64 acc x) (\<lambda>s. try_sum s xs)"

definition check_total :: "string \<Rightarrow> u64 \<Rightarrow> u64 list \<Rightarrow> issue list" where
  "check_total path declared values =
     (case try_sum 0 values of
        Some s \<Rightarrow> check_that (s = declared) path SumDiffers
      | None \<Rightarrow> [(path, SumOverflows)])"

definition check_raw_totals :: "manifest_lib \<Rightarrow> manifest \<Rightarrow> issue list" where
  "check_raw_totals lib m =
     (let raw = mf_raw m in
      check_that (rw_chunk_count raw = of_nat (length (rw_chunks raw))) ''raw.chunk_count'' CountDiffers
      @ check_total ''raw.raw_bytes'' (rw_raw_bytes raw) (map ce_bytes (rw_chunks raw))
      @ check_total ''raw.stored_bytes'' (rw_stored_bytes raw) (map ce_stored_bytes (rw_chunks raw))
      @ check_hex64 ''raw.content_sha256'' (rw_content_sha256 raw)
      @ check_that (content_sha256 lib (rw_chunks raw) = rw_content_sha256 raw)
          ''raw.content_sha256'' ChainDiffers)"

definition at_index :: "string \<Rightarrow> nat \<Rightarrow> string \<Rightarrow> string" where
  "at_index arr i field = arr @ ''['' @ nat_to_dec i @ '']'' @ field"

definition check_epoch :: "manifest_lib \<Rightarrow> raw_section \<Rightarrow> nat \<Rightarrow> epoch_record \<Rightarrow> issue list" where
  "check_epoch lib raw i e =
     check_that (unat (er_epoch e) = i) (at_index ''raw.epochs'' i ''.epoch'') WrongNumber
     @ check_that ((i = 0) = (er_reason e = Initial)) (at_index ''raw.epochs'' i ''.reason'') WrongReason
     @ check_timestamp lib (at_index ''raw.epochs'' i ''.opened_at'') (er_opened_at e)
     @ check_that (er_first_seq e = of_nat (length (filter (\<lambda>c. ce_epoch c < er_epoch e) (rw_chunks raw))))
         (at_index ''raw.epochs'' i ''.first_seq'') WrongFirstSeq"

definition check_epochs :: "manifest_lib \<Rightarrow> manifest \<Rightarrow> issue list" where
  "check_epochs lib m =
     (let raw = mf_raw m in
      check_that (rw_epochs raw \<noteq> []) ''raw.epochs'' NoEpochs
      @ concat (map (\<lambda>(i, e). check_epoch lib raw i e) (List.enumerate 0 (rw_epochs raw)))
      @ check_that (unat (rw_epoch raw) + 1 = length (rw_epochs raw)) ''raw.epoch'' EpochCountDiffers)"

text \<open>The first chunk of an epoch carries the epoch's recorded \<open>first_seq\<close>.\<close>

definition check_epoch_start :: "raw_section \<Rightarrow> nat \<Rightarrow> chunk_entry \<Rightarrow> bool \<Rightarrow> issue list" where
  "check_epoch_start raw i c first_of_epoch =
     (if first_of_epoch \<and> unat (ce_epoch c) < length (rw_epochs raw) then
        check_that (er_first_seq (rw_epochs raw ! unat (ce_epoch c)) = ce_seq c)
          (at_index ''raw.chunks'' i ''.seq'') WrongEpochStart
      else [])"

definition check_chunk ::
  "manifest_lib \<Rightarrow> raw_section \<Rightarrow> nat \<Rightarrow> chunk_entry \<Rightarrow> chunk_entry option \<Rightarrow> issue list" where
  "check_chunk lib raw i c prev =
     (let path = at_index ''raw.chunks'' i;
          first_of_epoch = (case prev of None \<Rightarrow> True | Some p \<Rightarrow> ce_epoch p \<noteq> ce_epoch c);
          expected = (case prev of
              Some p \<Rightarrow> if \<not> first_of_epoch then checked_add_u64 (ce_start_offset p) (ce_bytes p) else Some 0
            | None \<Rightarrow> Some 0)
      in check_that (ce_seq c = of_nat i) (path ''.seq'') WrongNumber
         @ check_hex64 (path ''.sha256'') (ce_sha256 c)
         @ check_hex64 (path ''.stored_sha256'') (ce_stored_sha256 c)
         @ check_opt (check_timestamp lib (path ''.first_ts'')) (ce_first_ts c)
         @ check_opt (check_timestamp lib (path ''.last_ts'')) (ce_last_ts c)
         @ check_that (8 \<le> length (ce_sha256 c) \<and> take 8 (ce_sha256 c) = ce_sha256_8 c)
             (path ''.sha256_8'') NotDigestPrefix
         @ check_that (ce_bytes c \<noteq> 0 \<and> ce_stored_bytes c \<noteq> 0) (path []) EmptyChunk
         @ check_that (ce_epoch c \<le> rw_epoch raw) (path ''.epoch'') BeyondEpoch
         @ check_that (case prev of None \<Rightarrow> True | Some p \<Rightarrow> ce_epoch p \<le> ce_epoch c)
             (path ''.epoch'') EpochDecreases
         @ check_epoch_start raw i c first_of_epoch
         @ (case expected of
              None \<Rightarrow> [(path ''.start_offset'', EndOverflows)]
            | Some x \<Rightarrow> check_that (ce_start_offset c = x) (path ''.start_offset'') NotContiguous))"

fun check_chunks_from ::
  "manifest_lib \<Rightarrow> raw_section \<Rightarrow> nat \<Rightarrow> chunk_entry option \<Rightarrow> chunk_entry list \<Rightarrow> issue list" where
  "check_chunks_from lib raw i prev [] = []"
| "check_chunks_from lib raw i prev (c # cs) =
     check_chunk lib raw i c prev @ check_chunks_from lib raw (Suc i) (Some c) cs"

text \<open>Where the current epoch ends: after its last chunk, or at 0.\<close>

definition epoch_end :: "(u64 \<Rightarrow> u64 \<Rightarrow> 'a) \<Rightarrow> 'a \<Rightarrow> raw_section \<Rightarrow> 'a" where
  "epoch_end add zero raw =
     (case List.find (\<lambda>c. ce_epoch c = rw_epoch raw) (rev (rw_chunks raw)) of
        None \<Rightarrow> zero
      | Some c \<Rightarrow> add (ce_start_offset c) (ce_bytes c))"

definition check_next_offset :: "raw_section \<Rightarrow> issue list" where
  "check_next_offset raw =
     (case epoch_end checked_add_u64 (Some 0) raw of
        None \<Rightarrow> [(''raw.next_offset'', EndOverflows)]
      | Some x \<Rightarrow> check_that (rw_next_offset raw = x) ''raw.next_offset'' NotContiguous)"

definition check_chunks :: "manifest_lib \<Rightarrow> manifest \<Rightarrow> issue list" where
  "check_chunks lib m =
     check_chunks_from lib (mf_raw m) 0 None (rw_chunks (mf_raw m)) @ check_next_offset (mf_raw m)"

definition check_scrubbed_chunk :: "nat \<Rightarrow> chunk_entry \<Rightarrow> issue list" where
  "check_scrubbed_chunk i c =
     (case ce_stored_raw_bytes c of
        None \<Rightarrow> [(at_index ''raw.chunks'' i ''.stored_raw_bytes'', MissingField)]
      | Some n \<Rightarrow> check_that (n \<noteq> 0) (at_index ''raw.chunks'' i ''.stored_raw_bytes'') NotPositive)
     @ (case ce_raw_sha256 c of
          Some h \<Rightarrow> check_hex64 (at_index ''raw.chunks'' i ''.raw_sha256'') h
        | None \<Rightarrow> [(at_index ''raw.chunks'' i ''.raw_sha256'', MissingField)])"

definition check_scrub :: "manifest \<Rightarrow> issue list" where
  "check_scrub m =
     (case rw_scrub (mf_raw m) of
        None \<Rightarrow> []
      | Some marker \<Rightarrow>
          check_that (sc_ruleset marker \<noteq> []) ''raw.scrub.ruleset'' IsEmpty
          @ check_that (sc_version marker \<noteq> 0) ''raw.scrub.version'' NotPositive
          @ concat (map (\<lambda>(i, c). check_scrubbed_chunk i c) (List.enumerate 0 (rw_chunks (mf_raw m)))))"

definition check_normalized :: "manifest_lib \<Rightarrow> raw_section \<Rightarrow> normalized_section \<Rightarrow> issue list" where
  "check_normalized lib raw n =
     check_that (nm_version n \<noteq> 0) ''server.normalized.version'' NotPositive
     @ check_hex64 ''server.normalized.source_content_sha256'' (nm_source_content_sha256 n)
     @ check_that (nm_source_epoch n \<le> rw_epoch raw) ''server.normalized.source_epoch'' BeyondEpoch
     @ check_timestamp lib ''server.normalized.built_at'' (nm_built_at n)"

definition check_server :: "manifest_lib \<Rightarrow> manifest \<Rightarrow> issue list" where
  "check_server lib m =
     check_opt (\<lambda>s.
       check_timestamp lib ''server.updated_at'' (sv_updated_at s)
       @ check_timestamp lib ''server.lifecycle_at'' (sv_lifecycle_at s)
       @ check_opt (check_normalized lib (mf_raw m)) (sv_normalized s)
       @ check_opt (check_timestamp lib ''server.retention.delete_after'')
           (Option.bind (sv_retention s) rt_delete_after)) (mf_server m)"

definition check_key :: "manifest_lib \<Rightarrow> manifest \<Rightarrow> object_key \<Rightarrow> issue list" where
  "check_key lib m key =
     (let s = mf_session m;
          date = (case ml_utc_date lib (ss_started_at s) of None \<Rightarrow> [] | Some d \<Rightarrow> d);
          tail = LAYOUT_VERSION @ ''/ws='' @ ss_workspace_id s @ ''/m='' @ ss_machine_id s @ ''/h=''
            @ ss_harness s @ ''/d='' @ date @ ''/s='' @ ss_session_id s @ ''/manifest.json'';
          k = as_str_key key
      in check_that (k = tail \<or> ends_with (''/'' @ tail) k) ''$key'' KeyDiffers)"

definition validate :: "manifest_lib \<Rightarrow> manifest \<Rightarrow> object_key option \<Rightarrow> issue list" where
  "validate lib m key =
     check_header lib m @ check_session lib m @ check_raw_totals lib m @ check_epochs lib m
     @ check_chunks lib m @ check_scrub m @ check_server lib m @ check_opt (check_key lib m) key"

definition ensure_valid :: "manifest_lib \<Rightarrow> manifest \<Rightarrow> object_key option \<Rightarrow> store_error + unit" where
  "ensure_valid lib m key = (if validate lib m key = [] then Inr () else Inl InvalidArgument)"

end
