(* ===== verification/ManifestEdits.thy ===== *)
theory ManifestEdits
  imports Manifest
begin

text \<open>
  The edits of a manifest: what the delivering client does to its sections
  (\<open>manifest/client.rs\<close>) and what the server does to its own (\<open>manifest/server.rs\<close>). \<open>now\<close>
  is the text \<open>now_rfc3339\<close> answered.
\<close>

section \<open>The client: is this writer stale\<close>

record client_ack =
  ca_revision :: u64
  ca_chunk_count :: u64
  ca_content_sha256 :: string
  ca_epoch :: u32

definition ack_of :: "manifest \<Rightarrow> client_ack" where
  "ack_of m = \<lparr>ca_revision = mf_revision m, ca_chunk_count = rw_chunk_count (mf_raw m),
     ca_content_sha256 = rw_content_sha256 (mf_raw m), ca_epoch = rw_epoch (mf_raw m)\<rparr>"

datatype rollback = RevisionBehind | ChunksBehind | NotAPrefix | EpochBehind

datatype remote_state =
    Fenced string
  | RolledBack rollback
  | Unchanged
  | Extended u64 u32

definition may_write :: "remote_state \<Rightarrow> bool" where
  "may_write s \<longleftrightarrow> (case s of Unchanged \<Rightarrow> True | Extended _ _ \<Rightarrow> True | _ \<Rightarrow> False)"

definition classify ::
  "manifest_lib \<Rightarrow> manifest \<Rightarrow> string \<Rightarrow> client_ack option \<Rightarrow> remote_state" where
  "classify lib remote owner ack =
     (let raw = mf_raw remote in
      if rw_owner raw \<noteq> owner then Fenced (rw_owner raw)
      else (case ack of
        None \<Rightarrow> Unchanged
      | Some a \<Rightarrow>
          if mf_revision remote < ca_revision a then RolledBack RevisionBehind
          else if rw_chunk_count raw < ca_chunk_count a then RolledBack ChunksBehind
          else if content_sha256 lib (take (unat (ca_chunk_count a)) (rw_chunks raw))
                  \<noteq> ca_content_sha256 a then RolledBack NotAPrefix
          else if rw_epoch raw < ca_epoch a then RolledBack EpochBehind
          else if rw_chunk_count raw - ca_chunk_count a = 0 \<and> rw_epoch raw - ca_epoch a = 0
          then Unchanged
          else Extended (rw_chunk_count raw - ca_chunk_count a) (rw_epoch raw - ca_epoch a)))"

section \<open>The client: appending chunks\<close>

record new_chunk =
  nc_start_offset :: u64
  nc_bytes :: u64
  nc_stored_bytes :: u64
  nc_sha256 :: string
  nc_stored_sha256 :: string
  nc_stored_raw_bytes :: "u64 option"
  nc_raw_sha256 :: "string option"
  nc_records :: "u64 option"
  nc_first_ts :: "string option"
  nc_last_ts :: "string option"

definition bad_chunk :: "new_chunk \<Rightarrow> bool" where
  "bad_chunk c \<longleftrightarrow> nc_bytes c = 0 \<or> nc_stored_bytes c = 0 \<or> nc_stored_raw_bytes c = Some 0
     \<or> \<not> is_hex64 (nc_sha256 c) \<or> \<not> is_hex64 (nc_stored_sha256 c)
     \<or> (case nc_raw_sha256 c of None \<Rightarrow> False | Some h \<Rightarrow> \<not> is_hex64 h)"

definition entry_of :: "raw_section \<Rightarrow> nat \<Rightarrow> new_chunk \<Rightarrow> chunk_entry" where
  "entry_of raw i c =
     \<lparr>ce_seq = rw_chunk_count raw + of_nat i, ce_epoch = rw_epoch raw,
      ce_start_offset = nc_start_offset c, ce_bytes = nc_bytes c, ce_stored_bytes = nc_stored_bytes c,
      ce_sha256 = nc_sha256 c, ce_sha256_8 = take 8 (nc_sha256 c),
      ce_stored_sha256 = nc_stored_sha256 c, ce_stored_raw_bytes = nc_stored_raw_bytes c,
      ce_raw_sha256 = nc_raw_sha256 c, ce_compression = Zstd, ce_records = nc_records c,
      ce_first_ts = nc_first_ts c, ce_last_ts = nc_last_ts c, ce_extra = []\<rparr>"

fun plan_from ::
  "raw_section \<Rightarrow> nat \<Rightarrow> u64 \<Rightarrow> new_chunk list \<Rightarrow> store_error + chunk_entry list" where
  "plan_from raw i next_offset [] = Inr []"
| "plan_from raw i next_offset (c # cs) =
     (if nc_start_offset c \<noteq> next_offset then Inl InvalidArgument
      else if bad_chunk c then Inl InvalidArgument
      else and_then (ok_or (checked_add_u64 next_offset (nc_bytes c)) InvalidArgument) (\<lambda>next.
           and_then (plan_from raw (Suc i) next cs) (\<lambda>es. Inr (entry_of raw i c # es))))"

definition plan_chunks :: "raw_section \<Rightarrow> new_chunk list \<Rightarrow> store_error + chunk_entry list" where
  "plan_chunks raw cs = plan_from raw 0 (rw_next_offset raw) cs"

definition recompute :: "manifest_lib \<Rightarrow> raw_section \<Rightarrow> raw_section" where
  "recompute lib raw =
     raw\<lparr>rw_chunk_count := of_nat (length (rw_chunks raw)),
         rw_raw_bytes := foldl (\<lambda>a c. saturating_add_u64 a (ce_bytes c)) 0 (rw_chunks raw),
         rw_stored_bytes := foldl (\<lambda>a c. saturating_add_u64 a (ce_stored_bytes c)) 0 (rw_chunks raw),
         rw_content_sha256 := content_sha256 lib (rw_chunks raw),
         rw_next_offset := epoch_end saturating_add_u64 0 raw\<rparr>"

definition apply_chunks ::
  "manifest_lib \<Rightarrow> string \<Rightarrow> raw_section \<Rightarrow> chunk_entry list \<Rightarrow> store_error + raw_section" where
  "apply_chunks lib now raw entries =
     (if (case entries of
            [] \<Rightarrow> False
          | first # _ \<Rightarrow> ce_seq first \<noteq> rw_chunk_count raw \<or> ce_epoch first \<noteq> rw_epoch raw
                       \<or> ce_start_offset first \<noteq> rw_next_offset raw)
      then Inl InvalidArgument
      else Inr ((recompute lib (raw\<lparr>rw_chunks := rw_chunks raw @ entries\<rparr>))\<lparr>rw_updated_at := now\<rparr>))"

section \<open>The client: epochs, scrub marker, state\<close>

definition open_epoch ::
  "string \<Rightarrow> raw_section \<Rightarrow> epoch_reason \<Rightarrow> store_error + (raw_section \<times> u32)" where
  "open_epoch now raw reason =
     (if reason = Initial then Inl InvalidArgument
      else (let epoch = rw_epoch raw + 1
        in Inr (raw\<lparr>rw_epochs := rw_epochs raw @ [\<lparr>er_epoch = epoch, er_opened_at = now,
                   er_reason = reason, er_first_seq = rw_chunk_count raw,
                   er_opened_by = rw_owner raw, er_extra = []\<rparr>],
                 rw_epoch := epoch, rw_next_offset := 0, rw_updated_at := now\<rparr>, epoch)))"

definition record_scrub ::
  "string \<Rightarrow> raw_section \<Rightarrow> string \<Rightarrow> u32 \<Rightarrow> store_error + raw_section" where
  "record_scrub now raw ruleset version =
     (case rw_scrub raw of
        None \<Rightarrow>
          if rw_chunks raw \<noteq> [] then Inl InvalidArgument
          else Inr (raw\<lparr>rw_scrub := Some \<lparr>sc_ruleset = ruleset, sc_version = version, sc_extra = []\<rparr>,
                        rw_updated_at := now\<rparr>)
      | Some m \<Rightarrow>
          if sc_ruleset m = ruleset then
            (if sc_version m \<le> version then Inr raw
             else Inr (raw\<lparr>rw_scrub := Some (m\<lparr>sc_version := version\<rparr>), rw_updated_at := now\<rparr>))
          else Inl InvalidArgument)"

definition set_state :: "string \<Rightarrow> raw_section \<Rightarrow> raw_state \<Rightarrow> raw_section" where
  "set_state now raw st =
     (if rw_state raw \<noteq> st then raw\<lparr>rw_state := st, rw_updated_at := now\<rparr> else raw)"

record new_manifest_params =
  np_trace_id :: string
  np_session :: session_section
  np_writer :: writer_section
  np_format :: raw_format

definition new_manifest :: "manifest_lib \<Rightarrow> string \<Rightarrow> new_manifest_params \<Rightarrow> manifest" where
  "new_manifest lib now p =
     (let owner = ws_delivery_instance_id (np_writer p);
          raw = recompute lib
            \<lparr>rw_owner = owner, rw_state = Open, rw_updated_at = now, rw_format = np_format p,
             rw_compression = Zstd, rw_chunk_count = 0, rw_raw_bytes = 0, rw_stored_bytes = 0,
             rw_content_sha256 = [], rw_epoch = 0,
             rw_epochs = [\<lparr>er_epoch = 0, er_opened_at = now, er_reason = Initial, er_first_seq = 0,
                           er_opened_by = owner, er_extra = []\<rparr>],
             rw_next_offset = 0, rw_chunks = [], rw_scrub = None, rw_extra = []\<rparr>
      in \<lparr>mf_schema_v = MANIFEST_SCHEMA_VERSION, mf_layout = LAYOUT_VERSION,
          mf_trace_id = np_trace_id p, mf_revision = 1, mf_created_at = now, mf_updated_at = now,
          mf_session = np_session p, mf_writer = np_writer p, mf_raw = raw, mf_server = None,
          mf_extensions = None, mf_extra = []\<rparr>)"

section \<open>The server\<close>

text \<open>Durations are seconds; \<open>age\<close> is the whole time since \<open>raw.updated_at\<close>, and 0 where that
  time is unreadable or in the future.\<close>

record lifecycle_policy =
  lp_idle_after :: nat
  lp_abandoned_after :: nat

definition default_lifecycle_policy :: lifecycle_policy where
  "default_lifecycle_policy = \<lparr>lp_idle_after = 24 * 60 * 60, lp_abandoned_after = 14 * 24 * 60 * 60\<rparr>"

definition lifecycle_for :: "manifest \<Rightarrow> nat \<Rightarrow> lifecycle_policy \<Rightarrow> lifecycle" where
  "lifecycle_for m age policy =
     (if manifest_lifecycle m = Archived then Archived
      else if lp_abandoned_after policy \<le> age \<and> rw_state (mf_raw m) = Open then Abandoned
      else if lp_idle_after policy \<le> age then Idle
      else Active)"

definition server_section_of :: "string \<Rightarrow> manifest \<Rightarrow> server_section" where
  "server_section_of now m =
     (case mf_server m of
        Some s \<Rightarrow> s
      | None \<Rightarrow> \<lparr>sv_updated_at = now, sv_normalized = None, sv_lifecycle = Active,
                 sv_lifecycle_at = now, sv_lifecycle_reason = None, sv_retention = None,
                 sv_extra = []\<rparr>)"

definition with_lifecycle ::
  "string \<Rightarrow> manifest \<Rightarrow> lifecycle \<Rightarrow> string option \<Rightarrow> server_section option" where
  "with_lifecycle now m lc reason =
     (let s = server_section_of now m;
          changed = (mf_server m = None \<or> sv_lifecycle s \<noteq> lc)
      in if \<not> changed \<and> sv_lifecycle_reason s = reason then None
         else (let s1 = (if changed then s\<lparr>sv_lifecycle := lc, sv_lifecycle_at := now\<rparr> else s)
               in Some (s1\<lparr>sv_lifecycle_reason := reason, sv_updated_at := now\<rparr>)))"

definition with_normalized ::
  "string \<Rightarrow> manifest \<Rightarrow> manifest \<Rightarrow> u32 \<Rightarrow> string option \<Rightarrow> server_section" where
  "with_normalized now read current version key =
     (let s = server_section_of now current
      in s\<lparr>sv_normalized := Some
            \<lparr>nm_version = version, nm_source_content_sha256 = rw_content_sha256 (mf_raw read),
             nm_source_epoch = rw_epoch (mf_raw read), nm_built_at = now, nm_manifest_key = key,
             nm_extra = (case sv_normalized s of None \<Rightarrow> [] | Some n \<Rightarrow> nm_extra n)\<rparr>,
           sv_updated_at := now\<rparr>)"

definition quarantined :: "manifest \<Rightarrow> bool" where
  "quarantined m \<longleftrightarrow> \<not> is_scrubbed m"

definition needs_transform :: "manifest \<Rightarrow> bool" where
  "needs_transform m \<longleftrightarrow> \<not> quarantined m \<and> \<not> normalized_is_current m"

record pointer_row =
  pr_workspace_id :: string
  pr_machine_id :: string
  pr_harness :: string
  pr_session_id :: string
  pr_started_at :: string
  pr_ended_at :: "string option"
  pr_state :: effective_state
  pr_lifecycle :: lifecycle
  pr_trace_id :: string
  pr_manifest_revision :: u64
  pr_raw_bytes :: u64
  pr_stored_bytes :: u64
  pr_chunk_count :: u64
  pr_raw_epoch :: u32
  pr_content_sha256 :: string
  pr_normalized_version :: "u32 option"
  pr_normalized_stale :: bool
  pr_scrubbed :: bool

definition pointer_fields :: "manifest \<Rightarrow> pointer_row" where
  "pointer_fields m =
     (let s = mf_session m; raw = mf_raw m; normalized = Option.bind (mf_server m) sv_normalized
      in \<lparr>pr_workspace_id = ss_workspace_id s, pr_machine_id = ss_machine_id s,
          pr_harness = ss_harness s, pr_session_id = ss_session_id s,
          pr_started_at = ss_started_at s, pr_ended_at = ss_ended_at s,
          pr_state = effective_state_of m, pr_lifecycle = manifest_lifecycle m,
          pr_trace_id = mf_trace_id m, pr_manifest_revision = mf_revision m,
          pr_raw_bytes = rw_raw_bytes raw, pr_stored_bytes = rw_stored_bytes raw,
          pr_chunk_count = rw_chunk_count raw, pr_raw_epoch = rw_epoch raw,
          pr_content_sha256 = rw_content_sha256 raw,
          pr_normalized_version = map_option nm_version normalized,
          pr_normalized_stale = (normalized \<noteq> None \<and> \<not> normalized_is_current m),
          pr_scrubbed = is_scrubbed m\<rparr>)"

end
