(* ===== verification/ManifestUpdate.thy ===== *)
theory ManifestUpdate
  imports ManifestEdits
begin

text \<open>
  Writing a manifest (\<open>manifest/merge.rs\<close>, \<open>manifest/update.rs\<close>): one section is spliced into
  the document just read, unknown fields are carried over, and the document is stored by
  compare-and-swap, again from the start when another writer was faster. A document is the
  member list of a JSON object in insertion order. The serializers \<open>serde\<close> derives are the
  record \<open>manifest_serde\<close>.
\<close>

type_synonym doc = "(string \<times> json) list"

section \<open>Known fields\<close>

definition known_fields :: "string \<Rightarrow> string list" where
  "known_fields path =
     (if path = ''session'' then
        [''workspace_id'', ''machine_id'', ''harness'', ''session_id'', ''started_at'', ''ended_at'',
         ''harness_version'', ''cwd_sha256'', ''parent_session_id'']
      else if path = ''writer'' then [''delivery_instance_id'', ''plugin_version'', ''host_version'']
      else if path = ''raw'' then
        [''owner'', ''state'', ''updated_at'', ''format'', ''compression'', ''chunk_count'', ''raw_bytes'',
         ''stored_bytes'', ''content_sha256'', ''epoch'', ''epochs'', ''next_offset'', ''chunks'', ''scrub'']
      else if path = ''raw.scrub'' then [''ruleset'', ''version'']
      else if path = ''raw.chunks[]'' then
        [''seq'', ''epoch'', ''start_offset'', ''bytes'', ''stored_bytes'', ''sha256'', ''sha256_8'',
         ''stored_sha256'', ''stored_raw_bytes'', ''raw_sha256'', ''compression'', ''records'', ''first_ts'',
         ''last_ts'']
      else if path = ''raw.epochs[]'' then [''epoch'', ''opened_at'', ''reason'', ''first_seq'', ''opened_by'']
      else if path = ''server'' then
        [''updated_at'', ''normalized'', ''lifecycle'', ''lifecycle_at'', ''lifecycle_reason'', ''retention'']
      else if path = ''server.normalized'' then
        [''version'', ''source_content_sha256'', ''source_epoch'', ''built_at'', ''manifest_key'']
      else if path = ''server.retention'' then [''delete_after'', ''legal_hold'']
      else [])"

definition nested :: "string \<Rightarrow> (string \<times> string option) list" where
  "nested path =
     (if path = ''raw'' then [(''chunks'', Some ''seq''), (''epochs'', Some ''epoch''), (''scrub'', None)]
      else if path = ''server'' then [(''normalized'', None), (''retention'', None)]
      else [])"

section \<open>Carrying unknown fields over\<close>

text \<open>\<open>Map::insert\<close>: in place where the key is present, at the end otherwise.\<close>

fun doc_insert :: "string \<Rightarrow> json \<Rightarrow> doc \<Rightarrow> doc" where
  "doc_insert k v [] = [(k, v)]"
| "doc_insert k v ((l, w) # d) = (if l = k then (k, v) # d else (l, w) # doc_insert k v d)"

definition doc_has :: "doc \<Rightarrow> string \<Rightarrow> bool" where
  "doc_has d k \<longleftrightarrow> map_of d k \<noteq> None"

definition carry_fields :: "string \<Rightarrow> doc \<Rightarrow> doc \<Rightarrow> doc" where
  "carry_fields path stored next =
     fold (\<lambda>(k, v) n. if k \<notin> set (known_fields path) \<and> \<not> doc_has n k then doc_insert k v n else n)
       stored next"

text \<open>The stored entries by identity: of two with one identity the later one is kept.\<close>

definition entries_by_id :: "string \<Rightarrow> json list \<Rightarrow> u64 \<Rightarrow> json option" where
  "entries_by_id ident xs =
     map_of (rev (List.map_filter (\<lambda>o'. map_option (\<lambda>k. (k, o')) (Option.bind (json_get o' ident) as_u64)) xs))"

definition carry_in_array :: "(json \<Rightarrow> json \<Rightarrow> json) \<Rightarrow> string \<Rightarrow> json \<Rightarrow> json \<Rightarrow> json" where
  "carry_in_array carry ident stored next =
     (case (stored, next) of
        (JArray os, JArray ns) \<Rightarrow>
          JArray (map (\<lambda>e. case Option.bind (Option.bind (json_get e ident) as_u64) (entries_by_id ident os) of
                            None \<Rightarrow> e | Some old \<Rightarrow> carry old e) ns)
      | _ \<Rightarrow> next)"

definition path_rank :: "string \<Rightarrow> nat" where
  "path_rank path = (if path = ''raw'' \<or> path = ''server'' then 1 else 0)"

function carry_unknown :: "json \<Rightarrow> json \<Rightarrow> string \<Rightarrow> json" where
  "carry_unknown stored next path =
     (case (stored, next) of
        (JObject s, JObject n) \<Rightarrow>
          JObject (fold (\<lambda>(field, ident) n'.
              case (map_of s field, map_of n' field) of
                (Some old, Some new) \<Rightarrow>
                  doc_insert field
                    (case ident of
                       None \<Rightarrow> carry_unknown old new (path @ ''.'' @ field)
                     | Some i \<Rightarrow> carry_in_array (\<lambda>o' e. carry_unknown o' e (path @ ''.'' @ field @ ''[]'')) i old new) n'
              | _ \<Rightarrow> n') (nested path) (carry_fields path s n))
      | _ \<Rightarrow> next)"
  by pat_completeness auto
termination
  by (relation "measure (\<lambda>(s, n, path). path_rank path)")
     (auto simp: nested_def path_rank_def split: if_splits)

declare carry_unknown.simps [simp del]

text \<open>\<open>put_section\<close>, for a section already serialized to \<open>value\<close>.\<close>

definition put_section :: "doc \<Rightarrow> string \<Rightarrow> json \<Rightarrow> string list \<Rightarrow> doc" where
  "put_section d name section_value removed =
     (let v = (case map_of d name of None \<Rightarrow> section_value | Some stored \<Rightarrow> carry_unknown stored section_value name);
          v' = (case v of
                  JObject n \<Rightarrow> JObject (filter (\<lambda>(k, _). k \<in> set (known_fields name) \<or> k \<notin> set removed) n)
                | _ \<Rightarrow> v)
      in doc_insert name v' d)"

section \<open>Reading and parsing\<close>

record manifest_serde =
  sd_manifest :: "manifest \<Rightarrow> doc"
  sd_session :: "session_section \<Rightarrow> json"
  sd_writer :: "writer_section \<Rightarrow> json"
  sd_raw :: "raw_section \<Rightarrow> json"
  sd_server :: "server_section \<Rightarrow> json"
  sd_print :: "doc \<Rightarrow> string"
  sd_parse :: "string \<Rightarrow> json option"
  sd_typed :: "json \<Rightarrow> manifest option"

definition parse_manifest ::
  "manifest_lib \<Rightarrow> manifest_serde \<Rightarrow> string \<Rightarrow> object_key option \<Rightarrow> store_error + manifest" where
  "parse_manifest lib sd body key =
     and_then (ok_or (sd_parse sd body) InvalidArgument) (\<lambda>v.
       if (case Option.bind (json_get v ''schema_v'') as_u64 of
             None \<Rightarrow> False | Some n \<Rightarrow> ucast MANIFEST_SCHEMA_VERSION < n)
       then Inl Unsupported
       else and_then (ok_or (sd_typed sd v) InvalidArgument) (\<lambda>m.
            and_then (ensure_valid lib m key) (\<lambda>_. Inr m)))"

section \<open>The store, at one key\<close>

text \<open>What \<open>ObjectStore\<close> promises of one object: a body and a version that no other body had.\<close>

record stored =
  so_object :: "(string \<times> nat) option"
  so_next_version :: nat

definition store_write :: "string \<Rightarrow> stored \<Rightarrow> stored" where
  "store_write body st =
     \<lparr>so_object = Some (body, so_next_version st), so_next_version = so_next_version st + 1\<rparr>"

datatype put_mode = PutCreate | PutReplace nat

text \<open>A create of the bytes already stored is an idempotent success and writes nothing.\<close>

definition store_put :: "string \<Rightarrow> put_mode \<Rightarrow> string \<Rightarrow> stored \<Rightarrow> (store_error + nat) \<times> stored" where
  "store_put key md body st =
     (case md of
        PutCreate \<Rightarrow>
          (case so_object st of
             None \<Rightarrow> (Inr (so_next_version st), store_write body st)
           | Some (b, v) \<Rightarrow> if b = body then (Inr v, st) else (Inl (AlreadyExists key), st))
      | PutReplace v \<Rightarrow>
          (case so_object st of
             Some (b, v') \<Rightarrow>
               if v' = v then (Inr (so_next_version st), store_write body st)
               else (Inl (PreconditionFailed key), st)
           | None \<Rightarrow> (Inl (PreconditionFailed key), st)))"

section \<open>The write loop\<close>

record client_removals =
  cr_session :: "string list"
  cr_writer :: "string list"
  cr_raw :: "string list"

datatype edit =
    EditUnchanged
  | EditCreate manifest
  | EditClient session_section writer_section raw_section client_removals
  | EditServer server_section "string list"

record updated =
  up_manifest :: "manifest option"
  up_version :: "nat option"
  up_written :: bool
  up_attempts :: nat

definition create_doc :: "manifest_lib \<Rightarrow> manifest_serde \<Rightarrow> manifest \<Rightarrow> store_error + doc" where
  "create_doc lib sd m =
     (let m1 = m\<lparr>mf_revision := 1\<rparr>
      in and_then (ensure_valid lib m1 None) (\<lambda>_. Inr (sd_manifest sd m1)))"

definition bump :: "string \<Rightarrow> doc \<Rightarrow> doc" where
  "bump now d =
     (let revision = (case Option.bind (map_of d ''revision'') as_u64 of None \<Rightarrow> 0 | Some r \<Rightarrow> r) + 1
      in doc_insert ''updated_at'' (JString now) (doc_insert ''revision'' (JNumber (PosInt revision)) d))"

text \<open>The next document of an edit, and how it is to be put.\<close>

definition next_doc ::
  "manifest_lib \<Rightarrow> manifest_serde \<Rightarrow> string \<Rightarrow> string \<Rightarrow> (doc \<times> nat) option \<Rightarrow> edit
    \<Rightarrow> store_error + (doc \<times> put_mode)" where
  "next_doc lib sd now key current ed =
     (case ed of
        EditCreate m \<Rightarrow>
          (case current of
             Some _ \<Rightarrow> Inl InvalidArgument
           | None \<Rightarrow> and_then (create_doc lib sd m) (\<lambda>d. Inr (d, PutCreate)))
      | EditClient s w r removed \<Rightarrow>
          and_then (ok_or current (NotFound key)) (\<lambda>(d, v).
            Inr (bump now (put_section (put_section (put_section d ''session'' (sd_session sd s) (cr_session removed))
                   ''writer'' (sd_writer sd w) (cr_writer removed)) ''raw'' (sd_raw sd r) (cr_raw removed)),
                 PutReplace v))
      | EditServer s removed \<Rightarrow>
          and_then (ok_or current (NotFound key)) (\<lambda>(d, v).
            Inr (bump now (put_section d ''server'' (sd_server sd s) removed), PutReplace v))
      | EditUnchanged \<Rightarrow> Inl InvalidArgument)"

definition read_manifest ::
  "manifest_lib \<Rightarrow> manifest_serde \<Rightarrow> object_key \<Rightarrow> (string \<times> nat) option
    \<Rightarrow> store_error + (doc \<times> manifest \<times> nat) option" where
  "read_manifest lib sd key got =
     (case got of
        None \<Rightarrow> Inr None
      | Some (body, v) \<Rightarrow>
          and_then (parse_manifest lib sd body (Some key)) (\<lambda>m.
          and_then (ok_or (Option.bind (sd_parse sd body) as_object) InvalidArgument) (\<lambda>d.
            Inr (Some (d, m, v)))))"

text \<open>What happens around one attempt: the get fails, others write between the read and the put,
  or the put fails.\<close>

record surroundings =
  en_get_error :: "nat \<Rightarrow> store_error option"
  en_writes :: "nat \<Rightarrow> string list"
  en_put_error :: "nat \<Rightarrow> store_error option"

text \<open>A get that reports the object missing is no error of \<open>read\<close>.\<close>

definition get_object :: "surroundings \<Rightarrow> nat \<Rightarrow> stored \<Rightarrow> store_error + (string \<times> nat) option" where
  "get_object env attempt st =
     (case en_get_error env attempt of
        None \<Rightarrow> Inr (so_object st)
      | Some e \<Rightarrow> (case e of NotFound _ \<Rightarrow> Inr None | _ \<Rightarrow> Inl e))"

definition interfere :: "surroundings \<Rightarrow> nat \<Rightarrow> stored \<Rightarrow> stored" where
  "interfere env attempt st = fold store_write (en_writes env attempt) st"

text \<open>What an attempt is about to put, once the edit has been computed from the manifest read.\<close>

datatype prepared =
    Done updated
  | Ready string put_mode manifest

definition prepare ::
  "manifest_lib \<Rightarrow> manifest_serde \<Rightarrow> (nat \<Rightarrow> string) \<Rightarrow> object_key \<Rightarrow> (manifest option \<Rightarrow> store_error + edit)
    \<Rightarrow> nat \<Rightarrow> (string \<times> nat) option \<Rightarrow> store_error + prepared" where
  "prepare lib sd now key edit attempt got =
     and_then (read_manifest lib sd key got) (\<lambda>current.
     and_then (edit (map_option (\<lambda>(_, m, _). m) current)) (\<lambda>ed.
       if ed = EditUnchanged then
         Inr (Done \<lparr>up_manifest = map_option (\<lambda>(_, m, _). m) current,
                    up_version = map_option (\<lambda>(_, _, v). v) current,
                    up_written = False, up_attempts = attempt\<rparr>)
       else
         and_then (next_doc lib sd (now attempt) (as_str_key key) (map_option (\<lambda>(d, _, v). (d, v)) current) ed)
           (\<lambda>(next, md).
         and_then (parse_manifest lib sd (sd_print sd next) (Some key)) (\<lambda>m.
           Inr (Ready (sd_print sd next) md m)))))"

definition lost_race :: "store_error \<Rightarrow> bool" where
  "lost_race e \<longleftrightarrow> (case e of PreconditionFailed _ \<Rightarrow> True | AlreadyExists _ \<Rightarrow> True | _ \<Rightarrow> False)"

definition put_attempt ::
  "surroundings \<Rightarrow> object_key \<Rightarrow> nat \<Rightarrow> string \<Rightarrow> put_mode \<Rightarrow> stored \<Rightarrow> (store_error + nat) \<times> stored" where
  "put_attempt env key attempt body md st =
     (case en_put_error env attempt of
        Some e \<Rightarrow> (Inl e, st)
      | None \<Rightarrow> store_put (as_str_key key) md body st)"

fun update_from ::
  "manifest_lib \<Rightarrow> manifest_serde \<Rightarrow> (nat \<Rightarrow> string) \<Rightarrow> object_key \<Rightarrow> (manifest option \<Rightarrow> store_error + edit)
    \<Rightarrow> surroundings \<Rightarrow> nat \<Rightarrow> nat \<Rightarrow> stored \<Rightarrow> (store_error + updated) \<times> stored" where
  "update_from lib sd now key edit env 0 attempt st =
     (Inl (ManifestContended (as_str_key key) (attempt - 1)), st)"
| "update_from lib sd now key edit env (Suc left) attempt st =
     (case and_then (get_object env attempt st) (prepare lib sd now key edit attempt) of
        Inl e \<Rightarrow> (Inl e, st)
      | Inr (Done u) \<Rightarrow> (Inr u, st)
      | Inr (Ready body md m) \<Rightarrow>
          (case put_attempt env key attempt body md (interfere env attempt st) of
             (Inr v, st') \<Rightarrow>
               (Inr \<lparr>up_manifest = Some m, up_version = Some v, up_written = True, up_attempts = attempt\<rparr>, st')
           | (Inl e, st') \<Rightarrow>
               if lost_race e then update_from lib sd now key edit env left (Suc attempt) st'
               else (Inl e, st')))"

definition update_manifest ::
  "manifest_lib \<Rightarrow> manifest_serde \<Rightarrow> (nat \<Rightarrow> string) \<Rightarrow> object_key \<Rightarrow> nat \<Rightarrow> (manifest option \<Rightarrow> store_error + edit)
    \<Rightarrow> surroundings \<Rightarrow> stored \<Rightarrow> (store_error + updated) \<times> stored" where
  "update_manifest lib sd now key max_attempts edit env st =
     update_from lib sd now key edit env (max max_attempts 1) 1 st"

end
