(* ===== verification/ManifestFacts.thy ===== *)
theory ManifestFacts
  imports ManifestEdits
begin

text \<open>
  What the manifest protocol promises about the edits: from a new manifest, no sequence of client
  and server edits leaves the set of manifests every reader accepts; a client that follows the
  protocol is never told that its own session went backwards; and a transform is marked current
  exactly while the raw content it read is.
\<close>

lemma check_that_Nil [simp]: "check_that ok p r = [] \<longleftrightarrow> ok"
  by (simp add: check_that_def)

lemma check_timestamp_Nil [simp]: "check_timestamp lib p t = [] \<longleftrightarrow> ml_utc_date lib t \<noteq> None"
  by (simp add: check_timestamp_def)

lemma check_hex64_Nil [simp]: "check_hex64 p s = [] \<longleftrightarrow> is_hex64 s"
  by (simp add: check_hex64_def)

lemma check_opt_Nil: "check_opt f x = [] \<longleftrightarrow> (\<forall>y. x = Some y \<longrightarrow> f y = [])"
  by (simp add: check_opt_def split: option.split)

lemma validate_Nil:
  "validate lib m None = [] \<longleftrightarrow> check_header lib m = [] \<and> check_session lib m = []
     \<and> check_raw_totals lib m = [] \<and> check_epochs lib m = [] \<and> check_chunks lib m = []
     \<and> check_scrub m = [] \<and> check_server lib m = []"
  by (simp add: validate_def check_opt_def)

lemma enumerate_Nil_iff:
  "concat (map (\<lambda>(i, x). f i x) (List.enumerate 0 xs)) = [] \<longleftrightarrow> (\<forall>i < length xs. f i (xs ! i) = [])"
proof -
  have "List.enumerate 0 xs = map (\<lambda>i. (i, xs ! i)) [0..<length xs]"
    by (rule nth_equalityI) (simp_all add: nth_enumerate_eq)
  then show ?thesis by auto
qed

lemma check_epochs_Nil:
  "check_epochs lib m = [] \<longleftrightarrow> rw_epochs (mf_raw m) \<noteq> []
     \<and> (\<forall>i < length (rw_epochs (mf_raw m)). check_epoch lib (mf_raw m) i (rw_epochs (mf_raw m) ! i) = [])
     \<and> unat (rw_epoch (mf_raw m)) + 1 = length (rw_epochs (mf_raw m))"
  unfolding check_epochs_def Let_def append_is_Nil_conv enumerate_Nil_iff check_that_Nil by simp

lemma check_scrubbed_chunk_Nil:
  "check_scrubbed_chunk i c = [] \<longleftrightarrow>
     (\<exists>n h. ce_stored_raw_bytes c = Some n \<and> n \<noteq> 0 \<and> ce_raw_sha256 c = Some h \<and> is_hex64 h)"
  by (auto simp: check_scrubbed_chunk_def split: option.split)

lemma check_scrub_Nil:
  "check_scrub m = [] \<longleftrightarrow> (\<forall>marker. rw_scrub (mf_raw m) = Some marker \<longrightarrow>
     sc_ruleset marker \<noteq> [] \<and> sc_version marker \<noteq> 0
     \<and> (\<forall>c \<in> set (rw_chunks (mf_raw m)). check_scrubbed_chunk 0 c = []))"
proof (cases "rw_scrub (mf_raw m)")
  case (Some marker)
  show ?thesis
    unfolding check_scrub_def Some option.case append_is_Nil_conv check_that_Nil enumerate_Nil_iff
    by (simp add: check_scrubbed_chunk_Nil all_set_conv_all_nth)
qed (simp add: check_scrub_def)

section \<open>Sums\<close>

lemma try_sum_saturating: "try_sum acc xs = Some s \<Longrightarrow> foldl saturating_add_u64 acc xs = s"
  by (induction acc xs rule: try_sum.induct)
     (auto simp: bind_eq_Some_conv checked_add_u64_def saturating_add_u64_def split: if_splits)

lemma foldl_map_fields: "foldl (\<lambda>a c. f a (g c)) z xs = foldl f z (map g xs)"
  by (induction xs arbitrary: z) simp_all

lemma check_total_Nil: "check_total p d xs = [] \<longleftrightarrow> try_sum 0 xs = Some d"
  by (auto simp: check_total_def split: option.split)

section \<open>Chunks of an epoch\<close>

text \<open>What the chunk rules use of a raw section beside the chunk itself.\<close>

lemma check_chunks_from_cong:
  assumes "rw_epochs raw' = rw_epochs raw" and "rw_epoch raw' = rw_epoch raw"
  shows "check_chunks_from lib raw' i prev cs = check_chunks_from lib raw i prev cs"
  by (induction cs arbitrary: i prev) (simp_all add: check_chunk_def check_epoch_start_def assms Let_def)

lemma check_chunks_from_append:
  "check_chunks_from lib raw i prev (xs @ ys) =
     check_chunks_from lib raw i prev xs
     @ check_chunks_from lib raw (i + length xs) (if xs = [] then prev else Some (last xs)) ys"
  by (induction lib raw i prev xs rule: check_chunks_from.induct) (auto split: if_splits)

lemma check_chunk_epoch:
  assumes "check_chunk lib raw i c prev = []"
  shows "ce_epoch c \<le> rw_epoch raw" and "\<And>p. prev = Some p \<Longrightarrow> ce_epoch p \<le> ce_epoch c"
  using assms by (auto simp: check_chunk_def Let_def)

lemma chunk_epochs_bounded:
  "check_chunks_from lib raw i prev cs = [] \<Longrightarrow> c \<in> set cs \<Longrightarrow> ce_epoch c \<le> rw_epoch raw"
  by (induction lib raw i prev cs rule: check_chunks_from.induct) (auto dest: check_chunk_epoch)

lemma chunk_epochs_ascend:
  "check_chunks_from lib raw i prev cs = [] \<Longrightarrow> c \<in> set cs \<Longrightarrow> ce_epoch c \<le> ce_epoch (last cs)"
proof (induction lib raw i prev cs arbitrary: c rule: check_chunks_from.induct)
  case (2 lib raw i prev x xs)
  show ?case
  proof (cases xs)
    case (Cons y ys)
    then have "ce_epoch x \<le> ce_epoch y"
      using 2(2) check_chunk_epoch(2) [of lib raw "Suc i" y "Some x"] by simp
    moreover have "ce_epoch y \<le> ce_epoch (last xs)" using 2(1) [of y] 2(2) Cons by simp
    ultimately have "ce_epoch x \<le> ce_epoch (last xs)" by (rule order_trans)
    then show ?thesis using 2 Cons by (cases "c = x") auto
  qed (use 2 in simp)
qed simp

lemma find_rev_last:
  assumes "xs \<noteq> []" and "p (last xs)"
  shows "List.find p (rev xs) = Some (last xs)"
  using assms by (cases xs rule: rev_cases) simp_all

lemma find_rev_None:
  "List.find p (rev xs) = None \<longleftrightarrow> (\<forall>x \<in> set xs. \<not> p x)"
  by (auto simp: find_None_iff)

text \<open>Where the current epoch ends, by its last chunk.\<close>

lemma epoch_end_cases:
  assumes "check_chunks_from lib raw i prev (rw_chunks raw) = []"
  shows "epoch_end add zero raw =
    (if rw_chunks raw \<noteq> [] \<and> ce_epoch (last (rw_chunks raw)) = rw_epoch raw
     then add (ce_start_offset (last (rw_chunks raw))) (ce_bytes (last (rw_chunks raw))) else zero)"
proof (cases "rw_chunks raw \<noteq> [] \<and> ce_epoch (last (rw_chunks raw)) = rw_epoch raw")
  case True
  then show ?thesis by (simp add: epoch_end_def find_rev_last)
next
  case False
  have "ce_epoch c \<noteq> rw_epoch raw" if c: "c \<in> set (rw_chunks raw)" for c
  proof
    assume "ce_epoch c = rw_epoch raw"
    moreover have "ce_epoch c \<le> ce_epoch (last (rw_chunks raw))" by (rule chunk_epochs_ascend [OF assms c])
    moreover have "ce_epoch (last (rw_chunks raw)) \<le> rw_epoch raw"
      using c by (intro chunk_epochs_bounded [OF assms]) (auto intro: last_in_set)
    ultimately show False using False c by auto
  qed
  then have "List.find (\<lambda>c. ce_epoch c = rw_epoch raw) (rev (rw_chunks raw)) = None"
    by (simp add: find_rev_None)
  then show ?thesis unfolding if_not_P [OF False] epoch_end_def by simp
qed

section \<open>Appending\<close>

definition chunk_readable :: "manifest_lib \<Rightarrow> bool \<Rightarrow> new_chunk \<Rightarrow> bool" where
  "chunk_readable lib scrubbed c \<longleftrightarrow>
     (\<forall>t. nc_first_ts c = Some t \<longrightarrow> ml_utc_date lib t \<noteq> None)
     \<and> (\<forall>t. nc_last_ts c = Some t \<longrightarrow> ml_utc_date lib t \<noteq> None)
     \<and> (scrubbed \<longrightarrow> nc_stored_raw_bytes c \<noteq> None \<and> nc_raw_sha256 c \<noteq> None)"

text \<open>How the chunk before a planned one has to fit.\<close>

definition fits_after :: "raw_section \<Rightarrow> nat \<Rightarrow> u64 \<Rightarrow> chunk_entry option \<Rightarrow> bool" where
  "fits_after raw i off prev \<longleftrightarrow>
     (case prev of
        Some p \<Rightarrow> ce_epoch p \<le> rw_epoch raw \<and>
          (if ce_epoch p = rw_epoch raw then checked_add_u64 (ce_start_offset p) (ce_bytes p) = Some off
           else off = 0 \<and> er_first_seq (rw_epochs raw ! unat (rw_epoch raw)) = of_nat i)
      | None \<Rightarrow> off = 0 \<and> er_first_seq (rw_epochs raw ! unat (rw_epoch raw)) = of_nat i)"

lemma entry_of_fields:
  "ce_epoch (entry_of raw i c) = rw_epoch raw" "ce_start_offset (entry_of raw i c) = nc_start_offset c"
  "ce_bytes (entry_of raw i c) = nc_bytes c" "ce_stored_bytes (entry_of raw i c) = nc_stored_bytes c"
  "ce_sha256 (entry_of raw i c) = nc_sha256 c" "ce_sha256_8 (entry_of raw i c) = take 8 (nc_sha256 c)"
  "ce_stored_sha256 (entry_of raw i c) = nc_stored_sha256 c"
  "ce_stored_raw_bytes (entry_of raw i c) = nc_stored_raw_bytes c"
  "ce_raw_sha256 (entry_of raw i c) = nc_raw_sha256 c"
  "ce_first_ts (entry_of raw i c) = nc_first_ts c" "ce_last_ts (entry_of raw i c) = nc_last_ts c"
  by (simp_all add: entry_of_def)

lemma plan_from_checks:
  assumes "plan_from raw i off cs = Inr es" and "rw_chunk_count raw = of_nat n"
    and "fits_after raw (n + i) off prev" and "list_all (chunk_readable lib sc) cs"
  shows "check_chunks_from lib raw (n + i) prev es = []"
  using assms
proof (induction raw i off cs arbitrary: es prev rule: plan_from.induct)
  case (2 raw i off c cs)
  obtain next' es' where step: "nc_start_offset c = off" "\<not> bad_chunk c"
      "checked_add_u64 off (nc_bytes c) = Some next'" "plan_from raw (Suc i) next' cs = Inr es'"
      "es = entry_of raw i c # es'"
    using 2(2) by (auto simp: and_then_Inr ok_or_Inr split: if_splits)
  have "fits_after raw (n + Suc i) next' (Some (entry_of raw i c))"
    using step(1,3) by (simp add: fits_after_def entry_of_def)
  then have rest: "check_chunks_from lib raw (n + Suc i) (Some (entry_of raw i c)) es' = []"
    using 2(1) [OF _ step(2) step(4) 2(3)] step(1) 2(5) by simp
  have seq: "ce_seq (entry_of raw i c) = of_nat (n + i)" by (simp add: entry_of_def 2(3))
  have hex: "is_hex64 (nc_sha256 c)" "is_hex64 (nc_stored_sha256 c)" "nc_bytes c \<noteq> 0" "nc_stored_bytes c \<noteq> 0"
    using step(2) by (simp_all add: bad_chunk_def)
  then have len: "length (nc_sha256 c) = 64" by (simp add: is_hex64_def)
  have ts: "check_opt (check_timestamp lib p) (nc_first_ts c) = []"
      "check_opt (check_timestamp lib p) (nc_last_ts c) = []" for p
    using 2(5) by (auto simp: check_opt_Nil chunk_readable_def)
  have "check_chunk lib raw (n + i) (entry_of raw i c) prev = []"
    using 2(4) seq hex len ts step(1)
    by (cases prev) (simp_all add: check_chunk_def Let_def check_epoch_start_def fits_after_def
        entry_of_fields split: if_splits)
  then show ?case using rest step(5) by simp
qed simp

text \<open>Where a planned list of chunks ends.\<close>

lemma plan_from_end:
  assumes "plan_from raw i off cs = Inr es" and "es \<noteq> []"
  shows "ce_epoch (last es) = rw_epoch raw
    \<and> (\<exists>x. checked_add_u64 (ce_start_offset (last es)) (ce_bytes (last es)) = Some x)"
  using assms
proof (induction raw i off cs arbitrary: es rule: plan_from.induct)
  case (2 raw i off c cs)
  obtain next' es' where step: "nc_start_offset c = off" "\<not> bad_chunk c"
      "checked_add_u64 off (nc_bytes c) = Some next'" "plan_from raw (Suc i) next' cs = Inr es'"
      "es = entry_of raw i c # es'"
    using 2(2) by (auto simp: and_then_Inr ok_or_Inr split: if_splits)
  show ?case
    using 2(1) [OF _ step(2) step(4)] step by (cases "es' = []") (simp_all add: entry_of_fields)
qed simp

lemma plan_from_members:
  "plan_from raw i off cs = Inr es \<Longrightarrow> e \<in> set es \<Longrightarrow>
     \<exists>k c. e = entry_of raw k c \<and> \<not> bad_chunk c \<and> c \<in> set cs"
proof (induction raw i off cs arbitrary: es rule: plan_from.induct)
  case (2 raw i off c cs)
  obtain next' es' where step: "nc_start_offset c = off" "\<not> bad_chunk c"
      "plan_from raw (Suc i) next' cs = Inr es'" "es = entry_of raw i c # es'"
    using 2(2) by (auto simp: and_then_Inr ok_or_Inr split: if_splits)
  then consider "e = entry_of raw i c" | "e \<in> set es'" using 2(3) by auto
  then show ?case
  proof cases
    case 1
    then show ?thesis using step(2) by auto
  next
    case 2
    then show ?thesis using "2.IH" [OF _ step(2,3)] step(1) by auto
  qed
qed simp

lemma plan_from_entries:
  assumes "plan_from raw i off cs = Inr es" and "list_all (chunk_readable lib sc) cs" and "e \<in> set es"
  shows "ce_epoch e = rw_epoch raw"
    and "sc \<Longrightarrow> check_scrubbed_chunk j e = []"
proof -
  obtain k c where e: "e = entry_of raw k c" "\<not> bad_chunk c" "c \<in> set cs"
    using plan_from_members [OF assms(1,3)] by blast
  show "ce_epoch e = rw_epoch raw" by (simp add: e entry_of_fields)
  show "check_scrubbed_chunk j e = []" if sc
    using e assms(2) that
    by (auto simp: check_scrubbed_chunk_def entry_of_fields bad_chunk_def list_all_iff chunk_readable_def
        split: option.split)
qed

section \<open>Steps of a session\<close>

text \<open>\<open>bump\<close> of \<open>manifest/update.rs\<close>, on the typed manifest: every write counts a revision.\<close>

definition bumped :: "string \<Rightarrow> manifest \<Rightarrow> manifest" where
  "bumped now m = m\<lparr>mf_revision := mf_revision m + 1, mf_updated_at := now\<rparr>"

definition is_timestamp :: "manifest_lib \<Rightarrow> string \<Rightarrow> bool" where
  "is_timestamp lib t \<longleftrightarrow> ml_utc_date lib t \<noteq> None"

text \<open>
  One write of either side. What a step asks of its arguments is what the code leaves to the
  validator: readable chunk times, the scrub fields once a marker is set, sums that fit, and
  counters that do not wrap.
\<close>

inductive edit_step :: "manifest_lib \<Rightarrow> manifest \<Rightarrow> manifest \<Rightarrow> bool" for lib where
  append: "edit_step lib m (bumped now (m\<lparr>mf_raw := raw\<rparr>))"
    if "plan_chunks (mf_raw m) cs = Inr es" and "apply_chunks lib now (mf_raw m) es = Inr raw"
      and "list_all (chunk_readable lib (is_scrubbed m)) cs"
      and "try_sum 0 (map ce_bytes (rw_chunks raw)) \<noteq> None"
      and "try_sum 0 (map ce_stored_bytes (rw_chunks raw)) \<noteq> None"
      and "is_timestamp lib now" and "mf_revision m + 1 \<noteq> 0"
      and "length (rw_chunks raw) < 2 ^ 64"
| epoch: "edit_step lib m (bumped now (m\<lparr>mf_raw := raw\<rparr>))"
    if "open_epoch now (mf_raw m) reason = Inr (raw, e)" and "e \<noteq> 0"
      and "is_timestamp lib now" and "mf_revision m + 1 \<noteq> 0"
| scrub: "edit_step lib m (bumped now (m\<lparr>mf_raw := raw\<rparr>))"
    if "record_scrub now (mf_raw m) ruleset version = Inr raw" and "ruleset \<noteq> []" and "version \<noteq> 0"
      and "is_timestamp lib now" and "mf_revision m + 1 \<noteq> 0"
| state: "edit_step lib m (bumped now (m\<lparr>mf_raw := set_state now (mf_raw m) st\<rparr>))"
    if "is_timestamp lib now" and "mf_revision m + 1 \<noteq> 0"
| lifecycle: "edit_step lib m (bumped now (m\<lparr>mf_server := Some s\<rparr>))"
    if "with_lifecycle now m lc reason = Some s"
      and "is_timestamp lib now" and "mf_revision m + 1 \<noteq> 0"
| normalized: "edit_step lib m (bumped now (m\<lparr>mf_server := Some (with_normalized now read m version key)\<rparr>))"
    if "validate lib read None = []" and "rw_epoch (mf_raw read) \<le> rw_epoch (mf_raw m)"
      and "version \<noteq> 0" and "is_timestamp lib now" and "mf_revision m + 1 \<noteq> 0"

text \<open>Everything that can become of a manifest.\<close>

inductive edits :: "manifest_lib \<Rightarrow> manifest \<Rightarrow> manifest \<Rightarrow> bool" for lib m where
  refl: "edits lib m m"
| step: "edits lib m m' \<Longrightarrow> edit_step lib m' m'' \<Longrightarrow> edits lib m m''"

inductive_cases edit_stepE: "edit_step lib m m'"

text \<open>What the documentation of the two libraries says: a SHA-256 digest has 32 bytes, and the hex
  encoding of 32 bytes is 64 lowercase hex digits.\<close>

definition hash_documented :: "manifest_lib \<Rightarrow> bool" where
  "hash_documented lib \<longleftrightarrow> (\<forall>s. length (ml_sha256 lib s) = 32)
     \<and> (\<forall>d. length d = 32 \<longrightarrow> is_hex64 (ml_hex_encode lib d))"

lemma content_sha256_hex:
  assumes "hash_documented lib"
  shows "is_hex64 (content_sha256 lib cs)"
proof -
  have "length (foldl (chain_step lib) h cs) = 32" if "length h = 32" for h
    using that assms by (induction cs arbitrary: h) (simp_all add: chain_step_def hash_documented_def)
  then show ?thesis using assms by (simp add: content_sha256_def hash_documented_def)
qed

section \<open>Every step keeps a manifest valid\<close>

text \<open>The rules that speak of the raw section only.\<close>

definition raw_checks :: "manifest_lib \<Rightarrow> manifest \<Rightarrow> bool" where
  "raw_checks lib m \<longleftrightarrow> check_raw_totals lib m = [] \<and> check_epochs lib m = []
     \<and> check_chunks lib m = [] \<and> check_scrub m = []"

lemma bumped_raw [simp]: "mf_raw (bumped now m) = mf_raw m"
  by (simp add: bumped_def)

lemma raw_checks_bumped [simp]: "raw_checks lib (bumped now m) \<longleftrightarrow> raw_checks lib m"
  unfolding raw_checks_def check_raw_totals_def check_epochs_def check_chunks_def check_scrub_def
    bumped_raw ..

lemma check_server_epoch_mono:
  assumes "check_server lib m = []" and "rw_epoch (mf_raw m) \<le> rw_epoch raw"
  shows "check_server lib (m\<lparr>mf_raw := raw\<rparr>) = []"
  using assms by (auto simp: check_server_def check_opt_Nil check_normalized_def intro: order_trans)

lemma validate_raw_update:
  assumes "validate lib m None = []" and "rw_owner raw = rw_owner (mf_raw m)"
    and "is_timestamp lib (rw_updated_at raw)" and "rw_epoch (mf_raw m) \<le> rw_epoch raw"
    and "raw_checks lib (m\<lparr>mf_raw := raw\<rparr>)" and "is_timestamp lib now" and "mf_revision m + 1 \<noteq> 0"
  shows "validate lib (bumped now (m\<lparr>mf_raw := raw\<rparr>)) None = []"
proof -
  have "check_header lib (bumped now (m\<lparr>mf_raw := raw\<rparr>)) = []"
    using assms(1,6,7) by (simp add: validate_Nil check_header_def bumped_def is_timestamp_def)
  moreover have "check_session lib (bumped now (m\<lparr>mf_raw := raw\<rparr>)) = []"
    using assms(1-3) by (simp add: validate_Nil check_session_def bumped_def is_timestamp_def Let_def)
  moreover have "check_server lib (bumped now (m\<lparr>mf_raw := raw\<rparr>)) = []"
    using check_server_epoch_mono [of lib m raw] assms(1,4)
    by (simp add: validate_Nil check_server_def bumped_def)
  moreover have "raw_checks lib (bumped now (m\<lparr>mf_raw := raw\<rparr>))"
    using assms(5) by simp
  ultimately show ?thesis by (simp add: validate_Nil raw_checks_def)
qed

lemma validate_server_update:
  assumes "validate lib m None = []" and "check_server lib (m\<lparr>mf_server := Some s\<rparr>) = []"
    and "is_timestamp lib now" and "mf_revision m + 1 \<noteq> 0"
  shows "validate lib (bumped now (m\<lparr>mf_server := Some s\<rparr>)) None = []"
proof -
  let ?m = "bumped now (m\<lparr>mf_server := Some s\<rparr>)"
  have "check_header lib ?m = []"
    using assms by (simp add: validate_Nil check_header_def bumped_def is_timestamp_def)
  moreover have "check_session lib ?m = check_session lib m" "check_raw_totals lib ?m = check_raw_totals lib m"
      "check_epochs lib ?m = check_epochs lib m" "check_chunks lib ?m = check_chunks lib m"
    by (simp_all add: check_session_def check_raw_totals_def check_epochs_def check_chunks_def bumped_def)
  moreover have "check_scrub ?m = check_scrub m"
    by (simp add: check_scrub_def bumped_def cong: option.case_cong)
  moreover have "check_server lib ?m = []" using assms(2) by (simp add: check_server_def bumped_def)
  ultimately show ?thesis using assms(1) by (simp add: validate_Nil)
qed

lemma raw_checks_valid: "validate lib m None = [] \<Longrightarrow> raw_checks lib m"
  by (simp add: validate_Nil raw_checks_def)

lemma checked_saturating: "checked_add_u64 a b = Some c \<Longrightarrow> saturating_add_u64 a b = c"
  by (auto simp: checked_add_u64_def saturating_add_u64_def split: if_splits)

lemma fits_after_last:
  assumes valid: "validate lib m None = []"
  shows "fits_after (mf_raw m) (length (rw_chunks (mf_raw m))) (rw_next_offset (mf_raw m))
    (if rw_chunks (mf_raw m) = [] then None else Some (last (rw_chunks (mf_raw m))))"
proof -
  let ?raw = "mf_raw m"
  have chunks: "check_chunks_from lib ?raw 0 None (rw_chunks ?raw) = []" and next_offset: "check_next_offset ?raw = []"
    using valid by (simp_all add: validate_Nil check_chunks_def)
  have epochs: "unat (rw_epoch ?raw) + 1 = length (rw_epochs ?raw)"
      "\<And>i. i < length (rw_epochs ?raw) \<Longrightarrow> check_epoch lib ?raw i (rw_epochs ?raw ! i) = []"
    using valid by (simp_all add: validate_Nil check_epochs_Nil)
  let ?e = "rw_epochs ?raw ! unat (rw_epoch ?raw)"
  have "check_epoch lib ?raw (unat (rw_epoch ?raw)) ?e = []" using epochs by simp
  then have num: "er_epoch ?e = rw_epoch ?raw" by (simp add: check_epoch_def word_unat_eq_iff)
  have e: "er_first_seq ?e = of_nat (length (filter (\<lambda>c. ce_epoch c < rw_epoch ?raw) (rw_chunks ?raw)))"
    using \<open>check_epoch lib ?raw (unat (rw_epoch ?raw)) ?e = []\<close> num by (simp add: check_epoch_def)
  show ?thesis
  proof (cases "rw_chunks ?raw \<noteq> [] \<and> ce_epoch (last (rw_chunks ?raw)) = rw_epoch ?raw")
    case True
    then show ?thesis
      using next_offset by (auto simp: check_next_offset_def epoch_end_cases [OF chunks] fits_after_def
          split: option.splits)
  next
    case False
    have "ce_epoch c < rw_epoch ?raw" if c: "c \<in> set (rw_chunks ?raw)" for c
    proof -
      have "last (rw_chunks ?raw) \<in> set (rw_chunks ?raw)" using c by (intro last_in_set) auto
      then have "ce_epoch (last (rw_chunks ?raw)) \<le> rw_epoch ?raw" by (rule chunk_epochs_bounded [OF chunks])
      moreover have "ce_epoch c \<le> ce_epoch (last (rw_chunks ?raw))" by (rule chunk_epochs_ascend [OF chunks c])
      moreover have "ce_epoch (last (rw_chunks ?raw)) \<noteq> rw_epoch ?raw" using False c by auto
      ultimately show ?thesis by simp
    qed
    then have all: "filter (\<lambda>c. ce_epoch c < rw_epoch ?raw) (rw_chunks ?raw) = rw_chunks ?raw"
      by (simp add: filter_id_conv)
    have "rw_next_offset ?raw = 0"
      using next_offset unfolding check_next_offset_def epoch_end_cases [OF chunks] if_not_P [OF False] by simp
    then show ?thesis
      using False e chunk_epochs_bounded [OF chunks, of "last (rw_chunks ?raw)"]
      unfolding all by (auto simp: fits_after_def)
  qed
qed

lemma append_valid:
  assumes lib: "hash_documented lib" and valid: "validate lib m None = []"
    and plan: "plan_chunks (mf_raw m) cs = Inr es" and appl: "apply_chunks lib now (mf_raw m) es = Inr raw"
    and readable: "list_all (chunk_readable lib (is_scrubbed m)) cs"
    and sums: "try_sum 0 (map ce_bytes (rw_chunks raw)) \<noteq> None"
      "try_sum 0 (map ce_stored_bytes (rw_chunks raw)) \<noteq> None"
  shows "raw_checks lib (m\<lparr>mf_raw := raw\<rparr>)"
proof -
  let ?old = "mf_raw m"
  have raw: "rw_chunks raw = rw_chunks ?old @ es" "rw_epochs raw = rw_epochs ?old" "rw_epoch raw = rw_epoch ?old"
      "rw_scrub raw = rw_scrub ?old" "rw_chunk_count raw = of_nat (length (rw_chunks raw))"
      "rw_raw_bytes raw = foldl saturating_add_u64 0 (map ce_bytes (rw_chunks raw))"
      "rw_stored_bytes raw = foldl saturating_add_u64 0 (map ce_stored_bytes (rw_chunks raw))"
      "rw_content_sha256 raw = content_sha256 lib (rw_chunks raw)"
      "rw_next_offset raw = epoch_end saturating_add_u64 0 raw"
    using appl by (auto simp: apply_chunks_def recompute_def foldl_map_fields epoch_end_def split: if_splits)
  have count: "rw_chunk_count ?old = of_nat (length (rw_chunks ?old))"
    and old: "check_chunks_from lib ?old 0 None (rw_chunks ?old) = []"
    and next_old: "check_next_offset ?old = []"
    using valid by (simp_all add: validate_Nil check_raw_totals_def check_chunks_def Let_def)
  have new: "check_chunks_from lib ?old (length (rw_chunks ?old))
      (if rw_chunks ?old = [] then None else Some (last (rw_chunks ?old))) es = []"
    using plan_from_checks [OF plan [unfolded plan_chunks_def] count _ readable]
      fits_after_last [OF valid] by simp
  have all: "check_chunks_from lib raw 0 None (rw_chunks raw) = []"
    unfolding check_chunks_from_cong [OF raw(2,3)] raw(1) check_chunks_from_append using old new by simp
  have totals: "check_raw_totals lib (m\<lparr>mf_raw := raw\<rparr>) = []"
    using sums content_sha256_hex [OF lib]
    by (auto simp: check_raw_totals_def Let_def raw(5-8) check_total_Nil dest: try_sum_saturating)
  have "check_epoch lib raw i e = check_epoch lib ?old i e" if "i \<le> unat (rw_epoch ?old)" "check_epoch lib ?old i e = []" for i e
  proof -
    have "er_epoch e \<le> rw_epoch ?old" using that by (simp add: check_epoch_def word_le_nat_alt)
    then have "filter (\<lambda>c. ce_epoch c < er_epoch e) es = []"
      using plan_from_entries(1) [OF plan [unfolded plan_chunks_def] readable]
      by (auto simp: filter_empty_conv)
    then show ?thesis by (simp add: check_epoch_def raw(1))
  qed
  then have epochs: "check_epochs lib (m\<lparr>mf_raw := raw\<rparr>) = []"
    using valid by (simp add: validate_Nil check_epochs_Nil raw(2,3))
  have "check_next_offset raw = []"
  proof (cases "es = []")
    case True
    then show ?thesis
      using next_old raw(1-3,9)
      by (auto simp: check_next_offset_def epoch_end_def split: option.splits dest: checked_saturating)
  next
    case False
    then have "ce_epoch (last (rw_chunks raw)) = rw_epoch raw" "rw_chunks raw \<noteq> []"
      and x: "\<exists>x. checked_add_u64 (ce_start_offset (last (rw_chunks raw))) (ce_bytes (last (rw_chunks raw))) = Some x"
      using plan_from_end [OF plan [unfolded plan_chunks_def]] raw(1,3) by simp_all
    then show ?thesis
      using x checked_saturating by (auto simp: check_next_offset_def raw(9) epoch_end_cases [OF all])
  qed
  moreover have "check_scrub (m\<lparr>mf_raw := raw\<rparr>) = []"
    using valid plan_from_entries(2) [OF plan [unfolded plan_chunks_def] readable]
    by (auto simp: validate_Nil check_scrub_Nil raw(1,4) is_scrubbed_def)
  ultimately show ?thesis using totals epochs all by (simp add: raw_checks_def check_chunks_def)
qed

lemma check_chunks_from_epoch:
  assumes "check_chunks_from lib raw i prev cs = []" and "rw_epoch raw \<le> rw_epoch raw'"
    and "\<And>k. k \<le> unat (rw_epoch raw) \<Longrightarrow>
      (k < length (rw_epochs raw') \<longleftrightarrow> k < length (rw_epochs raw)) \<and>
      (k < length (rw_epochs raw) \<longrightarrow> rw_epochs raw' ! k = rw_epochs raw ! k)"
  shows "check_chunks_from lib raw' i prev cs = []"
  using assms(1)
proof (induction cs arbitrary: i prev)
  case (Cons c cs)
  have c: "check_chunk lib raw i c prev = []" using Cons.prems by simp
  then have le: "ce_epoch c \<le> rw_epoch raw" by (rule check_chunk_epoch(1))
  then have k: "unat (ce_epoch c) \<le> unat (rw_epoch raw)" by (simp add: word_le_nat_alt)
  have "check_epoch_start raw' i c b = check_epoch_start raw i c b" for b
    using assms(3) [OF k] by (auto simp: check_epoch_start_def)
  moreover have "ce_epoch c \<le> rw_epoch raw'" using le assms(2) by (rule order_trans)
  ultimately have "check_chunk lib raw' i c prev = []"
    using c le by (simp add: check_chunk_def Let_def)
  then show ?case using Cons by simp
qed simp

lemma epoch_valid:
  assumes valid: "validate lib m None = []" and op: "open_epoch now (mf_raw m) reason = Inr (raw, e)"
    and wrap: "e \<noteq> 0" and now: "is_timestamp lib now"
  shows "raw_checks lib (m\<lparr>mf_raw := raw\<rparr>)" and "rw_epoch (mf_raw m) \<le> rw_epoch raw"
proof -
  let ?old = "mf_raw m"
  let ?new = "\<lparr>er_epoch = e, er_opened_at = now, er_reason = reason,
      er_first_seq = rw_chunk_count ?old, er_opened_by = rw_owner ?old, er_extra = []\<rparr>"
  have raw: "raw = ?old\<lparr>rw_epochs := rw_epochs ?old @ [?new], rw_epoch := e, rw_next_offset := 0,
      rw_updated_at := now\<rparr>" and e: "e = rw_epoch ?old + 1" and reason: "reason \<noteq> Initial"
    using op by (auto simp: open_epoch_def Let_def split: if_splits)
  have "1 + rw_epoch ?old \<noteq> 0" using wrap by (simp add: e add.commute)
  then have "unat (1 + rw_epoch ?old) = Suc (unat (rw_epoch ?old))" by (rule unatSuc)
  then have up: "unat e = unat (rw_epoch ?old) + 1" by (simp add: e add.commute)
  have old: "check_chunks_from lib ?old 0 None (rw_chunks ?old) = []"
      "unat (rw_epoch ?old) + 1 = length (rw_epochs ?old)"
      "\<And>i. i < length (rw_epochs ?old) \<Longrightarrow> check_epoch lib ?old i (rw_epochs ?old ! i) = []"
      "rw_chunk_count ?old = of_nat (length (rw_chunks ?old))" "rw_epochs ?old \<noteq> []"
    using valid by (simp_all add: validate_Nil check_chunks_def check_epochs_Nil check_raw_totals_def Let_def)
  show le: "rw_epoch ?old \<le> rw_epoch raw" using up by (simp add: raw word_le_nat_alt)
  have below: "ce_epoch c < e" if "c \<in> set (rw_chunks ?old)" for c
    using chunk_epochs_bounded [OF old(1) that] up by (simp add: word_less_nat_alt word_le_nat_alt)
  have "check_chunks_from lib raw 0 None (rw_chunks ?old) = []"
    by (rule check_chunks_from_epoch [OF old(1) le]) (use old(2) in \<open>auto simp: raw nth_append\<close>)
  moreover have "epoch_end checked_add_u64 (Some 0) raw = Some 0"
  proof -
    have "List.find (\<lambda>c. ce_epoch c = e) (rev (rw_chunks ?old)) = None"
      using below by (force simp: find_rev_None)
    then show ?thesis by (simp add: epoch_end_def raw)
  qed
  ultimately have chunks: "check_chunks lib (m\<lparr>mf_raw := raw\<rparr>) = []"
    by (simp add: check_chunks_def check_next_offset_def) (simp add: raw)
  have same: "check_epoch lib raw i x = check_epoch lib ?old i x" for i x
    by (simp add: check_epoch_def raw)
  have sel: "mf_raw (m\<lparr>mf_raw := raw\<rparr>) = raw" by simp
  have fields: "rw_epochs raw = rw_epochs ?old @ [?new]" "rw_epoch raw = e" by (simp_all add: raw)
  have "filter (\<lambda>c. ce_epoch c < e) (rw_chunks ?old) = rw_chunks ?old"
    using below by (simp add: filter_id_conv)
  then have "check_epoch lib ?old (length (rw_epochs ?old)) ?new = []"
    using up old(2,4,5) reason now by (simp add: check_epoch_def is_timestamp_def)
  then have "check_epochs lib (m\<lparr>mf_raw := raw\<rparr>) = []"
    unfolding check_epochs_Nil sel same
    using up old(2,3) by (auto simp: fields nth_append less_Suc_eq)
  moreover have "check_raw_totals lib (m\<lparr>mf_raw := raw\<rparr>) = []" "check_scrub (m\<lparr>mf_raw := raw\<rparr>) = []"
    using valid by (simp_all add: validate_Nil check_raw_totals_def check_scrub_Nil raw Let_def)
  ultimately show "raw_checks lib (m\<lparr>mf_raw := raw\<rparr>)" using chunks by (simp add: raw_checks_def)
qed

text \<open>Changing what no rule of the raw section reads, or the scrub marker alone.\<close>

lemma raw_checks_scrub:
  assumes "raw_checks lib m" and "rw_epochs raw = rw_epochs (mf_raw m)" and "rw_epoch raw = rw_epoch (mf_raw m)"
    and "rw_chunks raw = rw_chunks (mf_raw m)" and "rw_chunk_count raw = rw_chunk_count (mf_raw m)"
    and "rw_raw_bytes raw = rw_raw_bytes (mf_raw m)" and "rw_stored_bytes raw = rw_stored_bytes (mf_raw m)"
    and "rw_content_sha256 raw = rw_content_sha256 (mf_raw m)" and "rw_next_offset raw = rw_next_offset (mf_raw m)"
    and "check_scrub (m\<lparr>mf_raw := raw\<rparr>) = []"
  shows "raw_checks lib (m\<lparr>mf_raw := raw\<rparr>)"
proof -
  have "check_epoch lib raw i e = check_epoch lib (mf_raw m) i e" for i e
    by (simp add: check_epoch_def assms(4))
  moreover have "check_next_offset raw = check_next_offset (mf_raw m)"
    unfolding check_next_offset_def epoch_end_def assms(3,4,9) ..
  ultimately show ?thesis
    using assms(1,10) check_chunks_from_cong [OF assms(2,3)]
    by (simp add: raw_checks_def check_raw_totals_def check_epochs_Nil check_chunks_def Let_def assms(2-9))
qed

lemma scrub_valid:
  assumes valid: "validate lib m None = []" and rec: "record_scrub now (mf_raw m) ruleset version = Inr raw"
    and "ruleset \<noteq> []" and "version \<noteq> 0"
  shows "raw_checks lib (m\<lparr>mf_raw := raw\<rparr>)"
proof (rule raw_checks_scrub [OF raw_checks_valid [OF valid]])
  show "check_scrub (m\<lparr>mf_raw := raw\<rparr>) = []"
    using valid rec assms(3,4)
    by (auto simp: validate_Nil check_scrub_Nil record_scrub_def split: option.splits if_splits)
qed (use rec in \<open>auto simp: record_scrub_def split: option.splits if_splits\<close>)

lemma state_valid:
  assumes "validate lib m None = []"
  shows "raw_checks lib (m\<lparr>mf_raw := set_state now (mf_raw m) st\<rparr>)"
  by (rule raw_checks_scrub [OF raw_checks_valid [OF assms]])
     (use assms in \<open>auto simp: set_state_def validate_Nil check_scrub_Nil\<close>)

lemma raw_times:
  "apply_chunks lib now raw es = Inr raw' \<Longrightarrow> rw_owner raw' = rw_owner raw \<and> rw_updated_at raw' = now
     \<and> rw_epoch raw' = rw_epoch raw"
  "open_epoch now raw reason = Inr (raw', e) \<Longrightarrow> rw_owner raw' = rw_owner raw \<and> rw_updated_at raw' = now"
  "record_scrub now raw ruleset version = Inr raw' \<Longrightarrow> rw_owner raw' = rw_owner raw
     \<and> rw_epoch raw' = rw_epoch raw \<and> (rw_updated_at raw' = now \<or> rw_updated_at raw' = rw_updated_at raw)"
  "rw_owner (set_state now raw st) = rw_owner raw \<and> rw_epoch (set_state now raw st) = rw_epoch raw
     \<and> (rw_updated_at (set_state now raw st) = now \<or> rw_updated_at (set_state now raw st) = rw_updated_at raw)"
  by (auto simp: apply_chunks_def recompute_def open_epoch_def record_scrub_def set_state_def Let_def
      split: if_splits option.splits)

lemma lifecycle_valid:
  assumes "validate lib m None = []" and "with_lifecycle now m lc reason = Some s" and "is_timestamp lib now"
  shows "check_server lib (m\<lparr>mf_server := Some s\<rparr>) = []"
  using assms
  by (auto simp: validate_Nil check_server_def with_lifecycle_def server_section_of_def check_opt_Nil
      Let_def is_timestamp_def split: option.splits if_splits)

lemma normalized_valid:
  assumes "validate lib m None = []" and "validate lib read None = []"
    and "rw_epoch (mf_raw read) \<le> rw_epoch (mf_raw m)" and "version \<noteq> 0" and "is_timestamp lib now"
  shows "check_server lib (m\<lparr>mf_server := Some (with_normalized now read m version key)\<rparr>) = []"
  using assms
  by (auto simp: validate_Nil check_server_def with_normalized_def server_section_of_def check_opt_Nil
      check_normalized_def check_raw_totals_def Let_def is_timestamp_def split: option.splits)

lemma edit_step_valid:
  assumes "hash_documented lib" and "edit_step lib m m'" and "validate lib m None = []"
  shows "validate lib m' None = []"
  using assms(2)
proof cases
  case (append cs es now raw)
  have "raw_checks lib (m\<lparr>mf_raw := raw\<rparr>)"
    using append_valid [OF assms(1,3) append(2,3,4,5,6)] .
  then show ?thesis
    unfolding append(1) using raw_times(1) [OF append(3)] append
    by (intro validate_raw_update [OF assms(3)]) simp_all
next
  case (epoch now reason raw e)
  show ?thesis
    unfolding epoch(1) using epoch_valid [OF assms(3) epoch(2,3,4)] raw_times(2) [OF epoch(2)] epoch(4,5)
    by (intro validate_raw_update [OF assms(3)]) simp_all
next
  case (scrub now ruleset version raw)
  have "is_timestamp lib (rw_updated_at (mf_raw m))"
    using assms(3) by (simp add: validate_Nil check_session_def is_timestamp_def Let_def)
  then show ?thesis
    unfolding scrub(1) using scrub_valid [OF assms(3) scrub(2,3,4)] raw_times(3) [OF scrub(2)] scrub(5,6)
    by (intro validate_raw_update [OF assms(3)]) auto
next
  case (state now st)
  have "is_timestamp lib (rw_updated_at (mf_raw m))"
    using assms(3) by (simp add: validate_Nil check_session_def is_timestamp_def Let_def)
  then show ?thesis
    unfolding state(1) using state_valid [OF assms(3)] raw_times(4) [of now "mf_raw m" st] state(2,3)
    by (intro validate_raw_update [OF assms(3)]) auto
next
  case (lifecycle now lc reason s)
  show ?thesis
    unfolding lifecycle(1)
    by (rule validate_server_update [OF assms(3) lifecycle_valid [OF assms(3) lifecycle(2,3)] lifecycle(3,4)])
next
  case (normalized read version now key)
  show ?thesis
    unfolding normalized(1)
    by (rule validate_server_update [OF assms(3) normalized_valid [OF assms(3) normalized(2-5)] normalized(5,6)])
qed

lemma edits_valid:
  "hash_documented lib \<Longrightarrow> edits lib m m' \<Longrightarrow> validate lib m None = [] \<Longrightarrow> validate lib m' None = []"
  by (rotate_tac 1, induction rule: edits.induct) (auto intro: edit_step_valid)

section \<open>What never goes back\<close>

text \<open>How far one manifest is ahead of another: nothing a reader acknowledged is lost.\<close>

definition ahead :: "manifest \<Rightarrow> manifest \<Rightarrow> bool" where
  "ahead m m' \<longleftrightarrow> mf_revision m \<le> mf_revision m'
     \<and> rw_owner (mf_raw m') = rw_owner (mf_raw m)
     \<and> (\<exists>es. rw_chunks (mf_raw m') = rw_chunks (mf_raw m) @ es)
     \<and> rw_epoch (mf_raw m) \<le> rw_epoch (mf_raw m')
     \<and> (length (rw_chunks (mf_raw m)) < 2 ^ 64 \<longrightarrow> length (rw_chunks (mf_raw m')) < 2 ^ 64)
     \<and> (case rw_scrub (mf_raw m) of
          Some s \<Rightarrow> \<exists>s'. rw_scrub (mf_raw m') = Some s' \<and> sc_ruleset s' = sc_ruleset s \<and> sc_version s' \<le> sc_version s
        | None \<Rightarrow> rw_scrub (mf_raw m') = None \<or> rw_chunks (mf_raw m) = [])"

lemma revision_up:
  fixes r :: "'a :: len word"
  assumes "r + 1 \<noteq> 0"
  shows "r \<le> r + 1"
proof -
  have "1 + r \<noteq> 0" using assms by (simp add: add.commute)
  then have "unat (1 + r) = Suc (unat r)" by (rule unatSuc)
  then show ?thesis by (simp add: word_le_nat_alt add.commute)
qed

lemma ahead_refl: "ahead m m"
  by (simp add: ahead_def split: option.split)

lemma ahead_trans:
  assumes "ahead m m'" and "ahead m' m''"
  shows "ahead m m''"
  using assms by (auto simp: ahead_def intro: order_trans split: option.splits)

lemma edit_step_ahead:
  assumes "edit_step lib m m'"
  shows "ahead m m'"
  using assms
proof cases
  case (append cs es now raw)
  then show ?thesis
    using revision_up [OF append(8)]
    by (auto simp: ahead_def bumped_def apply_chunks_def recompute_def split: if_splits option.split)
next
  case (epoch now reason raw e)
  have "rw_epoch (mf_raw m) \<le> rw_epoch (mf_raw m) + 1" if "rw_epoch (mf_raw m) + 1 \<noteq> 0"
    using that by (rule revision_up)
  then show ?thesis
    using epoch revision_up [OF epoch(5)]
    by (auto simp: ahead_def bumped_def open_epoch_def Let_def split: if_splits option.split)
next
  case (scrub now ruleset version raw)
  then show ?thesis
    using revision_up [OF scrub(6)]
    by (auto simp: ahead_def bumped_def record_scrub_def split: if_splits option.splits)
next
  case (state now st)
  then show ?thesis
    using revision_up [OF state(3)] by (auto simp: ahead_def bumped_def set_state_def split: option.split)
next
  case (lifecycle now lc reason s)
  then show ?thesis
    using revision_up [OF lifecycle(4)] by (auto simp: ahead_def bumped_def split: option.split)
next
  case (normalized read version now key)
  then show ?thesis
    using revision_up [OF normalized(6)] by (auto simp: ahead_def bumped_def split: option.split)
qed

lemma edits_ahead: "edits lib m m' \<Longrightarrow> ahead m m'"
  by (induction rule: edits.induct) (auto intro: ahead_refl ahead_trans edit_step_ahead)

section \<open>Properties of the protocol\<close>

lemma new_manifest_valid:
  assumes "hash_documented lib" and "is_timestamp lib now" and "is_uuid_v7 (np_trace_id p)"
    and "check_session lib (new_manifest lib now p) = []"
  shows "validate lib (new_manifest lib now p) None = []"
proof -
  let ?m = "new_manifest lib now p"
  have "check_header lib ?m = []"
    using assms(2,3) by (simp add: check_header_def new_manifest_def is_timestamp_def Let_def)
  moreover have "check_raw_totals lib ?m = []"
    using content_sha256_hex [OF assms(1)]
    by (simp add: check_raw_totals_def new_manifest_def recompute_def Let_def check_total_Nil)
  moreover have "check_epochs lib ?m = []"
    using assms(2) by (simp add: check_epochs_Nil check_epoch_def new_manifest_def recompute_def Let_def is_timestamp_def)
  moreover have "check_chunks lib ?m = []"
    by (simp add: check_chunks_def check_next_offset_def epoch_end_def new_manifest_def recompute_def Let_def)
  moreover have "check_scrub ?m = []" "check_server lib ?m = []"
    by (simp_all add: check_scrub_Nil check_server_def check_opt_def new_manifest_def recompute_def Let_def)
  ultimately show ?thesis using assms(4) by (simp add: validate_Nil)
qed


lemma valid_count: "validate lib m None = [] \<Longrightarrow> rw_chunk_count (mf_raw m) = of_nat (length (rw_chunks (mf_raw m)))"
  by (simp add: validate_Nil check_raw_totals_def Let_def)

lemma valid_chain: "validate lib m None = [] \<Longrightarrow>
    rw_content_sha256 (mf_raw m) = content_sha256 lib (rw_chunks (mf_raw m))"
  by (simp add: validate_Nil check_raw_totals_def Let_def)

text \<open>A client that keeps its fencing token is never stopped by its own or the server's writes:
  whatever it acknowledged, the manifest that follows is classified as unchanged or as extending
  it, with the exact number of chunks and epochs to adopt, never as rolled back.\<close>

lemma classify_never_rolls_back:
  assumes "hash_documented lib" and "validate lib m None = []" and "length (rw_chunks (mf_raw m)) < 2 ^ 64"
    and "edits lib m m'"
  shows "classify lib m' (rw_owner (mf_raw m)) (Some (ack_of m)) =
    (let chunks = length (rw_chunks (mf_raw m')) - length (rw_chunks (mf_raw m));
         epochs = rw_epoch (mf_raw m') - rw_epoch (mf_raw m)
     in if chunks = 0 \<and> epochs = 0 then Unchanged else Extended (of_nat chunks) epochs)"
proof -
  have valid: "validate lib m' None = []" using edits_valid assms by blast
  obtain es where es: "rw_chunks (mf_raw m') = rw_chunks (mf_raw m) @ es"
    using edits_ahead [OF assms(4)] by (auto simp: ahead_def)
  have a: "mf_revision m \<le> mf_revision m'" "rw_owner (mf_raw m') = rw_owner (mf_raw m)"
      "rw_epoch (mf_raw m) \<le> rw_epoch (mf_raw m')" "length (rw_chunks (mf_raw m')) < 2 ^ 64"
    using edits_ahead [OF assms(4)] assms(3) by (auto simp: ahead_def)
  let ?n = "length (rw_chunks (mf_raw m))" and ?n' = "length (rw_chunks (mf_raw m'))"
  have le: "?n \<le> ?n'" by (simp add: es)
  have un: "unat (of_nat ?n :: u64) = ?n" "unat (of_nat ?n' :: u64) = ?n'"
    using assms(3) a(4) by (simp_all add: unat_of_nat)
  have less: "\<not> (of_nat ?n' :: u64) < of_nat ?n" using le un by (simp add: word_less_nat_alt)
  have diff: "(of_nat ?n' :: u64) - of_nat ?n = of_nat (?n' - ?n)" using le by (simp add: of_nat_diff)
  have zero: "(of_nat (?n' - ?n) :: u64) = 0 \<longleftrightarrow> ?n' - ?n = 0"
    using a(4) by (simp add: word_unat_eq_iff unat_of_nat)
  show ?thesis
    using a less valid_chain [OF assms(2)]
    by (simp add: classify_def ack_of_def Let_def valid_count [OF valid] valid_count [OF assms(2)] diff zero un
        not_less) (auto simp: es)
qed

text \<open>A scrub marker never vouches for a chunk that was stored without it: a session that lists
  chunks and no marker stays quarantined under every sequence of edits, and where there is a
  marker, its rule set never changes and its version only goes down, to the weakest scrub.\<close>

lemma scrub_marker_floor:
  assumes "edits lib m m'"
  shows "(quarantined m \<and> rw_chunks (mf_raw m) \<noteq> [] \<longrightarrow> quarantined m')
    \<and> (\<forall>s. rw_scrub (mf_raw m) = Some s \<longrightarrow> (\<exists>s'. rw_scrub (mf_raw m') = Some s'
         \<and> sc_ruleset s' = sc_ruleset s \<and> sc_version s' \<le> sc_version s))"
  using edits_ahead [OF assms] by (auto simp: ahead_def quarantined_def is_scrubbed_def split: option.splits)

text \<open>Chunks planned against a manifest can be appended to a later one exactly when the later one
  has the same chunks and the same epoch; when another write appended chunks or opened an epoch
  meanwhile, the append is refused and the plan has to be made again.\<close>

lemma apply_chunks_stale:
  assumes "hash_documented lib" and "validate lib m None = []" and "length (rw_chunks (mf_raw m)) < 2 ^ 64"
    and "edits lib m m'" and "plan_chunks (mf_raw m) (c # cs) = Inr es"
  shows "apply_chunks lib now (mf_raw m') es = Inl InvalidArgument \<longleftrightarrow>
    rw_chunks (mf_raw m') \<noteq> rw_chunks (mf_raw m) \<or> rw_epoch (mf_raw m') \<noteq> rw_epoch (mf_raw m)"
proof -
  have valid: "validate lib m' None = []" using edits_valid assms by blast
  obtain xs where xs: "rw_chunks (mf_raw m') = rw_chunks (mf_raw m) @ xs"
    and len: "length (rw_chunks (mf_raw m')) < 2 ^ 64"
    using edits_ahead [OF assms(4)] assms(3) by (auto simp: ahead_def)
  obtain es' where es: "es = entry_of (mf_raw m) 0 c # es'" "nc_start_offset c = rw_next_offset (mf_raw m)"
    using assms(5) by (auto simp: plan_chunks_def and_then_Inr ok_or_Inr split: if_splits)
  have "(of_nat (length (rw_chunks (mf_raw m'))) :: u64) = of_nat (length (rw_chunks (mf_raw m)))
      \<longleftrightarrow> length (rw_chunks (mf_raw m')) = length (rw_chunks (mf_raw m))"
    using assms(3) len by (simp add: word_unat_eq_iff unat_of_nat)
  then have count: "rw_chunk_count (mf_raw m) = rw_chunk_count (mf_raw m') \<longleftrightarrow>
      rw_chunks (mf_raw m') = rw_chunks (mf_raw m)"
    using xs by (auto simp: valid_count [OF valid] valid_count [OF assms(2)])
  have offset: "rw_next_offset (mf_raw m') = rw_next_offset (mf_raw m)"
    if "rw_chunks (mf_raw m') = rw_chunks (mf_raw m)" "rw_epoch (mf_raw m') = rw_epoch (mf_raw m)"
    using valid assms(2) that
    by (auto simp: validate_Nil check_chunks_def check_next_offset_def epoch_end_def split: option.splits)
  show ?thesis
    using count offset es by (auto simp: apply_chunks_def entry_of_def)
qed

section \<open>A session with one chunk\<close>

definition example_lib :: manifest_lib where
  "example_lib = \<lparr>ml_sha256 = (\<lambda>_. replicate 32 (CHR ''x'')), ml_hex_encode = (\<lambda>_. replicate 64 (CHR ''a'')),
     ml_hex_decode = (\<lambda>_. None), ml_utc_date = (\<lambda>t. if t = ''now'' then Some ''2026/01/05'' else None)\<rparr>"

definition example_params :: new_manifest_params where
  "example_params = \<lparr>np_trace_id = ''01234567-89ab-7def-8123-456789abcdef'',
     np_session = \<lparr>ss_workspace_id = ''w'', ss_machine_id = ''m'', ss_harness = ''pi'', ss_session_id = ''s'',
        ss_started_at = ''now'', ss_ended_at = None, ss_harness_version = None, ss_cwd_sha256 = None,
        ss_parent_session_id = None, ss_extra = []\<rparr>,
     np_writer = \<lparr>ws_delivery_instance_id = ''d'', ws_plugin_version = ''1'', ws_host_version = None, ws_extra = []\<rparr>,
     np_format = Jsonl\<rparr>"

definition example_first :: manifest where
  "example_first = new_manifest example_lib ''now'' example_params"

definition example_new_chunk :: new_chunk where
  "example_new_chunk = \<lparr>nc_start_offset = 0, nc_bytes = 9, nc_stored_bytes = 5,
     nc_sha256 = replicate 64 (CHR ''b''), nc_stored_sha256 = replicate 64 (CHR ''c''),
     nc_stored_raw_bytes = None, nc_raw_sha256 = None, nc_records = None, nc_first_ts = None,
     nc_last_ts = None\<rparr>"

definition example_entries :: "chunk_entry list" where
  "example_entries = [entry_of (mf_raw example_first) 0 example_new_chunk]"

definition example_raw :: raw_section where
  "example_raw = (recompute example_lib ((mf_raw example_first)
     \<lparr>rw_chunks := rw_chunks (mf_raw example_first) @ example_entries\<rparr>))\<lparr>rw_updated_at := ''now''\<rparr>"

definition example_second :: manifest where
  "example_second = bumped ''now'' (example_first\<lparr>mf_raw := example_raw\<rparr>)"

lemmas example_defs = example_second_def example_raw_def recompute_def example_entries_def entry_of_def
  example_first_def new_manifest_def Let_def bumped_def example_new_chunk_def example_params_def

lemma example_documented: "hash_documented example_lib"
  by (simp add: hash_documented_def example_lib_def is_hex64_def ascii_digit_def list_all_iff)

lemma example_new_valid: "is_timestamp example_lib ''now''" "is_uuid_v7 (np_trace_id example_params)"
    "check_session example_lib (new_manifest example_lib ''now'' example_params) = []"
  by (simp add: is_timestamp_def example_lib_def, code_simp, code_simp)

lemma example_first_valid: "validate example_lib example_first None = []"
  unfolding example_first_def by (rule new_manifest_valid [OF example_documented example_new_valid])

lemma example_plan: "plan_chunks (mf_raw example_first) [example_new_chunk] = Inr example_entries"
  by (simp add: plan_chunks_def example_defs epoch_end_def bad_chunk_def is_hex64_def ascii_digit_def
      list_all_iff checked_add_u64_def ok_or_def)

lemma example_apply: "apply_chunks example_lib ''now'' (mf_raw example_first) example_entries = Inr example_raw"
  unfolding apply_chunks_def example_raw_def by (simp add: example_entries_def entry_of_def example_new_chunk_def
      example_first_def new_manifest_def recompute_def epoch_end_def Let_def)

lemma example_edits: "edits example_lib example_first example_second"
  unfolding example_second_def
proof (intro edits.step [OF edits.refl] edit_step.append [OF example_plan example_apply])
  show "list_all (chunk_readable example_lib (is_scrubbed example_first)) [example_new_chunk]"
    by (simp add: chunk_readable_def is_scrubbed_def example_new_chunk_def example_first_def new_manifest_def
        recompute_def Let_def)
  show "try_sum 0 (map ce_bytes (rw_chunks example_raw)) \<noteq> None"
    "try_sum 0 (map ce_stored_bytes (rw_chunks example_raw)) \<noteq> None"
    by (simp_all add: example_defs checked_add_u64_def)
  show "mf_revision example_first + 1 \<noteq> 0" by (simp add: example_defs)
qed (use example_new_valid(1) in \<open>simp_all add: example_raw_def recompute_def example_first_def new_manifest_def
    example_entries_def Let_def\<close>)


lemma classify_never_rolls_back_witness:
  "classify example_lib example_second ''d'' (Some (ack_of example_first)) = Extended 1 0"
proof -
  have "rw_owner (mf_raw example_first) = ''d''" "length (rw_chunks (mf_raw example_first)) = 0"
    "length (rw_chunks (mf_raw example_second)) = 1"
    "rw_epoch (mf_raw example_second) - rw_epoch (mf_raw example_first) = 0"
    by (simp_all add: example_defs)
  then show ?thesis
    using classify_never_rolls_back [OF example_documented example_first_valid _ example_edits] by simp
qed

lemma scrub_marker_floor_witness:
  "quarantined example_second \<and> rw_chunks (mf_raw example_second) \<noteq> []
    \<and> quarantined (bumped ''now'' (example_second\<lparr>mf_raw := set_state ''now'' (mf_raw example_second) Closed\<rparr>))"
proof -
  have "edits example_lib example_second
      (bumped ''now'' (example_second\<lparr>mf_raw := set_state ''now'' (mf_raw example_second) Closed\<rparr>))"
    by (intro edits.step [OF edits.refl] edit_step.state example_new_valid) (simp add: example_defs)
  moreover have "quarantined example_second" "rw_chunks (mf_raw example_second) \<noteq> []"
    by (simp_all add: quarantined_def is_scrubbed_def example_defs)
  ultimately show ?thesis using scrub_marker_floor by blast
qed

lemma apply_chunks_stale_witness:
  "apply_chunks example_lib ''now'' (mf_raw example_second) example_entries = Inl InvalidArgument"
proof -
  have "rw_chunks (mf_raw example_second) \<noteq> rw_chunks (mf_raw example_first)"
    "length (rw_chunks (mf_raw example_first)) < 2 ^ 64"
    by (simp_all add: example_second_def example_raw_def recompute_def example_entries_def
        example_first_def new_manifest_def Let_def)
  then show ?thesis
    using apply_chunks_stale [OF example_documented example_first_valid _ example_edits example_plan] by blast
qed

end
