(* ===== verification/ManifestMergeFacts.thy ===== *)
theory ManifestMergeFacts
  imports ManifestUpdate ManifestFacts
begin

text \<open>
  What splicing one section into a stored document preserves: the rest of the document, and the
  fields of the section, of its nested objects and of its chunk and epoch entries that this
  version does not know.
\<close>

section \<open>Members of a document\<close>

lemma map_of_doc_insert [simp]: "map_of (doc_insert k v d) l = (if l = k then Some v else map_of d l)"
  by (induction d) auto

lemma map_of_carry_fields:
  "map_of (carry_fields path stored next) k =
     (if k \<notin> set (known_fields path) \<and> map_of next k = None then map_of stored k else map_of next k)"
proof (induction stored arbitrary: "next")
  case Nil
  then show ?case by (simp add: carry_fields_def)
next
  case (Cons kv stored)
  obtain a v where kv: "kv = (a, v)" by (cases kv)
  have step: "carry_fields path (kv # stored) next = carry_fields path stored
      (if a \<notin> set (known_fields path) \<and> map_of next a = None then doc_insert a v next else next)"
    by (simp add: carry_fields_def kv doc_has_def)
  show ?case unfolding step Cons.IH by (auto simp: kv)
qed

lemma fold_keeps_member:
  assumes "\<And>x n. x \<in> set xs \<Longrightarrow> map_of (h x n) k = map_of n k"
  shows "map_of (fold h xs n) k = map_of n k"
  using assms by (induction xs arbitrary: n) auto

lemma nested_known: "fst ` set (nested path) \<subseteq> set (known_fields path)"
  by (auto simp: nested_def known_fields_def)

lemma carry_unknown_object:
  "\<exists>r. carry_unknown (JObject s) (JObject n) path = JObject r
     \<and> (\<forall>k. k \<notin> fst ` set (nested path) \<longrightarrow> map_of r k =
          (if k \<notin> set (known_fields path) \<and> map_of n k = None then map_of s k else map_of n k))"
  unfolding carry_unknown.simps [of "JObject s"] prod.case json.case
  by (rule exI, rule conjI, rule HOL.refl, intro allI impI, rule trans [OF fold_keeps_member map_of_carry_fields])
     (auto split: option.split prod.split intro: rev_image_eqI)

lemma carry_unknown_flat:
  assumes "nested path = []"
  shows "carry_unknown (JObject s) (JObject n) path = JObject (carry_fields path s n)"
  by (subst carry_unknown.simps) (simp add: assms)

section \<open>The entries of an array\<close>

definition entry_id :: "string \<Rightarrow> json \<Rightarrow> u64 option" where
  "entry_id ident e = Option.bind (json_get e ident) as_u64"

lemma entries_by_id_Cons:
  "entries_by_id ident (x # xs) k = (case entries_by_id ident xs k of
      Some e \<Rightarrow> Some e | None \<Rightarrow> if entry_id ident x = Some k then Some x else None)"
  by (cases "entry_id ident x")
     (auto simp: entries_by_id_def entry_id_def List.map_filter_simps map_add_def map_of_append split: option.split)

lemma entries_by_id_Some: "entries_by_id ident xs k = Some e \<Longrightarrow> e \<in> set xs \<and> entry_id ident e = Some k"
  by (induction xs) (auto simp: entries_by_id_Cons entries_by_id_def [of _ "[]"] List.map_filter_simps
      split: option.splits if_splits)

lemma entries_by_id_unique:
  assumes "old \<in> set xs" and "entry_id ident old = Some k"
    and "\<And>e. e \<in> set xs \<Longrightarrow> entry_id ident e = Some k \<Longrightarrow> e = old"
  shows "entries_by_id ident xs k = Some old"
proof -
  have "entries_by_id ident xs k \<noteq> None" using assms(1,2)
    by (induction xs) (auto simp: entries_by_id_Cons split: option.splits)
  then show ?thesis using entries_by_id_Some assms(3) by fastforce
qed


lemma carry_in_array_arrays:
  "carry_in_array carry ident (JArray os) (JArray ns) =
     JArray (map (\<lambda>e. case Option.bind (entry_id ident e) (entries_by_id ident os) of
                       None \<Rightarrow> e | Some old \<Rightarrow> carry old e) ns)"
  by (simp add: carry_in_array_def entry_id_def)

section \<open>One section\<close>

lemma put_section_other: "k \<noteq> name \<Longrightarrow> map_of (put_section d name v removed) k = map_of d k"
  by (simp add: put_section_def Let_def)

lemma map_of_filter_keys: "map_of (filter (\<lambda>(k, _). P k) d) k = (if P k then map_of d k else None)"
  by (induction d) auto

lemma put_section_object:
  assumes "map_of d name = Some (JObject s)"
  shows "\<exists>r. map_of (put_section d name (JObject n) removed) name = Some (JObject r)
     \<and> (\<forall>k. k \<notin> fst ` set (nested name) \<longrightarrow> map_of r k =
          (if k \<in> set (known_fields name) then map_of n k
           else if k \<in> set removed then None
           else case map_of n k of None \<Rightarrow> map_of s k | Some v \<Rightarrow> Some v))"
proof -
  obtain r where r: "carry_unknown (JObject s) (JObject n) name = JObject r"
    "\<And>k. k \<notin> fst ` set (nested name) \<Longrightarrow> map_of r k =
          (if k \<notin> set (known_fields name) \<and> map_of n k = None then map_of s k else map_of n k)"
    using carry_unknown_object [of s n name] by blast
  let ?r = "filter (\<lambda>(k, _). k \<in> set (known_fields name) \<or> k \<notin> set removed) r"
  have "map_of (put_section d name (JObject n) removed) name = Some (JObject ?r)"
    by (simp add: put_section_def assms r(1) Let_def)
  then show ?thesis
    by (intro exI [of _ ?r]) (auto simp: map_of_filter_keys r(2) split: option.split)
qed

text \<open>The chunk list of the raw section, each entry carried over from the stored one of its number.\<close>

lemma put_section_chunks:
  assumes "map_of d ''raw'' = Some (JObject s)" and "map_of s ''chunks'' = Some (JArray os)"
    and "map_of n ''chunks'' = Some (JArray ns)"
  shows "\<exists>r. map_of (put_section d ''raw'' (JObject n) removed) ''raw'' = Some (JObject r)
    \<and> map_of r ''chunks'' = Some (carry_in_array (\<lambda>o' e. carry_unknown o' e ''raw.chunks[]'') ''seq'' (JArray os) (JArray ns))"
proof -
  have raw: "nested ''raw'' = [(''chunks'', Some ''seq''), (''epochs'', Some ''epoch''), (''scrub'', None)]"
    by (simp add: nested_def)
  have chunks: "map_of (carry_fields ''raw'' s n) ''chunks'' = Some (JArray ns)"
    by (simp add: map_of_carry_fields assms(3))
  have "\<exists>r. carry_unknown (JObject s) (JObject n) ''raw'' = JObject r \<and> map_of r ''chunks'' =
      Some (carry_in_array (\<lambda>o' e. carry_unknown o' e ''raw.chunks[]'') ''seq'' (JArray os) (JArray ns))"
    unfolding carry_unknown.simps [of "JObject s" "JObject n"] prod.case json.case raw
    by (auto simp: chunks assms(2) split: option.split)
  then obtain r where r: "carry_unknown (JObject s) (JObject n) ''raw'' = JObject r"
    "map_of r ''chunks'' =
      Some (carry_in_array (\<lambda>o' e. carry_unknown o' e ''raw.chunks[]'') ''seq'' (JArray os) (JArray ns))"
    by blast
  let ?r = "filter (\<lambda>(k, _). k \<in> set (known_fields ''raw'') \<or> k \<notin> set removed) r"
  have "map_of (put_section d ''raw'' (JObject n) removed) ''raw'' = Some (JObject ?r)"
    by (simp add: put_section_def assms(1) r(1) Let_def)
  moreover have "''chunks'' \<in> set (known_fields ''raw'')" by (simp add: known_fields_def)
  ultimately show ?thesis using r(2) by (intro exI [of _ ?r]) (simp add: map_of_filter_keys)
qed

lemma chunk_carried:
  assumes "i < length ns" and "ns ! i = JObject e" and "entry_id ''seq'' (JObject e) = Some q"
    and "JObject old \<in> set os" and "entry_id ''seq'' (JObject old) = Some q"
    and "\<And>x. x \<in> set os \<Longrightarrow> entry_id ''seq'' x = Some q \<Longrightarrow> x = JObject old"
  shows "\<exists>rs e'. carry_in_array (\<lambda>o' e. carry_unknown o' e ''raw.chunks[]'') ''seq'' (JArray os) (JArray ns) = JArray rs
    \<and> length rs = length ns \<and> rs ! i = JObject e'
    \<and> (\<forall>k. map_of e' k = (if k \<notin> set (known_fields ''raw.chunks[]'') \<and> map_of e k = None then map_of old k else map_of e k))"
proof -
  have "entries_by_id ''seq'' os q = Some (JObject old)" by (rule entries_by_id_unique [OF assms(4-6)])
  moreover have "nested ''raw.chunks[]'' = []" by (simp add: nested_def)
  ultimately show ?thesis using assms(1-3)
    by (simp add: carry_in_array_arrays carry_unknown_flat map_of_carry_fields)
qed


section \<open>Properties of the edits\<close>

text \<open>C33. A writer keeps to its own side: what the client writes leaves every top-level member but its
  three sections as it was stored, what the server writes leaves all but \<open>server\<close>; both replace
  exactly the version they read, count the revision up by one and set \<open>updated_at\<close>.\<close>

theorem edits_keep_to_their_sections:
  assumes "next_doc lib sd now key (Some (d, v)) ed = Inr (d', md)"
  shows "md = PutReplace v
    \<and> map_of d' ''updated_at'' = Some (JString now)
    \<and> map_of d' ''revision'' = Some (JNumber (PosInt
         ((case Option.bind (map_of d ''revision'') as_u64 of None \<Rightarrow> 0 | Some r \<Rightarrow> r) + 1)))
    \<and> (\<forall>k. k \<notin> {''revision'', ''updated_at''}
         \<and> k \<notin> (case ed of EditServer _ _ \<Rightarrow> {''server''} | _ \<Rightarrow> {''session'', ''writer'', ''raw''})
         \<longrightarrow> map_of d' k = map_of d k)"
  using assms
  by (cases ed) (auto simp: next_doc_def bump_def Let_def put_section_other)

text \<open>Writing a section loses no field this version does not know: outside the nested objects a
  known field has the edit's value or is cleared, an unknown one keeps its stored value unless the
  edit sets it or names it for removal.\<close>

lemma unknown_fields_kept:
  assumes "map_of d name = Some (JObject stored)"
  shows "\<exists>r. map_of (put_section d name (JObject section_value) removed) name = Some (JObject r)
     \<and> (\<forall>k. k \<notin> fst ` set (nested name) \<longrightarrow> map_of r k =
          (if k \<in> set (known_fields name) then map_of section_value k
           else if k \<in> set removed then None
           else case map_of section_value k of None \<Rightarrow> map_of stored k | Some v \<Rightarrow> Some v))"
  by (rule put_section_object [OF assms])

text \<open>Chunk entries are matched by sequence number, never by position: entry \<open>i\<close> of the list an
  edit writes keeps the unknown fields of the one stored entry with its number, wherever that
  stands, and takes every known field from the edit.\<close>

lemma chunk_fields_kept:
  assumes "map_of d ''raw'' = Some (JObject stored)" and "map_of stored ''chunks'' = Some (JArray os)"
    and "map_of raw ''chunks'' = Some (JArray ns)"
    and "i < length ns" and "ns ! i = JObject e" and "entry_id ''seq'' (JObject e) = Some q"
    and "JObject old \<in> set os" and "entry_id ''seq'' (JObject old) = Some q"
    and "\<forall>x \<in> set os. entry_id ''seq'' x = Some q \<longrightarrow> x = JObject old"
  shows "\<exists>r rs e'. map_of (put_section d ''raw'' (JObject raw) removed) ''raw'' = Some (JObject r)
    \<and> map_of r ''chunks'' = Some (JArray rs) \<and> length rs = length ns \<and> rs ! i = JObject e'
    \<and> (\<forall>k. map_of e' k =
         (if k \<notin> set (known_fields ''raw.chunks[]'') \<and> map_of e k = None then map_of old k else map_of e k))"
  using put_section_chunks [OF assms(1-3), of removed] chunk_carried [OF assms(4-8)] assms(9) by fastforce

section \<open>A stored document with fields of a newer version\<close>

definition example_stored_raw :: doc where
  "example_stored_raw = [(''owner'', JString ''d''), (''future'', JNull),
     (''chunks'', JArray [JObject [(''seq'', JNumber (PosInt 1)), (''note'', JString ''one'')],
                          JObject [(''seq'', JNumber (PosInt 0)), (''note'', JString ''zero'')]])]"

definition example_doc :: doc where
  "example_doc = [(''revision'', JNumber (PosInt 4)), (''raw'', JObject example_stored_raw)]"

definition example_new_raw :: doc where
  "example_new_raw = [(''chunks'', JArray [JObject [(''seq'', JNumber (PosInt 0))]])]"

definition example_raw_serde :: manifest_serde where
  "example_raw_serde = \<lparr>sd_manifest = (\<lambda>_. []), sd_session = (\<lambda>_. JNull), sd_writer = (\<lambda>_. JNull),
     sd_raw = (\<lambda>_. JObject example_new_raw), sd_server = (\<lambda>_. JObject []), sd_print = (\<lambda>_. []),
     sd_parse = (\<lambda>_. None), sd_typed = (\<lambda>_. None)\<rparr>"

definition example_server :: server_section where
  "example_server = \<lparr>sv_updated_at = ''now'', sv_normalized = None, sv_lifecycle = Idle, sv_lifecycle_at = ''now'',
     sv_lifecycle_reason = None, sv_retention = None, sv_extra = []\<rparr>"

theorem edits_keep_to_their_sections_witness:
  "\<exists>d' md. next_doc example_lib example_raw_serde ''now'' ''k'' (Some (example_doc, 7)) (EditServer example_server []) = Inr (d', md)
     \<and> md = PutReplace 7 \<and> map_of d' ''raw'' = Some (JObject example_stored_raw)
     \<and> map_of d' ''revision'' = Some (JNumber (PosInt 5))"
proof -
  obtain d' md where e:
    "next_doc example_lib example_raw_serde ''now'' ''k'' (Some (example_doc, 7)) (EditServer example_server []) = Inr (d', md)"
    by (simp add: next_doc_def)
  show ?thesis using edits_keep_to_their_sections [OF e] e by (auto simp: example_doc_def)
qed

lemma unknown_fields_kept_witness:
  "\<exists>r. map_of (put_section example_doc ''raw'' (JObject example_new_raw) []) ''raw'' = Some (JObject r)
     \<and> map_of r ''owner'' = None \<and> map_of r ''future'' = Some JNull"
proof -
  have d: "map_of example_doc ''raw'' = Some (JObject example_stored_raw)" by (simp add: example_doc_def)
  obtain r where "map_of (put_section example_doc ''raw'' (JObject example_new_raw) []) ''raw'' = Some (JObject r)"
    "\<And>k. k \<notin> fst ` set (nested ''raw'') \<Longrightarrow> map_of r k =
       (if k \<in> set (known_fields ''raw'') then map_of example_new_raw k
        else if k \<in> set [] then None
        else case map_of example_new_raw k of None \<Rightarrow> map_of example_stored_raw k | Some v \<Rightarrow> Some v)"
    using unknown_fields_kept [OF d, of example_new_raw "[]"] by blast
  then show ?thesis by (auto simp: nested_def known_fields_def example_new_raw_def example_stored_raw_def)
qed

lemma chunk_fields_kept_witness:
  "\<exists>r rs e'. map_of (put_section example_doc ''raw'' (JObject example_new_raw) []) ''raw'' = Some (JObject r)
    \<and> map_of r ''chunks'' = Some (JArray rs) \<and> rs ! 0 = JObject e'
    \<and> map_of e' ''seq'' = Some (JNumber (PosInt 0)) \<and> map_of e' ''note'' = Some (JString ''zero'')"
proof -
  let ?old = "[(''seq'', JNumber (PosInt 0)), (''note'', JString ''zero'')]"
  let ?os = "[JObject [(''seq'', JNumber (PosInt 1)), (''note'', JString ''one'')], JObject ?old]"
  have "map_of example_doc ''raw'' = Some (JObject example_stored_raw)"
    "map_of example_stored_raw ''chunks'' = Some (JArray ?os)"
    "map_of example_new_raw ''chunks'' = Some (JArray [JObject [(''seq'', JNumber (PosInt 0))]])"
    by (simp_all add: example_doc_def example_stored_raw_def example_new_raw_def)
  from chunk_fields_kept [OF this, of 0 "[(''seq'', JNumber (PosInt 0))]" 0 ?old "[]"]
  obtain r rs e' where "map_of (put_section example_doc ''raw'' (JObject example_new_raw) []) ''raw'' = Some (JObject r)"
    "map_of r ''chunks'' = Some (JArray rs)" "rs ! 0 = JObject e'"
    "\<And>k. map_of e' k = (if k \<notin> set (known_fields ''raw.chunks[]'') \<and> map_of [(''seq'', JNumber (PosInt 0))] k = None
       then map_of ?old k else map_of [(''seq'', JNumber (PosInt 0))] k)"
    by (auto simp: entry_id_def json_get_def)
  then show ?thesis by (auto simp: known_fields_def)
qed

end
