(* ===== verification/ManifestUpdateFacts.thy ===== *)
theory ManifestUpdateFacts
  imports ManifestMergeFacts
begin

text \<open>
  What the write loop promises: a successful write is one atomic step on the document it
  replaced, whatever other writers did in between; the loop gives up only when every attempt was
  raced; and a writer never touches the other side's fields nor loses a field it does not know.
\<close>

section \<open>Attempts\<close>

text \<open>The state before the put of the \<open>k\<close>-th attempt, when all earlier puts lost.\<close>

fun interfered :: "surroundings \<Rightarrow> nat \<Rightarrow> nat \<Rightarrow> stored \<Rightarrow> stored" where
  "interfered env attempt 0 st = st"
| "interfered env attempt (Suc n) st = interfered env (Suc attempt) n (interfere env attempt st)"

definition versions_fresh :: "stored \<Rightarrow> bool" where
  "versions_fresh st \<longleftrightarrow> (case so_object st of None \<Rightarrow> True | Some (_, v) \<Rightarrow> v < so_next_version st)"

lemma fold_store_write:
  "so_next_version st \<le> so_next_version (fold store_write ws st)
   \<and> (ws \<noteq> [] \<longrightarrow> (\<exists>b v. so_object (fold store_write ws st) = Some (b, v)
        \<and> so_next_version st \<le> v \<and> v < so_next_version (fold store_write ws st)))"
proof (induction ws arbitrary: st)
  case (Cons w ws)
  show ?case using Cons [of "store_write w st"] by (cases "ws = []") (auto simp: store_write_def)
qed simp

lemma interfere_fresh: "versions_fresh st \<Longrightarrow> versions_fresh (interfere env k st)"
  using fold_store_write [of st "en_writes env k"]
  by (cases "en_writes env k = []") (auto simp: versions_fresh_def interfere_def)

text \<open>The object others may have written has another version than the one read.\<close>

lemma interfere_same_version:
  assumes "versions_fresh st" and "so_object st = Some (b, v)" and "so_object (interfere env k st) = Some (b', v)"
  shows "interfere env k st = st"
  using assms fold_store_write [of st "en_writes env k"]
  by (cases "en_writes env k = []") (auto simp: versions_fresh_def interfere_def)

lemma interfere_none: "so_object (interfere env k st) = None \<Longrightarrow> interfere env k st = st"
  using fold_store_write [of st "en_writes env k"] by (cases "en_writes env k = []") (auto simp: interfere_def)

lemma put_attempt_lost: "put_attempt env key k body md st = (Inl e, st') \<Longrightarrow> st' = st"
  by (auto simp: put_attempt_def store_put_def split: option.splits put_mode.splits if_splits)

lemma prepare_mode:
  assumes "prepare lib sd now key edit k got = Inr (Ready body md m)"
  shows "(case got of None \<Rightarrow> md = PutCreate | Some (_, v) \<Rightarrow> md = PutReplace v)"
  using assms
  by (auto simp: prepare_def read_manifest_def next_doc_def and_then_Inr ok_or_Inr
      split: option.splits edit.splits if_splits)

text \<open>Two ways a put succeeds: it replaces, or creates, exactly what the edit was computed from; or
  the bytes of a create are already there.\<close>

lemma put_commits:
  assumes "versions_fresh st" and "prepare lib sd now key edit k (so_object st) = Inr (Ready body md m)"
    and "put_attempt env key k body md (interfere env k st) = (Inr v, st')"
  shows "(interfere env k st = st \<and> st' = store_write body st \<and> v = so_next_version st)
    \<or> (st' = interfere env k st \<and> so_object st' = Some (body, v) \<and> md = PutCreate)"
proof (cases "so_object st")
  case None
  then have "md = PutCreate" using prepare_mode [OF assms(2)] by simp
  then show ?thesis
    using assms(3) interfere_none [of env k st]
    by (auto simp: put_attempt_def store_put_def split: option.splits if_splits)
next
  case (Some p)
  then obtain b w where bw: "so_object st = Some (b, w)" by (cases p) auto
  then have "md = PutReplace w" using prepare_mode [OF assms(2)] by simp
  then show ?thesis
    using assms(3) interfere_same_version [OF assms(1) bw, of env k]
    by (auto simp: put_attempt_def store_put_def split: option.splits if_splits)
qed

text \<open>Gets that tell the truth: an object that is there is not reported missing.\<close>

definition gets_honest :: "surroundings \<Rightarrow> bool" where
  "gets_honest env \<longleftrightarrow> (\<forall>k s. en_get_error env k \<noteq> Some (NotFound s))"

lemma get_object_honest:
  "gets_honest env \<Longrightarrow> get_object env k st = Inr got \<Longrightarrow> got = so_object st"
  by (auto simp: gets_honest_def get_object_def split: option.splits store_error.splits)

text \<open>What a successful return means: an atomic read, edit and write of the state at the commit.\<close>

definition atomic_update ::
  "manifest_lib \<Rightarrow> manifest_serde \<Rightarrow> (nat \<Rightarrow> string) \<Rightarrow> object_key \<Rightarrow> (manifest option \<Rightarrow> store_error + edit)
    \<Rightarrow> nat \<Rightarrow> stored \<Rightarrow> (store_error + updated) \<times> stored" where
  "atomic_update lib sd now key edit k st =
     (case prepare lib sd now key edit k (so_object st) of
        Inl e \<Rightarrow> (Inl e, st)
      | Inr (Done u) \<Rightarrow> (Inr u, st)
      | Inr (Ready body md m) \<Rightarrow>
          (Inr \<lparr>up_manifest = Some m, up_version = Some (so_next_version st), up_written = True,
                up_attempts = k\<rparr>, store_write body st))"

lemma update_from_atomic:
  assumes "gets_honest env" and "versions_fresh st"
    and "update_from lib sd now key edit env left attempt st = (Inr u, st')"
  shows "attempt \<le> up_attempts u \<and> up_attempts u < attempt + left \<and>
    (let before = interfered env attempt (up_attempts u - attempt) st;
         at_put = interfered env attempt (Suc (up_attempts u - attempt)) st
     in atomic_update lib sd now key edit (up_attempts u) before = (Inr u, st')
        \<or> (up_written u \<and> st' = at_put
           \<and> (\<exists>body v m. prepare lib sd now key edit (up_attempts u) None = Inr (Ready body PutCreate m)
                \<and> so_object at_put = Some (body, v) \<and> up_version u = Some v)))"
  using assms(2,3)
proof (induction left arbitrary: attempt st)
  case (Suc left)
  obtain got where got: "get_object env attempt st = Inr got"
    using Suc.prems(2) by (cases "get_object env attempt st") auto
  then have obj: "got = so_object st" by (rule get_object_honest [OF assms(1)])
  obtain pr where pr: "prepare lib sd now key edit attempt (so_object st) = Inr pr"
    using Suc.prems(2) got obj by (cases "prepare lib sd now key edit attempt (so_object st)") auto
  show ?case
  proof (cases pr)
    case (Done u')
    then have "u' = u" "st' = st" using Suc.prems(2) got obj pr by auto
    moreover have "up_attempts u = attempt" using pr Done \<open>u' = u\<close>
      by (auto simp: prepare_def and_then_Inr split: if_splits)
    ultimately show ?thesis using pr Done by (simp add: atomic_update_def)
  next
    case (Ready body md m)
    show ?thesis
    proof (cases "put_attempt env key attempt body md (interfere env attempt st)")
      case put: (Pair r st1)
      show ?thesis
      proof (cases r)
        case (Inr v)
        have u: "u = \<lparr>up_manifest = Some m, up_version = Some v, up_written = True, up_attempts = attempt\<rparr>"
          and st1: "st' = st1" using Suc.prems(2) got obj pr Ready put Inr by auto
        from put_commits [OF Suc.prems(1) pr [unfolded Ready]] put Inr
        consider "interfere env attempt st = st" "st1 = store_write body st" "v = so_next_version st"
          | "st1 = interfere env attempt st" "so_object st1 = Some (body, v)" "md = PutCreate" by blast
        then show ?thesis
        proof cases
          case 1
          then show ?thesis using pr Ready u st1 by (simp add: atomic_update_def)
        next
          case 2
          then have "so_object st = None"
            using prepare_mode [OF pr [unfolded Ready]] by (auto split: option.splits)
          then show ?thesis using 2 pr Ready u st1 by auto
        qed
      next
        case (Inl e)
        then have "st1 = interfere env attempt st" using put_attempt_lost put by blast
        then have rest: "update_from lib sd now key edit env left (Suc attempt) (interfere env attempt st) = (Inr u, st')"
          using Suc.prems(2) got obj pr Ready put Inl by (auto split: if_splits)
        have IH: "Suc attempt \<le> up_attempts u \<and> up_attempts u < Suc attempt + left \<and>
            (let before = interfered env (Suc attempt) (up_attempts u - Suc attempt) (interfere env attempt st);
                 at_put = interfered env (Suc attempt) (Suc (up_attempts u - Suc attempt)) (interfere env attempt st)
             in atomic_update lib sd now key edit (up_attempts u) before = (Inr u, st')
              \<or> (up_written u \<and> st' = at_put
                 \<and> (\<exists>body v m. prepare lib sd now key edit (up_attempts u) None = Inr (Ready body PutCreate m)
                      \<and> so_object at_put = Some (body, v) \<and> up_version u = Some v)))"
          by (rule Suc.IH [OF interfere_fresh [OF Suc.prems(1)] rest])
        then obtain n where n: "up_attempts u = Suc attempt + n" by (auto simp: le_iff_add)
        then have "up_attempts u - Suc attempt = n" "up_attempts u - attempt = Suc n"
          "attempt \<le> up_attempts u" by simp_all
        then show ?thesis using IH by (simp only: Let_def interfered.simps) simp
      qed
    qed
  qed
qed simp


text \<open>A failed update leaves what the others wrote and nothing else.\<close>

lemma update_from_failed:
  assumes "update_from lib sd now key edit env left attempt st = (Inl e, st')"
  shows "\<exists>n\<le>left. st' = interfered env attempt n st"
  using assms
proof (induction left arbitrary: attempt st)
  case (Suc left)
  show ?case
  proof (cases "and_then (get_object env attempt st) (prepare lib sd now key edit attempt)")
    case (Inl e')
    then have "st' = interfered env attempt 0 st" using Suc.prems by simp
    then show ?thesis by blast
  next
    case ready: (Inr pr)
    then obtain body md m where pr: "pr = Ready body md m" using Suc.prems by (cases pr) auto
    obtain r st1 where put: "put_attempt env key attempt body md (interfere env attempt st) = (r, st1)"
      by (cases "put_attempt env key attempt body md (interfere env attempt st)")
    then obtain e' where r: "r = Inl e'" using Suc.prems ready pr by (cases r) auto
    then have st1: "st1 = interfere env attempt st" using put_attempt_lost put by blast
    show ?thesis
    proof (cases "lost_race e'")
      case True
      then have "update_from lib sd now key edit env left (Suc attempt) (interfere env attempt st) = (Inl e, st')"
        using Suc.prems ready pr put r st1 by simp
      then obtain n where "n \<le> left" "st' = interfered env (Suc attempt) n (interfere env attempt st)"
        using Suc.IH by blast
      then show ?thesis by (intro exI [of _ "Suc n"]) simp
    next
      case False
      then have "st' = interfered env attempt (Suc 0) st" using Suc.prems ready pr put r st1 by simp
      then show ?thesis by blast
    qed
  qed
qed simp

text \<open>The put of an attempt nobody interferes with succeeds.\<close>

lemma quiet_put:
  assumes "en_put_error env k = None"
    and "case so_object st of None \<Rightarrow> md = PutCreate | Some (_, v) \<Rightarrow> md = PutReplace v"
  shows "\<exists>v st'. put_attempt env key k body md st = (Inr v, st')"
  using assms by (auto simp: put_attempt_def store_put_def split: option.splits)

definition put_may_lose :: "surroundings \<Rightarrow> nat \<Rightarrow> bool" where
  "put_may_lose env k \<longleftrightarrow> (case en_put_error env k of None \<Rightarrow> True | Some e \<Rightarrow> lost_race e)"

lemma put_may_lose_lost:
  assumes "put_may_lose env k" and "put_attempt env key k body md st = (Inl e, st')"
  shows "lost_race e"
  using assms
  by (auto simp: put_may_lose_def put_attempt_def store_put_def lost_race_def
      split: option.splits put_mode.splits if_splits)

lemma update_from_succeeds:
  assumes "n < left" and "\<And>j. j \<le> n \<Longrightarrow> en_get_error env (attempt + j) = None"
    and "\<And>j. j < n \<Longrightarrow> put_may_lose env (attempt + j)"
    and "en_writes env (attempt + n) = []" and "en_put_error env (attempt + n) = None"
    and "\<And>j. j \<le> n \<Longrightarrow> \<exists>p. prepare lib sd now key edit (attempt + j)
          (so_object (interfered env attempt j st)) = Inr p"
  shows "\<exists>u st'. update_from lib sd now key edit env left attempt st = (Inr u, st') \<and> up_attempts u \<le> attempt + n"
  using assms
proof (induction left arbitrary: attempt n st)
  case (Suc left)
  have get: "get_object env attempt st = Inr (so_object st)" using Suc.prems(2) [of 0] by (simp add: get_object_def)
  obtain pr where pr: "prepare lib sd now key edit attempt (so_object st) = Inr pr"
    using Suc.prems(6) [of 0] by auto
  show ?case
  proof (cases pr)
    case (Done u)
    then have "up_attempts u = attempt" using pr by (auto simp: prepare_def and_then_Inr split: if_splits)
    then show ?thesis using get pr Done by simp
  next
    case (Ready body md m)
    obtain r st1 where put: "put_attempt env key attempt body md (interfere env attempt st) = (r, st1)"
      by (cases "put_attempt env key attempt body md (interfere env attempt st)")
    show ?thesis
    proof (cases r)
      case (Inr v)
      then show ?thesis using get pr Ready put by simp
    next
      case (Inl e)
      show ?thesis
      proof (cases n)
        case 0
        then have "interfere env attempt st = st" using Suc.prems(4) by (simp add: interfere_def)
        then show ?thesis
          using quiet_put [of env attempt md st key body] prepare_mode [OF pr [unfolded Ready]] put Inl Suc.prems(5) 0
          by auto
      next
        case (Suc n')
        have lost: "lost_race e"
          using put_may_lose_lost [OF Suc.prems(3) [of 0, simplified]] put Inl Suc by auto
        have st1: "st1 = interfere env attempt st" using put_attempt_lost put Inl by blast
        have "\<exists>u st'. update_from lib sd now key edit env left (Suc attempt) (interfere env attempt st) = (Inr u, st')
            \<and> up_attempts u \<le> Suc attempt + n'"
        proof (rule Suc.IH)
          show "n' < left" using Suc.prems(1) Suc by simp
          show "en_writes env (Suc attempt + n') = []" "en_put_error env (Suc attempt + n') = None"
            using Suc.prems(4,5) Suc by simp_all
          show "en_get_error env (Suc attempt + j) = None" if "j \<le> n'" for j
            using Suc.prems(2) [of "Suc j"] Suc that by simp
          show "put_may_lose env (Suc attempt + j)" if "j < n'" for j
            using Suc.prems(3) [of "Suc j"] Suc that by simp
          show "\<exists>p. prepare lib sd now key edit (Suc attempt + j)
              (so_object (interfered env (Suc attempt) j (interfere env attempt st))) = Inr p" if "j \<le> n'" for j
            using Suc.prems(6) [of "Suc j"] Suc that by simp
        qed
        then show ?thesis using get pr Ready put Inl lost st1 Suc by auto
      qed
    qed
  qed
qed simp


section \<open>Properties of the write loop\<close>

text \<open>C31. Whatever other writers do between the read and the put of each attempt, an update that
  reports success was one atomic step: it is the read, edit and write of the very document it
  replaced, or (a create whose bytes are already stored) it changed nothing and reports the version
  of those bytes.\<close>

theorem update_manifest_atomic:
  assumes "gets_honest env" and "versions_fresh st"
    and "update_manifest lib sd now key max_attempts edit env st = (Inr u, st')"
  shows "1 \<le> up_attempts u \<and> up_attempts u \<le> max max_attempts 1 \<and>
    (atomic_update lib sd now key edit (up_attempts u) (interfered env 1 (up_attempts u - 1) st) = (Inr u, st')
     \<or> (up_written u \<and> st' = interfered env 1 (up_attempts u) st
        \<and> (\<exists>body v m. prepare lib sd now key edit (up_attempts u) None = Inr (Ready body PutCreate m)
             \<and> so_object st' = Some (body, v) \<and> up_version u = Some v)))"
proof -
  have from1: "update_from lib sd now key edit env (max max_attempts 1) 1 st = (Inr u, st')"
    using assms(3) by (simp add: update_manifest_def)
  then have "1 \<le> up_attempts u" "up_attempts u \<le> max max_attempts 1"
    using update_from_atomic [OF assms(1,2) from1] by auto
  then have "Suc (up_attempts u - 1) = up_attempts u" by simp
  with update_from_atomic [OF assms(1,2) from1] show ?thesis
    by (auto simp: Let_def simp del: interfered.simps One_nat_def)
qed

text \<open>An update that fails, for whatever reason, wrote nothing: the object is as the other writers
  left it after some of their writes.\<close>

lemma update_manifest_failed:
  assumes "update_manifest lib sd now key max_attempts edit env st = (Inl e, st')"
  shows "\<exists>n. n \<le> max max_attempts 1 \<and> st' = interfered env 1 n st"
  using assms update_from_failed unfolding update_manifest_def by blast

text \<open>C32. An update succeeds no later than on the first attempt nobody races: when attempt \<open>k\<close> is
  within the bound and undisturbed, the ones before it did worse than lose no race, and the edit
  applies to what each attempt reads, the result is a success within \<open>k\<close> attempts.\<close>

theorem update_manifest_succeeds:
  assumes "1 \<le> k" and "k \<le> max_attempts"
    and "\<forall>j \<in> {1..k}. en_get_error env j = None" and "\<forall>j \<in> {1..<k}. put_may_lose env j"
    and "en_writes env k = []" and "en_put_error env k = None"
    and "\<forall>j < k. \<exists>p. prepare lib sd now key edit (Suc j) (so_object (interfered env 1 j st)) = Inr p"
  shows "\<exists>u st'. update_manifest lib sd now key max_attempts edit env st = (Inr u, st') \<and> up_attempts u \<le> k"
proof -
  obtain n where k: "k = Suc n" using assms(1) by (cases k) auto
  have "\<exists>u st'. update_from lib sd now key edit env (max max_attempts 1) 1 st = (Inr u, st') \<and> up_attempts u \<le> 1 + n"
    by (rule update_from_succeeds) (use assms k in auto)
  then show ?thesis by (simp add: update_manifest_def k)
qed

section \<open>A create that is raced once\<close>

definition example_key :: object_key where
  "example_key = ObjectKey ''v1/ws=w/m=m/h=pi/d=2026/01/05/s=s/manifest.json''"

definition example_serde :: manifest_serde where
  "example_serde = example_raw_serde\<lparr>sd_print := (\<lambda>d. if d = [] then ''new'' else ''edited''),
     sd_parse := (\<lambda>_. Some (JObject [(''schema_v'', JNumber (PosInt 1))])),
     sd_typed := (\<lambda>_. Some example_first)\<rparr>"

definition example_edit :: "manifest option \<Rightarrow> store_error + edit" where
  "example_edit current = (case current of
     None \<Rightarrow> Inr (EditCreate example_first) | Some _ \<Rightarrow> Inr (EditServer example_server []))"

definition example_race :: surroundings where
  "example_race = \<lparr>en_get_error = (\<lambda>_. None), en_writes = (\<lambda>k. if k = 1 then [''other''] else []),
     en_put_error = (\<lambda>_. None)\<rparr>"

definition example_empty :: stored where
  "example_empty = \<lparr>so_object = None, so_next_version = 0\<rparr>"

lemma example_valid_key: "validate example_lib example_first (Some example_key) = []"
proof -
  have "check_key example_lib example_first example_key = []"
    by (simp add: check_key_def example_defs example_key_def example_lib_def LAYOUT_VERSION_def check_that_def)
  then show ?thesis using example_first_valid by (simp add: validate_Nil check_opt_def validate_def)
qed

lemma example_parse: "parse_manifest example_lib example_serde body (Some example_key) = Inr example_first"
  by (simp add: parse_manifest_def example_serde_def json_get_def MANIFEST_SCHEMA_VERSION_def ensure_valid_def
      example_valid_key)

lemma example_create: "create_doc example_lib example_serde example_first = Inr []"
proof -
  have "example_first\<lparr>mf_revision := 1\<rparr> = example_first" by (simp add: example_first_def new_manifest_def Let_def)
  then show ?thesis
    by (simp add: create_doc_def ensure_valid_def example_first_valid example_serde_def example_raw_serde_def)
qed

lemma example_serde_simps:
  "sd_print example_serde d = (if d = [] then ''new'' else ''edited'')"
  "sd_parse example_serde body = Some (JObject [(''schema_v'', JNumber (PosInt 1))])"
  by (simp_all add: example_serde_def)

lemma doc_insert_not_Nil: "doc_insert k v d \<noteq> []"
  by (induction d) (auto split: if_splits)

lemma example_prepare:
  "prepare example_lib example_serde (\<lambda>_. ''now'') example_key example_edit k None = Inr (Ready ''new'' PutCreate example_first)"
  "prepare example_lib example_serde (\<lambda>_. ''now'') example_key example_edit k (Some (body, v)) =
     Inr (Ready ''edited'' (PutReplace v) example_first)"
  by (simp_all add: prepare_def read_manifest_def example_edit_def next_doc_def example_parse example_create
      example_serde_simps doc_insert_not_Nil bump_def Let_def)

definition example_update :: "nat \<Rightarrow> (store_error + updated) \<times> stored" where
  "example_update max_attempts =
     update_manifest example_lib example_serde (\<lambda>_. ''now'') example_key max_attempts example_edit example_race example_empty"

lemma example_race_simps:
  "get_object example_race k st = Inr (so_object st)"
  "interfere example_race (Suc 0) st = store_write ''other'' st" "interfere example_race (Suc (Suc 0)) st = st"
  "put_attempt example_race key k body md st = store_put (as_str_key key) md body st"
  by (simp_all add: example_race_def get_object_def interfere_def put_attempt_def)

lemma example_update_result:
  "example_update 8 = (Inr \<lparr>up_manifest = Some example_first, up_version = Some 1, up_written = True, up_attempts = 2\<rparr>,
     \<lparr>so_object = Some (''edited'', 1), so_next_version = 2\<rparr>)"
  "example_update 1 = (Inl (ManifestContended (as_str_key example_key) 1),
     \<lparr>so_object = Some (''other'', 0), so_next_version = 1\<rparr>)"
  unfolding example_update_def update_manifest_def
  by (simp_all add: eval_nat_numeral example_race_simps
      example_prepare example_empty_def store_put_def store_write_def lost_race_def)

theorem update_manifest_atomic_witness:
  "atomic_update example_lib example_serde (\<lambda>_. ''now'') example_key example_edit 2
     \<lparr>so_object = Some (''other'', 0), so_next_version = 1\<rparr> = example_update 8"
proof -
  have "gets_honest example_race" "versions_fresh example_empty"
    by (simp_all add: gets_honest_def example_race_def versions_fresh_def example_empty_def)
  from update_manifest_atomic [OF this example_update_result(1) [unfolded example_update_def]]
  have "atomic_update example_lib example_serde (\<lambda>_. ''now'') example_key example_edit 2
      (interfered example_race 1 1 example_empty) = example_update 8"
    by (auto simp: example_prepare example_update_result)
  then show ?thesis by (simp add: example_race_simps example_empty_def store_write_def)
qed

lemma update_manifest_failed_witness:
  "\<exists>n. n \<le> 1 \<and> snd (example_update 1) = interfered example_race 1 n example_empty"
  using update_manifest_failed [OF example_update_result(2) [unfolded example_update_def]]
  unfolding example_update_result(2) by simp

theorem update_manifest_succeeds_witness:
  "\<exists>u st'. example_update 8 = (Inr u, st') \<and> up_attempts u \<le> 2"
  unfolding example_update_def
proof (rule update_manifest_succeeds)
  show "\<forall>j<2. \<exists>p. prepare example_lib example_serde (\<lambda>_. ''now'') example_key example_edit (Suc j)
      (so_object (interfered example_race 1 j example_empty)) = Inr p"
    by (auto simp: less_2_cases_iff example_empty_def example_prepare example_race_simps store_write_def)
qed (simp_all add: example_race_def put_may_lose_def)

end
