(* ===== verification/ObjectKeysFacts.thy ===== *)
theory ObjectKeysFacts
  imports ObjectKeys
begin

text \<open>
  What the layout promises: every key it builds is accepted on every backend and lies under the
  prefix a vended credential is scoped to, two sessions never share a directory, and chunk names
  read back and sort by sequence number.
\<close>

section \<open>Pieces between slashes\<close>

lemma segment_fault_append:
  "segment_fault (xs @ ys) = (case segment_fault xs of Some f \<Rightarrow> Some f | None \<Rightarrow> segment_fault ys)"
  by (induction xs) auto

lemma key_fault_None:
  "key_fault_of key = None \<longleftrightarrow> key \<noteq> [] \<and> length key \<le> MAX_KEY_BYTES \<and> hd key \<noteq> CHR ''.''
     \<and> segment_fault (split_char (CHR ''/'') key) = None \<and> list_all key_character key"
  by (auto simp: key_fault_of_def split: option.splits)

lemma key_fault_parent:
  "key_fault_of (a @ CHR ''/'' # b) = None \<Longrightarrow> a \<noteq> [] \<Longrightarrow> key_fault_of a = None"
  by (auto simp: key_fault_None split_char_append segment_fault_append split: option.splits)

lemma object_key_new_Inr: "object_key_new s = Inr k \<longleftrightarrow> key_fault_of s = None \<and> k = ObjectKey s"
  by (auto simp: object_key_new_def split: option.splits)

lemma key_join_Inr:
  "key_join k rest = Inr k' \<longleftrightarrow>
     key_fault_of (as_str_key k @ ''/'' @ rest) = None \<and> k' = ObjectKey (as_str_key k @ ''/'' @ rest)"
  by (simp add: key_join_def object_key_new_Inr)

section \<open>Where a session lives\<close>

definition prefix_dir :: "string option \<Rightarrow> string" where
  "prefix_dir prefix = (case map_option trim_slashes prefix of
     Some p \<Rightarrow> if p \<noteq> [] then p @ ''/'' else [] | None \<Rightarrow> [])"

lemma under_prefix_eq: "under_prefix prefix tail = object_key_new (prefix_dir prefix @ tail)"
  by (simp add: under_prefix_def prefix_dir_def split: option.split)

lemma check_component_Inr: "check_component v = Inr u \<longleftrightarrow> component_ok v"
  by (simp add: check_component_def)

definition session_tail :: "session_location \<Rightarrow> string" where
  "session_tail l = ''h='' @ sl_harness l @ ''/d='' @ date_path (sl_start_date l) @ ''/s='' @ sl_session_id l"

lemma session_prefix_Inr:
  "session_prefix l = Inr k \<longleftrightarrow>
     component_ok (sl_workspace_id l) \<and> component_ok (sl_machine_id l) \<and> component_ok (sl_harness l)
     \<and> component_ok (sl_session_id l)
     \<and> object_key_new (prefix_dir (sl_prefix l) @ machine_tail l @ ''/'' @ session_tail l) = Inr k"
  by (auto simp: session_prefix_def and_then_Inr check_component_Inr under_prefix_eq session_tail_def)

lemma machine_prefix_of_session:
  assumes "session_prefix l = Inr k"
  obtains m where "machine_prefix l = Inr m" and "as_str_key k = as_str_key m @ ''/'' @ session_tail l"
proof -
  have ok: "component_ok (sl_workspace_id l)" "component_ok (sl_machine_id l)"
    and k: "key_fault_of ((prefix_dir (sl_prefix l) @ machine_tail l) @ CHR ''/'' # session_tail l) = None"
      "k = ObjectKey ((prefix_dir (sl_prefix l) @ machine_tail l) @ CHR ''/'' # session_tail l)"
    using assms by (simp_all add: session_prefix_Inr object_key_new_Inr)
  have "prefix_dir (sl_prefix l) @ machine_tail l \<noteq> []"
    by (simp add: machine_tail_def LAYOUT_VERSION_def)
  with k(1) have "key_fault_of (prefix_dir (sl_prefix l) @ machine_tail l) = None"
    by (rule key_fault_parent)
  then have "machine_prefix l = Inr (ObjectKey (prefix_dir (sl_prefix l) @ machine_tail l))"
    using ok by (simp add: machine_prefix_def check_component_def under_prefix_eq object_key_new_def)
  then show ?thesis using that [of "ObjectKey (prefix_dir (sl_prefix l) @ machine_tail l)"] k(2) by simp
qed

lemma session_object_under_session:
  assumes "manifest_key l = Inr k \<or> raw_chunk l seq off sha fmt = Inr k \<or> normalized_key l v name = Inr k"
  obtains p rest where "session_prefix l = Inr p" "as_str_key k = as_str_key p @ ''/'' @ rest"
    "key_fault_of (as_str_key k) = None"
  using assms
  by (auto simp: manifest_key_def raw_chunk_def normalized_key_def and_then_Inr key_join_Inr
      split: if_splits)


section \<open>Padded numbers\<close>

lemma digits_value_zeros: "digits_value 0 (replicate n (CHR ''0'') @ ds) = digits_value 0 ds"
  by (induction n) (simp_all add: dec_digit_def)

lemma digits_value_pad: "digits_value 0 (zero_pad w (nat_to_dec n)) = Some (int n)"
  by (simp add: zero_pad_def digits_value_zeros digits_value_nat)

lemma zero_pad_inj: "zero_pad w (nat_to_dec m) = zero_pad w (nat_to_dec n) \<longleftrightarrow> m = n"
  using digits_value_pad by (metis of_nat_eq_iff option.inject)

lemma zero_pad_digits: "set (zero_pad w (nat_to_dec n)) \<subseteq> {c. dec_digit c}"
  using nat_to_dec_digits [of n] by (auto simp: zero_pad_def dec_digit_def)

lemma zero_pad_not_Nil: "zero_pad w (nat_to_dec n) \<noteq> []"
  using nat_to_dec_Cons [of n] by (auto simp: zero_pad_def)

lemma pad_int_inj: "pad_int w i = pad_int w j \<longleftrightarrow> i = j"
proof
  assume eq: "pad_int w i = pad_int w j"
  have not_minus: "zero_pad w (nat_to_dec n) \<noteq> CHR ''-'' # zs" for w n zs
    using zero_pad_digits [of w n] by (auto simp: dec_digit_def)
  show "i = j"
    using eq not_minus [of w] not_minus [of w, symmetric]
    by (auto simp: pad_int_def zero_pad_inj split: if_splits)
qed simp

lemma pad_int_chars: "set (pad_int w i) \<subseteq> {c. dec_digit c \<or> c = CHR ''-''}"
  using zero_pad_digits [of "w - 1" "nat (- i)"] zero_pad_digits [of w "nat i"]
  by (auto simp: pad_int_def)

lemma no_slash:
  "set s \<subseteq> {c. dec_digit c \<or> c = CHR ''-''} \<Longrightarrow> CHR ''/'' \<notin> set s"
  by (auto simp: dec_digit_def)

lemma component_no_slash: "component_ok v \<Longrightarrow> CHR ''/'' \<notin> set v"
  by (auto simp: component_ok_def list_all_iff component_character_def ascii_digit_def
      ascii_lower_def ascii_upper_def)

lemma session_path_segments:
  assumes "component_ok (sl_workspace_id l)" "component_ok (sl_machine_id l)"
    "component_ok (sl_harness l)" "component_ok (sl_session_id l)"
  shows "split_char (CHR ''/'') (machine_tail l @ ''/'' @ session_tail l) =
    [''v1'', ''ws='' @ sl_workspace_id l, ''m='' @ sl_machine_id l, ''h='' @ sl_harness l,
     ''d='' @ pad_int 4 (nd_year (sl_start_date l)), zero_pad 2 (nat_to_dec (nd_month (sl_start_date l))),
     zero_pad 2 (nat_to_dec (nd_day (sl_start_date l))), ''s='' @ sl_session_id l]"
proof -
  let ?d = "sl_start_date l"
  have path: "machine_tail l @ ''/'' @ session_tail l =
      ''v1'' @ CHR ''/'' # (''ws='' @ sl_workspace_id l) @ CHR ''/'' # (''m='' @ sl_machine_id l)
      @ CHR ''/'' # (''h='' @ sl_harness l) @ CHR ''/'' # (''d='' @ pad_int 4 (nd_year ?d))
      @ CHR ''/'' # zero_pad 2 (nat_to_dec (nd_month ?d))
      @ CHR ''/'' # zero_pad 2 (nat_to_dec (nd_day ?d)) @ CHR ''/'' # (''s='' @ sl_session_id l)"
    by (simp add: machine_tail_def session_tail_def date_path_def LAYOUT_VERSION_def)
  have "CHR ''/'' \<notin> set (pad_int 4 (nd_year ?d))"
    "CHR ''/'' \<notin> set (zero_pad 2 (nat_to_dec (nd_month ?d)))"
    "CHR ''/'' \<notin> set (zero_pad 2 (nat_to_dec (nd_day ?d)))"
    using pad_int_chars zero_pad_digits by (intro no_slash; blast)+
  then show ?thesis
    unfolding path split_char_append using assms [THEN component_no_slash]
    by (simp add: split_char_single)
qed

text \<open>Two sessions never share a directory: under one prefix, the session prefix determines
  workspace, machine, harness, start date and session id.\<close>

lemma session_prefix_inj:
  assumes "session_prefix l = Inr k" and "session_prefix l' = Inr k"
    and "sl_prefix l = sl_prefix l'"
  shows "l = l'"
proof -
  have ok: "component_ok (sl_workspace_id l)" "component_ok (sl_machine_id l)"
      "component_ok (sl_harness l)" "component_ok (sl_session_id l)"
    and ok': "component_ok (sl_workspace_id l')" "component_ok (sl_machine_id l')"
      "component_ok (sl_harness l')" "component_ok (sl_session_id l')"
    using assms by (simp_all add: session_prefix_Inr)
  have "machine_tail l @ ''/'' @ session_tail l = machine_tail l' @ ''/'' @ session_tail l'"
    using assms by (auto simp: session_prefix_Inr object_key_new_Inr)
  then have "split_char (CHR ''/'') (machine_tail l @ ''/'' @ session_tail l) =
      split_char (CHR ''/'') (machine_tail l' @ ''/'' @ session_tail l')" by (rule arg_cong)
  then show ?thesis
    unfolding session_path_segments [OF ok] session_path_segments [OF ok']
    using assms(3) by (simp add: pad_int_inj zero_pad_inj)
qed

section \<open>Chunk names\<close>

lemma strip_suffix_append: "strip_suffix suf (s @ suf) = Some s"
  by (simp add: strip_suffix_def)

lemma strip_suffix_last:
  assumes "t \<noteq> []" and "suf \<noteq> []" and "last suf \<noteq> last t"
  shows "strip_suffix suf (s @ t) = None"
proof -
  have "drop (length (s @ t) - length suf) (s @ t) \<noteq> suf" if "length suf \<le> length (s @ t)"
  proof
    assume eq: "drop (length (s @ t) - length suf) (s @ t) = suf"
    have "last (drop (length (s @ t) - length suf) (s @ t)) = last (s @ t)"
      using that assms(1,2) by (intro last_drop) auto
    then show False using eq assms by simp
  qed
  then show ?thesis by (auto simp: strip_suffix_def)
qed

lemma strip_format_append: "strip_format (s @ ''.'' @ extension f) = Some (s, f)"
proof -
  have hit: "Option.bind (strip_suffix (extension f) (s @ ''.'' @ extension f)) (strip_suffix ''.'') = Some s"
    using strip_suffix_append [of "extension f" "s @ ''.''"] strip_suffix_append [of "''.''" s] by simp
  have miss: "strip_suffix (extension g) (s @ ''.'' @ extension f) = None" if "g \<noteq> f" for g
    using that by (intro strip_suffix_last) (cases f; cases g; simp)+
  show ?thesis
    using hit miss by (cases f) (simp_all add: strip_format_def del: extension.simps)
qed

lemma split_once_append: "d \<notin> set xs \<Longrightarrow> split_once d (xs @ d # ys) = Some (xs, ys)"
  unfolding split_once_def by (simp add: dropWhile_append takeWhile_append)

lemma digits_no_char: "set ds \<subseteq> {c. dec_digit c} \<Longrightarrow> \<not> dec_digit d \<Longrightarrow> d \<notin> set ds"
  by auto

lemma parse_u64_digits:
  assumes "digits_value 0 ds = Some (int n)" and "ds \<noteq> []" and "set ds \<subseteq> {c. dec_digit c}"
    and "n < 2 ^ 64"
  shows "parse_u64 ds = Some (of_nat n)"
proof -
  have "hd ds \<noteq> CHR ''+''" using assms(2,3) by (cases ds) (auto simp: dec_digit_def)
  then have "(case ds of c # cs \<Rightarrow> if c = CHR ''+'' then cs else ds | [] \<Rightarrow> ds) = ds"
    by (cases ds) auto
  then show ?thesis using assms by (simp add: parse_u64_def)
qed

lemma unat_lt_u64: "unat (w :: 64 word) < 2 ^ 64"
  using unsigned_less [of w, where 'a = nat] by simp

lemma length_nat_to_dec: "length (nat_to_dec n) \<le> Suc k \<longleftrightarrow> n < 10 ^ Suc k"
proof (induction k arbitrary: n)
  case 0
  show ?case
    using nat_to_dec_Cons [of "n div 10"] by (subst nat_to_dec.simps) auto
next
  case (Suc k)
  show ?case
  proof (cases "n < 10")
    case True
    then have "n < 10 ^ Suc (Suc k)" by (rule less_le_trans) (simp add: self_le_power)
    then show ?thesis using True by (subst nat_to_dec.simps) simp
  next
    case False
    then have "length (nat_to_dec n) \<le> Suc (Suc k) \<longleftrightarrow> length (nat_to_dec (n div 10)) \<le> Suc k"
      by (subst nat_to_dec.simps) simp
    also have "\<dots> \<longleftrightarrow> n div 10 < 10 ^ Suc k" by (rule Suc)
    also have "\<dots> \<longleftrightarrow> n < 10 ^ Suc (Suc k)" by (simp add: div_less_iff_less_mult mult.commute)
    finally show ?thesis .
  qed
qed

lemma length_zero_pad10: "length (zero_pad 10 (nat_to_dec n)) = 10 \<longleftrightarrow> n < 10 ^ 10"
  using length_nat_to_dec [of n 9] by (auto simp: zero_pad_def)

definition chunk_fields :: "64 word \<Rightarrow> 64 word \<Rightarrow> string \<Rightarrow> raw_format \<Rightarrow> raw_chunk_name" where
  "chunk_fields seq off short fmt =
     \<lparr>rc_seq = seq, rc_start_offset = off, rc_sha256_8 = short, rc_format = fmt\<rparr>"

lemma parse_chunk_file_name:
  assumes "length short = 8"
  shows "parse_chunk_name (chunk_file_name seq off short fmt) =
    (if unat seq < 10 ^ 10 then Some (chunk_fields seq off short fmt) else None)"
proof -
  let ?q = "zero_pad 10 (nat_to_dec (unat seq))" and ?o = "nat_to_dec (unat off)"
  let ?stem = "?q @ CHR ''-'' # ?o @ CHR ''-'' # short"
  have name: "chunk_file_name seq off short fmt = ((?stem @ ''.'' @ extension fmt) @ ''.zst'')"
    by (simp add: chunk_file_name_def)
  have "\<not> dec_digit (CHR ''-'')" by (simp add: dec_digit_def)
  then have split: "split_once (CHR ''-'') ?stem = Some (?q, ?o @ CHR ''-'' # short)"
      "split_once (CHR ''-'') (?o @ CHR ''-'' # short) = Some (?o, short)"
    by (intro split_once_append digits_no_char zero_pad_digits nat_to_dec_digits; assumption)+
  have off: "parse_u64 ?o = Some off"
    using parse_u64_digits [of ?o "unat off"] digits_value_nat nat_to_dec_digits nat_to_dec_Cons [of "unat off"]
      unat_lt_u64 [of off] by auto
  have seq: "parse_u64 ?q = Some seq"
    using parse_u64_digits [of ?q "unat seq"] digits_value_pad zero_pad_digits zero_pad_not_Nil
      unat_lt_u64 [of seq] by auto
  show ?thesis
    unfolding parse_chunk_name_def name strip_suffix_append bind.bind_lunit strip_format_append prod.case
      split off
    using assms seq by (simp add: length_zero_pad10 chunk_fields_def)
qed

lemma raw_chunk_Inr:
  "raw_chunk l seq off sha fmt = Inr k \<longleftrightarrow>
     8 \<le> length sha \<and> list_all ascii_hexdigit sha
     \<and> (\<exists>p. session_prefix l = Inr p \<and> key_join p (''raw/''
          @ chunk_file_name seq off (map to_ascii_lower (take 8 sha)) fmt) = Inr k)"
  by (auto simp: raw_chunk_def and_then_Inr)

lemma file_name_append: "CHR ''/'' \<notin> set n \<Longrightarrow> file_name (ObjectKey (xs @ CHR ''/'' # n)) = n"
  by (simp add: file_name_def split_char_append split_char_single)

lemma chunk_file_name_no_slash:
  assumes "CHR ''/'' \<notin> set short"
  shows "CHR ''/'' \<notin> set (chunk_file_name seq off short fmt)"
proof -
  have "\<not> dec_digit (CHR ''/'')" by (simp add: dec_digit_def)
  then have "CHR ''/'' \<notin> set (zero_pad 10 (nat_to_dec (unat seq)))"
    "CHR ''/'' \<notin> set (nat_to_dec (unat off))"
    by (intro digits_no_char zero_pad_digits nat_to_dec_digits; assumption)+
  then show ?thesis using assms by (cases fmt) (simp_all add: chunk_file_name_def)
qed

lemma of_char_to_lower:
  assumes "ascii_upper c"
  shows "(of_char (to_ascii_lower c) :: nat) = of_char c + 32"
proof -
  have "of_char c + 32 < (256 :: nat)" using assms by (simp add: ascii_upper_def)
  then show ?thesis using assms by (simp add: to_ascii_lower_def)
qed

lemma hex_lower_no_slash:
  "list_all ascii_hexdigit s \<Longrightarrow> CHR ''/'' \<notin> set (map to_ascii_lower s)"
proof (induction s)
  case (Cons c s)
  have "to_ascii_lower c \<noteq> CHR ''/''"
  proof
    assume eq: "to_ascii_lower c = CHR ''/''"
    then have code: "(of_char (to_ascii_lower c) :: nat) = 47" by simp
    show False
    proof (cases "ascii_upper c")
      case True
      then show ?thesis using code of_char_to_lower [OF True] by (simp add: ascii_upper_def)
    next
      case False
      then have "c = CHR ''/''" using eq by (simp add: to_ascii_lower_def)
      then show ?thesis using Cons.prems by (simp add: ascii_hexdigit_def ascii_digit_def)
    qed
  qed
  then show ?case using Cons by simp
qed simp

text \<open>The file name of a raw chunk reads back: from the key of a chunk, \<open>RawChunkName::parse\<close>
  recovers its sequence number, its start offset, the first eight digits of its digest and its
  format, for every sequence number that fits the ten digits the name is padded to; from the
  first one that does not, it recovers nothing.\<close>

lemma raw_chunk_name_roundtrip:
  assumes "raw_chunk l seq off sha fmt = Inr k"
  shows "parse_chunk_name (file_name k) =
    (if unat seq < 10 ^ 10 then Some (chunk_fields seq off (map to_ascii_lower (take 8 sha)) fmt) else None)"
proof -
  let ?short = "map to_ascii_lower (take 8 sha)"
  obtain p where p: "8 \<le> length sha" "list_all ascii_hexdigit sha"
      "k = ObjectKey ((as_str_key p @ ''/raw'') @ CHR ''/'' # chunk_file_name seq off ?short fmt)"
    using assms by (auto simp: raw_chunk_Inr key_join_Inr)
  have "list_all ascii_hexdigit (take 8 sha)"
    using p(2) by (auto simp: list_all_iff dest: in_set_takeD)
  then have "file_name k = chunk_file_name seq off ?short fmt"
    unfolding p(3) by (intro file_name_append chunk_file_name_no_slash hex_lower_no_slash)
  then show ?thesis using parse_chunk_file_name [of ?short] p(1) by simp
qed

section \<open>Chunks sort by sequence number\<close>

lemma less_append_same_length:
  fixes a b :: "'a :: linorder list"
  assumes "length a = length b" and "a < b"
  shows "a @ u < b @ v"
  using assms
proof (induction a b rule: list_induct2)
  case (Cons x xs y ys)
  then show ?case by auto
qed simp

lemma prefix_less_iff: "xs @ u < xs @ (v :: 'a :: linorder list) \<longleftrightarrow> u < v"
  by (induction xs) auto

lemma digit_char_less: "i < j \<Longrightarrow> j < 10 \<Longrightarrow> digit_char i < digit_char j"
  by (simp add: digit_char_def less_char_def)

lemma zero_pad_step:
  "zero_pad (Suc w) (nat_to_dec n) = zero_pad w (if n < 10 then [] else nat_to_dec (n div 10)) @ [digit_char (n mod 10)]"
  by (subst nat_to_dec.simps) (simp add: zero_pad_def)

lemma mod_less_of_div_eq: "m div 10 = n div 10 \<Longrightarrow> (m :: nat) < n \<Longrightarrow> m mod 10 < n mod 10"
  by (metis div_mult_mod_eq nat_add_left_cancel_less)

lemma digit_char_0: "digit_char 0 = CHR ''0''"
  by code_simp

lemma zero_pad_empty: "0 < w \<Longrightarrow> zero_pad w [] = zero_pad w (nat_to_dec 0)"
  by (cases w) (simp_all add: zero_pad_def nat_to_dec.simps [of 0] digit_char_0
      replicate_append_same [symmetric])

lemma zero_pad_div:
  "0 < w \<Longrightarrow> zero_pad (Suc w) (nat_to_dec n) = zero_pad w (nat_to_dec (n div 10)) @ [digit_char (n mod 10)]"
  using zero_pad_step [of w n] zero_pad_empty [of w] by (simp split: if_splits)

lemma zero_pad_length: "n < 10 ^ Suc w \<Longrightarrow> length (zero_pad (Suc w) (nat_to_dec n)) = Suc w"
  using length_nat_to_dec [of n w] by (simp add: zero_pad_def)

lemma zero_pad_less:
  "m < n \<Longrightarrow> n < 10 ^ Suc w \<Longrightarrow> zero_pad (Suc w) (nat_to_dec m) < zero_pad (Suc w) (nat_to_dec n)"
proof (induction w arbitrary: m n)
  case 0
  then show ?case
    by (simp add: zero_pad_def nat_to_dec.simps [of m] nat_to_dec.simps [of n] digit_char_less)
next
  case (Suc w)
  have le: "m div 10 \<le> n div 10" using Suc.prems(1) by (simp add: div_le_mono)
  show ?case
  proof (cases "m div 10 < n div 10")
    case True
    have n: "n div 10 < 10 ^ Suc w" using Suc.prems(2) by (simp add: div_less_iff_less_mult mult.commute)
    have "zero_pad (Suc w) (nat_to_dec (m div 10)) < zero_pad (Suc w) (nat_to_dec (n div 10))"
      by (rule Suc.IH [OF True n])
    moreover have "m div 10 < 10 ^ Suc w" using True n by simp
    ultimately show ?thesis
      using n by (simp add: zero_pad_div zero_pad_length less_append_same_length del: power_Suc)
  next
    case False
    then have same: "m div 10 = n div 10" using le by simp
    then have "m mod 10 < n mod 10"
      by (rule mod_less_of_div_eq [OF _ Suc.prems(1)])
    then have "digit_char (m mod 10) < digit_char (n mod 10)" by (simp add: digit_char_less)
    then show ?thesis by (simp add: zero_pad_div same prefix_less_iff)
  qed
qed

text \<open>The keys of a session's chunks sort by sequence number: whatever their offsets, digests
  and formats, of two chunks the one with the smaller sequence number has the smaller key, as
  long as both fit the padding.\<close>

lemma raw_chunk_keys_sort:
  assumes "raw_chunk l s1 o1 h1 f1 = Inr k1" and "raw_chunk l s2 o2 h2 f2 = Inr k2"
    and "s1 < s2" and "unat s2 < 10 ^ 10"
  shows "as_str_key k1 < as_str_key k2"
proof -
  obtain p where p: "session_prefix l = Inr p"
      "as_str_key k1 = (as_str_key p @ ''/raw/'') @ zero_pad 10 (nat_to_dec (unat s1))
         @ (''-'' @ nat_to_dec (unat o1) @ ''-'' @ map to_ascii_lower (take 8 h1) @ ''.'' @ extension f1 @ ''.zst'')"
      "as_str_key k2 = (as_str_key p @ ''/raw/'') @ zero_pad 10 (nat_to_dec (unat s2))
         @ (''-'' @ nat_to_dec (unat o2) @ ''-'' @ map to_ascii_lower (take 8 h2) @ ''.'' @ extension f2 @ ''.zst'')"
    using assms(1,2) by (auto simp: raw_chunk_Inr key_join_Inr chunk_file_name_def)
  have less: "unat s1 < unat s2" using assms(3) by (simp add: word_less_nat_alt)
  have "zero_pad 10 (nat_to_dec (unat s1)) < zero_pad 10 (nat_to_dec (unat s2))"
    using zero_pad_less [of "unat s1" "unat s2" 9] less assms(4) by simp
  moreover have "length (zero_pad 10 (nat_to_dec (unat s1))) = length (zero_pad 10 (nat_to_dec (unat s2)))"
    using zero_pad_length [of "unat s1" 9] zero_pad_length [of "unat s2" 9] less assms(4) by simp
  ultimately show ?thesis
    unfolding p(2,3) prefix_less_iff by (intro less_append_same_length)
qed

section \<open>A session with keys\<close>

lemmas key_simps = check_component_def component_ok_def component_character_def ascii_digit_def
  ascii_lower_def ascii_upper_def under_prefix_def trim_slashes_def object_key_new_def
  key_fault_of_def MAX_KEY_BYTES_def key_character_def ascii_graphic_def machine_tail_def
  LAYOUT_VERSION_def ascii_hexdigit_def

definition example_location :: session_location where
  "example_location = \<lparr>sl_prefix = Some ''t/'', sl_workspace_id = ''w'', sl_machine_id = ''m'',
     sl_harness = ''pi'', sl_start_date = \<lparr>nd_year = 2026, nd_month = 1, nd_day = 5\<rparr>,
     sl_session_id = ''s''\<rparr>"

lemma example_session: "session_prefix example_location = Inr (ObjectKey ''t/v1/ws=w/m=m/h=pi/d=2026/01/05/s=s'')"
proof -
  have d: "date_path (sl_start_date example_location) = ''2026/01/05''" by code_simp
  show ?thesis unfolding session_prefix_def d by (simp add: example_location_def key_simps)
qed

lemma example_chunk:
  "raw_chunk example_location 42 1024 ''DEADBEEF00'' Jsonl = Inr (ObjectKey
     ''t/v1/ws=w/m=m/h=pi/d=2026/01/05/s=s/raw/0000000042-1024-deadbeef.jsonl.zst'')"
  "raw_chunk example_location 43 7 ''00000000'' SqliteRows = Inr (ObjectKey
     ''t/v1/ws=w/m=m/h=pi/d=2026/01/05/s=s/raw/0000000043-7-00000000.sqlite-rows.zst'')"
proof -
  have n: "chunk_file_name 42 1024 (map to_ascii_lower (take 8 ''DEADBEEF00'')) Jsonl
        = ''0000000042-1024-deadbeef.jsonl.zst''"
      "chunk_file_name 43 7 (map to_ascii_lower (take 8 ''00000000'')) SqliteRows
        = ''0000000043-7-00000000.sqlite-rows.zst''"
    by code_simp+
  show "raw_chunk example_location 42 1024 ''DEADBEEF00'' Jsonl = Inr (ObjectKey
     ''t/v1/ws=w/m=m/h=pi/d=2026/01/05/s=s/raw/0000000042-1024-deadbeef.jsonl.zst'')"
   "raw_chunk example_location 43 7 ''00000000'' SqliteRows = Inr (ObjectKey
     ''t/v1/ws=w/m=m/h=pi/d=2026/01/05/s=s/raw/0000000043-7-00000000.sqlite-rows.zst'')"
    unfolding raw_chunk_def example_session n by (simp_all add: key_simps key_join_def)
qed


lemma session_prefix_inj_witness: "example_location = example_location"
  by (rule session_prefix_inj [OF example_session example_session refl])

lemma raw_chunk_name_roundtrip_witness:
  "parse_chunk_name ''0000000042-1024-deadbeef.jsonl.zst'' = Some (chunk_fields 42 1024 ''deadbeef'' Jsonl)"
proof -
  have "file_name (ObjectKey
     ''t/v1/ws=w/m=m/h=pi/d=2026/01/05/s=s/raw/0000000042-1024-deadbeef.jsonl.zst'')
     = ''0000000042-1024-deadbeef.jsonl.zst''" by (simp add: file_name_def)
  moreover have "map to_ascii_lower (take 8 ''DEADBEEF00'') = ''deadbeef''" by code_simp
  ultimately show ?thesis using raw_chunk_name_roundtrip [OF example_chunk(1)] by (simp del: list.map)
qed

lemma raw_chunk_keys_sort_witness:
  "''t/v1/ws=w/m=m/h=pi/d=2026/01/05/s=s/raw/0000000042-1024-deadbeef.jsonl.zst'' <
   ''t/v1/ws=w/m=m/h=pi/d=2026/01/05/s=s/raw/0000000043-7-00000000.sqlite-rows.zst''"
  using raw_chunk_keys_sort [OF example_chunk] by simp

end
