(* ===== verification/ObjectStore.thy ===== *)
theory ObjectStore
  imports ObjectKeys "HOL-Library.AList"
begin

text \<open>
  The storage contract of the object-store plugin: the code every adapter shares (\<open>core.rs\<close>,
  \<open>metadata.rs\<close>, \<open>codec.rs\<close>, \<open>error.rs\<close>), the local-directory adapter (\<open>fs.rs\<close>) and multipart
  uploads (\<open>upload.rs\<close>). A put is modelled at one key as a sequence of atomic file operations,
  because the object and its metadata sidecar are two files: other puts, crashes and other tools
  may come between any two of them. An e-tag is opaque and never reused; \<open>sha256_hex\<close> is the
  argument \<open>sha\<close>.
\<close>

section \<open>Mapping the errors of the object_store crate\<close>

text \<open>One error of a source chain: an error of this crate, a transport error, or another one by its
  message.\<close>

datatype error_source =
    OwnError store_error
  | HttpFailure
  | OtherFailure string

datatype os_error =
    OsNotFound
  | OsAlreadyExists
  | OsPrecondition
  | OsNotImplemented
  | OsNotSupported
  | OsPermissionDenied
  | OsUnauthenticated
  | OsInvalidPath
  | OsGeneric "error_source list"
  | OsOther

text \<open>What follows the first occurrence of \<open>m\<close>.\<close>

fun after_first :: "string \<Rightarrow> string \<Rightarrow> string option" where
  "after_first m [] = (if m = [] then Some [] else None)"
| "after_first m (c # cs) =
     (if take (length m) (c # cs) = m then Some (drop (length m) (c # cs)) else after_first m cs)"

definition status_in_message :: "string \<Rightarrow> nat option" where
  "status_in_message message =
     Option.bind (after_first ''status code: '' message) (\<lambda>rest.
       if length rest < 3 then None else map_option unat (parse_u64 (take 3 rest)))"

fun is_transient :: "error_source list \<Rightarrow> bool" where
  "is_transient [] = False"
| "is_transient (OwnError e # chain) = is_retryable e"
| "is_transient (HttpFailure # chain) = True"
| "is_transient (OtherFailure message # chain) =
     (case status_in_message message of
        Some status \<Rightarrow> status = 408 \<or> status = 429 \<or> 500 \<le> status
      | None \<Rightarrow> is_transient chain)"

fun from_store :: "string \<Rightarrow> os_error \<Rightarrow> store_error" where
  "from_store key OsNotFound = NotFound key"
| "from_store key OsAlreadyExists = AlreadyExists key"
| "from_store key OsPrecondition = PreconditionFailed key"
| "from_store key OsNotImplemented = Unsupported"
| "from_store key OsNotSupported = Unsupported"
| "from_store key OsPermissionDenied = Unauthorized"
| "from_store key OsUnauthenticated = Unauthorized"
| "from_store key OsInvalidPath = InvalidKey key KeyRefused"
| "from_store key (OsGeneric chain) = (if is_transient chain then Transient else BackendError)"
| "from_store key OsOther = BackendError"

section \<open>User metadata\<close>

text \<open>A \<open>BTreeMap\<close> as the list of its entries.\<close>

type_synonym metadata = "(string \<times> string) list"

definition META_TRACE_ID :: string where
  "META_TRACE_ID = ''trace-id''"

definition META_CONTENT_SHA256 :: string where
  "META_CONTENT_SHA256 = ''content-sha256''"

definition MAX_METADATA_BYTES :: nat where
  "MAX_METADATA_BYTES = 2048"

definition RESERVED_DIGEST_BYTES :: nat where
  "RESERVED_DIGEST_BYTES = length META_CONTENT_SHA256 + 64"

definition MAX_USER_METADATA_BYTES :: nat where
  "MAX_USER_METADATA_BYTES = MAX_METADATA_BYTES - RESERVED_DIGEST_BYTES"

definition metadata_key_ok :: "string \<Rightarrow> bool" where
  "metadata_key_ok k \<longleftrightarrow> k \<noteq> [] \<and> length k \<le> 128 \<and> ascii_lower (hd k)
     \<and> list_all (\<lambda>c. ascii_lower c \<or> ascii_digit c \<or> c = CHR ''-'') k"

definition metadata_value_ok :: "string \<Rightarrow> bool" where
  "metadata_value_ok v \<longleftrightarrow> list_all (\<lambda>c. ascii_graphic c \<or> c = CHR '' '') v
     \<and> \<not> (v \<noteq> [] \<and> (hd v = CHR '' '' \<or> last v = CHR '' ''))"

definition validate_metadata :: "metadata \<Rightarrow> store_error + metadata" where
  "validate_metadata md =
     (if \<not> list_all (\<lambda>(k, v). metadata_key_ok k \<and> metadata_value_ok v) md then Inl InvalidArgument
      else if MAX_USER_METADATA_BYTES < sum_list (map (\<lambda>(k, v). length k + length v) md)
      then Inl InvalidArgument
      else Inr md)"

definition checked_user_metadata :: "metadata \<Rightarrow> store_error + metadata" where
  "checked_user_metadata md =
     (if map_of md META_CONTENT_SHA256 \<noteq> None then Inl InvalidArgument else validate_metadata md)"

definition with_digest :: "metadata \<Rightarrow> string \<Rightarrow> store_error + metadata" where
  "with_digest md sha =
     and_then (checked_user_metadata md) (\<lambda>m. Inr (AList.update META_CONTENT_SHA256 sha m))"

text \<open>Attributes of a request or response: the content type and the metadata under wire names.\<close>

datatype attribute = ContentType | MetadataName string

definition replace_char :: "char \<Rightarrow> char \<Rightarrow> string \<Rightarrow> string" where
  "replace_char a b s = map (\<lambda>c. if c = a then b else c) s"

definition attributes :: "metadata \<Rightarrow> string \<Rightarrow> char \<Rightarrow> (attribute \<times> string) list" where
  "attributes md content_type separator =
     fold (\<lambda>(k, v). AList.update (MetadataName (replace_char (CHR ''-'') separator k)) v) md
       [(ContentType, content_type)]"

definition user_metadata :: "(attribute \<times> string) list \<Rightarrow> char \<Rightarrow> metadata" where
  "user_metadata attrs separator =
     fold (\<lambda>(attr, v) md. case attr of
         MetadataName k \<Rightarrow> AList.update (replace_char separator (CHR ''-'') (map to_ascii_lower k)) v md
       | ContentType \<Rightarrow> md) attrs []"

definition infer_content_type :: "string \<Rightarrow> string" where
  "infer_content_type key =
     (if ends_with ''.zst'' key then ''application/zstd''
      else if ends_with ''.json'' key then ''application/json''
      else ''application/octet-stream'')"

section \<open>Puts\<close>

type_synonym e_tag = nat

record object_version =
  ov_e_tag :: "e_tag option"
  ov_version :: "string option"

record put_opts =
  po_if_none_match :: bool
  po_if_match :: "object_version option"
  po_content_sha256 :: "string option"
  po_metadata :: metadata
  po_content_type :: "string option"

definition opts_create :: put_opts where
  "opts_create = \<lparr>po_if_none_match = True, po_if_match = None, po_content_sha256 = None,
     po_metadata = [], po_content_type = None\<rparr>"

definition opts_replace :: "object_version \<Rightarrow> put_opts" where
  "opts_replace v = \<lparr>po_if_none_match = False, po_if_match = Some v, po_content_sha256 = None,
     po_metadata = [], po_content_type = None\<rparr>"

definition with_trace_id :: "string \<Rightarrow> put_opts \<Rightarrow> put_opts" where
  "with_trace_id t opts = opts\<lparr>po_metadata := AList.update META_TRACE_ID t (po_metadata opts)\<rparr>"

record put_ack =
  pa_key :: string
  pa_version :: object_version
  pa_content_sha256 :: string
  pa_size :: nat
  pa_created :: bool

datatype os_put_mode = ModeCreate | ModeUpdate object_version | ModeOverwrite

text \<open>A put that passed the checks of \<open>put_inner\<close> and goes to the backend.\<close>

record put_request =
  rq_mode :: os_put_mode
  rq_body :: string
  rq_sha :: string
  rq_metadata :: metadata
  rq_content_type :: string

definition mode_of :: "put_opts \<Rightarrow> store_error + os_put_mode" where
  "mode_of opts =
     (case (po_if_none_match opts, po_if_match opts) of
        (True, Some _) \<Rightarrow> Inl InvalidArgument
      | (True, None) \<Rightarrow> Inr ModeCreate
      | (False, Some v) \<Rightarrow> Inr (ModeUpdate v)
      | (False, None) \<Rightarrow> Inr ModeOverwrite)"

definition eq_ignore_case :: "string \<Rightarrow> string \<Rightarrow> bool" where
  "eq_ignore_case a b \<longleftrightarrow> map to_ascii_lower a = map to_ascii_lower b"

definition start_put ::
  "(string \<Rightarrow> string) \<Rightarrow> string \<Rightarrow> string \<Rightarrow> put_opts \<Rightarrow> store_error + put_request" where
  "start_put sha key body opts =
     and_then (mode_of opts) (\<lambda>mode.
       if (case po_content_sha256 opts of
             Some expected \<Rightarrow> \<not> eq_ignore_case expected (sha body) | None \<Rightarrow> False)
       then Inl (ContentMismatch key (the (po_content_sha256 opts)) (sha body))
       else and_then (with_digest (po_metadata opts) (sha body)) (\<lambda>md.
         Inr \<lparr>rq_mode = mode, rq_body = body, rq_sha = sha body, rq_metadata = md,
              rq_content_type =
                (case po_content_type opts of Some t \<Rightarrow> t | None \<Rightarrow> infer_content_type key)\<rparr>))"

end
