(* ===== verification/FsStore.thy ===== *)
theory FsStore
  imports ObjectStore
begin

text \<open>
  \<open>Core::put_inner\<close> over the local-directory adapter (\<open>core.rs\<close>, \<open>fs.rs\<close>), at one key. The object
  and its metadata sidecar are two files, each replaced atomically; an advisory lock serializes
  replacements. A put is a phase of its control flow, and \<open>advance\<close> is its next atomic file
  operation; where the lock is held by another put it waits (\<open>None\<close>). \<open>fs_step\<close> interleaves any
  number of puts with failures, crashes (the kernel drops a dead process's lock) and, where
  \<open>foreign\<close> is set, tools that write or remove the files without the adapter.
\<close>

section \<open>The files\<close>

datatype sidecar =
    Torn
  | Sidecar string metadata "e_tag option"

record fs_cell =
  fc_object :: "(string \<times> e_tag) option"
  fc_sidecar :: "sidecar option"
  fc_lock :: "nat option"
  fc_next :: e_tag

text \<open>\<open>LocalFileSystem\<close> gives every version it writes a new e-tag.\<close>

definition write_object :: "string \<Rightarrow> fs_cell \<Rightarrow> fs_cell" where
  "write_object body cell =
     cell\<lparr>fc_object := Some (body, fc_next cell), fc_next := fc_next cell + 1\<rparr>"

definition write_sidecar :: "put_request \<Rightarrow> e_tag \<Rightarrow> fs_cell \<Rightarrow> fs_cell" where
  "write_sidecar rq tag cell =
     cell\<lparr>fc_sidecar := Some (Sidecar (rq_content_type rq) (rq_metadata rq) (Some tag))\<rparr>"

definition read_metadata :: "e_tag option \<Rightarrow> fs_cell \<Rightarrow> metadata" where
  "read_metadata tag cell =
     (case fc_sidecar cell of
        Some (Sidecar _ md t) \<Rightarrow> if t \<noteq> None \<and> t = tag then md else []
      | _ \<Rightarrow> [])"

definition unlock :: "nat \<Rightarrow> fs_cell \<Rightarrow> fs_cell" where
  "unlock me cell = (if fc_lock cell = Some me then cell\<lparr>fc_lock := None\<rparr> else cell)"

definition take_lock :: "nat \<Rightarrow> fs_cell \<Rightarrow> fs_cell option" where
  "take_lock me cell = (if fc_lock cell = None then Some (cell\<lparr>fc_lock := Some me\<rparr>) else None)"

section \<open>The phases of a put\<close>

datatype phase =
    Begin
  | Compare object_version
  | Replace
  | Stamp e_tag
  | HeadObject
  | HeadSidecar e_tag nat
  | ReadBody e_tag nat
  | Repair e_tag
  | RepairHead e_tag
  | RepairStamp e_tag
  | Finished "store_error + put_ack"
  | Crashed

definition is_active :: "phase \<Rightarrow> bool" where
  "is_active ph \<longleftrightarrow> (case ph of Finished _ \<Rightarrow> False | Crashed \<Rightarrow> False | _ \<Rightarrow> True)"

definition tag_version :: "e_tag \<Rightarrow> object_version" where
  "tag_version t = \<lparr>ov_e_tag = Some t, ov_version = None\<rparr>"

definition ack_of_put :: "string \<Rightarrow> put_request \<Rightarrow> e_tag \<Rightarrow> bool \<Rightarrow> put_ack" where
  "ack_of_put key rq tag created =
     \<lparr>pa_key = key, pa_version = tag_version tag, pa_content_sha256 = rq_sha rq,
      pa_size = length (rq_body rq), pa_created = created\<rparr>"

text \<open>\<open>FsBackend::put_object\<close>: the first operation depends on the mode.\<close>

definition begin_put ::
  "nat \<Rightarrow> put_request \<Rightarrow> fs_cell \<Rightarrow> (phase \<times> fs_cell) option" where
  "begin_put me rq cell =
     (case rq_mode rq of
        ModeCreate \<Rightarrow>
          (case fc_object cell of
             None \<Rightarrow> Some (Stamp (fc_next cell), write_object (rq_body rq) cell)
           | Some _ \<Rightarrow> Some (HeadObject, cell))
      | ModeUpdate expected \<Rightarrow> map_option (\<lambda>c. (Compare expected, c)) (take_lock me cell)
      | ModeOverwrite \<Rightarrow> map_option (\<lambda>c. (Replace, c)) (take_lock me cell))"

definition compare_put ::
  "string \<Rightarrow> nat \<Rightarrow> object_version \<Rightarrow> fs_cell \<Rightarrow> phase \<times> fs_cell" where
  "compare_put key me expected cell =
     (case fc_object cell of
        None \<Rightarrow> (Finished (Inl (from_store key OsPrecondition)), unlock me cell)
      | Some (_, tag) \<Rightarrow>
          if Some tag \<noteq> ov_e_tag expected
          then (Finished (Inl (from_store key OsPrecondition)), unlock me cell)
          else (Replace, cell))"

text \<open>\<open>reconcile_existing\<close>: the digest recorded for the version \<open>head\<close> found, else that of the body.\<close>

definition head_sidecar ::
  "string \<Rightarrow> put_request \<Rightarrow> e_tag \<Rightarrow> nat \<Rightarrow> fs_cell \<Rightarrow> phase" where
  "head_sidecar key rq tag len cell =
     (case map_of (read_metadata (Some tag) cell) META_CONTENT_SHA256 of
        None \<Rightarrow> ReadBody tag len
      | Some recorded \<Rightarrow>
          if len = length (rq_body rq) \<and> eq_ignore_case recorded (rq_sha rq)
          then Finished (Inr (ack_of_put key rq tag False))
          else Finished (Inl (AlreadyExists key)))"

definition read_body ::
  "(string \<Rightarrow> string) \<Rightarrow> string \<Rightarrow> put_request \<Rightarrow> e_tag \<Rightarrow> nat \<Rightarrow> fs_cell \<Rightarrow> phase" where
  "read_body sha key rq tag len cell =
     (case fc_object cell of
        None \<Rightarrow> Finished (Inl (from_store key OsNotFound))
      | Some (body, _) \<Rightarrow>
          if len = length (rq_body rq) \<and> eq_ignore_case (sha body) (rq_sha rq)
          then Repair tag
          else Finished (Inl (AlreadyExists key)))"

text \<open>\<open>repair_metadata\<close>: rewrites the sidecar under the lock, if the object is still that version.\<close>

definition repair_head ::
  "string \<Rightarrow> nat \<Rightarrow> put_request \<Rightarrow> e_tag \<Rightarrow> fs_cell \<Rightarrow> phase \<times> fs_cell" where
  "repair_head key me rq tag cell =
     (case fc_object cell of
        None \<Rightarrow> (Finished (Inr (ack_of_put key rq tag False)), unlock me cell)
      | Some (_, current) \<Rightarrow>
          if current \<noteq> tag then (Finished (Inr (ack_of_put key rq tag False)), unlock me cell)
          else (RepairStamp tag, cell))"

fun advance ::
  "(string \<Rightarrow> string) \<Rightarrow> string \<Rightarrow> nat \<Rightarrow> put_request \<Rightarrow> phase \<Rightarrow> fs_cell \<Rightarrow> (phase \<times> fs_cell) option" where
  "advance sha key me rq Begin cell = begin_put me rq cell"
| "advance sha key me rq (Compare expected) cell = Some (compare_put key me expected cell)"
| "advance sha key me rq Replace cell = Some (Stamp (fc_next cell), write_object (rq_body rq) cell)"
| "advance sha key me rq (Stamp tag) cell =
     Some (Finished (Inr (ack_of_put key rq tag True)), unlock me (write_sidecar rq tag cell))"
| "advance sha key me rq HeadObject cell =
     (case fc_object cell of
        None \<Rightarrow> Some (Finished (Inl Transient), cell)
      | Some (body, tag) \<Rightarrow> Some (HeadSidecar tag (length body), cell))"
| "advance sha key me rq (HeadSidecar tag len) cell = Some (head_sidecar key rq tag len cell, cell)"
| "advance sha key me rq (ReadBody tag len) cell = Some (read_body sha key rq tag len cell, cell)"
| "advance sha key me rq (Repair tag) cell = map_option (\<lambda>c. (RepairHead tag, c)) (take_lock me cell)"
| "advance sha key me rq (RepairHead tag) cell = Some (repair_head key me rq tag cell)"
| "advance sha key me rq (RepairStamp tag) cell =
     Some (Finished (Inr (ack_of_put key rq tag False)), unlock me (write_sidecar rq tag cell))"
| "advance sha key me rq (Finished r) cell = None"
| "advance sha key me rq Crashed cell = None"

section \<open>Interleavings\<close>

record fs_system =
  sy_cell :: fs_cell
  sy_puts :: "(put_request \<times> phase) list"

definition set_put :: "nat \<Rightarrow> put_request \<Rightarrow> phase \<Rightarrow> fs_cell \<Rightarrow> fs_system \<Rightarrow> fs_system" where
  "set_put i rq ph cell s = s\<lparr>sy_cell := cell, sy_puts := (sy_puts s)[i := (rq, ph)]\<rparr>"

inductive fs_step ::
  "(string \<Rightarrow> string) \<Rightarrow> string \<Rightarrow> bool \<Rightarrow> fs_system \<Rightarrow> fs_system \<Rightarrow> bool" for sha key foreign s where
  put: "start_put sha key body opts = Inr rq \<Longrightarrow>
    fs_step sha key foreign s (s\<lparr>sy_puts := sy_puts s @ [(rq, Begin)]\<rparr>)"
| step: "i < length (sy_puts s) \<Longrightarrow> sy_puts s ! i = (rq, ph) \<Longrightarrow>
    advance sha key i rq ph (sy_cell s) = Some (ph', cell) \<Longrightarrow>
    fs_step sha key foreign s (set_put i rq ph' cell s)"
| failure: "i < length (sy_puts s) \<Longrightarrow> sy_puts s ! i = (rq, ph) \<Longrightarrow> is_active ph \<Longrightarrow>
    fs_step sha key foreign s (set_put i rq (Finished (Inl e)) (unlock i (sy_cell s)) s)"
| late_failure: "i < length (sy_puts s) \<Longrightarrow> sy_puts s ! i = (rq, ph) \<Longrightarrow>
    advance sha key i rq ph (sy_cell s) = Some (ph', cell) \<Longrightarrow>
    fs_step sha key foreign s (set_put i rq (Finished (Inl e)) (unlock i cell) s)"
| crash: "i < length (sy_puts s) \<Longrightarrow> sy_puts s ! i = (rq, ph) \<Longrightarrow> is_active ph \<Longrightarrow>
    fs_step sha key foreign s (set_put i rq Crashed (unlock i (sy_cell s)) s)"
| foreign_write: "foreign \<Longrightarrow>
    fs_step sha key foreign s (s\<lparr>sy_cell := write_object body (sy_cell s)\<rparr>)"
| foreign_remove: "foreign \<Longrightarrow>
    fs_step sha key foreign s (s\<lparr>sy_cell := (sy_cell s)\<lparr>fc_object := None\<rparr>\<rparr>)"
| sidecar_lost: "foreign \<Longrightarrow> sc \<in> {None, Some Torn} \<Longrightarrow>
    fs_step sha key foreign s (s\<lparr>sy_cell := (sy_cell s)\<lparr>fc_sidecar := sc\<rparr>\<rparr>)"

inductive fs_run ::
  "(string \<Rightarrow> string) \<Rightarrow> string \<Rightarrow> bool \<Rightarrow> fs_system \<Rightarrow> fs_system \<Rightarrow> bool" for sha key foreign s where
  start: "fs_run sha key foreign s s"
| more: "fs_run sha key foreign s s' \<Longrightarrow> fs_step sha key foreign s' s'' \<Longrightarrow> fs_run sha key foreign s s''"

text \<open>A put with nothing in between, for at most \<open>n\<close> operations.\<close>

fun run_put ::
  "(string \<Rightarrow> string) \<Rightarrow> string \<Rightarrow> nat \<Rightarrow> put_request \<Rightarrow> phase \<Rightarrow> fs_cell
    \<Rightarrow> ((store_error + put_ack) \<times> fs_cell) option" where
  "run_put sha key n rq (Finished r) cell = Some (r, cell)"
| "run_put sha key 0 rq ph cell = None"
| "run_put sha key (Suc n) rq ph cell =
     Option.bind (advance sha key 0 rq ph cell) (\<lambda>(ph', cell'). run_put sha key n rq ph' cell')"

end
