(* ===== verification/FsStoreFacts.thy ===== *)
theory FsStoreFacts
  imports FsStore ManifestUpdate
begin

text \<open>
  What the local-directory adapter promises under every interleaving of its file operations with
  other puts, crashes and other tools: recorded digests are never wrong, two compare-and-swaps
  never both win, and a put nothing interferes with is the abstract put the manifest writer
  relies on.
\<close>

section \<open>Versions of the object\<close>

definition fresh_tags :: "fs_cell \<Rightarrow> bool" where
  "fresh_tags c \<longleftrightarrow> (case fc_object c of None \<Rightarrow> True | Some (_, t) \<Rightarrow> t < fc_next c)"

text \<open>\<open>P\<close> holds of the bytes of version \<open>t\<close>, if that is still the current one; it will then never
  be current with other bytes.\<close>

definition about :: "fs_cell \<Rightarrow> e_tag \<Rightarrow> (string \<Rightarrow> bool) \<Rightarrow> bool" where
  "about c t P \<longleftrightarrow> t < fc_next c \<and> (\<forall>b. fc_object c = Some (b, t) \<longrightarrow> P b)"

definition evolves :: "fs_cell \<Rightarrow> fs_cell \<Rightarrow> bool" where
  "evolves c c' \<longleftrightarrow> fc_next c \<le> fc_next c' \<and> (\<forall>b t. fc_object c' = Some (b, t) \<longrightarrow>
     t < fc_next c' \<and> (fc_object c = Some (b, t) \<or> fc_next c \<le> t))"

lemma about_evolves: "about c t P \<Longrightarrow> evolves c c' \<Longrightarrow> about c' t P"
  by (fastforce simp: about_def evolves_def)

lemma evolves_fresh: "evolves c c' \<Longrightarrow> fresh_tags c'"
  by (auto simp: evolves_def fresh_tags_def split: option.split)

lemma evolves_write: "fresh_tags c \<Longrightarrow> evolves c (write_object body c)"
  by (auto simp: evolves_def write_object_def fresh_tags_def split: option.splits)

lemma evolves_keep:
  "fresh_tags c \<Longrightarrow> fc_object c' = fc_object c \<Longrightarrow> fc_next c' = fc_next c \<Longrightarrow> evolves c c'"
  by (auto simp: evolves_def fresh_tags_def)

lemma evolves_remove: "evolves c (c\<lparr>fc_object := None\<rparr>)"
  by (simp add: evolves_def)

lemma unlock_fields [simp]:
  "fc_object (unlock me c) = fc_object c" "fc_sidecar (unlock me c) = fc_sidecar c"
  "fc_next (unlock me c) = fc_next c"
  by (simp_all add: unlock_def)

lemma take_lock_Some: "take_lock me c = Some c' \<longleftrightarrow> fc_lock c = None \<and> c' = c\<lparr>fc_lock := Some me\<rparr>"
  by (auto simp: take_lock_def)

lemma write_sidecar_fields [simp]:
  "fc_object (write_sidecar rq t c) = fc_object c" "fc_next (write_sidecar rq t c) = fc_next c"
  "fc_lock (write_sidecar rq t c) = fc_lock c"
  "fc_sidecar (write_sidecar rq t c) = Some (Sidecar (rq_content_type rq) (rq_metadata rq) (Some t))"
  by (simp_all add: write_sidecar_def)

lemma write_object_fields [simp]:
  "fc_object (write_object b c) = Some (b, fc_next c)" "fc_next (write_object b c) = Suc (fc_next c)"
  "fc_lock (write_object b c) = fc_lock c" "fc_sidecar (write_object b c) = fc_sidecar c"
  by (simp_all add: write_object_def)

lemma advance_object:
  assumes "advance sha key me rq ph c = Some (ph', c')"
  shows "fc_object c' = fc_object c \<and> fc_next c' = fc_next c \<or> c' = write_object (rq_body rq) c"
  using assms
  by (cases ph) (auto simp: begin_put_def compare_put_def repair_head_def take_lock_Some
      split: os_put_mode.splits option.splits if_splits)

lemma advance_evolves:
  "fresh_tags c \<Longrightarrow> advance sha key me rq ph c = Some (ph', c') \<Longrightarrow> evolves c c'"
  using advance_object evolves_keep evolves_write by blast

section \<open>Digests\<close>

definition lowercase_digest :: "(string \<Rightarrow> string) \<Rightarrow> bool" where
  "lowercase_digest sha \<longleftrightarrow> (\<forall>b. map to_ascii_lower (sha b) = sha b)"

definition sidecar_true :: "(string \<Rightarrow> string) \<Rightarrow> fs_cell \<Rightarrow> bool" where
  "sidecar_true sha c \<longleftrightarrow> (case fc_sidecar c of
     Some (Sidecar _ md (Some t)) \<Rightarrow>
       about c t (\<lambda>b. \<forall>d. map_of md META_CONTENT_SHA256 = Some d \<longrightarrow> d = sha b)
   | _ \<Rightarrow> True)"

definition request_true :: "(string \<Rightarrow> string) \<Rightarrow> put_request \<Rightarrow> bool" where
  "request_true sha rq \<longleftrightarrow> rq_sha rq = sha (rq_body rq)
     \<and> map_of (rq_metadata rq) META_CONTENT_SHA256 = Some (rq_sha rq)"

definition phase_true :: "(string \<Rightarrow> string) \<Rightarrow> fs_cell \<Rightarrow> put_request \<Rightarrow> phase \<Rightarrow> bool" where
  "phase_true sha c rq ph \<longleftrightarrow> (case ph of
     Stamp t \<Rightarrow> about c t (\<lambda>b. sha b = rq_sha rq)
   | HeadSidecar t _ \<Rightarrow> t < fc_next c
   | ReadBody t _ \<Rightarrow> t < fc_next c
   | Repair t \<Rightarrow> about c t (\<lambda>b. sha b = rq_sha rq)
   | RepairHead t \<Rightarrow> about c t (\<lambda>b. sha b = rq_sha rq)
   | RepairStamp t \<Rightarrow> about c t (\<lambda>b. sha b = rq_sha rq)
   | _ \<Rightarrow> True)"

lemma sidecar_true_evolves:
  "sidecar_true sha c \<Longrightarrow> evolves c c' \<Longrightarrow> fc_sidecar c' \<in> {None, Some Torn, fc_sidecar c} \<Longrightarrow> sidecar_true sha c'"
  by (auto simp: sidecar_true_def intro: about_evolves split: option.splits sidecar.splits)

lemma phase_true_evolves:
  "phase_true sha c rq ph \<Longrightarrow> evolves c c' \<Longrightarrow> phase_true sha c' rq ph"
  by (auto simp: phase_true_def intro: about_evolves split: phase.splits) (auto simp: evolves_def)

lemma phase_true_same:
  "fc_object c' = fc_object c \<Longrightarrow> fc_next c' = fc_next c \<Longrightarrow> phase_true sha c' rq ph = phase_true sha c rq ph"
  by (simp add: phase_true_def about_def split: phase.split)

lemma start_put_true:
  assumes "start_put sha key body opts = Inr rq"
  shows "request_true sha rq"
  using assms
  by (auto simp: start_put_def and_then_Inr with_digest_def request_true_def update_conv' split: if_splits)

lemma written_sidecar_true:
  "request_true sha rq \<Longrightarrow> about c t (\<lambda>b. sha b = rq_sha rq) \<Longrightarrow> sidecar_true sha (unlock me (write_sidecar rq t c))"
  by (auto simp: sidecar_true_def request_true_def about_def)

lemma advance_true:
  assumes "lowercase_digest sha" and "fresh_tags c" and "sidecar_true sha c" and "request_true sha rq"
    and "phase_true sha c rq ph" and "advance sha key me rq ph c = Some (ph', c')"
  shows "sidecar_true sha c' \<and> phase_true sha c' rq ph'"
proof -
  have ev: "evolves c c'" by (rule advance_evolves [OF assms(2,6)])
  have stamp: ?thesis if "ph = Stamp t \<or> ph = RepairStamp t" for t
    using that assms(4-6) by (auto simp: phase_true_def intro: written_sidecar_true)
  have eq: "sha b = rq_sha rq" if "eq_ignore_case (sha b) (rq_sha rq)" for b
    using that assms(1,4) by (auto simp: eq_ignore_case_def lowercase_digest_def request_true_def)
  have side: "sidecar_true sha c'" if "fc_sidecar c' = fc_sidecar c"
    using sidecar_true_evolves [OF assms(3) ev] that by simp
  show ?thesis
  proof (cases ph)
    case Begin
    then show ?thesis using assms(6,4) side
      by (auto simp: begin_put_def take_lock_Some phase_true_def about_def request_true_def
          split: os_put_mode.splits option.splits)
  next
    case (Compare e)
    then show ?thesis using assms(6) side
      by (auto simp: compare_put_def phase_true_def split: option.splits if_splits)
  next
    case Replace
    then show ?thesis using assms(6,4) side by (auto simp: phase_true_def about_def request_true_def)
  next
    case HeadObject
    then show ?thesis using assms(2,6) side by (auto simp: phase_true_def fresh_tags_def split: option.splits)
  next
    case (HeadSidecar t n)
    then show ?thesis using assms(5,6) side
      by (auto simp: head_sidecar_def phase_true_def split: option.splits if_splits)
  next
    case (ReadBody t n)
    then show ?thesis using assms(5,6) side eq
      by (auto simp: read_body_def phase_true_def about_def split: option.splits if_splits)
  next
    case (RepairHead t)
    then show ?thesis using assms(5,6) side
      by (auto simp: repair_head_def phase_true_def split: option.splits if_splits)
  next
    case (Repair t)
    then show ?thesis using assms(5,6) side by (auto simp: phase_true_def take_lock_Some about_def)
  qed (use assms(6) stamp in auto)
qed


definition digests_true :: "(string \<Rightarrow> string) \<Rightarrow> fs_system \<Rightarrow> bool" where
  "digests_true sha s \<longleftrightarrow> fresh_tags (sy_cell s) \<and> sidecar_true sha (sy_cell s)
     \<and> (\<forall>i < length (sy_puts s). request_true sha (fst (sy_puts s ! i))
          \<and> phase_true sha (sy_cell s) (fst (sy_puts s ! i)) (snd (sy_puts s ! i)))"

lemma set_put_fields [simp]:
  "sy_cell (set_put i rq ph c s) = c" "sy_puts (set_put i rq ph c s) = (sy_puts s)[i := (rq, ph)]"
  by (simp_all add: set_put_def)

lemma digests_true_set_put:
  assumes "digests_true sha s" and "sy_puts s ! i = (rq, ph)"
    and "evolves (sy_cell s) c" and "sidecar_true sha c" and "phase_true sha c rq ph'"
  shows "digests_true sha (set_put i rq ph' c s)"
  unfolding digests_true_def
proof (intro conjI allI impI)
  fix j
  assume "j < length (sy_puts (set_put i rq ph' c s))"
  then have j: "j < length (sy_puts s)" by simp
  then have old: "request_true sha (fst (sy_puts s ! j))"
    "phase_true sha (sy_cell s) (fst (sy_puts s ! j)) (snd (sy_puts s ! j))"
    using assms(1) by (simp_all add: digests_true_def)
  show "request_true sha (fst (sy_puts (set_put i rq ph' c s) ! j))"
    using old(1) assms(2) j by (cases "i = j") auto
  show "phase_true sha (sy_cell (set_put i rq ph' c s)) (fst (sy_puts (set_put i rq ph' c s) ! j))
      (snd (sy_puts (set_put i rq ph' c s) ! j))"
    using phase_true_evolves [OF old(2) assms(3)] assms(5) j by (cases "i = j") auto
qed (use assms(3,4) evolves_fresh in auto)

lemma digests_true_cell:
  assumes "digests_true sha s" and "evolves (sy_cell s) c" and "sidecar_true sha c"
  shows "digests_true sha (s\<lparr>sy_cell := c\<rparr>)"
  using assms phase_true_evolves evolves_fresh by (auto simp: digests_true_def)

lemma unlock_true:
  assumes "fresh_tags c" and "sidecar_true sha c"
  shows "evolves c (unlock me c)" "sidecar_true sha (unlock me c)"
  using assms by (auto simp: sidecar_true_def about_def intro: evolves_keep split: option.splits sidecar.splits)

lemma evolves_trans: "evolves c c' \<Longrightarrow> evolves c' c'' \<Longrightarrow> evolves c c''"
  by (fastforce simp: evolves_def)

lemma ended_phase_true: "phase_true sha c rq (Finished r)" "phase_true sha c rq Crashed" "phase_true sha c rq Begin"
  by (simp_all add: phase_true_def)

lemma fs_step_true:
  assumes "lowercase_digest sha" and "digests_true sha s" and "fs_step sha key foreign s s'"
  shows "digests_true sha s'"
proof -
  have cell: "fresh_tags (sy_cell s)" "sidecar_true sha (sy_cell s)" using assms(2) by (simp_all add: digests_true_def)
  from assms(3) show ?thesis
  proof cases
  case (put body opts rq)
  then show ?thesis
    using assms(2) start_put_true
    by (auto simp: digests_true_def nth_append less_Suc_eq ended_phase_true)
next
  case (step i rq ph ph' c)
  then have "request_true sha rq" "phase_true sha (sy_cell s) rq ph" "fresh_tags (sy_cell s)" "sidecar_true sha (sy_cell s)"
    using assms(2) by (auto simp: digests_true_def)
  then show ?thesis
    using advance_true [OF assms(1)] advance_evolves digests_true_set_put [OF assms(2) step(3)] step by blast
next
  case (failure i rq ph e)
  then show ?thesis
    using digests_true_set_put [OF assms(2) failure(3) unlock_true [OF cell]] ended_phase_true by blast
next
  case (late_failure i rq ph ph' c e)
  have "request_true sha rq" "phase_true sha (sy_cell s) rq ph"
    using assms(2) late_failure by (auto simp: digests_true_def)
  then have "sidecar_true sha c" "evolves (sy_cell s) c"
    using advance_true [OF assms(1) cell] advance_evolves [OF cell(1)] late_failure by blast+
  then show ?thesis
    using digests_true_set_put [OF assms(2) late_failure(3)] unlock_true late_failure(1) ended_phase_true
      evolves_fresh evolves_trans by metis
next
  case (crash i rq ph)
  then show ?thesis
    using digests_true_set_put [OF assms(2) crash(3) unlock_true [OF cell]] ended_phase_true by blast
next
  case (foreign_write body)
  have "sidecar_true sha (write_object body (sy_cell s))"
    by (rule sidecar_true_evolves [OF cell(2) evolves_write [OF cell(1)]]) simp
  then show ?thesis using digests_true_cell [OF assms(2) evolves_write [OF cell(1)]] foreign_write by blast
next
  case foreign_remove
  have "sidecar_true sha ((sy_cell s)\<lparr>fc_object := None\<rparr>)"
    by (rule sidecar_true_evolves [OF cell(2) evolves_remove]) simp
  then show ?thesis using digests_true_cell [OF assms(2) evolves_remove] foreign_remove by blast
next
  case (sidecar_lost sc)
  then have "sidecar_true sha ((sy_cell s)\<lparr>fc_sidecar := sc\<rparr>)" by (auto simp: sidecar_true_def)
  moreover have "evolves (sy_cell s) ((sy_cell s)\<lparr>fc_sidecar := sc\<rparr>)" by (rule evolves_keep [OF cell(1)]) simp_all
  ultimately show ?thesis using digests_true_cell [OF assms(2)] sidecar_lost by blast
qed
qed

lemma fs_run_true:
  "fs_run sha key foreign s s' \<Longrightarrow> lowercase_digest sha \<Longrightarrow> digests_true sha s \<Longrightarrow> digests_true sha s'"
  by (induction rule: fs_run.induct) (auto intro: fs_step_true)

section \<open>Compare and swap\<close>

text \<open>The version a put replaces, once it has replaced it.\<close>

definition swapped :: "put_request \<times> phase \<Rightarrow> object_version option" where
  "swapped p = (case p of (rq, ph) \<Rightarrow>
     (case rq_mode rq of
        ModeUpdate v \<Rightarrow> (case ph of Stamp _ \<Rightarrow> Some v | Finished (Inr _) \<Rightarrow> Some v | _ \<Rightarrow> None)
      | _ \<Rightarrow> None))"

definition holding :: "put_request \<times> phase \<Rightarrow> bool" where
  "holding p \<longleftrightarrow> (case p of (rq, ph) \<Rightarrow>
     (case ph of Compare _ \<Rightarrow> True | Replace \<Rightarrow> True | Stamp _ \<Rightarrow> rq_mode rq \<noteq> ModeCreate
       | RepairHead _ \<Rightarrow> True | RepairStamp _ \<Rightarrow> True | _ \<Rightarrow> False))"

definition put_inv :: "fs_cell \<Rightarrow> nat \<Rightarrow> put_request \<times> phase \<Rightarrow> bool" where
  "put_inv c i p \<longleftrightarrow> (holding p \<longrightarrow> fc_lock c = Some i)
     \<and> (\<forall>v. swapped p = Some v \<longrightarrow> (\<exists>t. ov_e_tag v = Some t \<and> about c t (\<lambda>_. False)))
     \<and> (case p of (rq, ph) \<Rightarrow> (case ph of
          Begin \<Rightarrow> True
        | Compare v \<Rightarrow> rq_mode rq = ModeUpdate v
        | Replace \<Rightarrow> rq_mode rq \<noteq> ModeCreate
            \<and> (\<forall>v. rq_mode rq = ModeUpdate v \<longrightarrow> (\<exists>b t. fc_object c = Some (b, t) \<and> ov_e_tag v = Some t))
        | Stamp _ \<Rightarrow> True
        | Finished _ \<Rightarrow> True
        | Crashed \<Rightarrow> True
        | _ \<Rightarrow> rq_mode rq = ModeCreate))"

definition swaps_inv :: "fs_system \<Rightarrow> bool" where
  "swaps_inv s \<longleftrightarrow> fresh_tags (sy_cell s)
     \<and> (\<forall>i < length (sy_puts s). put_inv (sy_cell s) i (sy_puts s ! i))
     \<and> (\<forall>i < length (sy_puts s). \<forall>j < length (sy_puts s). \<forall>v w. i \<noteq> j \<longrightarrow> swapped (sy_puts s ! i) = Some v \<longrightarrow>
          swapped (sy_puts s ! j) = Some w \<longrightarrow> ov_e_tag v \<noteq> ov_e_tag w)"

text \<open>The put that advances keeps its own part, and what another put holds is not disturbed.\<close>

lemma advance_own_inv:
  assumes "fresh_tags c" and "put_inv c i (rq, ph)" and "advance sha key i rq ph c = Some (ph', c')"
  shows "put_inv c' i (rq, ph')"
  using assms
  by (cases ph)
     (auto simp: put_inv_def holding_def swapped_def begin_put_def compare_put_def head_sidecar_def read_body_def
        repair_head_def take_lock_Some about_def fresh_tags_def
        split: os_put_mode.splits option.splits if_splits)

lemma advance_lock:
  assumes "put_inv c i (rq, ph)" and "advance sha key i rq ph c = Some (ph', c')"
    and "fc_lock c = Some j" and "i \<noteq> j"
  shows "fc_lock c' = Some j"
  using assms
  by (cases ph)
     (auto simp: begin_put_def compare_put_def repair_head_def take_lock_def unlock_def
        split: os_put_mode.splits option.splits if_splits)

lemma advance_keeps_locked_object:
  assumes "put_inv c i (rq, ph)" and "advance sha key i rq ph c = Some (ph', c')"
    and "fc_lock c = Some j" and "i \<noteq> j" and "fc_object c = Some x"
  shows "fc_object c' = Some x"
  using assms
  by (cases ph)
     (auto simp: put_inv_def holding_def begin_put_def compare_put_def repair_head_def take_lock_def
        split: os_put_mode.splits option.splits prod.splits if_splits)

lemma put_inv_other:
  assumes "put_inv c j p" and "evolves c c'"
    and "fc_lock c = Some j \<Longrightarrow> fc_lock c' = Some j"
    and "\<And>x. fc_lock c = Some j \<Longrightarrow> fc_object c = Some x \<Longrightarrow> fc_object c' = Some x"
  shows "put_inv c' j p"
  using assms about_evolves [OF _ assms(2)]
  by (cases p) (fastforce simp: put_inv_def holding_def split: phase.splits)


lemma put_inv_ended:
  assumes "put_inv c i (rq, ph)" and "swapped (rq, ph') = None" and "\<not> is_active ph'"
  shows "put_inv c' i (rq, ph')"
  using assms by (cases ph') (auto simp: put_inv_def holding_def is_active_def)

lemma unlock_other: "fc_lock c = Some j \<Longrightarrow> i \<noteq> j \<Longrightarrow> fc_lock (unlock i c) = Some j"
  by (simp add: unlock_def)

text \<open>One put moves to a phase that claims no new swap, or a swap of a version nobody swapped.\<close>

lemma swaps_inv_set_put:
  assumes "swaps_inv s" and "i < length (sy_puts s)" and "sy_puts s ! i = (rq, ph)"
    and "evolves (sy_cell s) c" and "put_inv c i (rq, ph')"
    and "\<And>j. i \<noteq> j \<Longrightarrow> fc_lock (sy_cell s) = Some j \<Longrightarrow> fc_lock c = Some j"
    and "\<And>j x. i \<noteq> j \<Longrightarrow> fc_lock (sy_cell s) = Some j \<Longrightarrow> fc_object (sy_cell s) = Some x \<Longrightarrow> fc_object c = Some x"
    and "\<And>v t. swapped (rq, ph') = Some v \<Longrightarrow> swapped (rq, ph) = None \<Longrightarrow> ov_e_tag v = Some t
           \<Longrightarrow> \<exists>b. fc_object (sy_cell s) = Some (b, t)"
  shows "swaps_inv (set_put i rq ph' c s)"
proof -
  let ?ps = "sy_puts s"
  have inv: "put_inv (sy_cell s) j (?ps ! j)" if "j < length ?ps" for j
    using assms(1) that by (simp add: swaps_inv_def)
  have other: "put_inv c j (?ps ! j)" if "j < length ?ps" "j \<noteq> i" for j
    by (rule put_inv_other [OF inv [OF that(1)] assms(4)]) (use assms(6,7) that in auto)
  have same: "swapped (rq, ph') = Some v \<Longrightarrow> swapped (rq, ph) \<noteq> None \<Longrightarrow> swapped (rq, ph) = Some v" for v
    by (auto simp: swapped_def split: os_put_mode.splits phase.splits sum.splits)
  have distinct: "ov_e_tag v \<noteq> ov_e_tag w"
    if ne: "j < length ?ps" "j \<noteq> i" "swapped (rq, ph') = Some v" "swapped (?ps ! j) = Some w" for j v w
  proof (cases "swapped (rq, ph) = None")
    case True
    obtain t where t: "ov_e_tag w = Some t" "about (sy_cell s) t (\<lambda>_. False)"
      using inv [OF ne(1)] ne(4) by (auto simp: put_inv_def)
    then show ?thesis using assms(8) [OF ne(3) True] by (auto simp: about_def)
  next
    case False
    then have "swapped (?ps ! i) = Some v" using same ne(3) assms(3) by auto
    then show ?thesis using assms(1,2) ne by (auto simp: swaps_inv_def)
  qed
  have "ov_e_tag v \<noteq> ov_e_tag w"
    if "j < length ?ps" "k < length ?ps" "j \<noteq> k" "swapped (?ps[i := (rq, ph')] ! j) = Some v"
      "swapped (?ps[i := (rq, ph')] ! k) = Some w" for j k v w
  proof -
    consider "j = i" | "k = i" | "j \<noteq> i" "k \<noteq> i" by blast
    then show ?thesis
    proof cases
      case 1
      then show ?thesis using distinct [of k v w] that assms(2) by auto
    next
      case 2
      then show ?thesis using distinct [of j w v] that assms(2) by auto
    next
      case 3
      then show ?thesis using assms(1) that by (auto simp: swaps_inv_def)
    qed
  qed
  moreover have "put_inv c j (?ps[i := (rq, ph')] ! j)" if "j < length ?ps" for j
    using other [OF that] assms(2,5) that by (cases "j = i") auto
  ultimately show ?thesis
    unfolding swaps_inv_def using evolves_fresh [OF assms(4)] by simp
qed

lemma new_swap:
  assumes "put_inv c i (rq, ph)" and "advance sha key i rq ph c = Some (ph', c')"
    and "swapped (rq, ph') = Some v" and "swapped (rq, ph) = None" and "ov_e_tag v = Some t"
  shows "\<exists>b. fc_object c = Some (b, t)"
  using assms
  by (cases ph)
     (auto simp: put_inv_def swapped_def begin_put_def compare_put_def head_sidecar_def read_body_def repair_head_def
        take_lock_def split: os_put_mode.splits option.splits prod.splits sum.splits if_splits)

lemma fs_step_swaps:
  assumes "swaps_inv s" and "fs_step sha key False s s'"
  shows "swaps_inv s'"
proof -
  have cell: "fresh_tags (sy_cell s)" using assms(1) by (simp add: swaps_inv_def)
  have inv: "put_inv (sy_cell s) i (rq, ph)" if "i < length (sy_puts s)" "sy_puts s ! i = (rq, ph)" for i rq ph
    using assms(1) that by (metis swaps_inv_def)
  have ended: "swaps_inv (set_put i rq ph' (unlock i c) s)"
    if "i < length (sy_puts s)" "sy_puts s ! i = (rq, ph)" "swapped (rq, ph') = None" "\<not> is_active ph'"
      "evolves (sy_cell s) c"
      "\<And>j. i \<noteq> j \<Longrightarrow> fc_lock (sy_cell s) = Some j \<Longrightarrow> fc_lock c = Some j"
      "\<And>j x. i \<noteq> j \<Longrightarrow> fc_lock (sy_cell s) = Some j \<Longrightarrow> fc_object (sy_cell s) = Some x \<Longrightarrow> fc_object c = Some x"
    for i rq ph ph' c
  proof (rule swaps_inv_set_put [OF assms(1) that(1,2)])
    show "evolves (sy_cell s) (unlock i c)" using that(5) by (simp add: evolves_def)
    show "put_inv (unlock i c) i (rq, ph')" by (rule put_inv_ended [OF inv [OF that(1,2)] that(3,4)])
  qed (use that unlock_other in auto)
  from assms(2) show ?thesis
  proof cases
    case (put body opts rq)
    then show ?thesis using assms(1)
      by (auto simp: swaps_inv_def nth_append less_Suc_eq put_inv_def holding_def swapped_def split: os_put_mode.splits)
  next
    case (step i rq ph ph' c)
    note own = inv [OF step(2,3)]
    show ?thesis unfolding step(1)
      using advance_evolves [OF cell step(4)] advance_own_inv [OF cell own step(4)] advance_lock [OF own step(4)]
        advance_keeps_locked_object [OF own step(4)] new_swap [OF own step(4)]
      by (intro swaps_inv_set_put [OF assms(1) step(2,3)]) auto
  next
    case (failure i rq ph e)
    then show ?thesis
      using ended [OF failure(2,3), of "Finished (Inl e)" "sy_cell s"] evolves_keep [OF cell, of "sy_cell s"]
      by (auto simp: swapped_def is_active_def split: os_put_mode.split)
  next
    case (late_failure i rq ph ph' c e)
    then show ?thesis
      using ended [OF late_failure(2,3), of "Finished (Inl e)" c] advance_evolves [OF cell late_failure(4)]
        advance_lock [OF inv [OF late_failure(2,3)] late_failure(4)]
        advance_keeps_locked_object [OF inv [OF late_failure(2,3)] late_failure(4)]
      by (auto simp: swapped_def is_active_def split: os_put_mode.split)
  next
    case (crash i rq ph)
    then show ?thesis
      using ended [OF crash(2,3), of Crashed "sy_cell s"] evolves_keep [OF cell, of "sy_cell s"]
      by (auto simp: swapped_def is_active_def split: os_put_mode.split)
  qed simp_all
qed

lemma fs_run_swaps: "fs_run sha key False s s' \<Longrightarrow> swaps_inv s \<Longrightarrow> swaps_inv s'"
  by (induction rule: fs_run.induct) (auto intro: fs_step_swaps)


section \<open>A put nothing interferes with\<close>

definition abs_cell :: "fs_cell \<Rightarrow> stored" where
  "abs_cell c = \<lparr>so_object = fc_object c, so_next_version = fc_next c\<rparr>"

definition abs_mode :: "os_put_mode \<Rightarrow> put_mode option" where
  "abs_mode md = (case md of
     ModeCreate \<Rightarrow> Some PutCreate
   | ModeUpdate v \<Rightarrow> map_option PutReplace (ov_e_tag v)
   | ModeOverwrite \<Rightarrow> None)"

definition abs_result :: "store_error + put_ack \<Rightarrow> store_error + nat" where
  "abs_result r = (case r of Inl e \<Rightarrow> Inl e | Inr a \<Rightarrow> Inr (the (ov_e_tag (pa_version a))))"

lemma run_put_stamp:
  "run_put sha key (Suc (Suc n)) rq (Stamp t) c =
     Some (Inr (ack_of_put key rq t True), unlock 0 (write_sidecar rq t c))"
  by simp

lemma read_written: "read_metadata (Some t) (unlock me (write_sidecar rq t c)) = rq_metadata rq"
  by (simp add: read_metadata_def)

lemma recorded_digest:
  assumes "sidecar_true sha c" and "fc_object c = Some (b, t)"
    and "map_of (read_metadata (Some t) c) META_CONTENT_SHA256 = Some d"
  shows "d = sha b"
  using assms by (auto simp: sidecar_true_def read_metadata_def about_def split: option.splits sidecar.splits if_splits)

lemma eq_ignore_digest:
  "lowercase_digest sha \<Longrightarrow> eq_ignore_case (sha a) (sha b) \<longleftrightarrow> sha a = sha b"
  by (simp add: eq_ignore_case_def lowercase_digest_def)

definition records_digest :: "(string \<Rightarrow> string) \<Rightarrow> put_request \<Rightarrow> store_error + put_ack \<Rightarrow> fs_cell \<Rightarrow> bool" where
  "records_digest sha rq r c \<longleftrightarrow> (case r of Inl _ \<Rightarrow> True | Inr a \<Rightarrow>
     map_of (read_metadata (ov_e_tag (pa_version a)) c) META_CONTENT_SHA256 = Some (sha (rq_body rq)))"

lemma create_alone:
  assumes "lowercase_digest sha" and "sidecar_true sha c" and "fc_lock c = None" and "request_true sha rq"
    and "rq_mode rq = ModeCreate"
    and "\<And>b t. fc_object c = Some (b, t) \<Longrightarrow> sha b = sha (rq_body rq) \<Longrightarrow> b = rq_body rq"
  shows "\<exists>r c'. run_put sha key 7 rq Begin c = Some (r, c') \<and> fc_lock c' = None
    \<and> store_put key PutCreate (rq_body rq) (abs_cell c) = (abs_result r, abs_cell c') \<and> records_digest sha rq r c'"
proof (cases "fc_object c")
  case None
  then show ?thesis using assms(3-5)
    by (simp add: eval_nat_numeral begin_put_def store_put_def abs_cell_def store_write_def abs_result_def
        ack_of_put_def tag_version_def records_digest_def read_written request_true_def)
       (simp add: unlock_def)
next
  case (Some p)
  then obtain b t where b: "fc_object c = Some (b, t)" by (cases p) auto
  have rq: "rq_sha rq = sha (rq_body rq)" using assms(4) by (simp add: request_true_def)
  have same: "length b = length (rq_body rq) \<and> sha b = sha (rq_body rq) \<longleftrightarrow> b = rq_body rq"
    using assms(6) [OF b] by blast
  show ?thesis
  proof (cases "map_of (read_metadata (Some t) c) META_CONTENT_SHA256")
    case rec: (Some d)
    then have "d = sha b" by (rule recorded_digest [OF assms(2) b])
    then show ?thesis using b assms(3,5) same rec
      by (auto simp: eval_nat_numeral begin_put_def head_sidecar_def store_put_def abs_cell_def abs_result_def
          ack_of_put_def tag_version_def records_digest_def rq eq_ignore_digest [OF assms(1)])
  next
    case rec: None
    then show ?thesis using b assms(3-5) same
      by (auto simp: eval_nat_numeral begin_put_def head_sidecar_def read_body_def take_lock_def repair_head_def
          store_put_def abs_cell_def abs_result_def ack_of_put_def tag_version_def records_digest_def rq
          eq_ignore_digest [OF assms(1)] read_metadata_def [of _ "_\<lparr>fc_lock := None\<rparr>"] request_true_def unlock_def)
  qed
qed

lemma replace_alone:
  assumes "fc_lock c = None" and "request_true sha rq" and "rq_mode rq = ModeUpdate v" and "ov_e_tag v = Some t"
  shows "\<exists>r c'. run_put sha key 7 rq Begin c = Some (r, c') \<and> fc_lock c' = None
    \<and> store_put key (PutReplace t) (rq_body rq) (abs_cell c) = (abs_result r, abs_cell c') \<and> records_digest sha rq r c'"
proof (cases "fc_object c")
  case None
  then show ?thesis using assms
    by (simp add: eval_nat_numeral begin_put_def take_lock_def compare_put_def store_put_def abs_cell_def
        abs_result_def records_digest_def) (simp add: unlock_def)
next
  case (Some p)
  then show ?thesis using assms
    by (cases p)
       (auto simp: eval_nat_numeral begin_put_def take_lock_def compare_put_def store_put_def abs_cell_def
        abs_result_def records_digest_def store_write_def ack_of_put_def tag_version_def read_written
        request_true_def unlock_def read_metadata_def)
qed

section \<open>What the adapter promises\<close>

text \<open>C35. A recorded digest is never wrong: however puts interleave, fail, crash between the object
  and its sidecar, or race with tools that write, remove or damage the files, the digest the
  adapter reports for the current version of the object is the digest of its bytes.\<close>

theorem fs_digests_honest:
  assumes "lowercase_digest sha" and "sy_puts s = []" and "fresh_tags (sy_cell s)" and "sidecar_true sha (sy_cell s)"
    and "fs_run sha key foreign s s'"
    and "fc_object (sy_cell s') = Some (b, t)"
    and "map_of (read_metadata (Some t) (sy_cell s')) META_CONTENT_SHA256 = Some d"
  shows "d = sha b"
proof -
  have "digests_true sha s" using assms(2-4) by (simp add: digests_true_def)
  then have "digests_true sha s'" using fs_run_true assms(1,5) by blast
  then have "sidecar_true sha (sy_cell s')" by (simp add: digests_true_def)
  then show ?thesis by (rule recorded_digest [OF _ assms(6,7)])
qed

text \<open>C36. Two compare-and-swaps never both win: of all the puts that were told to replace one version
  and were acknowledged, there is at most one, under every interleaving with other puts, failures
  and crashes (as long as no tool writes the object around the adapter's lock).\<close>

theorem fs_cas_exclusive:
  assumes "sy_puts s = []" and "fresh_tags (sy_cell s)" and "fs_run sha key False s s'"
    and "i < length (sy_puts s')" and "sy_puts s' ! i = (rq, Finished (Inr a))" and "rq_mode rq = ModeUpdate v"
    and "j < length (sy_puts s')" and "sy_puts s' ! j = (rq', Finished (Inr a'))" and "rq_mode rq' = ModeUpdate w"
    and "i \<noteq> j"
  shows "ov_e_tag v \<noteq> ov_e_tag w"
proof -
  have "swaps_inv s" using assms(1,2) by (simp add: swaps_inv_def)
  then have "swaps_inv s'" using fs_run_swaps assms(3) by blast
  then show ?thesis using assms(4-10) by (fastforce simp: swaps_inv_def swapped_def)
qed

lemma fs_put_refines_contract_run:
  assumes "lowercase_digest sha" and "sidecar_true sha c" and "fc_lock c = None"
    and "start_put sha key body opts = Inr rq" and "abs_mode (rq_mode rq) = Some md"
    and "\<forall>b t. fc_object c = Some (b, t) \<longrightarrow> sha b = sha body \<longrightarrow> b = body"
  shows "\<exists>r c'. run_put sha key 7 rq Begin c = Some (r, c') \<and> fc_lock c' = None
    \<and> store_put key md body (abs_cell c) = (abs_result r, abs_cell c')
    \<and> (\<forall>a. r = Inr a \<longrightarrow> map_of (read_metadata (ov_e_tag (pa_version a)) c') META_CONTENT_SHA256 = Some (sha body))"
proof -
  have rq: "request_true sha rq" by (rule start_put_true [OF assms(4)])
  have body: "rq_body rq = body" using assms(4) by (auto simp: start_put_def and_then_Inr split: if_splits)
  have "\<exists>r c'. run_put sha key 7 rq Begin c = Some (r, c') \<and> fc_lock c' = None
      \<and> store_put key md (rq_body rq) (abs_cell c) = (abs_result r, abs_cell c') \<and> records_digest sha rq r c'"
  proof (cases "rq_mode rq")
    case ModeCreate
    then show ?thesis using create_alone [OF assms(1-3) rq ModeCreate] assms(5,6) body by (simp add: abs_mode_def)
  next
    case (ModeUpdate v)
    then show ?thesis using replace_alone [OF assms(3) rq ModeUpdate] assms(5) by (auto simp: abs_mode_def)
  next
    case ModeOverwrite
    then show ?thesis using assms(5) by (simp add: abs_mode_def)
  qed
  then obtain r c' where run: "run_put sha key 7 rq Begin c = Some (r, c')" "fc_lock c' = None"
      "store_put key md body (abs_cell c) = (abs_result r, abs_cell c')" "records_digest sha rq r c'"
    unfolding body by blast
  then show ?thesis
    by (intro exI [of _ r] exI [of _ c']) (auto simp: body records_digest_def)
qed



section \<open>Runs by schedule\<close>

text \<open>Starts the given puts, then advances the puts a schedule names, one operation each.\<close>

fun exec :: "(string \<Rightarrow> string) \<Rightarrow> string \<Rightarrow> nat list \<Rightarrow> fs_system \<Rightarrow> fs_system option" where
  "exec sha key [] s = Some s"
| "exec sha key (i # is) s =
     (if i < length (sy_puts s) then
        (case sy_puts s ! i of (rq, ph) \<Rightarrow>
           (case advance sha key i rq ph (sy_cell s) of
              None \<Rightarrow> None
            | Some (ph', c) \<Rightarrow> exec sha key is (set_put i rq ph' c s)))
      else None)"

lemma fs_run_trans: "fs_run sha key foreign s' s'' \<Longrightarrow> fs_run sha key foreign s s' \<Longrightarrow> fs_run sha key foreign s s''"
  by (induction rule: fs_run.induct) (auto intro: fs_run.more)

lemma exec_run: "exec sha key is s = Some s' \<Longrightarrow> fs_run sha key foreign s s'"
proof (induction "is" arbitrary: s)
  case Nil
  then show ?case by (simp add: fs_run.start)
next
  case (Cons i "is")
  then obtain rq ph ph' c where i: "i < length (sy_puts s)" "sy_puts s ! i = (rq, ph)"
    "advance sha key i rq ph (sy_cell s) = Some (ph', c)" "exec sha key is (set_put i rq ph' c s) = Some s'"
    by (auto split: if_splits prod.splits option.splits)
  show ?case
    by (rule fs_run_trans [OF Cons.IH [OF i(4)]]) (rule fs_run.more [OF fs_run.start fs_step.step [OF i(1-3)]])
qed

lemma puts_run:
  assumes "\<forall>rq \<in> set rqs. \<exists>body opts. start_put sha key body opts = Inr rq"
  shows "fs_run sha key foreign s (s\<lparr>sy_puts := sy_puts s @ map (\<lambda>rq. (rq, Begin)) rqs\<rparr>)"
  using assms
proof (induction rqs rule: rev_induct)
  case Nil
  then show ?case by (simp add: fs_run.start)
next
  case (snoc rq rqs)
  then obtain body opts where "start_put sha key body opts = Inr rq" by auto
  from fs_step.put [OF this, of foreign "s\<lparr>sy_puts := sy_puts s @ map (\<lambda>rq. (rq, Begin)) rqs\<rparr>"] snoc
  show ?case by (auto intro: fs_run.more)
qed

definition example_sha :: "string \<Rightarrow> string" where
  "example_sha b = map to_ascii_lower b"

definition example_cell :: fs_cell where
  "example_cell = \<lparr>fc_object = Some (''x'', 0), fc_sidecar = Some Torn, fc_lock = None, fc_next = 1\<rparr>"

definition example_request :: "os_put_mode \<Rightarrow> string \<Rightarrow> put_request" where
  "example_request md body = \<lparr>rq_mode = md, rq_body = body, rq_sha = example_sha body,
     rq_metadata = [(META_CONTENT_SHA256, example_sha body)], rq_content_type = infer_content_type ''k''\<rparr>"

lemma example_lowercase: "lowercase_digest example_sha"
proof -
  have "to_ascii_lower (to_ascii_lower c) = to_ascii_lower c" for c
    by (auto simp: to_ascii_lower_def ascii_upper_def)
  then show ?thesis by (simp add: lowercase_digest_def example_sha_def)
qed

lemma example_start:
  "start_put example_sha ''k'' body opts_create = Inr (example_request ModeCreate body)"
  "start_put example_sha ''k'' body (opts_replace v) = Inr (example_request (ModeUpdate v) body)"
  by (simp_all add: start_put_def mode_of_def opts_create_def opts_replace_def with_digest_def checked_user_metadata_def
      validate_metadata_def example_request_def)

definition example_system :: "fs_system" where
  "example_system = \<lparr>sy_cell = example_cell, sy_puts = []\<rparr>"

text \<open>A create meets its own bytes, left without a sidecar by a crash, and repairs it; two writers
  replace version 0 at once, a third replaces what the winner wrote.\<close>

definition example_requests :: "put_request list" where
  "example_requests = [example_request ModeCreate ''x'', example_request (ModeUpdate (tag_version 0)) ''y'',
     example_request (ModeUpdate (tag_version 0)) ''z'', example_request (ModeUpdate (tag_version 1)) ''z'']"

definition example_started :: fs_system where
  "example_started = \<lparr>sy_cell = example_cell, sy_puts = map (\<lambda>rq. (rq, Begin)) example_requests\<rparr>"

lemma example_started_run: "fs_run example_sha ''k'' foreign example_system example_started"
proof -
  have "\<forall>rq \<in> set example_requests. \<exists>body opts. start_put example_sha ''k'' body opts = Inr rq"
    unfolding example_requests_def list.set using example_start by blast
  from puts_run [OF this, of foreign example_system] show ?thesis
    by (simp add: example_system_def example_started_def)
qed

lemma example_exec: "exec example_sha ''k'' is example_started = Some s \<Longrightarrow> fs_run example_sha ''k'' foreign example_system s"
  by (rule fs_run_trans [OF exec_run example_started_run])

lemma example_system_true:
  "sy_puts example_system = []" "fresh_tags (sy_cell example_system)" "sidecar_true example_sha (sy_cell example_system)"
  by (simp_all add: example_system_def example_cell_def fresh_tags_def sidecar_true_def)

lemmas example_fs_defs = example_started_def example_requests_def example_request_def example_cell_def begin_put_def
  compare_put_def head_sidecar_def read_body_def repair_head_def take_lock_def unlock_def read_metadata_def
  write_object_def write_sidecar_def set_put_def tag_version_def ack_of_put_def eq_ignore_case_def

theorem fs_digests_honest_witness:
  "\<exists>s d. exec example_sha ''k'' [0, 0, 0, 0, 0, 0, 0] example_started = Some s
     \<and> fc_object (sy_cell s) = Some (''x'', 0)
     \<and> map_of (read_metadata (Some 0) (sy_cell s)) META_CONTENT_SHA256 = Some d \<and> d = example_sha ''x''"
proof -
  obtain s d where s: "exec example_sha ''k'' [0, 0, 0, 0, 0, 0, 0] example_started = Some s"
    "fc_object (sy_cell s) = Some (''x'', 0)"
    "map_of (read_metadata (Some 0) (sy_cell s)) META_CONTENT_SHA256 = Some d"
    by (simp add: example_fs_defs)
  then have "d = example_sha ''x''"
    using fs_digests_honest [OF example_lowercase example_system_true example_exec [OF s(1)]] by blast
  then show ?thesis using s by blast
qed

theorem fs_cas_exclusive_witness:
  "\<exists>s a a'. exec example_sha ''k'' [1, 1, 1, 1, 2, 2, 3, 3, 3, 3] example_started = Some s
     \<and> sy_puts s ! 1 = (example_requests ! 1, Finished (Inr a)) \<and> sy_puts s ! 3 = (example_requests ! 3, Finished (Inr a'))
     \<and> ov_e_tag (tag_version 0) \<noteq> ov_e_tag (tag_version 1)"
proof -
  obtain s a a' where s: "exec example_sha ''k'' [1, 1, 1, 1, 2, 2, 3, 3, 3, 3] example_started = Some s"
    "1 < length (sy_puts s)" "sy_puts s ! 1 = (example_requests ! 1, Finished (Inr a))"
    "3 < length (sy_puts s)" "sy_puts s ! 3 = (example_requests ! 3, Finished (Inr a'))"
    by (simp add: example_fs_defs)
  have "rq_mode (example_requests ! 1) = ModeUpdate (tag_version 0)" "rq_mode (example_requests ! 3) = ModeUpdate (tag_version 1)"
    by (simp_all add: example_requests_def example_request_def)
  from fs_cas_exclusive [OF example_system_true(1,2) example_exec [OF s(1)] s(2,3) this(1) s(4,5) this(2)]
  show ?thesis using s by auto
qed


section \<open>The contract as an interface\<close>

text \<open>What a writer may use of a store at one key, whatever the adapter.\<close>

lemma store_put_create_again:
  "store_put key PutCreate body st = (Inr v, st') \<Longrightarrow> store_put key PutCreate body st' = (Inr v, st')"
  by (auto simp: store_put_def store_write_def split: option.splits if_splits)

lemma store_put_replace_again:
  "store_put key (PutReplace v) body st = (Inr w, st') \<Longrightarrow> (\<And>b t. so_object st = Some (b, t) \<Longrightarrow> t < so_next_version st)
    \<Longrightarrow> store_put key (PutReplace v) body' st' = (Inl (PreconditionFailed key), st')"
  by (auto simp: store_put_def store_write_def split: option.splits if_splits)

locale put_contract =
  fixes valid :: "'s \<Rightarrow> bool"
    and abs :: "'s \<Rightarrow> stored"
    and put :: "string \<Rightarrow> put_mode \<Rightarrow> string \<Rightarrow> 's \<Rightarrow> (store_error + nat) \<times> 's"
  assumes put_abs: "valid s \<Longrightarrow> put key md body s = (r, s') \<Longrightarrow>
      valid s' \<and> store_put key md body (abs s) = (r, abs s')"
    and valid_fresh: "valid s \<Longrightarrow> so_object (abs s) = Some (b, v) \<Longrightarrow> v < so_next_version (abs s)"
begin

lemma put_result: "valid s \<Longrightarrow> store_put key md body (abs s) = (r, st) \<Longrightarrow> \<exists>s'. put key md body s = (r, s') \<and> abs s' = st"
  using put_abs by (cases "put key md body s") fastforce

lemma create_retry:
  assumes "valid s" and "put key PutCreate body s = (Inr v, s')"
  shows "\<exists>s''. put key PutCreate body s' = (Inr v, s'') \<and> abs s'' = abs s'"
  using put_abs [OF assms] store_put_create_again put_result by blast

lemma replaced_is_stale:
  assumes "valid s" and "put key (PutReplace v) body s = (Inr w, s')"
  shows "\<exists>s''. put key (PutReplace v) body' s' = (Inl (PreconditionFailed key), s'') \<and> abs s'' = abs s'"
  using put_abs [OF assms] store_put_replace_again valid_fresh [OF assms(1)] put_result by blast

end

text \<open>The local directory provides it, where digests tell bodies apart.\<close>

definition fs_valid :: "(string \<Rightarrow> string) \<Rightarrow> fs_cell \<Rightarrow> bool" where
  "fs_valid sha c \<longleftrightarrow> lowercase_digest sha \<and> inj sha \<and> fresh_tags c \<and> sidecar_true sha c \<and> fc_lock c = None"

definition fs_put ::
  "(string \<Rightarrow> string) \<Rightarrow> string \<Rightarrow> put_mode \<Rightarrow> string \<Rightarrow> fs_cell \<Rightarrow> (store_error + nat) \<times> fs_cell" where
  "fs_put sha key md body c =
     (case start_put sha key body (case md of PutCreate \<Rightarrow> opts_create | PutReplace v \<Rightarrow> opts_replace (tag_version v)) of
        Inl e \<Rightarrow> (Inl e, c)
      | Inr rq \<Rightarrow> (case run_put sha key 7 rq Begin c of
            None \<Rightarrow> (Inl BackendError, c)
          | Some (r, c') \<Rightarrow> (abs_result r, c')))"

lemma start_put_plain:
  "\<exists>rq. start_put sha key body (case md of PutCreate \<Rightarrow> opts_create | PutReplace v \<Rightarrow> opts_replace (tag_version v)) = Inr rq
     \<and> abs_mode (rq_mode rq) = Some md"
  by (cases md) (simp_all add: start_put_def mode_of_def opts_create_def opts_replace_def with_digest_def
      checked_user_metadata_def validate_metadata_def abs_mode_def tag_version_def)

lemma run_put_run: "run_put sha key n rq ph c = Some (r, c') \<Longrightarrow> lowercase_digest sha \<Longrightarrow> fresh_tags c \<Longrightarrow>
    sidecar_true sha c \<Longrightarrow> request_true sha rq \<Longrightarrow> phase_true sha c rq ph \<Longrightarrow> fresh_tags c' \<and> sidecar_true sha c'"
proof (induction n arbitrary: ph c)
  case 0
  then show ?case by (cases ph) auto
next
  case (Suc n)
  show ?case
  proof (cases "\<exists>r. ph = Finished r")
    case True
    then show ?thesis using Suc.prems by auto
  next
    case False
    then obtain ph' c1 where adv: "advance sha key 0 rq ph c = Some (ph', c1)" "run_put sha key n rq ph' c1 = Some (r, c')"
      using Suc.prems(1) by (cases ph) (auto simp: Option.bind_eq_Some_conv split: prod.splits)
    then show ?thesis
      using Suc.IH [OF adv(2)] advance_true [OF Suc.prems(2-6) adv(1)] evolves_fresh [OF advance_evolves [OF Suc.prems(3) adv(1)]]
        Suc.prems by blast
  qed
qed

lemma fs_put_contract:
  assumes "fs_valid sha c" and "fs_put sha key md body c = (r, c')"
  shows "fs_valid sha c' \<and> store_put key md body (abs_cell c) = (r, abs_cell c')"
proof -
  have c: "lowercase_digest sha" "sidecar_true sha c" "fc_lock c = None" "fresh_tags c" "inj sha"
    using assms(1) by (simp_all add: fs_valid_def)
  let ?opts = "case md of PutCreate \<Rightarrow> opts_create | PutReplace v \<Rightarrow> opts_replace (tag_version v)"
  obtain rq where rq: "start_put sha key body ?opts = Inr rq" "abs_mode (rq_mode rq) = Some md"
    using start_put_plain by blast
  have "\<forall>b t. fc_object c = Some (b, t) \<longrightarrow> sha b = sha body \<longrightarrow> b = body" using c(5) by (simp add: inj_def)
  then obtain r' c1 where run: "run_put sha key 7 rq Begin c = Some (r', c1)" "fc_lock c1 = None"
    "store_put key md body (abs_cell c) = (abs_result r', abs_cell c1)"
    using fs_put_refines_contract_run [OF c(1-3) rq] by blast
  then show ?thesis
    using assms(2) rq(1) c run_put_run [OF run(1) c(1,4,2) start_put_true [OF rq(1)] ended_phase_true(3)]
    by (simp add: fs_put_def fs_valid_def)
qed

interpretation fs: put_contract "fs_valid sha" abs_cell "fs_put sha" for sha
  by unfold_locales
     (use fs_put_contract in blast, auto simp: fs_valid_def fresh_tags_def abs_cell_def split: option.splits)

end
