(* ===== verification/ObjectTransfer.thy ===== *)
theory ObjectTransfer
  imports ObjectStore
begin

text \<open>
  Listings (\<open>Core::list\<close>, \<open>FsBackend::list_objects\<close>) and multipart uploads (\<open>upload.rs\<close>,
  \<open>Core::multipart\<close>). What the directory walk finds below a prefix is the argument \<open>walk\<close>, in
  any order; what the backend answers to each call of an upload is an argument of the call.
\<close>

section \<open>Listings\<close>

text \<open>\<open>object_store::ObjectMeta\<close>, and the one of this crate.\<close>

record listed =
  ls_location :: string
  ls_size :: nat
  ls_e_tag :: e_tag

record object_meta =
  om_key :: object_key
  om_size :: nat
  om_version :: object_version
  om_metadata :: metadata

definition listed_meta :: "object_key \<Rightarrow> listed \<Rightarrow> object_meta" where
  "listed_meta k m = \<lparr>om_key = k, om_size = ls_size m,
     om_version = \<lparr>ov_e_tag = Some (ls_e_tag m), ov_version = None\<rparr>, om_metadata = []\<rparr>"

definition from_path :: "string \<Rightarrow> store_error + object_key" where
  "from_path location = object_key_new location"

text \<open>The walk, past the offset, without what a symbolic link leads to, in key order.\<close>

definition fs_list_objects ::
  "listed list \<Rightarrow> (string \<Rightarrow> bool) \<Rightarrow> object_key option \<Rightarrow> listed list" where
  "fs_list_objects walk no_symlink offset =
     sort_key ls_location
       (filter (\<lambda>m. no_symlink (ls_location m))
         (filter (\<lambda>m. case offset of None \<Rightarrow> True | Some k \<Rightarrow> as_str_key k < ls_location m) walk))"

text \<open>The loop reads until it has one item more than a page; unaddressable objects are skipped.\<close>

fun collect_items :: "nat \<Rightarrow> listed list \<Rightarrow> object_meta list" where
  "collect_items 0 stream = []"
| "collect_items (Suc n) [] = []"
| "collect_items (Suc n) (m # stream) =
     (case from_path (ls_location m) of
        Inr k \<Rightarrow> listed_meta k m # collect_items n stream
      | Inl _ \<Rightarrow> collect_items (Suc n) stream)"

definition list_from ::
  "listed list \<Rightarrow> (string \<Rightarrow> bool) \<Rightarrow> nat \<Rightarrow> object_key option \<Rightarrow> object_meta list \<times> object_key option" where
  "list_from walk no_symlink page_size offset =
     (let items = collect_items (Suc page_size) (fs_list_objects walk no_symlink offset)
      in if page_size < length items
         then (let kept = take page_size items
               in (kept, if kept = [] then None else Some (om_key (last kept))))
         else (items, None))"

definition list_objects ::
  "listed list \<Rightarrow> (string \<Rightarrow> bool) \<Rightarrow> nat \<Rightarrow> string option \<Rightarrow> store_error + (object_meta list \<times> string option)" where
  "list_objects walk no_symlink page_size cursor =
     (let page = (\<lambda>offset. case list_from walk no_symlink page_size offset of
                     (items, next_cursor) \<Rightarrow> (items, map_option as_str_key next_cursor))
      in case cursor of
           None \<Rightarrow> Inr (page None)
         | Some c \<Rightarrow> and_then (object_key_new c) (\<lambda>k. Inr (page (Some k))))"

definition DEFAULT_PAGE_SIZE :: nat where
  "DEFAULT_PAGE_SIZE = 1000"

definition set_page_size :: "nat \<Rightarrow> nat" where
  "set_page_size page_size = max 1 (min page_size DEFAULT_PAGE_SIZE)"

section \<open>Multipart uploads\<close>

text \<open>\<open>mp_inner\<close> is the upload of the \<open>object_store\<close> crate: it numbers a part when it is submitted, so
  a part that failed leaves a hole. \<open>mp_hashed\<close> is what the hasher has consumed.\<close>

record upload =
  mp_inner :: "string option list"
  mp_hashed :: string
  mp_size :: nat
  mp_expected :: "string option"
  mp_failed :: bool

definition multipart :: "string option \<Rightarrow> metadata \<Rightarrow> store_error + (metadata \<times> upload)" where
  "multipart content_sha256 user =
     (let expected = map_option (map to_ascii_lower) content_sha256
      in and_then (checked_user_metadata user) (\<lambda>md.
           Inr (case expected of None \<Rightarrow> md | Some sha \<Rightarrow> AList.update META_CONTENT_SHA256 sha md,
                \<lparr>mp_inner = [], mp_hashed = [], mp_size = 0, mp_expected = expected, mp_failed = False\<rparr>)))"

definition put_part ::
  "string \<Rightarrow> upload \<Rightarrow> string \<Rightarrow> os_error option \<Rightarrow> (store_error + unit) \<times> upload" where
  "put_part key u part answer =
     (if mp_failed u then (Inl InvalidArgument, u)
      else if part = [] then (Inl InvalidArgument, u)
      else (case answer of
              None \<Rightarrow> (Inr (), u\<lparr>mp_inner := mp_inner u @ [Some part], mp_hashed := mp_hashed u @ part,
                                 mp_size := mp_size u + length part\<rparr>)
            | Some e \<Rightarrow> (Inl (from_store key e), u\<lparr>mp_inner := mp_inner u @ [None], mp_failed := True\<rparr>)))"

text \<open>What becomes of the staged parts; a commit assembles them in order.\<close>

datatype staged = Kept | Aborted | Committed "string option list"

text \<open>The answers of the backend to \<open>complete\<close>, in the order it asks.\<close>

record commit_answers =
  ca_guard :: "store_error option"
  ca_check_key :: "store_error option"
  ca_complete :: "os_error + e_tag"
  ca_finish :: "store_error option"

definition complete ::
  "(string \<Rightarrow> string) \<Rightarrow> string \<Rightarrow> upload \<Rightarrow> commit_answers \<Rightarrow> (store_error + put_ack) \<times> staged" where
  "complete sha key u answers =
     (if mp_failed u then (Inl InvalidArgument, Kept)
      else (let digest = sha (mp_hashed u)
        in if (case mp_expected u of Some e \<Rightarrow> \<not> eq_ignore_case e digest | None \<Rightarrow> False)
           then (Inl (ContentMismatch key (the (mp_expected u)) digest), Aborted)
           else (case ca_guard answers of
                   Some e \<Rightarrow> (Inl e, Kept)
                 | None \<Rightarrow> (case ca_check_key answers of
                     Some e \<Rightarrow> (Inl e, Aborted)
                   | None \<Rightarrow> (case ca_complete answers of
                       Inl e \<Rightarrow> (Inl (from_store key e), Kept)
                     | Inr tag \<Rightarrow> (case ca_finish answers of
                         Some e \<Rightarrow> (Inl e, Committed (mp_inner u))
                       | None \<Rightarrow> (Inr \<lparr>pa_key = key, pa_version = \<lparr>ov_e_tag = Some tag, ov_version = None\<rparr>,
                                       pa_content_sha256 = digest, pa_size = mp_size u,
                                       pa_created = True\<rparr>, Committed (mp_inner u))))))))"

text \<open>A client's calls: the parts, each with the backend's answer.\<close>

definition put_parts :: "string \<Rightarrow> upload \<Rightarrow> (string \<times> os_error option) list \<Rightarrow> upload" where
  "put_parts key u calls = foldl (\<lambda>u (part, answer). snd (put_part key u part answer)) u calls"

end
