(* ===== verification/ObjectStoreFacts.thy ===== *)
theory ObjectStoreFacts
  imports ObjectTransfer
begin

text \<open>
  Metadata survives every backend, listings are complete page by page, and a multipart upload
  commits exactly the parts that were accepted.
\<close>

section \<open>Metadata\<close>

lemma update_new: "k \<notin> fst ` set al \<Longrightarrow> AList.update k v al = al @ [(k, v)]"
  by (induction al) auto

lemma fold_update_new:
  assumes "distinct (map (\<lambda>p. f (fst p)) xs)" and "\<forall>p \<in> set xs. f (fst p) \<notin> fst ` set al"
  shows "fold (\<lambda>(k, v). AList.update (f k) v) xs al = al @ map (\<lambda>(k, v). (f k, v)) xs"
  using assms
proof (induction xs arbitrary: al)
  case (Cons x xs)
  obtain k v where x: "x = (k, v)" by (cases x)
  have "AList.update (f k) v al = al @ [(f k, v)]" using Cons.prems x by (intro update_new) auto
  moreover have "\<forall>p \<in> set xs. f (fst p) \<noteq> f k" using Cons.prems(1) x by force
  ultimately show ?case using Cons.IH [of "al @ [(f k, v)]"] Cons.prems x by auto
qed simp

definition wire_name :: "char \<Rightarrow> string \<Rightarrow> string" where
  "wire_name separator k = replace_char (CHR ''-'') separator k"

lemma wire_name_back:
  assumes "metadata_key_ok k" and "separator \<in> {CHR ''-'', CHR ''_''}"
  shows "replace_char separator (CHR ''-'') (map to_ascii_lower (wire_name separator k)) = k"
proof -
  have "(if to_ascii_lower (if c = CHR ''-'' then separator else c) = separator then CHR ''-''
       else to_ascii_lower (if c = CHR ''-'' then separator else c)) = c"
    if "c \<in> set k" for c
    using assms that
    by (auto simp: metadata_key_ok_def list_all_iff to_ascii_lower_def ascii_upper_def ascii_lower_def ascii_digit_def)
  from map_idI [of k, OF this] show ?thesis by (simp add: wire_name_def replace_char_def comp_def)
qed

lemma attributes_eq:
  assumes "distinct (map fst md)" and "\<forall>p \<in> set md. metadata_key_ok (fst p)" and "separator \<in> {CHR ''-'', CHR ''_''}"
  shows "attributes md content_type separator =
    (ContentType, content_type) # map (\<lambda>(k, v). (MetadataName (wire_name separator k), v)) md"
proof -
  have "inj_on (\<lambda>p. MetadataName (wire_name separator (fst p))) (set md)"
  proof (rule inj_onI)
    fix p q
    assume pq: "p \<in> set md" "q \<in> set md" "MetadataName (wire_name separator (fst p)) = MetadataName (wire_name separator (fst q))"
    then have "fst p = fst q" using wire_name_back assms(2,3) by (metis attribute.inject)
    then show "p = q" using assms(1) pq by (simp add: distinct_map inj_on_def)
  qed
  then have "distinct (map (\<lambda>p. MetadataName (wire_name separator (fst p))) md)"
    using assms(1) by (simp add: distinct_map)
  from fold_update_new [OF this, of "[(ContentType, content_type)]"] show ?thesis
    by (simp add: attributes_def wire_name_def)
qed

lemma user_metadata_attributes:
  assumes "distinct (map fst md)" and "\<forall>p \<in> set md. metadata_key_ok (fst p)" and "separator \<in> {CHR ''-'', CHR ''_''}"
  shows "user_metadata (attributes md content_type separator) separator = md"
proof -
  have "fold (\<lambda>(attr, v) m. case attr of
         MetadataName k \<Rightarrow> AList.update (replace_char separator (CHR ''-'') (map to_ascii_lower k)) v m
       | ContentType \<Rightarrow> m) (map (\<lambda>(k, v). (MetadataName (wire_name separator k), v)) xs) al = al @ xs"
    if "set xs \<subseteq> set md" "distinct (map fst (al @ xs))" for xs al
    using that
  proof (induction xs arbitrary: al)
    case (Cons x xs)
    obtain k v where x: "x = (k, v)" by (cases x)
    have "metadata_key_ok k" using Cons.prems(1) assms(2) x by auto
    then have unwired: "replace_char separator (CHR ''-'') (map to_ascii_lower (wire_name separator k)) = k"
      using wire_name_back assms(3) by blast
    have "AList.update k v al = al @ [(k, v)]" using Cons.prems(2) x by (intro update_new) auto
    then show ?case using Cons.IH [of "al @ [(k, v)]"] Cons.prems x by (simp add: unwired)
  qed simp
  from this [of md "[]"] show ?thesis using assms(1) by (simp add: user_metadata_def attributes_eq [OF assms])
qed

definition metadata_bytes :: "metadata \<Rightarrow> nat" where
  "metadata_bytes md = sum_list (map (\<lambda>(k, v). length k + length v) md)"

lemma digest_key_ok: "metadata_key_ok META_CONTENT_SHA256"
  by (simp add: metadata_key_ok_def META_CONTENT_SHA256_def ascii_lower_def ascii_digit_def)

lemma with_digest_Inr:
  assumes "with_digest md sha = Inr m"
  shows "m = md @ [(META_CONTENT_SHA256, sha)] \<and> (\<forall>p \<in> set md. metadata_key_ok (fst p))
    \<and> META_CONTENT_SHA256 \<notin> fst ` set md \<and> metadata_bytes md \<le> MAX_USER_METADATA_BYTES"
proof -
  have "map_of md META_CONTENT_SHA256 = None" "list_all (\<lambda>(k, v). metadata_key_ok k \<and> metadata_value_ok v) md"
    "metadata_bytes md \<le> MAX_USER_METADATA_BYTES" "m = AList.update META_CONTENT_SHA256 sha md"
    using assms
    by (auto simp: with_digest_def and_then_Inr checked_user_metadata_def validate_metadata_def metadata_bytes_def
        split: if_splits)
  moreover from this(1) have "META_CONTENT_SHA256 \<notin> fst ` set md" by (simp add: map_of_eq_None_iff)
  ultimately show ?thesis by (auto simp: update_new list_all_iff)
qed

text \<open>C38. Metadata that is accepted survives every backend: with the digest added it fits the 2 KiB of
  the strictest store, and it reads back unchanged from the names it has on the wire, also where
  those may not contain a dash.\<close>

theorem metadata_roundtrip:
  assumes "with_digest md sha = Inr m" and "distinct (map fst md)" and "length sha = 64"
    and "separator \<in> {CHR ''-'', CHR ''_''}"
  shows "user_metadata (attributes m content_type separator) separator = m \<and> metadata_bytes m \<le> MAX_METADATA_BYTES"
proof -
  note m = with_digest_Inr [OF assms(1)]
  have "distinct (map fst m)" "\<forall>p \<in> set m. metadata_key_ok (fst p)"
    using m assms(2) digest_key_ok by auto
  moreover have "metadata_bytes m \<le> MAX_METADATA_BYTES"
    using m assms(3)
    by (simp add: metadata_bytes_def MAX_USER_METADATA_BYTES_def MAX_METADATA_BYTES_def RESERVED_DIGEST_BYTES_def
        META_CONTENT_SHA256_def)
  ultimately show ?thesis using user_metadata_attributes assms(4) by blast
qed

theorem metadata_roundtrip_witness:
  "user_metadata (attributes [(''trace-id'', ''t 1''), (META_CONTENT_SHA256, replicate 64 (CHR ''a''))] ''x'' (CHR ''_''))
     (CHR ''_'') = [(''trace-id'', ''t 1''), (META_CONTENT_SHA256, replicate 64 (CHR ''a''))]"
proof -
  have "with_digest [(''trace-id'', ''t 1'')] (replicate 64 (CHR ''a'')) =
      Inr [(''trace-id'', ''t 1''), (META_CONTENT_SHA256, replicate 64 (CHR ''a''))]"
    by (simp add: with_digest_def checked_user_metadata_def validate_metadata_def metadata_key_ok_def
        metadata_value_ok_def META_CONTENT_SHA256_def MAX_USER_METADATA_BYTES_def MAX_METADATA_BYTES_def
        RESERVED_DIGEST_BYTES_def ascii_lower_def ascii_digit_def ascii_graphic_def)
  from metadata_roundtrip [OF this] show ?thesis by simp
qed


section \<open>Listings\<close>

definition addressable :: "listed \<Rightarrow> object_meta option" where
  "addressable m = (case from_path (ls_location m) of Inr k \<Rightarrow> Some (listed_meta k m) | Inl _ \<Rightarrow> None)"

definition listing :: "listed list \<Rightarrow> (string \<Rightarrow> bool) \<Rightarrow> object_meta list" where
  "listing walk no_symlink = List.map_filter addressable (fs_list_objects walk no_symlink None)"

lemma collect_items_take: "collect_items n stream = take n (List.map_filter addressable stream)"
  by (induction n stream rule: collect_items.induct)
     (auto simp: addressable_def List.map_filter_simps split: sum.split)

definition meta_key :: "object_meta \<Rightarrow> string" where
  "meta_key m = as_str_key (om_key m)"

lemma addressable_key: "addressable m = Some x \<Longrightarrow> meta_key x = ls_location m"
  by (auto simp: addressable_def from_path_def object_key_new_def listed_meta_def meta_key_def
      split: sum.splits option.splits)

lemma map_filter_addressable:
  "filter (\<lambda>x. P (meta_key x)) (List.map_filter addressable ms) = List.map_filter addressable (filter (\<lambda>m. P (ls_location m)) ms)"
  by (induction ms) (auto simp: List.map_filter_simps dest: addressable_key split: option.split)

lemma fs_list_objects_offset:
  "fs_list_objects walk no_symlink (Some k) = filter (\<lambda>m. as_str_key k < ls_location m) (fs_list_objects walk no_symlink None)"
  by (simp add: fs_list_objects_def filter_sort filter_filter conj_commute)

lemma listing_strict:
  assumes "distinct (map ls_location walk)"
  shows "sorted_wrt (\<lambda>a b. meta_key a < meta_key b) (listing walk no_symlink)"
proof -
  have "inj_on ls_location (set walk)" "distinct walk" using assms by (simp_all add: distinct_map)
  then have "sorted_wrt (\<lambda>a b. ls_location a < ls_location b) (fs_list_objects walk no_symlink None)"
    unfolding fs_list_objects_def by (intro sort_key_strict distinct_filter) (auto simp: inj_on_def)
  then have "sorted_wrt (\<lambda>a b. meta_key a < meta_key b) (List.map_filter addressable ms)"
    if "ms = fs_list_objects walk no_symlink None" for ms
    unfolding that [symmetric]
    by (induction ms) (fastforce simp: List.map_filter_simps set_map_filter dest: addressable_key split: option.split)+
  then show ?thesis by (simp add: listing_def)
qed

lemma list_from_keyset:
  assumes "0 < n"
  shows "list_from walk no_symlink n after =
    keyset_page meta_key as_str_key om_key (listing walk no_symlink) n after"
proof -
  define rest where "rest = (case after of None \<Rightarrow> listing walk no_symlink
      | Some k \<Rightarrow> filter (\<lambda>x. as_str_key k < meta_key x) (listing walk no_symlink))"
  have "collect_items (Suc n) (fs_list_objects walk no_symlink after) = take (Suc n) rest"
    by (cases after) (simp_all add: collect_items_take rest_def listing_def fs_list_objects_offset map_filter_addressable)
  then show ?thesis
    using assms by (auto simp: list_from_def keyset_page_def rest_def [symmetric] Let_def)
qed

interpretation object_pages: keyset_paging "\<lambda>walk. distinct (map ls_location walk)" listing meta_key as_str_key
  om_key set_page_size "\<lambda>walk no_symlink n. list_from walk no_symlink (set_page_size n)"
  by unfold_locales
     (auto simp: list_from_keyset set_page_size_def meta_key_def [symmetric] DEFAULT_PAGE_SIZE_def intro: listing_strict)

text \<open>Following a listing's cursors returns every addressable object below the prefix once, in key
  order: an object another tool left under a name that is no key neither ends the listing nor
  costs a page an entry.\<close>

lemma list_pages_complete:
  assumes "distinct (map ls_location walk)" and "length (listing walk no_symlink) < fuel"
  shows "walk_pages (list_from walk no_symlink (set_page_size n)) fuel None = Some (listing walk no_symlink)"
  using object_pages.walk_all [OF assms] .

definition example_walk :: "listed list" where
  "example_walk = map (\<lambda>l. \<lparr>ls_location = l, ls_size = 1, ls_e_tag = 0\<rparr>) [''s/c'', ''s/a'', ''s/%'', ''s/b'']"

lemma list_pages_complete_witness:
  "walk_pages (list_from example_walk (\<lambda>_. True) (set_page_size 1)) 5 None = Some (listing example_walk (\<lambda>_. True))"
proof (rule list_pages_complete)
  have "length (List.map_filter f xs) \<le> length xs" for f :: "listed \<Rightarrow> object_meta option" and xs
    by (induction xs) (auto simp: List.map_filter_simps split: option.split)
  from this [of addressable "fs_list_objects example_walk (\<lambda>_. True) None"]
  show "length (listing example_walk (\<lambda>_. True)) < 5"
    by (simp add: listing_def fs_list_objects_def example_walk_def)
qed (simp add: example_walk_def)

section \<open>Multipart uploads\<close>

definition fresh_upload :: "string option \<Rightarrow> upload" where
  "fresh_upload expected = \<lparr>mp_inner = [], mp_hashed = [], mp_size = 0, mp_expected = expected, mp_failed = False\<rparr>"

text \<open>The parts a client may take for accepted.\<close>

definition accepted :: "(string \<times> os_error option) list \<Rightarrow> string list" where
  "accepted calls = filter (\<lambda>p. p \<noteq> []) (map fst calls)"

lemma put_parts_state:
  assumes "\<not> mp_failed (put_parts key (fresh_upload e) calls)"
  shows "mp_inner (put_parts key (fresh_upload e) calls) = map Some (accepted calls)
    \<and> mp_hashed (put_parts key (fresh_upload e) calls) = concat (accepted calls)
    \<and> mp_size (put_parts key (fresh_upload e) calls) = length (concat (accepted calls))
    \<and> mp_expected (put_parts key (fresh_upload e) calls) = e
    \<and> (\<forall>(part, answer) \<in> set calls. part = [] \<or> answer = None)"
  using assms
proof (induction calls rule: rev_induct)
  case Nil
  then show ?case by (simp add: put_parts_def fresh_upload_def accepted_def)
next
  case (snoc call calls)
  obtain part answer where call: "call = (part, answer)" by (cases call)
  have eq: "put_parts key (fresh_upload e) (calls @ [call]) = snd (put_part key (put_parts key (fresh_upload e) calls) part answer)"
    by (simp add: put_parts_def call)
  then have "\<not> mp_failed (put_parts key (fresh_upload e) calls)" and ok: "part = [] \<or> answer = None"
    using snoc.prems by (auto simp: put_part_def split: if_splits option.splits)
  then show ?case
    using snoc.IH eq by (auto simp: put_part_def call accepted_def split: option.splits)
qed

text \<open>C39. A multipart upload commits exactly the parts that were given to it, in order and without a
  hole, and only if no part failed and the digest is the one expected; what it acknowledges is the
  digest and the length of the committed bytes.\<close>

theorem multipart_commits_exactly:
  assumes "complete sha key (put_parts key (fresh_upload expected) calls) answers = (r, Committed parts)"
  shows "parts = map Some (accepted calls)
    \<and> (\<forall>(part, answer) \<in> set calls. part = [] \<or> answer = None)
    \<and> (\<forall>d. expected = Some d \<longrightarrow> eq_ignore_case d (sha (concat (accepted calls))))
    \<and> (\<forall>ack. r = Inr ack \<longrightarrow> pa_content_sha256 ack = sha (concat (accepted calls))
         \<and> pa_size ack = length (concat (accepted calls)))"
proof -
  let ?u = "put_parts key (fresh_upload expected) calls"
  have usable: "\<not> mp_failed ?u" and digest: "\<forall>e. mp_expected ?u = Some e \<longrightarrow> eq_ignore_case e (sha (mp_hashed ?u))"
    and parts: "parts = mp_inner ?u"
    and ack: "\<forall>a. r = Inr a \<longrightarrow> pa_content_sha256 a = sha (mp_hashed ?u) \<and> pa_size a = mp_size ?u"
    using assms by (auto simp: complete_def Let_def split: if_splits option.splits sum.splits)
  show ?thesis using put_parts_state [OF usable] digest parts ack by auto
qed

theorem multipart_commits_exactly_witness:
  "\<exists>r. complete (\<lambda>b. b) ''k'' (put_parts ''k'' (fresh_upload (Some ''abC'')) [(''a'', None), ([], None), (''bC'', None)])
     \<lparr>ca_guard = None, ca_check_key = None, ca_complete = Inr 3, ca_finish = None\<rparr> = (r, Committed [Some ''a'', Some ''bC''])"
proof -
  let ?calls = "[(''a'', None), ([], None), (''bC'', None)] :: (string \<times> os_error option) list"
  obtain r parts where c: "complete (\<lambda>b. b) ''k'' (put_parts ''k'' (fresh_upload (Some ''abC'')) ?calls)
     \<lparr>ca_guard = None, ca_check_key = None, ca_complete = Inr 3, ca_finish = None\<rparr> = (r, Committed parts)"
    by (simp add: complete_def put_parts_def put_part_def fresh_upload_def eq_ignore_case_def
        Let_def)
  have "parts = map Some (accepted ?calls)" using multipart_commits_exactly [OF c] by simp
  then show ?thesis using c by (simp add: accepted_def)
qed

end
