(* ===== verification/WatchLoop.thy ===== *)
theory WatchLoop
  imports Prelude "HOL-Library.Word"
begin

text \<open>
  The watch loop (\<open>src/crates/ai-hist/src/watch.rs\<close>, \<open>watch/inner.rs\<close>, \<open>watch/owed.rs\<close>,
  \<open>watch/scope.rs\<close>): which changes a tick stands for, the debounce window, the in-flight slot with
  its deferred tick, the sweep the store's lock turned away, and the loop that ties them together.
  Instants and durations are milliseconds; adding one to an \<open>Instant\<close> never overflows, as every
  interval is bounded. The watcher backend, the sinks and the sweep itself are outside: a sweep is
  its result, a registration is what \<open>coverage\<close> says of the watcher.
\<close>

type_synonym instant = nat

section \<open>Scopes\<close>

datatype change_scope =
    Everything
  | Roots "string set" "string set"

fun scope_union :: "change_scope \<Rightarrow> change_scope \<Rightarrow> change_scope" where
  "scope_union (Roots roots paths) (Roots theirs their_paths) =
     Roots (roots \<union> theirs) (if paths = {} \<or> their_paths = {} then {} else paths \<union> their_paths)"
| "scope_union _ _ = Everything"

definition widen :: "change_scope option \<Rightarrow> change_scope \<Rightarrow> change_scope" where
  "widen held scope = (case held of Some h \<Rightarrow> scope_union h scope | None \<Rightarrow> scope)"

section \<open>Ticks\<close>

datatype tick_trigger = Startup | FsEvent | Poll | Manual | RegistrationLost

definition forces_scan :: "tick_trigger \<Rightarrow> bool" where
  "forces_scan t \<longleftrightarrow> t = FsEvent"

record tick_outcome =
  to_swept :: bool
  to_skipped_unchanged :: bool
  to_contended :: bool
  to_changed_nothing :: bool

text \<open>What the sweep returned: an outcome, a cancellation, another error.\<close>

datatype tick_result = TickOk tick_outcome | TickCancelled | TickFailed

record wake =
  wk_trigger :: tick_trigger
  wk_first_event_at :: "instant option"
  wk_scope :: change_scope

definition wake_from :: "tick_trigger \<Rightarrow> wake" where
  "wake_from t = \<lparr>wk_trigger = t, wk_first_event_at = None, wk_scope = Everything\<rparr>"

record tick_request =
  tr_trigger :: tick_trigger
  tr_force :: bool
  tr_scope :: change_scope

definition request_of :: "wake \<Rightarrow> tick_request" where
  "request_of w =
     (let forced = forces_scan (wk_trigger w)
      in \<lparr>tr_trigger = wk_trigger w, tr_force = forced,
          tr_scope = (if forced then wk_scope w else Everything)\<rparr>)"

section \<open>Intervals\<close>

definition MAX_INTERVAL_MS :: nat where
  "MAX_INTERVAL_MS = 7 * 24 * 60 * 60 * 1000"

definition LEADING_EDGE_SETTLE_MS :: nat where
  "LEADING_EDGE_SETTLE_MS = 1"

definition LOST_REGISTRATION_RECHECK_MS :: nat where
  "LOST_REGISTRATION_RECHECK_MS = 250"

definition bounded_ms :: "nat \<Rightarrow> nat" where
  "bounded_ms millis = min millis MAX_INTERVAL_MS"

definition deadline_after :: "instant \<Rightarrow> nat \<Rightarrow> instant" where
  "deadline_after now millis = now + bounded_ms millis"

section \<open>The wake state\<close>

record wake_state =
  ws_pending :: "instant option"
  ws_scope :: "change_scope option"
  ws_registration_lost :: bool
  ws_stopped :: bool
  ws_window_until :: "instant option"

definition signal_change_since :: "instant \<Rightarrow> change_scope \<Rightarrow> wake_state \<Rightarrow> wake_state" where
  "signal_change_since at scope w =
     (if ws_stopped w then w
      else w\<lparr>ws_pending := Some (case ws_pending w of None \<Rightarrow> at | Some first \<Rightarrow> min first at),
             ws_scope := Some (widen (ws_scope w) scope)\<rparr>)"

definition signal_registration_lost :: "wake_state \<Rightarrow> wake_state" where
  "signal_registration_lost w = (if ws_stopped w then w else w\<lparr>ws_registration_lost := True\<rparr>)"

definition request_stop :: "wake_state \<Rightarrow> wake_state" where
  "request_stop w = w\<lparr>ws_stopped := True\<rparr>"

text \<open>One look of \<open>wait_for_wake\<close> at the state: stopped, a lost registration, a change to debounce,
  or nothing yet.\<close>

datatype look = Stopped | Lost wake_state | Change | Nothing

definition look_at :: "wake_state \<Rightarrow> look" where
  "look_at w =
     (if ws_stopped w then Stopped
      else if ws_registration_lost w then Lost (w\<lparr>ws_registration_lost := False\<rparr>)
      else if ws_pending w \<noteq> None then Change
      else Nothing)"

text \<open>The window a change waits out, and what is taken when it closes.\<close>

definition debounce_window :: "bool \<Rightarrow> nat \<Rightarrow> instant \<Rightarrow> wake_state \<Rightarrow> nat" where
  "debounce_window leading_edge debounce now w =
     (if leading_edge then
        (case ws_window_until w of
           Some until \<Rightarrow> if now < until then until - now else min debounce LEADING_EDGE_SETTLE_MS
         | None \<Rightarrow> min debounce LEADING_EDGE_SETTLE_MS)
      else debounce)"

definition take_change ::
  "bool \<Rightarrow> nat \<Rightarrow> instant \<Rightarrow> wake_state \<Rightarrow> (wake \<times> wake_state) option" where
  "take_change leading_edge debounce now w =
     (if ws_stopped w then None
      else Some
        (\<lparr>wk_trigger = FsEvent, wk_first_event_at = ws_pending w,
          wk_scope = (case ws_scope w of None \<Rightarrow> Everything | Some s \<Rightarrow> s)\<rparr>,
         w\<lparr>ws_pending := None, ws_scope := None,
           ws_window_until := (if leading_edge then Some (now + min debounce MAX_INTERVAL_MS)
                               else ws_window_until w)\<rparr>))"

section \<open>The in-flight slot\<close>

record run_state =
  rs_in_flight :: bool
  rs_deferred_force :: bool
  rs_deferred_since :: "instant option"
  rs_deferred_scope :: "change_scope option"
  rs_completed :: "64 word"

definition claim_or_defer :: "instant \<Rightarrow> wake \<Rightarrow> run_state \<Rightarrow> bool \<times> run_state" where
  "claim_or_defer now w r =
     (if rs_in_flight r then
        (False,
         if forces_scan (wk_trigger w) then
           (let since = (case wk_first_event_at w of Some t \<Rightarrow> t | None \<Rightarrow> now)
            in r\<lparr>rs_deferred_force := True,
                 rs_deferred_since := Some (case rs_deferred_since r of None \<Rightarrow> since | Some h \<Rightarrow> min h since),
                 rs_deferred_scope := Some (widen (rs_deferred_scope r) (wk_scope w))\<rparr>)
         else r)
      else (True, r\<lparr>rs_in_flight := True\<rparr>))"

text \<open>\<open>InFlight::drop\<close>: the slot is freed, and what was deferred is to be posted again.\<close>

definition release :: "instant \<Rightarrow> run_state \<Rightarrow> (instant \<times> change_scope) option \<times> run_state" where
  "release now r =
     (if rs_deferred_force r
      then Some (case rs_deferred_since r of Some t \<Rightarrow> t | None \<Rightarrow> now,
                 case rs_deferred_scope r of Some s \<Rightarrow> s | None \<Rightarrow> Everything)
      else None,
      r\<lparr>rs_in_flight := False, rs_deferred_force := False, rs_deferred_since := None,
        rs_deferred_scope := None, rs_completed := rs_completed r + 1\<rparr>)"

text \<open>\<open>run_claimed\<close> once the sweep returned: whether a forced sweep is still owed, and what it does
  to the wake state.\<close>

definition settle :: "wake \<Rightarrow> tick_result \<Rightarrow> wake_state \<Rightarrow> bool \<times> wake_state" where
  "settle w res ws =
     (case res of
        TickOk out \<Rightarrow>
          (forces_scan (wk_trigger w) \<and> to_contended out,
           if wk_trigger w = FsEvent \<and> to_changed_nothing out then ws\<lparr>ws_window_until := None\<rparr> else ws)
      | TickCancelled \<Rightarrow> (False, request_stop ws)
      | TickFailed \<Rightarrow> (forces_scan (wk_trigger w), ws))"

section \<open>The owed sweep\<close>

definition CONTENDED_SWEEP_RETRY_MS :: nat where
  "CONTENDED_SWEEP_RETRY_MS = 250"

definition CONTENDED_SWEEP_RETRY_MAX_MS :: nat where
  "CONTENDED_SWEEP_RETRY_MAX_MS = 1000"

record owed_sweep =
  ow_retry :: "(instant \<times> instant option) option"
  ow_scope :: "change_scope option"
  ow_backoff :: nat

definition owed_default :: owed_sweep where
  "owed_default = \<lparr>ow_retry = None, ow_scope = None, ow_backoff = CONTENDED_SWEEP_RETRY_MS\<rparr>"

fun earliest :: "instant option \<Rightarrow> instant option \<Rightarrow> instant option" where
  "earliest (Some a) (Some b) = Some (min a b)"
| "earliest (Some a) None = Some a"
| "earliest None b = b"

definition bound_idle :: "owed_sweep \<Rightarrow> instant \<Rightarrow> nat \<Rightarrow> nat" where
  "bound_idle o' now idle = (case ow_retry o' of Some (at, _) \<Rightarrow> min idle (at - now) | None \<Rightarrow> idle)"

definition fold_into :: "instant \<Rightarrow> wake \<Rightarrow> bool \<Rightarrow> owed_sweep \<Rightarrow> wake \<times> bool \<times> owed_sweep" where
  "fold_into now w widens o' =
     (case ow_retry o' of
        Some (at, since) \<Rightarrow>
          if at \<le> now then
            (\<lparr>wk_trigger = FsEvent, wk_first_event_at = earliest since (wk_first_event_at w),
              wk_scope = (case ow_scope o' of
                 Some s \<Rightarrow> if \<not> widens then s else widen (Some s) (wk_scope w)
               | None \<Rightarrow> widen None (wk_scope w))\<rparr>,
             True, o'\<lparr>ow_retry := None, ow_scope := None\<rparr>)
          else if forces_scan (wk_trigger w) then
            (w\<lparr>wk_first_event_at := earliest since (wk_first_event_at w),
               wk_scope := widen (ow_scope o') (wk_scope w)\<rparr>, False, o')
          else (w, False, o')
      | None \<Rightarrow> (w, False, o'))"

definition fold_wake ::
  "instant \<Rightarrow> wake \<Rightarrow> instant \<Rightarrow> nat \<Rightarrow> owed_sweep \<Rightarrow> wake \<times> bool \<times> owed_sweep \<times> instant" where
  "fold_wake now w last_poll_sweep sweep_every o' =
     (let backstop_due = (wk_trigger w = Poll \<and> sweep_every \<le> now - last_poll_sweep);
          widens = (forces_scan (wk_trigger w) \<or> backstop_due)
      in case fold_into now w widens o' of
           (w', is_retry, o'') \<Rightarrow>
             (w', is_retry, o'', if is_retry \<and> backstop_due then now else last_poll_sweep))"

definition turned_away :: "instant \<Rightarrow> wake \<Rightarrow> bool \<Rightarrow> owed_sweep \<Rightarrow> owed_sweep" where
  "turned_away now w is_retry o' =
     (let since = earliest (Option.bind (ow_retry o') snd) (wk_first_event_at w);
          next_at = deadline_after now (ow_backoff o');
          at = (case ow_retry o' of
                  Some (held, _) \<Rightarrow> if \<not> is_retry then min held next_at else next_at
                | None \<Rightarrow> next_at)
      in \<lparr>ow_retry = Some (at, since), ow_scope = Some (widen (ow_scope o') (wk_scope w)),
          ow_backoff = (if is_retry
                        then max CONTENDED_SWEEP_RETRY_MS (min (ow_backoff o' * 2) CONTENDED_SWEEP_RETRY_MAX_MS)
                        else ow_backoff o')\<rparr>)"

definition paid :: "owed_sweep \<Rightarrow> owed_sweep" where
  "paid o' = o'\<lparr>ow_retry := None, ow_scope := None, ow_backoff := CONTENDED_SWEEP_RETRY_MS\<rparr>"

section \<open>Cadences\<close>

datatype watch_driver = FsEvents | Polling

record watch_config =
  wc_debounce_ms :: nat
  wc_poll_interval_ms :: nat
  wc_slow_poll_ms :: nat
  wc_leading_edge :: bool
  wc_roots_refresh :: bool

text \<open>What the loop sees of its watcher: whether there is one, the driver last published, whether
  roots are unattached or being recovered.\<close>

record coverage =
  cv_watcher :: bool
  cv_driver :: watch_driver
  cv_pending :: bool
  cv_recovering :: bool

definition sweep_cadence :: "watch_config \<Rightarrow> coverage \<Rightarrow> nat" where
  "sweep_cadence cf cv =
     (case cv_driver cv of FsEvents \<Rightarrow> wc_slow_poll_ms cf | Polling \<Rightarrow> wc_poll_interval_ms cf)"

definition refresh_cadence :: "watch_config \<Rightarrow> coverage \<Rightarrow> nat \<Rightarrow> nat" where
  "refresh_cadence cf cv sweep_every =
     (case cv_driver cv of
        FsEvents \<Rightarrow> wc_slow_poll_ms cf
      | Polling \<Rightarrow>
          if cv_watcher cv \<and> (cv_pending cv \<or> wc_roots_refresh cf)
          then min (wc_slow_poll_ms cf) (wc_poll_interval_ms cf)
          else sweep_every)"

definition check_cadence :: "watch_config \<Rightarrow> coverage \<Rightarrow> nat \<Rightarrow> nat" where
  "check_cadence cf cv refresh_every =
     (if cv_watcher cv \<and> cv_recovering cv
      then min (min (wc_slow_poll_ms cf) (wc_poll_interval_ms cf)) LOST_REGISTRATION_RECHECK_MS
      else if cv_watcher cv \<and> cv_pending cv then min (wc_slow_poll_ms cf) (wc_poll_interval_ms cf)
      else refresh_every)"

record backstop =
  bs_next_refresh :: instant
  bs_next_check :: instant

definition backstop_starting :: "instant \<Rightarrow> nat \<Rightarrow> backstop" where
  "backstop_starting now slow_poll_ms =
     (let next_refresh = deadline_after now slow_poll_ms
      in \<lparr>bs_next_refresh = next_refresh, bs_next_check = next_refresh\<rparr>)"

text \<open>\<open>cv\<close> is the coverage the reconciliation found.\<close>

definition reconcile_when_due ::
  "watch_config \<Rightarrow> coverage \<Rightarrow> instant \<Rightarrow> tick_trigger \<Rightarrow> nat \<Rightarrow> backstop \<Rightarrow> wake_state \<Rightarrow> backstop \<times> wake_state" where
  "reconcile_when_due cf cv now trigger refresh_every b w =
     (let refresh_due = bs_next_refresh b \<le> now;
          registration_lost = (trigger = RegistrationLost \<or> ws_registration_lost w);
          w' = (if trigger = RegistrationLost then w else w\<lparr>ws_registration_lost := False\<rparr>);
          check_due = (refresh_due \<or> bs_next_check b \<le> now \<or> registration_lost)
      in (\<lparr>bs_next_refresh = (if refresh_due then deadline_after now refresh_every else bs_next_refresh b),
           bs_next_check = (if check_due then deadline_after now (check_cadence cf cv refresh_every)
                            else bs_next_check b)\<rparr>, w'))"

end
