(* ===== verification/WatchSystem.thy ===== *)
theory WatchSystem
  imports WatchLoop
begin

text \<open>
  The watch loop as a system of threads (\<open>WatchLoop::run\<close>, \<open>wait_for_wake\<close>, \<open>run_skip_if_busy\<close>,
  \<open>run_or_join\<close>, \<open>InFlight::drop\<close>): the loop thread is at a phase of its control flow, manual ticks
  and whoever posts changes run beside it. A step is a section under a lock, or what the loop thread
  does between two waits on state only it writes; a deferred tick is posted again by a step of its
  own, after the slot was freed. The serial number of a sweep and the list of forced sweeps that got
  through record what happened; no step depends on them.
\<close>

datatype loop_phase =
    Heading
  | Parked instant
  | Debouncing instant
  | Woken wake
  | Claiming wake bool
  | Running wake bool nat
  | Settled wake bool bool nat
  | Returned

record watch_system =
  wl_now :: instant
  wl_wake :: wake_state
  wl_run :: run_state
  wl_owed :: owed_sweep
  wl_backstop :: backstop
  wl_last_poll_sweep :: instant
  wl_sweep_every :: nat
  wl_refresh_every :: nat
  wl_woke_early :: bool
  wl_phase :: loop_phase
  wl_manual :: bool
  wl_reposts :: "(instant \<times> change_scope) list"
  wl_serial :: nat
  wl_swept :: "(nat \<times> change_scope) list"

section \<open>The loop thread\<close>

text \<open>The head of the loop: stop, or wait for no longer than the cadences and the debt allow.\<close>

definition loop_head :: "watch_config \<Rightarrow> coverage \<Rightarrow> watch_system \<Rightarrow> watch_system" where
  "loop_head cf cv s =
     (if ws_stopped (wl_wake s) then s\<lparr>wl_phase := Returned\<rparr>
      else (let sweep_every = sweep_cadence cf cv;
                refresh_every = refresh_cadence cf cv sweep_every;
                check_every = check_cadence cf cv refresh_every;
                idle = bound_idle (wl_owed s) (wl_now s) (min (min sweep_every refresh_every) check_every)
            in s\<lparr>wl_sweep_every := sweep_every, wl_refresh_every := refresh_every,
                 wl_woke_early := min refresh_every check_every < sweep_every,
                 wl_phase := Parked (wl_now s + idle)\<rparr>))"

text \<open>One turn of \<open>wait_for_wake\<close>; with nothing to do the thread stays parked.\<close>

definition look_around :: "watch_config \<Rightarrow> watch_system \<Rightarrow> watch_system" where
  "look_around cf s =
     (case look_at (wl_wake s) of
        Stopped \<Rightarrow> s\<lparr>wl_phase := Returned\<rparr>
      | Lost w \<Rightarrow> s\<lparr>wl_wake := w, wl_phase := Woken (wake_from RegistrationLost)\<rparr>
      | Change \<Rightarrow> s\<lparr>wl_phase := Debouncing (wl_now s + min MAX_INTERVAL_MS
                     (debounce_window (wc_leading_edge cf) (wc_debounce_ms cf) (wl_now s) (wl_wake s)))\<rparr>
      | Nothing \<Rightarrow> s)"

definition time_out :: "watch_system \<Rightarrow> watch_system" where
  "time_out s =
     s\<lparr>wl_phase := (if ws_stopped (wl_wake s) then Returned else Woken (wake_from Poll))\<rparr>"

definition window_closed :: "instant \<Rightarrow> watch_system \<Rightarrow> bool" where
  "window_closed deadline s \<longleftrightarrow>
     deadline \<le> wl_now s \<or> ws_stopped (wl_wake s) \<or> ws_registration_lost (wl_wake s)"

definition close_window :: "watch_config \<Rightarrow> watch_system \<Rightarrow> watch_system" where
  "close_window cf s =
     (case take_change (wc_leading_edge cf) (wc_debounce_ms cf) (wl_now s) (wl_wake s) of
        None \<Rightarrow> s\<lparr>wl_phase := Returned\<rparr>
      | Some (w, ws) \<Rightarrow> s\<lparr>wl_wake := ws, wl_phase := Woken w\<rparr>)"

text \<open>The body of the loop up to the sweep; \<open>cv\<close> is the coverage a reconciliation finds.\<close>

definition handle_wake :: "watch_config \<Rightarrow> coverage \<Rightarrow> wake \<Rightarrow> watch_system \<Rightarrow> watch_system" where
  "handle_wake cf cv w s =
     (if ws_stopped (wl_wake s) then s\<lparr>wl_phase := Returned\<rparr>
      else (case reconcile_when_due cf cv (wl_now s) (wk_trigger w) (wl_refresh_every s)
                   (wl_backstop s) (wl_wake s) of
         (b, ws) \<Rightarrow>
           if wk_trigger w = RegistrationLost
           then s\<lparr>wl_backstop := b, wl_wake := ws, wl_phase := Heading\<rparr>
           else (case fold_wake (wl_now s) w (wl_last_poll_sweep s) (wl_sweep_every s) (wl_owed s) of
              (w', is_retry, owed, swept_at) \<Rightarrow>
                (let s = s\<lparr>wl_backstop := b, wl_wake := ws, wl_owed := owed, wl_last_poll_sweep := swept_at\<rparr>
                 in if wk_trigger w' = Poll then
                      (if wl_woke_early s \<and> wl_now s - swept_at < wl_sweep_every s
                       then s\<lparr>wl_phase := Heading\<rparr>
                       else s\<lparr>wl_last_poll_sweep := wl_now s, wl_phase := Claiming w' is_retry\<rparr>)
                    else s\<lparr>wl_phase := Claiming w' is_retry\<rparr>))))"

definition claim_slot :: "wake \<Rightarrow> bool \<Rightarrow> watch_system \<Rightarrow> watch_system" where
  "claim_slot w is_retry s =
     (case claim_or_defer (wl_now s) w (wl_run s) of
        (True, r) \<Rightarrow> s\<lparr>wl_run := r, wl_serial := wl_serial s + 1,
                       wl_phase := Running w is_retry (wl_serial s + 1)\<rparr>
      | (False, r) \<Rightarrow> s\<lparr>wl_run := r, wl_phase := Settled w is_retry False (wl_serial s)\<rparr>)"

text \<open>A sweep ends: the wake state is settled, the slot freed, what was deferred is handed on.\<close>

definition end_sweep :: "wake \<Rightarrow> tick_result \<Rightarrow> watch_system \<Rightarrow> bool \<times> watch_system" where
  "end_sweep w res s =
     (case settle w res (wl_wake s) of
        (owed, ws) \<Rightarrow>
          (case release (wl_now s) (wl_run s) of
             (deferred, r) \<Rightarrow>
               (owed, s\<lparr>wl_wake := ws, wl_run := r,
                        wl_reposts := wl_reposts s @ (case deferred of None \<Rightarrow> [] | Some d \<Rightarrow> [d])\<rparr>)))"

definition got_through :: "tick_result \<Rightarrow> bool" where
  "got_through res \<longleftrightarrow> (case res of TickOk out \<Rightarrow> \<not> to_contended out | _ \<Rightarrow> False)"

definition finish_sweep :: "wake \<Rightarrow> bool \<Rightarrow> nat \<Rightarrow> tick_result \<Rightarrow> watch_system \<Rightarrow> watch_system" where
  "finish_sweep w is_retry n res s =
     (case end_sweep w res s of
        (owed, s') \<Rightarrow>
          s'\<lparr>wl_phase := Settled w is_retry owed n,
             wl_swept := wl_swept s' @ (if tr_force (request_of w) \<and> got_through res
                                        then [(n, tr_scope (request_of w))] else [])\<rparr>)"

text \<open>After the sweep. What a startup sweep returns is dropped: the loop's own state begins after it.\<close>

definition enter_loop :: "watch_config \<Rightarrow> watch_system \<Rightarrow> watch_system" where
  "enter_loop cf s =
     s\<lparr>wl_last_poll_sweep := wl_now s, wl_backstop := backstop_starting (wl_now s) (wc_slow_poll_ms cf),
       wl_owed := owed_default, wl_phase := Heading\<rparr>"

definition account :: "watch_config \<Rightarrow> wake \<Rightarrow> bool \<Rightarrow> bool \<Rightarrow> watch_system \<Rightarrow> watch_system" where
  "account cf w is_retry owed s =
     (if wk_trigger w = Startup then enter_loop cf s
      else s\<lparr>wl_owed :=
               (if owed then turned_away (wl_now s) w is_retry (wl_owed s)
                else if forces_scan (wk_trigger w) then paid (wl_owed s)
                else wl_owed s),
             wl_phase := Heading\<rparr>)"

section \<open>Everyone else\<close>

text \<open>\<open>run_or_join\<close>: a manual tick that finds a sweep in flight only waits for it.\<close>

definition manual_claim :: "watch_system \<Rightarrow> watch_system" where
  "manual_claim s =
     (if rs_in_flight (wl_run s) then s
      else s\<lparr>wl_run := (wl_run s)\<lparr>rs_in_flight := True\<rparr>, wl_manual := True\<rparr>)"

definition manual_finish :: "tick_result \<Rightarrow> watch_system \<Rightarrow> watch_system" where
  "manual_finish res s = (snd (end_sweep (wake_from Manual) res s))\<lparr>wl_manual := False\<rparr>"

definition post_change :: "instant \<Rightarrow> change_scope \<Rightarrow> watch_system \<Rightarrow> watch_system" where
  "post_change at scope s = s\<lparr>wl_wake := signal_change_since at scope (wl_wake s)\<rparr>"

inductive watch_step :: "watch_config \<Rightarrow> watch_system \<Rightarrow> watch_system \<Rightarrow> bool" for cf s where
  time: "watch_step cf s (s\<lparr>wl_now := wl_now s + d\<rparr>)"
| head: "wl_phase s = Heading \<Longrightarrow> watch_step cf s (loop_head cf cv s)"
| look: "wl_phase s = Parked deadline \<Longrightarrow> watch_step cf s (look_around cf s)"
| timeout: "wl_phase s = Parked deadline \<Longrightarrow> deadline \<le> wl_now s \<Longrightarrow> watch_step cf s (time_out s)"
| window: "wl_phase s = Debouncing deadline \<Longrightarrow> window_closed deadline s \<Longrightarrow> watch_step cf s (close_window cf s)"
| body: "wl_phase s = Woken w \<Longrightarrow> watch_step cf s (handle_wake cf cv w s)"
| claim: "wl_phase s = Claiming w is_retry \<Longrightarrow> watch_step cf s (claim_slot w is_retry s)"
| finish: "wl_phase s = Running w is_retry n \<Longrightarrow> watch_step cf s (finish_sweep w is_retry n res s)"
| settled: "wl_phase s = Settled w is_retry owed n \<Longrightarrow> watch_step cf s (account cf w is_retry owed s)"
| change: "watch_step cf s (post_change (wl_now s) scope s)"
| repost: "wl_reposts s = xs @ (at, scope) # ys \<Longrightarrow>
    watch_step cf s (post_change at scope (s\<lparr>wl_reposts := xs @ ys\<rparr>))"
| lost: "watch_step cf s (s\<lparr>wl_wake := signal_registration_lost (wl_wake s)\<rparr>)"
| stop: "watch_step cf s (s\<lparr>wl_wake := request_stop (wl_wake s)\<rparr>)"
| manual: "watch_step cf s (manual_claim s)"
| manual_end: "wl_manual s \<Longrightarrow> watch_step cf s (manual_finish res s)"

inductive watch_run :: "watch_config \<Rightarrow> watch_system \<Rightarrow> watch_system \<Rightarrow> bool" for cf s where
  here: "watch_run cf s s"
| more: "watch_run cf s s' \<Longrightarrow> watch_step cf s' s'' \<Longrightarrow> watch_run cf s s''"

text \<open>\<open>run\<close> starts with a sweep where \<open>immediate\<close> is set, and otherwise enters the loop.\<close>

definition watch_start :: "watch_config \<Rightarrow> bool \<Rightarrow> instant \<Rightarrow> watch_system" where
  "watch_start cf immediate now =
     (let s = enter_loop cf
        \<lparr>wl_now = now,
         wl_wake = \<lparr>ws_pending = None, ws_scope = None, ws_registration_lost = False, ws_stopped = False,
                    ws_window_until = None\<rparr>,
         wl_run = \<lparr>rs_in_flight = False, rs_deferred_force = False, rs_deferred_since = None,
                   rs_deferred_scope = None, rs_completed = 0\<rparr>,
         wl_owed = owed_default, wl_backstop = backstop_starting now 0, wl_last_poll_sweep = now,
         wl_sweep_every = 0, wl_refresh_every = 0, wl_woke_early = False,
         wl_phase = Heading, wl_manual = False, wl_reposts = [], wl_serial = 0, wl_swept = []\<rparr>
      in if immediate then s\<lparr>wl_phase := Claiming (wake_from Startup) False\<rparr> else s)"

end
