(* ===== verification/WatchFacts.thy ===== *)
theory WatchFacts
  imports WatchSystem
begin

text \<open>
  What the watch loop promises (\<open>src/crates/ai-hist/src/watch.rs\<close>): a change that was posted is swept
  by a sweep that began after it, or is still carried somewhere that leads to one, however sweeps,
  deferrals, contended retries and reposts interleave; the retry of a contended sweep stays within a
  second; and one sweep runs at a time.
\<close>

named_theorems watch_defs "the loop's operations, for unfolding a step"

section \<open>What covers what\<close>

text \<open>A scope that names no path stands for the whole of its roots.\<close>

fun covers :: "change_scope \<Rightarrow> change_scope \<Rightarrow> bool" where
  "covers Everything s = True"
| "covers (Roots r p) (Roots r' p') \<longleftrightarrow> r' \<subseteq> r \<and> (p = {} \<or> p' \<noteq> {} \<and> p' \<subseteq> p)"
| "covers (Roots r p) Everything = False"

lemma covers_refl [simp]: "covers s s"
  by (cases s) auto

lemma union_covers: "covers a s \<or> covers b s \<Longrightarrow> covers (scope_union a b) s"
  by (cases a; cases b; cases s) auto

lemma widen_covers [simp]:
  "covers s S \<Longrightarrow> covers (widen h s) S"
  "covers h' S \<Longrightarrow> covers (widen (Some h') s) S"
  by (auto simp: widen_def union_covers split: option.splits)

lemma earliest_Some:
  "earliest a b = Some m \<longleftrightarrow>
     (case (a, b) of (Some x, Some y) \<Rightarrow> m = min x y | (Some x, None) \<Rightarrow> m = x | (None, _) \<Rightarrow> b = Some m)"
  by (cases a; cases b) auto

definition by_then :: "instant \<Rightarrow> instant option \<Rightarrow> bool" where
  "by_then t at = (case at of Some a \<Rightarrow> a \<le> t | None \<Rightarrow> False)"

lemma by_then_simps [simp]:
  "by_then t None = False"
  "by_then t (Some a) = (a \<le> t)"
  by (simp_all add: by_then_def)

lemma by_then_earliest [simp]: "by_then t (earliest a b) \<longleftrightarrow> by_then t a \<or> by_then t b"
  by (cases a; cases b) auto

section \<open>Where a change is carried\<close>

definition in_wake :: "change_scope \<Rightarrow> instant \<Rightarrow> wake_state \<Rightarrow> bool" where
  "in_wake S t ws \<longleftrightarrow> by_then t (ws_pending ws) \<and>
     (\<exists>sc. ws_scope ws = Some sc \<and> covers sc S)"

definition wake_holds :: "change_scope \<Rightarrow> instant \<Rightarrow> wake \<Rightarrow> bool" where
  "wake_holds S t w \<longleftrightarrow>
     wk_trigger w = FsEvent \<and> by_then t (wk_first_event_at w) \<and> covers (wk_scope w) S"

definition in_deferred :: "change_scope \<Rightarrow> instant \<Rightarrow> run_state \<Rightarrow> bool" where
  "in_deferred S t r \<longleftrightarrow> rs_deferred_force r \<and> by_then t (rs_deferred_since r) \<and>
     (\<exists>sc. rs_deferred_scope r = Some sc \<and> covers sc S)"

definition in_reposts :: "change_scope \<Rightarrow> instant \<Rightarrow> (instant \<times> change_scope) list \<Rightarrow> bool" where
  "in_reposts S t xs \<longleftrightarrow> (\<exists>(at, sc) \<in> set xs. at \<le> t \<and> covers sc S)"

definition in_owed :: "change_scope \<Rightarrow> instant \<Rightarrow> owed_sweep \<Rightarrow> bool" where
  "in_owed S t ow \<longleftrightarrow> (\<exists>at d sc. ow_retry ow = Some (at, d) \<and> by_then t d \<and>
     ow_scope ow = Some sc \<and> covers sc S)"

text \<open>A running sweep counts only when it began after the change (its serial is above \<open>k\<close>), and one
  that ended only when it is still owed.\<close>

fun phase_holds :: "change_scope \<Rightarrow> instant \<Rightarrow> nat \<Rightarrow> loop_phase \<Rightarrow> bool" where
  "phase_holds S t k (Woken w) = wake_holds S t w"
| "phase_holds S t k (Claiming w _) = wake_holds S t w"
| "phase_holds S t k (Running w _ n) \<longleftrightarrow> wake_holds S t w \<and> k < n"
| "phase_holds S t k (Settled w _ owed n) \<longleftrightarrow> wake_holds S t w \<and> owed"
| "phase_holds S t k _ = False"

text \<open>The debt may be about to be paid off by a forced sweep that is running or has ended.\<close>

fun spending :: "loop_phase \<Rightarrow> bool" where
  "spending (Running w _ _) \<longleftrightarrow> wk_trigger w = FsEvent"
| "spending (Settled w _ _ _) \<longleftrightarrow> wk_trigger w = FsEvent"
| "spending _ = False"

definition carried :: "change_scope \<Rightarrow> instant \<Rightarrow> nat \<Rightarrow> watch_system \<Rightarrow> bool" where
  "carried S t k s \<longleftrightarrow>
     in_wake S t (wl_wake s) \<or> phase_holds S t k (wl_phase s) \<or> in_deferred S t (wl_run s) \<or>
     in_reposts S t (wl_reposts s) \<or> in_owed S t (wl_owed s) \<and> \<not> spending (wl_phase s)"

definition swept_since :: "change_scope \<Rightarrow> nat \<Rightarrow> (nat \<times> change_scope) list \<Rightarrow> bool" where
  "swept_since S k sweeps \<longleftrightarrow> (\<exists>(n, sc) \<in> set sweeps. k < n \<and> covers sc S)"

lemma swept_since_append [simp]:
  "swept_since S k (xs @ ys) \<longleftrightarrow> swept_since S k xs \<or> swept_since S k ys"
  "swept_since S k [(n, sc)] \<longleftrightarrow> k < n \<and> covers sc S"
  by (auto simp: swept_since_def)

section \<open>Each operation keeps what is carried\<close>

lemma in_wake_frame [simp]:
  "in_wake S t (ws\<lparr>ws_registration_lost := b\<rparr>) = in_wake S t ws"
  "in_wake S t (ws\<lparr>ws_window_until := u\<rparr>) = in_wake S t ws"
  "in_wake S t (ws\<lparr>ws_stopped := p\<rparr>) = in_wake S t ws"
  by (simp_all add: in_wake_def)

lemma signal_keeps:
  "\<not> ws_stopped ws \<Longrightarrow> in_wake S t ws \<or> at \<le> t \<and> covers sc S \<Longrightarrow> in_wake S t (signal_change_since at sc ws)"
  by (cases "ws_pending ws"; cases "ws_scope ws")
    (auto simp: in_wake_def signal_change_since_def min_le_iff_disj widen_def union_covers)

lemma signal_stopped [simp]:
  "ws_stopped (signal_change_since at sc ws) = ws_stopped ws"
  "ws_stopped (signal_registration_lost ws) = ws_stopped ws"
  by (simp_all add: signal_change_since_def signal_registration_lost_def)

lemma take_change_takes:
  assumes "take_change leading debounce now ws = Some (w, ws')" and "in_wake S t ws"
  shows "wake_holds S t w"
  using assms by (auto simp: take_change_def in_wake_def wake_holds_def split: if_splits)

lemma claim_or_defer_keeps:
  assumes "claim_or_defer now w r = (b, r')"
  shows "in_deferred S t r \<Longrightarrow> in_deferred S t r'"
    and "\<not> b \<Longrightarrow> wake_holds S t w \<Longrightarrow> in_deferred S t r'"
  using assms
  by (auto simp: claim_or_defer_def in_deferred_def wake_holds_def forces_scan_def by_then_def Let_def
      min_le_iff_disj split: if_splits option.splits)

lemma release_hands_on:
  assumes "release now r = (handed, r')" and "in_deferred S t r"
  shows "in_reposts S t (xs @ (case handed of None \<Rightarrow> [] | Some d \<Rightarrow> [d]))"
  using assms
  by (auto simp: release_def in_deferred_def in_reposts_def by_then_def split: option.splits)

lemma in_reposts_append [simp]: "in_reposts S t (xs @ ys) \<longleftrightarrow> in_reposts S t xs \<or> in_reposts S t ys"
  by (auto simp: in_reposts_def)

lemma settle_owed:
  assumes "settle w res ws = (owed, ws')"
  shows "in_wake S t ws \<Longrightarrow> in_wake S t ws'"
    and "wk_trigger w = FsEvent \<Longrightarrow> owed \<or> got_through res \<or> ws_stopped ws'"
    and "ws_stopped ws \<Longrightarrow> ws_stopped ws'"
    and "owed \<Longrightarrow> wk_trigger w = FsEvent"
  using assms
  by (auto simp: settle_def got_through_def forces_scan_def request_stop_def
      split: tick_result.splits if_splits)

lemma turned_away_holds:
  assumes "wake_holds S t w \<or> in_owed S t ow"
  shows "in_owed S t (turned_away now w retry ow)"
  using assms by (auto simp: in_owed_def turned_away_def wake_holds_def Let_def)

lemma fold_wake_keeps:
  assumes "fold_wake now w swept every ow = (w', retry, ow', swept')"
    and "wake_holds S t w \<or> in_owed S t ow"
  shows "wake_holds S t w' \<or> in_owed S t ow' \<and> wk_trigger w' \<noteq> FsEvent"
  using assms
  by (auto simp: fold_wake_def fold_into_def in_owed_def wake_holds_def forces_scan_def Let_def
      split: if_splits option.splits prod.splits)

lemma fold_wake_trigger:
  assumes "fold_wake now w swept every ow = (w', retry, ow', swept')"
  shows "wk_trigger w' = wk_trigger w \<or> wk_trigger w' = FsEvent"
    and "wk_trigger w' = FsEvent \<Longrightarrow> in_owed S t ow' \<Longrightarrow> wake_holds S t w'"
  using assms
  by (auto simp: fold_wake_def fold_into_def in_owed_def wake_holds_def forces_scan_def Let_def
      split: if_splits option.splits prod.splits)

section \<open>Each step keeps what is carried\<close>

lemmas [watch_defs] = loop_head_def look_around_def time_out_def close_window_def handle_wake_def
  claim_slot_def end_sweep_def finish_sweep_def enter_loop_def account_def manual_claim_def
  manual_finish_def post_change_def Let_def

lemmas watch_splits = look.splits option.splits prod.splits if_splits bool.splits

text \<open>A forced sweep that is about to claim the slot stands for the debt as well; the startup sweep
  runs before there is any.\<close>

fun phase_ok :: "change_scope \<Rightarrow> instant \<Rightarrow> owed_sweep \<Rightarrow> loop_phase \<Rightarrow> bool" where
  "phase_ok S t ow (Claiming w _) \<longleftrightarrow>
     (wk_trigger w = FsEvent \<longrightarrow> in_owed S t ow \<longrightarrow> wake_holds S t w) \<and>
     (wk_trigger w = Startup \<longrightarrow> ow_retry ow = None)"
| "phase_ok S t ow (Woken w) \<longleftrightarrow> wk_trigger w \<noteq> Startup"
| "phase_ok S t ow (Running w _ _) \<longleftrightarrow> (wk_trigger w = Startup \<longrightarrow> ow_retry ow = None)"
| "phase_ok S t ow (Settled w _ _ _) \<longleftrightarrow> (wk_trigger w = Startup \<longrightarrow> ow_retry ow = None)"
| "phase_ok S t ow _ \<longleftrightarrow> True"

lemma wake_from_trigger [simp]: "wk_trigger (wake_from t) = t"
  by (simp add: wake_from_def)

lemma handle_wake_phase_ok:
  assumes "wk_trigger w \<noteq> Startup"
  shows "phase_ok S t (wl_owed (handle_wake cf cv w s)) (wl_phase (handle_wake cf cv w s))"
proof -
  obtain w' retry ow swept where
    f: "fold_wake (wl_now s) w (wl_last_poll_sweep s) (wl_sweep_every s) (wl_owed s) = (w', retry, ow, swept)"
    by (metis prod_cases4)
  show ?thesis
    using assms fold_wake_trigger [OF f] by (auto simp: handle_wake_def f Let_def split: prod.splits)
qed

lemma phase_ok_step:
  assumes "watch_step cf s s'" and "phase_ok S t (wl_owed s) (wl_phase s)"
  shows "phase_ok S t (wl_owed s') (wl_phase s')"
  using assms
proof (cases rule: watch_step.cases)
  case (body w cv)
  then show ?thesis using assms(2) by (simp add: handle_wake_phase_ok)
next
  case (window deadline)
  then show ?thesis by (auto simp: close_window_def take_change_def)
qed (auto simp: watch_defs split: watch_splits)

lemma phase_ok_run:
  assumes "watch_run cf s s'" and "phase_ok S t (wl_owed s) (wl_phase s)"
  shows "phase_ok S t (wl_owed s') (wl_phase s')"
  using assms by (induction rule: watch_run.induct) (auto intro: phase_ok_step)

lemma phase_ok_start: "phase_ok S t (wl_owed (watch_start cf immediate now)) (wl_phase (watch_start cf immediate now))"
  by (simp add: watch_start_def enter_loop_def owed_default_def Let_def)

definition kept :: "change_scope \<Rightarrow> instant \<Rightarrow> nat \<Rightarrow> watch_system \<Rightarrow> bool" where
  "kept S t k s \<longleftrightarrow> ws_stopped (wl_wake s) \<or> swept_since S k (wl_swept s) \<or> carried S t k s"

lemma reconcile_keeps:
  assumes "reconcile_when_due cf cv now trig every b ws = (b', ws')"
  shows "in_wake S t ws' = in_wake S t ws" "ws_stopped ws' = ws_stopped ws"
  using assms by (auto simp: reconcile_when_due_def Let_def split: if_splits)

lemma handle_wake_kept:
  assumes "kept S t k s" and "wl_phase s = Woken w"
  shows "kept S t k (handle_wake cf cv w s)"
proof -
  obtain b ws where r: "reconcile_when_due cf cv (wl_now s) (wk_trigger w) (wl_refresh_every s)
      (wl_backstop s) (wl_wake s) = (b, ws)" by fastforce
  obtain w' retry ow swept where
    f: "fold_wake (wl_now s) w (wl_last_poll_sweep s) (wl_sweep_every s) (wl_owed s) = (w', retry, ow, swept)"
    by (metis prod_cases4)
  show ?thesis
    using assms reconcile_keeps [OF r] fold_wake_keeps [OF f] fold_wake_trigger [OF f]
    by (auto simp: handle_wake_def r f Let_def kept_def carried_def wake_holds_def)
qed

lemma close_window_kept:
  assumes "kept S t k s" and "wl_phase s = Debouncing d"
  shows "kept S t k (close_window cf s)"
proof (cases "take_change (wc_leading_edge cf) (wc_debounce_ms cf) (wl_now s) (wl_wake s)")
  case None
  then show ?thesis by (auto simp: close_window_def kept_def take_change_def split: if_splits)
next
  case (Some p)
  obtain w ws where p: "p = (w, ws)" by (cases p)
  have "\<not> ws_stopped (wl_wake s)" using Some by (auto simp: take_change_def)
  then show ?thesis
    using assms Some p take_change_takes [OF Some [unfolded p]]
    by (auto simp: close_window_def kept_def carried_def)
qed

lemma claim_slot_kept:
  assumes "kept S t k s" and ph: "wl_phase s = Claiming w r" and "k \<le> wl_serial s"
    and "phase_ok S t (wl_owed s) (wl_phase s)"
  shows "kept S t k (claim_slot w r s)"
proof -
  obtain b run where c: "claim_or_defer (wl_now s) w (wl_run s) = (b, run)" by fastforce
  show ?thesis
    using assms claim_or_defer_keeps [OF c]
    by (cases b) (auto simp: claim_slot_def c kept_def carried_def wake_holds_def)
qed

lemma end_sweep_kept:
  assumes "end_sweep w res s = (owed, s')"
  shows "ws_stopped (wl_wake s) \<Longrightarrow> ws_stopped (wl_wake s')"
    and "in_wake S t (wl_wake s) \<Longrightarrow> in_wake S t (wl_wake s')"
    and "in_deferred S t (wl_run s) \<or> in_reposts S t (wl_reposts s) \<Longrightarrow> in_reposts S t (wl_reposts s')"
    and "wk_trigger w = FsEvent \<Longrightarrow> owed \<or> got_through res \<or> ws_stopped (wl_wake s')"
    and "wl_owed s' = wl_owed s" "wl_swept s' = wl_swept s" "wl_phase s' = wl_phase s" "wl_serial s' = wl_serial s"
proof -
  obtain o2 ws where st: "settle w res (wl_wake s) = (o2, ws)" by fastforce
  obtain handed r where rl: "release (wl_now s) (wl_run s) = (handed, r)" by fastforce
  have s': "owed = o2" "s' = s\<lparr>wl_wake := ws, wl_run := r,
      wl_reposts := wl_reposts s @ (case handed of None \<Rightarrow> [] | Some d \<Rightarrow> [d])\<rparr>"
    using assms by (simp_all add: end_sweep_def st rl)
  note facts = settle_owed [OF st] release_hands_on [OF rl, where xs = "wl_reposts s"]
  show "ws_stopped (wl_wake s) \<Longrightarrow> ws_stopped (wl_wake s')"
    and "in_wake S t (wl_wake s) \<Longrightarrow> in_wake S t (wl_wake s')"
    and "in_deferred S t (wl_run s) \<or> in_reposts S t (wl_reposts s) \<Longrightarrow> in_reposts S t (wl_reposts s')"
    and "wk_trigger w = FsEvent \<Longrightarrow> owed \<or> got_through res \<or> ws_stopped (wl_wake s')"
    and "wl_owed s' = wl_owed s" "wl_swept s' = wl_swept s" "wl_phase s' = wl_phase s" "wl_serial s' = wl_serial s"
    using s' facts by auto
qed

lemma finish_sweep_kept:
  assumes "kept S t k s" and ph: "wl_phase s = Running w r n"
  shows "kept S t k (finish_sweep w r n res s)"
proof -
  obtain owed s' where e: "end_sweep w res s = (owed, s')" by fastforce
  show ?thesis
    using assms end_sweep_kept [OF e]
    by (auto simp: finish_sweep_def e kept_def carried_def wake_holds_def request_of_def
        forces_scan_def Let_def)
qed

lemma manual_finish_kept:
  assumes "kept S t k s"
  shows "kept S t k (manual_finish res s)"
proof -
  obtain owed s' where e: "end_sweep (wake_from Manual) res s = (owed, s')" by fastforce
  show ?thesis
    using assms end_sweep_kept [OF e]
    by (auto simp: manual_finish_def e kept_def carried_def)
qed

lemma account_kept:
  assumes "kept S t k s" and "wl_phase s = Settled w r owed n"
    and "phase_ok S t (wl_owed s) (wl_phase s)"
  shows "kept S t k (account cf w r owed s)"
  using assms turned_away_holds [of S t w "wl_owed s" "wl_now s" r]
  by (auto simp: account_def enter_loop_def kept_def carried_def wake_holds_def
      forces_scan_def in_owed_def)

lemma post_change_kept:
  assumes "kept S t k s"
  shows "kept S t k (post_change at sc s)"
  using assms signal_keeps [of "wl_wake s" S t at sc]
  by (auto simp: post_change_def kept_def carried_def)

lemma kept_step:
  assumes "watch_step cf s s'" and "kept S t k s" and "k \<le> wl_serial s"
    and "phase_ok S t (wl_owed s) (wl_phase s)"
  shows "kept S t k s'"
  using assms(1)
proof (cases rule: watch_step.cases)
  case (look deadline)
  then show ?thesis
    using assms(2) by (auto simp: look_around_def look_at_def kept_def carried_def split: if_splits)
next
  case (repost xs at sc ys)
  show ?thesis
  proof (cases "at \<le> t \<and> covers sc S")
    case True
    then show ?thesis
      using repost assms(2) signal_keeps [of "wl_wake s" S t at sc]
      by (auto simp: post_change_def kept_def carried_def)
  next
    case False
    then have "kept S t k (s\<lparr>wl_reposts := xs @ ys\<rparr>)"
      using repost assms(2) by (auto simp: kept_def carried_def in_reposts_def)
    then show ?thesis using repost by (simp add: post_change_kept)
  qed
next
  case (body w cv)
  then show ?thesis using assms(2) handle_wake_kept by simp
next
  case (window deadline)
  then show ?thesis using assms(2) close_window_kept by simp
next
  case (claim w is_retry)
  then show ?thesis using assms claim_slot_kept by simp
next
  case (finish w is_retry n res)
  then show ?thesis using assms(2) finish_sweep_kept by simp
next
  case (settled w is_retry owed n)
  then show ?thesis using assms account_kept by simp
next
  case (manual_end res)
  then show ?thesis using assms(2) manual_finish_kept by simp
next
  case (change sc)
  then show ?thesis using assms(2) post_change_kept by simp
qed (use assms(2) in \<open>auto simp: kept_def carried_def loop_head_def time_out_def Let_def manual_claim_def
    signal_registration_lost_def request_stop_def in_deferred_def\<close>)

lemma serial_step: "watch_step cf s s' \<Longrightarrow> wl_serial s \<le> wl_serial s'"
  by (cases rule: watch_step.cases)
    (auto simp: watch_defs split: watch_splits)

lemma kept_run:
  assumes "watch_run cf s s'" and "kept S t k s" and "k \<le> wl_serial s"
    and "phase_ok S t (wl_owed s) (wl_phase s)"
  shows "kept S t k s' \<and> k \<le> wl_serial s'"
  using assms
proof (induction rule: watch_run.induct)
  case (more s' s'')
  then show ?case using kept_step phase_ok_run [of cf s s' S t] serial_step by (meson le_trans)
qed simp

lemma post_change_carried:
  "kept S t k (post_change t S s)"
  using signal_keeps [of "wl_wake s" S t t S] by (auto simp: post_change_def kept_def carried_def)

lemma change_kept:
  assumes "watch_run cf (watch_start cf immediate now) s" and "watch_run cf (post_change (wl_now s) S s) s'"
  shows "kept S (wl_now s) (wl_serial s) s'"
proof -
  have "phase_ok S (wl_now s) (wl_owed s) (wl_phase s)"
    using phase_ok_run [OF assms(1) phase_ok_start] .
  then show ?thesis
    using kept_run [OF assms(2) post_change_carried] by (simp add: post_change_def)
qed

section \<open>When nothing is left to do\<close>

text \<open>The loop waits, nothing is pending, deferred, to be posted again or owed.\<close>

definition quiet :: "watch_system \<Rightarrow> bool" where
  "quiet s \<longleftrightarrow>
     (case wl_phase s of Parked _ \<Rightarrow> True | _ \<Rightarrow> False) \<and> ws_pending (wl_wake s) = None \<and>
     \<not> rs_deferred_force (wl_run s) \<and> wl_reposts s = [] \<and> ow_retry (wl_owed s) = None"

lemma quiet_not_carried: "quiet s \<Longrightarrow> \<not> carried S t k s"
  by (auto simp: quiet_def carried_def in_wake_def in_deferred_def in_reposts_def in_owed_def
      split: loop_phase.splits)

text \<open>C28. Once a change is posted, whatever follows (debouncing, a sweep in flight, a deferral behind a
  manual tick, a contended or failed sweep and its retries, reposts, lost registrations), the loop was
  stopped, or a forced sweep that was claimed after the change and covers it got through, or the change
  is still carried, with an arrival time no later than its own, by the wake state, the loop's current
  wake, the deferred tick, a repost on its way or the owed sweep.\<close>

theorem change_never_lost:
  assumes "watch_run cf (watch_start cf immediate now) s"
    and "watch_run cf (post_change (wl_now s) S s) s'"
  shows "ws_stopped (wl_wake s') \<or> swept_since S (wl_serial s) (wl_swept s') \<or>
    carried S (wl_now s) (wl_serial s) s'"
  using change_kept [OF assms] by (simp add: kept_def)

text \<open>C29. When the loop waits with nothing pending, deferred, reposted or owed and was not stopped, every
  change posted so far was covered by a forced sweep that was claimed after it and got through.\<close>

theorem quiet_means_swept:
  assumes "watch_run cf (watch_start cf immediate now) s"
    and "watch_run cf (post_change (wl_now s) S s) s'"
    and "quiet s'" and "\<not> ws_stopped (wl_wake s')"
  shows "\<exists>(n, sc) \<in> set (wl_swept s'). wl_serial s < n \<and> covers sc S"
  using change_kept [OF assms(1,2)] assms(3,4) quiet_not_carried
  by (auto simp: kept_def swept_since_def)

section \<open>The retry's deadline\<close>

definition retry_ok :: "watch_system \<Rightarrow> bool" where
  "retry_ok s \<longleftrightarrow>
     CONTENDED_SWEEP_RETRY_MS \<le> ow_backoff (wl_owed s) \<and>
     ow_backoff (wl_owed s) \<le> CONTENDED_SWEEP_RETRY_MAX_MS \<and>
     (case ow_retry (wl_owed s) of None \<Rightarrow> True | Some (at, _) \<Rightarrow>
        at \<le> wl_now s + CONTENDED_SWEEP_RETRY_MAX_MS \<and>
        (case wl_phase s of Parked deadline \<Rightarrow> deadline \<le> max at (wl_now s) | _ \<Rightarrow> True))"

lemma turned_away_bounds:
  assumes "CONTENDED_SWEEP_RETRY_MS \<le> ow_backoff ow" "ow_backoff ow \<le> CONTENDED_SWEEP_RETRY_MAX_MS"
  shows "CONTENDED_SWEEP_RETRY_MS \<le> ow_backoff (turned_away now w r ow)"
    and "ow_backoff (turned_away now w r ow) \<le> CONTENDED_SWEEP_RETRY_MAX_MS"
    and "\<exists>at d. ow_retry (turned_away now w r ow) = Some (at, d) \<and> at \<le> now + CONTENDED_SWEEP_RETRY_MAX_MS"
  using assms
  by (auto simp: turned_away_def Let_def CONTENDED_SWEEP_RETRY_MS_def CONTENDED_SWEEP_RETRY_MAX_MS_def
      deadline_after_def bounded_ms_def split: option.splits)

lemma fold_wake_owed:
  "fold_wake now w swept every ow = (w', r, ow', swept') \<Longrightarrow>
     ow_backoff ow' = ow_backoff ow \<and> (ow_retry ow' = None \<or> ow_retry ow' = ow_retry ow)"
  by (auto simp: fold_wake_def fold_into_def Let_def split: option.splits if_splits prod.splits)

lemma retry_ok_step:
  assumes "watch_step cf s s'" and "retry_ok s"
  shows "retry_ok s'"
  using assms(1)
proof (cases rule: watch_step.cases)
  case (body w cv)
  obtain w' retry ow swept where
    f: "fold_wake (wl_now s) w (wl_last_poll_sweep s) (wl_sweep_every s) (wl_owed s) = (w', retry, ow, swept)"
    by (metis prod_cases4)
  show ?thesis
    using body assms(2) fold_wake_owed [OF f]
    by (auto simp: handle_wake_def f Let_def retry_ok_def split: prod.splits option.splits)
next
  case (settled w is_retry owed n)
  then show ?thesis
    using assms(2) turned_away_bounds [of "wl_owed s" "wl_now s" w is_retry]
    by (auto simp: account_def enter_loop_def owed_default_def paid_def retry_ok_def
        CONTENDED_SWEEP_RETRY_MS_def CONTENDED_SWEEP_RETRY_MAX_MS_def split: option.splits)
next
  case (head cv)
  then show ?thesis
    using assms(2)
    by (auto simp: loop_head_def bound_idle_def retry_ok_def Let_def split: option.splits)
qed (use assms(2) in \<open>auto simp: watch_defs retry_ok_def split: watch_splits loop_phase.splits\<close>)

lemma retry_ok_run: "watch_run cf s s' \<Longrightarrow> retry_ok s \<Longrightarrow> retry_ok s'"
  by (induction rule: watch_run.induct) (auto intro: retry_ok_step)

lemma retry_ok_start: "retry_ok (watch_start cf immediate now)"
  by (simp add: watch_start_def enter_loop_def owed_default_def retry_ok_def Let_def
      CONTENDED_SWEEP_RETRY_MS_def CONTENDED_SWEEP_RETRY_MAX_MS_def)

lemma due_retry_claims:
  assumes "wl_owed s = \<lparr>ow_retry = Some (at, d), ow_scope = Some sc, ow_backoff = b\<rparr>" and "at \<le> wl_now s"
    and "\<not> ws_stopped (wl_wake s)" and "wk_trigger w \<noteq> RegistrationLost"
  shows "\<exists>w'. wl_phase (handle_wake cf cv w s) = Claiming w' True \<and> wk_trigger w' = FsEvent \<and>
    covers (wk_scope w') sc \<and> ow_retry (wl_owed (handle_wake cf cv w s)) = None"
  using assms by (auto simp: handle_wake_def fold_wake_def fold_into_def Let_def split: prod.splits)


section \<open>One sweep at a time\<close>

definition running :: "watch_system \<Rightarrow> bool" where
  "running s = (case wl_phase s of Running _ _ _ \<Rightarrow> True | _ \<Rightarrow> False)"

definition slot_ok :: "watch_system \<Rightarrow> bool" where
  "slot_ok s \<longleftrightarrow> (rs_in_flight (wl_run s) \<longleftrightarrow> running s \<or> wl_manual s) \<and> \<not> (running s \<and> wl_manual s)"

lemma slot_ok_step:
  assumes "watch_step cf s s'" and "slot_ok s"
  shows "slot_ok s'"
  using assms(1)
proof (cases rule: watch_step.cases)
  case (claim w is_retry)
  then show ?thesis
    using assms(2)
    by (auto simp: claim_slot_def claim_or_defer_def slot_ok_def running_def Let_def split: if_splits)
next
  case (finish w is_retry n res)
  then show ?thesis
    using assms(2)
    by (auto simp: finish_sweep_def end_sweep_def release_def slot_ok_def running_def split: prod.splits)
next
  case (manual_end res)
  then show ?thesis
    using assms(2)
    by (auto simp: manual_finish_def end_sweep_def release_def slot_ok_def running_def split: prod.splits)
next
  case (look deadline)
  then show ?thesis
    using assms(2) by (auto simp: look_around_def slot_ok_def running_def split: look.splits)
next
  case (body w cv)
  then show ?thesis
    using assms(2) by (auto simp: handle_wake_def slot_ok_def running_def Let_def split: prod.splits)
next
  case (window deadline)
  then show ?thesis
    using assms(2) by (auto simp: close_window_def slot_ok_def running_def split: option.splits)
qed (use assms(2) in \<open>auto simp: loop_head_def time_out_def account_def enter_loop_def post_change_def
    manual_claim_def slot_ok_def running_def Let_def\<close>)

lemma slot_ok_run: "watch_run cf s s' \<Longrightarrow> slot_ok s \<Longrightarrow> slot_ok s'"
  by (induction rule: watch_run.induct) (auto intro: slot_ok_step)

lemma slot_ok_start: "slot_ok (watch_start cf immediate now)"
  by (simp add: watch_start_def enter_loop_def slot_ok_def running_def Let_def)

text \<open>In every reachable state the in-flight flag is set exactly when a sweep of the loop or a manual
  one runs, and never both run.\<close>

lemma single_flight:
  assumes "watch_run cf (watch_start cf immediate now) s"
  shows "(rs_in_flight (wl_run s) \<longleftrightarrow> (\<exists>w r n. wl_phase s = Running w r n) \<or> wl_manual s) \<and>
    \<not> ((\<exists>w r n. wl_phase s = Running w r n) \<and> wl_manual s)"
proof -
  have "running s \<longleftrightarrow> (\<exists>w r n. wl_phase s = Running w r n)"
    by (cases "wl_phase s") (auto simp: running_def)
  then show ?thesis using slot_ok_run [OF assms slot_ok_start] by (auto simp: slot_ok_def)
qed

section \<open>Schedules\<close>

text \<open>A schedule names the steps to take; running it gives a state the step relation reaches.\<close>

datatype watch_move =
    Pass nat
  | Loop coverage tick_result
  | TimeOut
  | Post change_scope
  | Repost
  | ManualTick
  | ManualEnd tick_result

definition move :: "watch_config \<Rightarrow> watch_move \<Rightarrow> watch_system \<Rightarrow> watch_system option" where
  "move cf m s =
     (case m of
        Pass d \<Rightarrow> Some (s\<lparr>wl_now := wl_now s + d\<rparr>)
      | Loop cv res \<Rightarrow>
          (case wl_phase s of
             Heading \<Rightarrow> Some (loop_head cf cv s)
           | Parked _ \<Rightarrow> Some (look_around cf s)
           | Debouncing d \<Rightarrow> if window_closed d s then Some (close_window cf s) else None
           | Woken w \<Rightarrow> Some (handle_wake cf cv w s)
           | Claiming w r \<Rightarrow> Some (claim_slot w r s)
           | Running w r n \<Rightarrow> Some (finish_sweep w r n res s)
           | Settled w r owed n \<Rightarrow> Some (account cf w r owed s)
           | Returned \<Rightarrow> None)
      | TimeOut \<Rightarrow> (case wl_phase s of Parked d \<Rightarrow> if d \<le> wl_now s then Some (time_out s) else None | _ \<Rightarrow> None)
      | Post sc \<Rightarrow> Some (post_change (wl_now s) sc s)
      | Repost \<Rightarrow> (case wl_reposts s of [] \<Rightarrow> None
                  | (at, sc) # ys \<Rightarrow> Some (post_change at sc (s\<lparr>wl_reposts := ys\<rparr>)))
      | ManualTick \<Rightarrow> Some (manual_claim s)
      | ManualEnd res \<Rightarrow> if wl_manual s then Some (manual_finish res s) else None)"

fun schedule :: "watch_config \<Rightarrow> watch_move list \<Rightarrow> watch_system \<Rightarrow> watch_system option" where
  "schedule cf [] s = Some s"
| "schedule cf (m # ms) s = Option.bind (move cf m s) (schedule cf ms)"

lemma move_sound:
  assumes "move cf m s = Some s'"
  shows "watch_step cf s s'"
proof (cases m)
  case (Loop cv res)
  then show ?thesis
    using assms by (cases "wl_phase s") (auto simp: move_def split: if_splits dest: watch_step.head watch_step.look
        watch_step.window watch_step.body watch_step.claim watch_step.finish watch_step.settled)
next
  case TimeOut
  then show ?thesis
    using assms by (cases "wl_phase s") (auto simp: move_def split: if_splits dest: watch_step.timeout)
next
  case Repost
  then show ?thesis
    using assms watch_step.repost [of s "[]" _ _ _ cf]
    by (cases "wl_reposts s") (auto simp: move_def)
next
  case (ManualEnd res)
  then show ?thesis
    using assms by (auto simp: move_def split: if_splits dest: watch_step.manual_end)
qed (use assms in \<open>auto simp: move_def intro: watch_step.time watch_step.change watch_step.manual\<close>)

lemma watch_run_trans: "watch_run cf s' s'' \<Longrightarrow> watch_run cf s s' \<Longrightarrow> watch_run cf s s''"
  by (induction rule: watch_run.induct) (auto intro: watch_run.more)

lemma schedule_sound: "schedule cf ms s = Some s' \<Longrightarrow> watch_run cf s s'"
proof (induction ms arbitrary: s)
  case (Cons m ms)
  then obtain s1 where s1: "move cf m s = Some s1" "schedule cf ms s1 = Some s'"
    by (auto simp: bind_eq_Some_conv)
  have "watch_run cf s s1" using watch_run.more [OF watch_run.here move_sound [OF s1(1)]] .
  then show ?case using Cons.IH [OF s1(2)] watch_run_trans by blast
qed (simp add: watch_run.here)

text \<open>A change arrives while a manual sweep runs: it is deferred, posted again, turned away by the
  store's lock and retried.\<close>

definition demo_config :: watch_config where
  "demo_config = \<lparr>wc_debounce_ms = 100, wc_poll_interval_ms = 1000, wc_slow_poll_ms = 30000,
                   wc_leading_edge = False, wc_roots_refresh = False\<rparr>"

definition demo_coverage :: coverage where
  "demo_coverage = \<lparr>cv_watcher = False, cv_driver = Polling, cv_pending = False, cv_recovering = False\<rparr>"

definition demo_change :: change_scope where
  "demo_change = Roots {''a''} {}"

definition demo_outcome :: "bool \<Rightarrow> tick_result" where
  "demo_outcome contended =
     TickOk \<lparr>to_swept = \<not> contended, to_skipped_unchanged = False, to_contended = contended,
             to_changed_nothing = False\<rparr>"

definition loop_turns :: "nat \<Rightarrow> watch_move list" where
  "loop_turns n = replicate n (Loop demo_coverage (demo_outcome False))"

definition demo_owed :: "watch_move list" where
  "demo_owed = ManualTick # loop_turns 2 @ Pass 100 # loop_turns 4 @ ManualEnd (demo_outcome False) # Repost #
     loop_turns 2 @ Pass 100 # loop_turns 3 @ Loop demo_coverage (demo_outcome True) # loop_turns 2"

definition demo_paid :: "watch_move list" where
  "demo_paid = demo_owed @ Pass 250 # TimeOut # loop_turns 5"

lemmas demo_defs = demo_config_def demo_coverage_def demo_change_def demo_outcome_def loop_turns_def
  demo_owed_def demo_paid_def watch_start_def owed_default_def move_def

lemmas machine_defs = sweep_cadence_def refresh_cadence_def check_cadence_def bound_idle_def deadline_after_def
  bounded_ms_def MAX_INTERVAL_MS_def LEADING_EDGE_SETTLE_MS_def LOST_REGISTRATION_RECHECK_MS_def
  look_at_def debounce_window_def window_closed_def take_change_def reconcile_when_due_def backstop_starting_def
  fold_wake_def fold_into_def claim_or_defer_def release_def settle_def request_of_def forces_scan_def
  got_through_def turned_away_def paid_def CONTENDED_SWEEP_RETRY_MS_def CONTENDED_SWEEP_RETRY_MAX_MS_def
  signal_change_since_def wake_from_def widen_def

lemma replicate_numeral: "replicate (numeral k) x = x # replicate (pred_numeral k) x"
  by (simp add: numeral_eq_Suc)

definition demo_start :: watch_system where
  "demo_start = watch_start demo_config False 0"

lemma demo_started: "watch_run demo_config (watch_start demo_config False 0) demo_start" "wl_now demo_start = 0"
    "wl_serial demo_start = 0"
  by (simp_all add: demo_start_def watch_run.here watch_start_def enter_loop_def Let_def)

lemma demo_owed_reached:
  obtains s where "watch_run demo_config (post_change 0 demo_change demo_start) s"
    and "wl_phase s = Parked 450" and "wl_now s = 200" and "ow_retry (wl_owed s) = Some (450, Some 0)"
    and "wl_swept s = []" and "\<not> ws_stopped (wl_wake s)"
proof -
  have "\<exists>s. schedule demo_config demo_owed (post_change 0 demo_change demo_start) = Some s \<and>
      wl_phase s = Parked 450 \<and> wl_now s = 200 \<and> ow_retry (wl_owed s) = Some (450, Some 0) \<and>
      wl_swept s = [] \<and> \<not> ws_stopped (wl_wake s)"
    by (simp add: demo_start_def demo_defs watch_defs machine_defs replicate_numeral)
  then show thesis using schedule_sound that by blast
qed

lemma demo_paid_reached:
  obtains s where "watch_run demo_config (post_change 0 demo_change demo_start) s"
    and "quiet s" and "\<not> ws_stopped (wl_wake s)"
proof -
  have "\<exists>s. schedule demo_config demo_paid (post_change 0 demo_change demo_start) = Some s \<and>
      quiet s \<and> \<not> ws_stopped (wl_wake s)"
    by (simp add: demo_start_def demo_defs watch_defs machine_defs replicate_numeral quiet_def)
  then show thesis using schedule_sound that by blast
qed

lemma post_is_step: "watch_run cf (post_change (wl_now s) sc s) s' \<Longrightarrow> watch_run cf s s'"
  using watch_run_trans [OF _ watch_run.more [OF watch_run.here watch_step.change]] by blast

text \<open>Turned away once, the change of the schedule is carried and not swept yet.\<close>

theorem change_never_lost_witness:
  "\<exists>s. wl_phase s = Parked 450 \<and> wl_swept s = [] \<and> carried demo_change 0 0 s"
proof -
  obtain s where s: "watch_run demo_config (post_change 0 demo_change demo_start) s"
    "wl_phase s = Parked 450" "wl_swept s = []" "\<not> ws_stopped (wl_wake s)"
    using demo_owed_reached by metis
  have "ws_stopped (wl_wake s) \<or> swept_since demo_change (wl_serial demo_start) (wl_swept s) \<or>
      carried demo_change (wl_now demo_start) (wl_serial demo_start) s"
    by (rule change_never_lost [OF demo_started(1)]) (simp add: demo_started s)
  then show ?thesis using s by (auto simp: demo_started swept_since_def)
qed

theorem quiet_means_swept_witness:
  "\<exists>s. quiet s \<and> (\<exists>(n, sc) \<in> set (wl_swept s). 0 < n \<and> covers sc demo_change)"
proof -
  obtain s where s: "watch_run demo_config (post_change 0 demo_change demo_start) s" "quiet s"
    "\<not> ws_stopped (wl_wake s)"
    using demo_paid_reached by metis
  have "\<exists>(n, sc) \<in> set (wl_swept s). wl_serial demo_start < n \<and> covers sc demo_change"
    by (rule quiet_means_swept [OF demo_started(1) _ s(2,3)]) (simp add: demo_started s)
  then show ?thesis using s by (auto simp: demo_started)
qed

lemma demo_reached: "watch_run demo_config (post_change 0 demo_change demo_start) s \<Longrightarrow>
    watch_run demo_config (watch_start demo_config False 0) s"
  using post_is_step [of demo_config demo_start demo_change s] demo_started(2) by (simp add: demo_start_def)


lemma single_flight_witness:
  "\<exists>s :: watch_system. wl_manual s \<and> rs_in_flight (wl_run s) \<and> \<not> (\<exists>w r n. wl_phase s = Running w r n)"
proof -
  let ?s = "manual_claim demo_start"
  have run: "watch_run demo_config (watch_start demo_config False 0) ?s"
    using watch_run.more [OF demo_started(1) watch_step.manual] .
  have "wl_manual ?s" by (simp add: demo_start_def watch_start_def enter_loop_def manual_claim_def Let_def)
  moreover have "\<not> (\<exists>w r n. wl_phase ?s = Running w r n) \<and> rs_in_flight (wl_run ?s)"
    using calculation single_flight [OF run] by simp
  ultimately show ?thesis by metis
qed

end
