(* ===== verification/ChangeFeed.thy ===== *)
theory ChangeFeed
  imports Json Prelude
begin

text \<open>
  The change feed's schema (\<open>src/crates/ai-hist/src/change_feed.rs\<close>, \<open>change_feed/schema.rs\<close>,
  \<open>change_feed/export_schema.rs\<close>): the fed tables and what names a record in them, and the triggers
  that stamp every write with a revision and leave a tombstone for every record that went away. A
  table is the list of its rows, a statement on one row is an operation on the store with the triggers
  it fires; SQLite's own failures (I/O, locks) are outside. Revisions are natural numbers: the clock is
  an \<open>INTEGER\<close> that counts row writes.
\<close>

section \<open>Kinds and tables\<close>

datatype change_kind =
    KSession | KSessionEvent | KToolCall | KFileEdit | KSessionMarker | KRelationship | KHistory
  | KPresence | KCommitLink | KSourceObservation | KObservationEvidence

definition ALL_KINDS :: "change_kind list" where
  "ALL_KINDS = [KSession, KSessionEvent, KToolCall, KFileEdit, KSessionMarker, KRelationship, KHistory,
     KPresence, KCommitLink, KSourceObservation, KObservationEvidence]"

fun kind_str :: "change_kind \<Rightarrow> string" where
  "kind_str KSession = ''session''"
| "kind_str KSessionEvent = ''session_event''"
| "kind_str KToolCall = ''tool_call''"
| "kind_str KFileEdit = ''file_edit''"
| "kind_str KSessionMarker = ''session_marker''"
| "kind_str KRelationship = ''relationship''"
| "kind_str KHistory = ''history''"
| "kind_str KPresence = ''presence''"
| "kind_str KCommitLink = ''commit_link''"
| "kind_str KSourceObservation = ''source_observation''"
| "kind_str KObservationEvidence = ''observation_evidence''"

text \<open>\<open>ChangeKind::ALL\<close> is in the order of the derived \<open>Ord\<close>.\<close>

fun kind_rank :: "change_kind \<Rightarrow> nat" where
  "kind_rank KSession = 0"
| "kind_rank KSessionEvent = 1"
| "kind_rank KToolCall = 2"
| "kind_rank KFileEdit = 3"
| "kind_rank KSessionMarker = 4"
| "kind_rank KRelationship = 5"
| "kind_rank KHistory = 6"
| "kind_rank KPresence = 7"
| "kind_rank KCommitLink = 8"
| "kind_rank KSourceObservation = 9"
| "kind_rank KObservationEvidence = 10"

lemma kind_rank_inj [simp]: "kind_rank a = kind_rank b \<longleftrightarrow> a = b"
  by (cases a; cases b) simp_all

instantiation change_kind :: linorder
begin

definition less_eq_change_kind :: "change_kind \<Rightarrow> change_kind \<Rightarrow> bool" where
  "less_eq_change_kind a b \<longleftrightarrow> kind_rank a \<le> kind_rank b"

definition less_change_kind :: "change_kind \<Rightarrow> change_kind \<Rightarrow> bool" where
  "less_change_kind a b \<longleftrightarrow> kind_rank a < kind_rank b"

instance
  by standard (auto simp: less_eq_change_kind_def less_change_kind_def)

end

record fed_table =
  ft_name :: string
  ft_source :: string
  ft_session :: string
  ft_optional_session :: bool
  ft_key :: "string list"
  ft_record :: "string list"

definition plain_table :: "string \<Rightarrow> string \<Rightarrow> string list \<Rightarrow> string list \<Rightarrow> fed_table" where
  "plain_table name session key record =
     \<lparr>ft_name = name, ft_source = ''source'', ft_session = session, ft_optional_session = False,
      ft_key = key, ft_record = record\<rparr>"

fun table_of :: "change_kind \<Rightarrow> fed_table" where
  "table_of KSession = plain_table ''sessions'' ''session_id'' [''source'', ''session_id''] [''session_id'']"
| "table_of KSessionEvent = plain_table ''session_events'' ''session_id''
     [''source'', ''session_id'', ''event_uid''] [''event_uid'']"
| "table_of KToolCall = plain_table ''tool_calls'' ''session_id''
     [''source'', ''session_id'', ''tool_use_id''] [''tool_use_id'']"
| "table_of KFileEdit = plain_table ''file_edits'' ''session_id''
     [''source'', ''session_id'', ''tool_use_id''] [''tool_use_id'']"
| "table_of KSessionMarker = plain_table ''session_markers'' ''session_id''
     [''source'', ''session_id'', ''marker_uid''] [''marker_uid'']"
| "table_of KRelationship = plain_table ''session_relationships'' ''parent_session_id''
     [''source'', ''parent_session_id'', ''relationship_uid''] [''relationship_uid'']"
| "table_of KHistory = (plain_table ''history'' ''session_id''
     [''source'', ''timestamp_ms'', ''prompt''] [''timestamp_ms'', ''prompt''])\<lparr>ft_optional_session := True\<rparr>"
| "table_of KPresence = plain_table ''session_presences'' ''session_id''
     [''source'', ''session_id'', ''location''] [''location'']"
| "table_of KCommitLink = plain_table ''session_commit_links'' ''session_id''
     [''source'', ''session_id'', ''commit_sha'', ''match_method''] [''commit_sha'', ''match_method'']"
| "table_of KSourceObservation = plain_table ''session_observations'' ''session_id''
     [''source'', ''session_id'', ''location'', ''connector_id'', ''connector_instance'']
     [''location'', ''connector_id'', ''connector_instance'']"
| "table_of KObservationEvidence = plain_table ''observation_evidence'' ''session_id''
     [''source'', ''session_id'', ''location'', ''connector_id'', ''connector_instance'', ''evidence_uid'']
     [''location'', ''connector_id'', ''connector_instance'', ''evidence_uid'']"

declare table_of.simps [simp del]

section \<open>Cells and rows\<close>

datatype sql_value = SqlNull | SqlInteger int | SqlReal f64 | SqlText string | SqlBlob "8 word list"

type_synonym cells = "(string \<times> sql_value) list"

definition cell :: "cells \<Rightarrow> string \<Rightarrow> sql_value" where
  "cell row c = (case map_of row c of None \<Rightarrow> SqlNull | Some v \<Rightarrow> v)"

text \<open>\<open>stored_value\<close>. \<open>Value::from(f64)\<close> answers \<open>null\<close> for what JSON cannot write; text is valid UTF-8.\<close>

definition json_int :: "int \<Rightarrow> json" where
  "json_int i = JNumber (if 0 \<le> i then PosInt (word_of_int i) else NegInt i)"

fun stored_value :: "sql_value \<Rightarrow> json" where
  "stored_value SqlNull = JNull"
| "stored_value (SqlInteger i) = json_int i"
| "stored_value (SqlReal r) = (if f64_is_finite r then JNumber (Float r) else JNull)"
| "stored_value (SqlText t) = JString t"
| "stored_value (SqlBlob b) = JArray (map (\<lambda>w. json_int (uint w)) b)"

text \<open>Reading a cell as a \<open>String\<close> fails when it is not text.\<close>

definition get_text :: "sql_value \<Rightarrow> string option" where
  "get_text v = (case v of SqlText t \<Rightarrow> Some t | _ \<Rightarrow> None)"

text \<open>The columns that are the database's own bookkeeping, and those a stored row carries.\<close>

definition LOCAL_COLUMNS :: "(string \<times> string) list" where
  "LOCAL_COLUMNS = [(''session_events'', ''raw_facts_version'')]"

definition local_column :: "string \<Rightarrow> string \<Rightarrow> bool" where
  "local_column table column \<longleftrightarrow> (table, column) \<in> set LOCAL_COLUMNS"

definition REVISION_COLUMN :: string where
  "REVISION_COLUMN = ''revision''"

definition table_columns :: "string list \<Rightarrow> string list" where
  "table_columns live = filter (\<lambda>c. c \<noteq> REVISION_COLUMN) live"

definition stored_columns :: "string \<Rightarrow> string list \<Rightarrow> string list" where
  "stored_columns table live = filter (\<lambda>c. \<not> local_column table c) (table_columns live)"

type_synonym stored_row = "(string \<times> json) list"

definition stored_row_of :: "string list \<Rightarrow> cells \<Rightarrow> stored_row" where
  "stored_row_of stored row = map (\<lambda>c. (c, stored_value (cell row c))) stored"

section \<open>What names a record\<close>

text \<open>SQLite's \<open>json_array\<close> and \<open>serde_json::from_str\<close>.\<close>

record feed_lib =
  fl_json_array :: "sql_value list \<Rightarrow> string"
  fl_from_str :: "string \<Rightarrow> json option"

definition source_sql :: "fed_table \<Rightarrow> cells \<Rightarrow> sql_value" where
  "source_sql t row =
     (if take 1 (ft_source t) = [CHR 0x27] then SqlText (butlast (tl (ft_source t)))
      else cell row (ft_source t))"

definition session_sql :: "fed_table \<Rightarrow> cells \<Rightarrow> sql_value" where
  "session_sql t row =
     (if ft_optional_session t \<and> cell row (ft_session t) = SqlNull then SqlText ''''
      else cell row (ft_session t))"

definition session_keyed :: "fed_table \<Rightarrow> bool" where
  "session_keyed t \<longleftrightarrow> ft_session t \<in> set (ft_key t)"

definition tombstone_session_sql :: "fed_table \<Rightarrow> cells \<Rightarrow> sql_value" where
  "tombstone_session_sql t row = (if session_keyed t then cell row (ft_session t) else SqlText '''')"

definition record_key_sql :: "feed_lib \<Rightarrow> fed_table \<Rightarrow> cells \<Rightarrow> sql_value" where
  "record_key_sql lib t row =
     (case ft_record t of
        [column] \<Rightarrow> cell row column
      | columns \<Rightarrow> SqlText (fl_json_array lib (map (cell row) columns)))"

definition identity_changed :: "feed_lib \<Rightarrow> fed_table \<Rightarrow> cells \<Rightarrow> cells \<Rightarrow> bool" where
  "identity_changed lib t old new \<longleftrightarrow>
     (take 1 (ft_source t) \<noteq> [CHR 0x27] \<and> cell old (ft_source t) \<noteq> cell new (ft_source t)) \<or>
     (session_keyed t \<and> cell old (ft_session t) \<noteq> cell new (ft_session t)) \<or>
     record_key_sql lib t old \<noteq> record_key_sql lib t new"

text \<open>\<open>Change::key\<close>, from a stored row and from the identity a tombstone keeps. A record key that does
  not read back as an array is the query's error.\<close>

definition row_get :: "stored_row \<Rightarrow> string \<Rightarrow> json" where
  "row_get row c = (case map_of row c of None \<Rightarrow> JNull | Some v \<Rightarrow> v)"

definition key_from_row :: "change_kind \<Rightarrow> stored_row \<Rightarrow> json list" where
  "key_from_row k row = JString (kind_str k) # map (row_get row) (ft_key (table_of k))"

fun position_of :: "'a \<Rightarrow> 'a list \<Rightarrow> nat option" where
  "position_of x [] = None"
| "position_of x (y # ys) = (if x = y then Some 0 else map_option Suc (position_of x ys))"

definition get_or_null :: "json list \<Rightarrow> nat \<Rightarrow> json" where
  "get_or_null vs i = (if i < length vs then vs ! i else JNull)"

definition key_from_identity :: "feed_lib \<Rightarrow> change_kind \<Rightarrow> string \<Rightarrow> string \<Rightarrow> string \<Rightarrow> json list option" where
  "key_from_identity lib k source session record_key =
     (let t = table_of k;
          parts = (case ft_record t of
                     [_] \<Rightarrow> Some [JString record_key]
                   | _ \<Rightarrow> (case fl_from_str lib record_key of Some (JArray vs) \<Rightarrow> Some vs | _ \<Rightarrow> None))
      in map_option (\<lambda>vs. JString (kind_str k) # map (\<lambda>c.
             case position_of c (ft_record t) of
               Some i \<Rightarrow> get_or_null vs i
             | None \<Rightarrow> if c = ft_source t then JString source else JString session) (ft_key t)) parts)"

end
