(* ===== verification/FeedStore.thy ===== *)
theory FeedStore
  imports ChangeFeed
begin

text \<open>
  The fed store and its writes (\<open>change_feed/schema.rs\<close>, \<open>change_feed/export_schema.rs\<close>): each
  statement on a fed row followed by the triggers it fires, the backfill of a table the feed meets for
  the first time, and the restamp after a change of the exported columns. The two triggers a presence
  row fires run in an order SQLite does not promise; it is an argument.
\<close>

record fed_row =
  fr_rowid :: nat
  fr_cells :: cells
  fr_revision :: nat

record tombstone =
  tb_kind :: string
  tb_source :: sql_value
  tb_session :: sql_value
  tb_record :: sql_value
  tb_revision :: nat

record feed_store =
  fd_tables :: "change_kind \<Rightarrow> fed_row list"
  fd_columns :: "change_kind \<Rightarrow> string list"
  fd_tombstones :: "tombstone list"
  fd_clock :: nat
  fd_epoch :: "64 word"
  fd_cursors :: "(string \<times> (nat \<times> string)) list"
  fd_epochs :: "(64 word \<times> (64 word \<times> nat)) list"
  fd_current :: bool

definition stored_columns_of :: "feed_store \<Rightarrow> change_kind \<Rightarrow> string list" where
  "stored_columns_of s k = stored_columns (ft_name (table_of k)) (fd_columns s k)"

definition set_table :: "change_kind \<Rightarrow> fed_row list \<Rightarrow> feed_store \<Rightarrow> feed_store" where
  "set_table k rows s = s\<lparr>fd_tables := (fd_tables s)(k := rows)\<rparr>"

section \<open>What the triggers do\<close>

definition bump_clock :: "feed_store \<Rightarrow> feed_store" where
  "bump_clock s = s\<lparr>fd_clock := fd_clock s + 1\<rparr>"

text \<open>Every row the predicate picks is stamped with the clock as it stands.\<close>

definition stamp_where :: "(fed_row \<Rightarrow> bool) \<Rightarrow> nat \<Rightarrow> fed_row list \<Rightarrow> fed_row list" where
  "stamp_where P version rows = map (\<lambda>r. if P r then r\<lparr>fr_revision := version\<rparr> else r) rows"

definition set_revision :: "change_kind \<Rightarrow> nat \<Rightarrow> feed_store \<Rightarrow> feed_store" where
  "set_revision k rowid s =
     set_table k (stamp_where (\<lambda>r. fr_rowid r = rowid) (fd_clock s) (fd_tables s k)) s"

definition names :: "feed_lib \<Rightarrow> change_kind \<Rightarrow> cells \<Rightarrow> tombstone \<Rightarrow> bool" where
  "names lib k row t \<longleftrightarrow> tb_kind t = kind_str k \<and> tb_source t = source_sql (table_of k) row \<and>
     tb_session t = tombstone_session_sql (table_of k) row \<and> tb_record t = record_key_sql lib (table_of k) row"

definition clear_tombstone :: "feed_lib \<Rightarrow> change_kind \<Rightarrow> cells \<Rightarrow> feed_store \<Rightarrow> feed_store" where
  "clear_tombstone lib k row s =
     s\<lparr>fd_tombstones := filter (\<lambda>t. \<not> names lib k row t) (fd_tombstones s)\<rparr>"

definition put_tombstone :: "feed_lib \<Rightarrow> change_kind \<Rightarrow> cells \<Rightarrow> feed_store \<Rightarrow> feed_store" where
  "put_tombstone lib k row s =
     s\<lparr>fd_tombstones := filter (\<lambda>t. \<not> names lib k row t) (fd_tombstones s) @
         [\<lparr>tb_kind = kind_str k, tb_source = source_sql (table_of k) row,
           tb_session = tombstone_session_sql (table_of k) row,
           tb_record = record_key_sql lib (table_of k) row, tb_revision = fd_clock s\<rparr>]\<rparr>"

definition insert_trigger :: "feed_lib \<Rightarrow> change_kind \<Rightarrow> nat \<Rightarrow> cells \<Rightarrow> feed_store \<Rightarrow> feed_store" where
  "insert_trigger lib k rowid row s = clear_tombstone lib k row (set_revision k rowid (bump_clock s))"

text \<open>The guard of the update trigger: the write left the revision alone and changed a carried column.\<close>

definition update_guard :: "string list \<Rightarrow> cells \<Rightarrow> cells \<Rightarrow> bool" where
  "update_guard columns old new \<longleftrightarrow> list_ex (\<lambda>c. cell new c \<noteq> cell old c) columns"

definition update_trigger :: "feed_lib \<Rightarrow> change_kind \<Rightarrow> nat \<Rightarrow> cells \<Rightarrow> cells \<Rightarrow> feed_store \<Rightarrow> feed_store" where
  "update_trigger lib k rowid old new s =
     (if update_guard (stored_columns_of s k) old new then
        (let s = (if identity_changed lib (table_of k) old new
                  then put_tombstone lib k old (bump_clock s) else s)
         in clear_tombstone lib k new (set_revision k rowid (bump_clock s)))
      else s)"

definition delete_trigger :: "feed_lib \<Rightarrow> change_kind \<Rightarrow> cells \<Rightarrow> feed_store \<Rightarrow> feed_store" where
  "delete_trigger lib k row s = put_tombstone lib k row (bump_clock s)"

text \<open>The triggers on presences re-report the session row they belong to.\<close>

definition stamp_session :: "sql_value \<Rightarrow> sql_value \<Rightarrow> feed_store \<Rightarrow> feed_store" where
  "stamp_session source session s =
     (let s = bump_clock s
      in set_table KSession
           (stamp_where (\<lambda>r. cell (fr_cells r) ''source'' = source \<and> cell (fr_cells r) ''session_id'' = session)
              (fd_clock s) (fd_tables s KSession)) s)"

definition presence_moved :: "cells \<Rightarrow> cells \<Rightarrow> bool" where
  "presence_moved old new \<longleftrightarrow> cell old ''source'' \<noteq> cell new ''source'' \<or>
     cell old ''session_id'' \<noteq> cell new ''session_id'' \<or> cell old ''location'' \<noteq> cell new ''location''"

definition stamp_row :: "cells \<Rightarrow> feed_store \<Rightarrow> feed_store" where
  "stamp_row row s = stamp_session (cell row ''source'') (cell row ''session_id'') s"

definition presence_update :: "cells \<Rightarrow> cells \<Rightarrow> feed_store \<Rightarrow> feed_store" where
  "presence_update old new s =
     (if presence_moved old new then
        (let s = stamp_row new s
         in if cell old ''source'' \<noteq> cell new ''source'' \<or> cell old ''session_id'' \<noteq> cell new ''session_id''
            then stamp_row old s else s)
      else s)"

definition both_triggers ::
  "bool \<Rightarrow> change_kind \<Rightarrow> (feed_store \<Rightarrow> feed_store) \<Rightarrow> (feed_store \<Rightarrow> feed_store) \<Rightarrow> feed_store \<Rightarrow> feed_store" where
  "both_triggers presence_first k presence own s =
     (if k = KPresence then (if presence_first then own (presence s) else presence (own s)) else own s)"

section \<open>Statements\<close>

text \<open>The constraints of the tables: the columns of a key are \<open>NOT NULL\<close>, text except the time of a
  prompt, a session is text where there is one, and a key names one row.\<close>

definition i64_value :: "int \<Rightarrow> bool" where
  "i64_value i \<longleftrightarrow> - (2 ^ 63) \<le> i \<and> i < 2 ^ 63"

definition key_cell_ok :: "string \<Rightarrow> sql_value \<Rightarrow> bool" where
  "key_cell_ok c v =
     (if c = ''timestamp_ms'' then (case v of SqlInteger i \<Rightarrow> i64_value i | _ \<Rightarrow> False)
      else (case v of SqlText _ \<Rightarrow> True | _ \<Rightarrow> False))"

definition row_ok :: "change_kind \<Rightarrow> cells \<Rightarrow> bool" where
  "row_ok k row \<longleftrightarrow> list_all (\<lambda>c. key_cell_ok c (cell row c)) (ft_key (table_of k)) \<and>
     (case cell row (ft_session (table_of k)) of
        SqlText _ \<Rightarrow> True | SqlNull \<Rightarrow> ft_optional_session (table_of k) | _ \<Rightarrow> False)"

definition key_cells :: "change_kind \<Rightarrow> cells \<Rightarrow> sql_value list" where
  "key_cells k row = map (cell row) (ft_key (table_of k))"

definition key_free :: "change_kind \<Rightarrow> cells \<Rightarrow> fed_row list \<Rightarrow> bool" where
  "key_free k row rows \<longleftrightarrow> list_all (\<lambda>r. key_cells k (fr_cells r) \<noteq> key_cells k row) rows"

definition insert_row :: "feed_lib \<Rightarrow> bool \<Rightarrow> change_kind \<Rightarrow> nat \<Rightarrow> cells \<Rightarrow> feed_store \<Rightarrow> feed_store option" where
  "insert_row lib presence_first k rowid row s =
     (if row_ok k row \<and> key_free k row (fd_tables s k) \<and> rowid \<notin> fr_rowid ` set (fd_tables s k)
      then Some (both_triggers presence_first k (stamp_row row) (insert_trigger lib k rowid row)
             (set_table k (fd_tables s k @ [\<lparr>fr_rowid = rowid, fr_cells = row, fr_revision = 0\<rparr>]) s))
      else None)"

definition find_row :: "nat \<Rightarrow> fed_row list \<Rightarrow> fed_row option" where
  "find_row rowid rows = find (\<lambda>r. fr_rowid r = rowid) rows"

definition update_row :: "feed_lib \<Rightarrow> bool \<Rightarrow> change_kind \<Rightarrow> nat \<Rightarrow> cells \<Rightarrow> feed_store \<Rightarrow> feed_store option" where
  "update_row lib presence_first k rowid row s =
     (case find_row rowid (fd_tables s k) of
        None \<Rightarrow> Some s
      | Some old \<Rightarrow>
          if row_ok k row \<and> key_free k row (filter (\<lambda>r. fr_rowid r \<noteq> rowid) (fd_tables s k))
          then Some (both_triggers presence_first k (presence_update (fr_cells old) row)
                 (update_trigger lib k rowid (fr_cells old) row)
                 (set_table k (map (\<lambda>r. if fr_rowid r = rowid then r\<lparr>fr_cells := row\<rparr> else r) (fd_tables s k)) s))
          else None)"

definition delete_row :: "feed_lib \<Rightarrow> bool \<Rightarrow> change_kind \<Rightarrow> nat \<Rightarrow> feed_store \<Rightarrow> feed_store option" where
  "delete_row lib presence_first k rowid s =
     (case find_row rowid (fd_tables s k) of
        None \<Rightarrow> Some s
      | Some old \<Rightarrow>
          Some (both_triggers presence_first k (stamp_row (fr_cells old)) (delete_trigger lib k (fr_cells old))
            (set_table k (filter (\<lambda>r. fr_rowid r \<noteq> rowid) (fd_tables s k)) s)))"

section \<open>Backfill and restamp\<close>

text \<open>\<open>feed_table\<close> on rows no trigger has stamped, and \<open>init_schema\<close> over every kind.\<close>

definition backfill :: "change_kind \<Rightarrow> feed_store \<Rightarrow> feed_store" where
  "backfill k s =
     (let rows = map (\<lambda>r. if fr_revision r = 0 then r\<lparr>fr_revision := fr_rowid r + fd_clock s\<rparr> else r) (fd_tables s k)
      in (set_table k rows s)\<lparr>fd_clock := max (fd_clock s) (fold max (map fr_revision rows) 0)\<rparr>)"

definition backfill_all :: "feed_store \<Rightarrow> feed_store" where
  "backfill_all s = fold backfill ALL_KINDS s"

datatype restamp_scope = Every | Valued "string list"

definition in_scope :: "restamp_scope \<Rightarrow> cells \<Rightarrow> bool" where
  "in_scope scope row =
     (case scope of Every \<Rightarrow> True | Valued columns \<Rightarrow> list_ex (\<lambda>c. cell row c \<noteq> SqlNull) columns)"

definition CLOCK_MAX :: nat where
  "CLOCK_MAX = 2 ^ 63 - 1"

text \<open>The staged ordinals: \<open>ROW_NUMBER()\<close> over the rows in scope, by rowid. An overflow of the clock is
  an error before anything is stamped.\<close>

definition ordinals :: "restamp_scope \<Rightarrow> fed_row list \<Rightarrow> (nat \<times> nat) list" where
  "ordinals scope rows =
     (let staged = sort (map fr_rowid (filter (\<lambda>r. in_scope scope (fr_cells r)) rows))
      in zip staged [1..<length staged + 1])"

definition restamp_exported_rows :: "change_kind \<Rightarrow> restamp_scope \<Rightarrow> feed_store \<Rightarrow> feed_store option" where
  "restamp_exported_rows k scope s =
     (let staged = ordinals scope (fd_tables s k); base = fd_clock s; count = length staged
      in if count = 0 then Some s
         else if CLOCK_MAX < base + count then None
         else Some ((set_table k (map (\<lambda>r. case map_of staged (fr_rowid r) of
                       Some ordinal \<Rightarrow> r\<lparr>fr_revision := base + ordinal\<rparr> | None \<Rightarrow> r) (fd_tables s k)) s)
                    \<lparr>fd_clock := base + count\<rparr>))"

section \<open>Sequences of writes\<close>

text \<open>Other users of the clock only move it forward.\<close>

datatype feed_write =
    Insert bool change_kind nat cells
  | Update bool change_kind nat cells
  | Remove bool change_kind nat
  | Restamp change_kind restamp_scope
  | Tick

definition apply_write :: "feed_lib \<Rightarrow> feed_write \<Rightarrow> feed_store \<Rightarrow> feed_store option" where
  "apply_write lib w s =
     (case w of
        Insert first k rowid row \<Rightarrow> insert_row lib first k rowid row s
      | Update first k rowid row \<Rightarrow> update_row lib first k rowid row s
      | Remove first k rowid \<Rightarrow> delete_row lib first k rowid s
      | Restamp k scope \<Rightarrow> restamp_exported_rows k scope s
      | Tick \<Rightarrow> Some (bump_clock s))"

text \<open>A statement that fails changes nothing.\<close>

definition try_write :: "feed_lib \<Rightarrow> feed_write \<Rightarrow> feed_store \<Rightarrow> feed_store" where
  "try_write lib w s = (case apply_write lib w s of Some s' \<Rightarrow> s' | None \<Rightarrow> s)"

definition write_all :: "feed_lib \<Rightarrow> feed_write list \<Rightarrow> feed_store \<Rightarrow> feed_store" where
  "write_all lib ws s = fold (try_write lib) ws s"

end
