(* ===== verification/FeedFacts.thy ===== *)
theory FeedFacts
  imports FeedStore
begin

text \<open>
  What the triggers promise: revisions are unique and drawn from the clock, a record is live or
  tombstoned but never both, an upsert and a delete of one record carry the same key, and a write that
  changes nothing a consumer can see is not reported.
\<close>

section \<open>Keys\<close>

definition plain :: "sql_value \<Rightarrow> bool" where
  "plain v \<longleftrightarrow> (case v of SqlText _ \<Rightarrow> True | SqlInteger i \<Rightarrow> i64_value i | _ \<Rightarrow> False)"

text \<open>\<open>json_array\<close> writes text and integers so that \<open>serde_json\<close> reads the same values back.\<close>

definition lib_documented :: "feed_lib \<Rightarrow> bool" where
  "lib_documented lib \<longleftrightarrow>
     (\<forall>vs. list_all plain vs \<longrightarrow>
        fl_from_str lib (fl_json_array lib vs) = Some (JArray (map stored_value vs)))"

lemma key_cell_plain: "key_cell_ok c v \<Longrightarrow> plain v"
  by (auto simp: key_cell_ok_def plain_def split: if_splits sql_value.splits)

lemma word_of_i64:
  assumes "i64_value i" "0 \<le> i"
  shows "uint (word_of_int i :: 64 word) = i"
proof -
  have "i mod 2 ^ 64 = i" using assms by (intro mod_pos_pos_trivial) (auto simp: i64_value_def)
  then show ?thesis by (simp add: uint_word_of_int)
qed

lemma json_int_inj: "i64_value i \<Longrightarrow> i64_value j \<Longrightarrow> json_int i = json_int j \<longleftrightarrow> i = j"
proof -
  assume i: "i64_value i" and j: "i64_value j"
  have "i = j" if "0 \<le> i" "0 \<le> j" "word_of_int i = (word_of_int j :: 64 word)"
    using word_of_i64 [OF i that(1)] word_of_i64 [OF j that(2)] that(3) by argo
  then show ?thesis unfolding json_int_def by auto
qed

lemma json_int_JNumber [simp]:
  "json_int i \<noteq> JString t" "JString t \<noteq> json_int i" "json_int i \<noteq> JNull" "JNull \<noteq> json_int i"
  by (simp_all add: json_int_def)

lemma stored_value_inj: "plain v \<Longrightarrow> plain w \<Longrightarrow> stored_value v = stored_value w \<longleftrightarrow> v = w"
  by (cases v; cases w) (auto simp: plain_def json_int_inj)

lemma map_stored_value_inj:
  "list_all plain vs \<Longrightarrow> list_all plain ws \<Longrightarrow> map stored_value vs = map stored_value ws \<longleftrightarrow> vs = ws"
proof (induction vs arbitrary: ws)
  case (Cons v vs)
  then show ?case by (cases ws) (auto simp: stored_value_inj)
qed auto

lemma json_array_inj:
  assumes "lib_documented lib" "list_all plain vs" "list_all plain ws"
  shows "fl_json_array lib vs = fl_json_array lib ws \<longleftrightarrow> vs = ws"
  using assms map_stored_value_inj unfolding lib_documented_def by (metis json.inject(4) option.inject)

definition row_key :: "change_kind \<Rightarrow> cells \<Rightarrow> json list" where
  "row_key k row = JString (kind_str k) # map stored_value (key_cells k row)"

lemma kind_str_inj [simp]: "kind_str a = kind_str b \<longleftrightarrow> a = b"
  by (cases a; cases b) simp_all

lemma row_key_inj:
  assumes "row_ok k row" "row_ok k' row'"
  shows "row_key k row = row_key k' row' \<longleftrightarrow> k = k' \<and> key_cells k row = key_cells k' row'"
proof -
  have "list_all plain (key_cells k row)" if "row_ok k row" for k row
    using that by (auto simp: row_ok_def key_cells_def list_all_iff intro: key_cell_plain)
  then show ?thesis using assms map_stored_value_inj by (auto simp: row_key_def)
qed

lemma get_text_simps [simp]:
  "get_text (SqlText t) = Some t"
  "get_text v = Some t \<longleftrightarrow> v = SqlText t"
  by (auto simp: get_text_def split: sql_value.splits)

text \<open>The key of a tombstone, as the tombstone read computes it.\<close>

definition tomb_key :: "feed_lib \<Rightarrow> change_kind \<Rightarrow> tombstone \<Rightarrow> json list option" where
  "tomb_key lib k t =
     (case (get_text (tb_source t), get_text (tb_session t), get_text (tb_record t)) of
        (Some source, Some session, Some record_key) \<Rightarrow> key_from_identity lib k source session record_key
      | _ \<Rightarrow> None)"

lemma table_source [simp]: "ft_source (table_of k) = ''source''"
  by (cases k) (simp_all add: table_of.simps plain_table_def)

lemma source_sql_simp [simp]: "source_sql (table_of k) row = cell row ''source''"
  by (simp add: source_sql_def)

definition lead :: "change_kind \<Rightarrow> string list" where
  "lead k = ''source'' # (if k = KSession \<or> k = KHistory then [] else [ft_session (table_of k)])"

lemma table_key: "ft_key (table_of k) = lead k @ ft_record (table_of k)"
  by (cases k) (simp_all add: table_of.simps plain_table_def lead_def)

lemma table_record:
  "distinct (ft_record (table_of k))" "ft_record (table_of k) \<noteq> []"
  "''source'' \<notin> set (ft_record (table_of k))" "''timestamp_ms'' \<notin> set (lead k)"
  "c \<in> set (lead k) \<Longrightarrow> c \<notin> set (ft_record (table_of k))"
  "length (ft_record (table_of k)) = 1 \<Longrightarrow> ''timestamp_ms'' \<notin> set (ft_record (table_of k))"
  "ft_session (table_of k) \<noteq> ''source''"
  by (cases k; auto simp: table_of.simps plain_table_def lead_def)+

lemma table_keyed: "session_keyed (table_of k) \<longleftrightarrow> k \<noteq> KHistory"
  by (cases k) (simp_all add: table_of.simps plain_table_def session_keyed_def)

lemma session_record: "ft_record (table_of KSession) = [ft_session (table_of KSession)]"
  by (simp add: table_of.simps plain_table_def)

lemma key_cell_text: "c \<noteq> ''timestamp_ms'' \<Longrightarrow> key_cell_ok c v \<Longrightarrow> \<exists>t. v = SqlText t"
  unfolding key_cell_ok_def by (cases v) simp_all

lemma row_ok_lead:
  assumes "row_ok k row" "c \<in> set (lead k)"
  shows "\<exists>t. cell row c = SqlText t"
proof -
  have "c \<noteq> ''timestamp_ms''" using assms(2) table_record(4) [of k] by metis
  moreover have "key_cell_ok c (cell row c)"
    using assms by (simp add: row_ok_def table_key list_all_iff)
  ultimately show ?thesis using key_cell_text by simp
qed

lemma row_ok_record:
  assumes "row_ok k row"
  shows "list_all plain (map (cell row) (ft_record (table_of k)))"
    and "ft_record (table_of k) = [c] \<Longrightarrow> \<exists>t. cell row c = SqlText t"
proof -
  have ok: "key_cell_ok c (cell row c)" if "c \<in> set (ft_record (table_of k))" for c
    using assms that by (simp add: row_ok_def table_key list_all_iff)
  then show "list_all plain (map (cell row) (ft_record (table_of k)))"
    by (auto simp: list_all_iff intro: key_cell_plain)
  show "\<exists>t. cell row c = SqlText t" if c: "ft_record (table_of k) = [c]"
  proof -
    have "c \<noteq> ''timestamp_ms''" using table_record(6) [of k] c by auto
    then show ?thesis using key_cell_text ok c by simp
  qed
qed

text \<open>What a record key says: the cells of the record columns.\<close>

lemma record_key_inj:
  assumes "lib_documented lib" and "row_ok k row" "row_ok k row'"
  shows "record_key_sql lib (table_of k) row = record_key_sql lib (table_of k) row' \<longleftrightarrow>
    map (cell row) (ft_record (table_of k)) = map (cell row') (ft_record (table_of k))"
  using json_array_inj [OF assms(1) row_ok_record(1) [OF assms(2)] row_ok_record(1) [OF assms(3)]]
    table_record(2) [of k]
  by (auto simp: record_key_sql_def split: list.splits)

lemma lead_cells:
  "map (cell row) (lead k) = map (cell row') (lead k) \<longleftrightarrow> cell row ''source'' = cell row' ''source'' \<and>
     (k = KSession \<or> k = KHistory \<or> cell row (ft_session (table_of k)) = cell row' (ft_session (table_of k)))"
  by (auto simp: lead_def)

lemma key_cells_iff:
  assumes "lib_documented lib" and "row_ok k row" "row_ok k row'"
  shows "key_cells k row = key_cells k row' \<longleftrightarrow> cell row ''source'' = cell row' ''source'' \<and>
    (session_keyed (table_of k) \<longrightarrow> cell row (ft_session (table_of k)) = cell row' (ft_session (table_of k))) \<and>
    record_key_sql lib (table_of k) row = record_key_sql lib (table_of k) row'"
proof (cases "k = KSession")
  case True
  then show ?thesis
    using record_key_inj [OF assms] lead_cells [of row k row'] session_record table_keyed [of k]
    by (auto simp: key_cells_def table_key)
next
  case False
  then show ?thesis
    using record_key_inj [OF assms] lead_cells [of row k row'] table_keyed [of k]
    by (auto simp: key_cells_def table_key lead_def)
qed

lemma identity_changed_iff:
  assumes "lib_documented lib" and "row_ok k old" "row_ok k new"
  shows "identity_changed lib (table_of k) old new \<longleftrightarrow> key_cells k old \<noteq> key_cells k new"
  unfolding identity_changed_def key_cells_iff [OF assms] by simp

lemma names_iff:
  assumes "lib_documented lib" and "row_ok k row" "row_ok k row'" and "names lib k row' t"
  shows "names lib k row t \<longleftrightarrow> key_cells k row = key_cells k row'"
  using assms(4) unfolding key_cells_iff [OF assms(1-3)]
  by (auto simp: names_def tombstone_session_sql_def)

lemma position_of_None: "position_of x xs = None \<longleftrightarrow> x \<notin> set xs"
  by (induction xs) auto

lemma map_positions:
  assumes "distinct cs" and "length vs = length cs"
  shows "map (\<lambda>c. case position_of c cs of Some i \<Rightarrow> get_or_null vs i | None \<Rightarrow> f c) cs = vs"
  using assms
proof (induction cs arbitrary: vs)
  case (Cons c cs)
  then obtain v ws where vs: "vs = v # ws" by (cases vs) auto
  have "(case position_of c' (c # cs) of Some i \<Rightarrow> get_or_null vs i | None \<Rightarrow> f c') =
      (case position_of c' cs of Some i \<Rightarrow> get_or_null ws i | None \<Rightarrow> f c')" if "c' \<in> set cs" for c'
    using that Cons.prems(1) position_of_None [of c' cs] by (auto simp: vs get_or_null_def)
  then show ?case using Cons by (simp add: vs get_or_null_def cong: map_cong)
qed simp

lemma names_key:
  assumes doc: "lib_documented lib" and ok: "row_ok k row" and n: "names lib k row t"
  shows "tomb_key lib k t = Some (row_key k row)"
proof -
  let ?rec = "ft_record (table_of k)" and ?t = "table_of k"
  obtain src where src: "cell row ''source'' = SqlText src"
    using row_ok_lead [OF ok, of "''source''"] by (auto simp: lead_def)
  obtain sess where sess: "tombstone_session_sql ?t row = SqlText sess"
    "\<And>c. c \<in> set (lead k) \<Longrightarrow> c \<noteq> ''source'' \<Longrightarrow> cell row c = SqlText sess"
    using row_ok_lead [OF ok, of "ft_session ?t"] row_ok_record(2) [OF ok] session_record
    by (cases "k = KHistory"; cases "k = KSession") (auto simp: tombstone_session_sql_def table_keyed lead_def)
  obtain rk vs where rk: "record_key_sql lib ?t row = SqlText rk"
    and vs: "(case ?rec of [_] \<Rightarrow> Some [JString rk]
       | _ \<Rightarrow> (case fl_from_str lib rk of Some (JArray vs) \<Rightarrow> Some vs | _ \<Rightarrow> None)) = Some vs"
    and map_vs: "vs = map (\<lambda>c. stored_value (cell row c)) ?rec"
  proof (cases "length ?rec = 1")
    case True
    then obtain c where c: "?rec = [c]" by (cases ?rec) auto
    then show ?thesis using row_ok_record(2) [OF ok c] that by (auto simp: record_key_sql_def)
  next
    case False
    let ?rk = "fl_json_array lib (map (cell row) ?rec)"
    have "fl_from_str lib ?rk = Some (JArray (map stored_value (map (cell row) ?rec)))"
      using doc row_ok_record(1) [OF ok] unfolding lib_documented_def by blast
    then show ?thesis
      using False by (intro that [of ?rk]) (auto simp: record_key_sql_def split: list.splits)
  qed
  let ?f = "\<lambda>c. case position_of c ?rec of Some i \<Rightarrow> get_or_null vs i
      | None \<Rightarrow> if c = ''source'' then JString src else JString sess"
  have lead: "map ?f (lead k) = map (\<lambda>c. stored_value (cell row c)) (lead k)"
    using sess(2) src table_record(5) [of _ k]
    by (intro map_cong HOL.refl) (auto simp: position_of_None [THEN iffD2])
  have "map ?f ?rec = map (\<lambda>c. stored_value (cell row c)) ?rec"
    using map_positions [OF table_record(1), of vs k "\<lambda>c. if c = ''source'' then JString src else JString sess"]
    unfolding map_vs by simp
  then have "map ?f (ft_key ?t) = map stored_value (key_cells k row)"
    using lead by (simp add: table_key key_cells_def)
  then show ?thesis
    using n src sess(1) rk vs
    unfolding tomb_key_def key_from_identity_def table_source Let_def
    by (simp add: names_def row_key_def)
qed

end
