(* ===== verification/FeedInvariant.thy ===== *)
theory FeedInvariant
  imports FeedFacts
begin

text \<open>
  The invariant of the fed store and that every write keeps it. A revision belongs to one slot: a row
  (by kind and rowid) or a tombstone (by the identity it names). While the triggers of one statement
  run, the row the statement wrote is excepted, and so is the key of a row that went away; the last
  trigger brings both back in order.
\<close>

type_synonym slot = "change_kind \<times> nat + string \<times> sql_value \<times> sql_value \<times> sql_value"

definition tb_pk :: "tombstone \<Rightarrow> string \<times> sql_value \<times> sql_value \<times> sql_value" where
  "tb_pk t = (tb_kind t, tb_source t, tb_session t, tb_record t)"

fun slot :: "feed_store \<Rightarrow> slot \<Rightarrow> nat \<Rightarrow> bool" where
  "slot m (Inl (k, i)) n \<longleftrightarrow> (\<exists>r \<in> set (fd_tables m k). fr_rowid r = i \<and> fr_revision r = n)"
| "slot m (Inr pk) n \<longleftrightarrow> (\<exists>t \<in> set (fd_tombstones m). tb_pk t = pk \<and> tb_revision t = n)"

definition carried_row :: "feed_store \<Rightarrow> change_kind \<Rightarrow> cells \<Rightarrow> stored_row" where
  "carried_row m k row = stored_row_of (stored_columns_of m k) row"

text \<open>A record as the feed shows it: its key, its revision and its row, or nothing once it is gone.\<close>

definition live_entry :: "feed_store \<Rightarrow> json list \<Rightarrow> nat \<Rightarrow> stored_row option \<Rightarrow> bool" where
  "live_entry m x n v \<longleftrightarrow> (\<exists>k. \<exists>r \<in> set (fd_tables m k). x = row_key k (fr_cells r) \<and> n = fr_revision r \<and>
     v = Some (carried_row m k (fr_cells r)))"

definition dead_entry :: "feed_lib \<Rightarrow> feed_store \<Rightarrow> json list \<Rightarrow> nat \<Rightarrow> stored_row option \<Rightarrow> bool" where
  "dead_entry lib m x n v \<longleftrightarrow> v = None \<and> (\<exists>k row. \<exists>t \<in> set (fd_tombstones m). row_ok k row \<and>
     names lib k row t \<and> x = row_key k row \<and> n = tb_revision t)"

definition entry :: "feed_lib \<Rightarrow> feed_store \<Rightarrow> json list \<Rightarrow> nat \<Rightarrow> stored_row option \<Rightarrow> bool" where
  "entry lib m x n v \<longleftrightarrow> live_entry m x n v \<or> dead_entry lib m x n v"

section \<open>The invariant\<close>

definition bare :: "fed_row list \<Rightarrow> (nat \<times> cells) list" where
  "bare rows = map (\<lambda>r. (fr_rowid r, fr_cells r)) rows"

definition bare_ok :: "change_kind \<Rightarrow> (nat \<times> cells) list \<Rightarrow> bool" where
  "bare_ok k ps \<longleftrightarrow> (\<forall>(i, c) \<in> set ps. row_ok k c) \<and> distinct (map fst ps) \<and>
     distinct (map (key_cells k \<circ> snd) ps)"

definition rows_ok :: "feed_store \<Rightarrow> bool" where
  "rows_ok m \<longleftrightarrow> (\<forall>k. bare_ok k (bare (fd_tables m k)))"

definition tombs_ok :: "feed_lib \<Rightarrow> feed_store \<Rightarrow> bool" where
  "tombs_ok lib m \<longleftrightarrow> distinct (map tb_pk (fd_tombstones m)) \<and>
     (\<forall>t \<in> set (fd_tombstones m). \<exists>k row. row_ok k row \<and> names lib k row t)"

definition columns_ok :: "feed_store \<Rightarrow> bool" where
  "columns_ok m \<longleftrightarrow> (\<forall>k. set (ft_key (table_of k)) \<subseteq> set (stored_columns_of m k))"

definition apart :: "feed_lib \<Rightarrow> slot option \<Rightarrow> feed_store \<Rightarrow> bool" where
  "apart lib ex m \<longleftrightarrow> (\<forall>k. \<forall>(i, c) \<in> set (bare (fd_tables m k)). ex \<noteq> Some (Inl (k, i)) \<longrightarrow>
     (\<forall>t \<in> set (fd_tombstones m). \<not> names lib k c t))"

definition feed_ok :: "feed_lib \<Rightarrow> feed_store \<Rightarrow> bool" where
  "feed_ok lib m \<longleftrightarrow> rows_ok m \<and> tombs_ok lib m \<and> columns_ok m \<and> apart lib None m \<and>
     (\<forall>a n. slot m a n \<longrightarrow> 0 < n \<and> n \<le> fd_clock m) \<and>
     (\<forall>a b n. slot m a n \<longrightarrow> slot m b n \<longrightarrow> a = b)"

text \<open>What a statement does to the store as a consumer sees it: the clock does not go back, an entry at
  or below the old clock was there before, and a record that was ever seen stays live or tombstoned.\<close>

definition feed_step :: "feed_lib \<Rightarrow> feed_store \<Rightarrow> feed_store \<Rightarrow> bool" where
  "feed_step lib s s' \<longleftrightarrow> fd_clock s \<le> fd_clock s' \<and> fd_columns s' = fd_columns s \<and>
     fd_epoch s' = fd_epoch s \<and> fd_cursors s' = fd_cursors s \<and>
     (\<forall>x n v. entry lib s' x n v \<longrightarrow> n \<le> fd_clock s \<longrightarrow> entry lib s x n v) \<and>
     (\<forall>x. (\<exists>n v. entry lib s x n v) \<longrightarrow> (\<exists>n v. entry lib s' x n v))"

section \<open>In the middle of a statement\<close>

definition same_fields :: "feed_store \<Rightarrow> feed_store \<Rightarrow> bool" where
  "same_fields s m \<longleftrightarrow> fd_columns m = fd_columns s \<and> fd_epoch m = fd_epoch s \<and> fd_cursors m = fd_cursors s"

definition mid :: "feed_lib \<Rightarrow> feed_store \<Rightarrow> slot option \<Rightarrow> json list option \<Rightarrow> feed_store \<Rightarrow> bool" where
  "mid lib s ex lost m \<longleftrightarrow>
     same_fields s m \<and> fd_clock s \<le> fd_clock m \<and> rows_ok m \<and> tombs_ok lib m \<and> apart lib ex m \<and>
     (\<forall>a n. Some a \<noteq> ex \<longrightarrow> slot m a n \<longrightarrow> slot s a n \<or> fd_clock s < n \<and> n \<le> fd_clock m) \<and>
     (\<forall>a b n. Some a \<noteq> ex \<longrightarrow> Some b \<noteq> ex \<longrightarrow> fd_clock s < n \<longrightarrow> slot m a n \<longrightarrow> slot m b n \<longrightarrow> a = b) \<and>
     (\<forall>k. \<forall>r \<in> set (fd_tables m k). Some (Inl (k, fr_rowid r)) \<noteq> ex \<longrightarrow> fr_revision r \<le> fd_clock s \<longrightarrow>
        (\<exists>r' \<in> set (fd_tables s k). fr_rowid r' = fr_rowid r \<and> fr_revision r' = fr_revision r \<and>
           row_key k (fr_cells r') = row_key k (fr_cells r) \<and>
           carried_row s k (fr_cells r') = carried_row s k (fr_cells r))) \<and>
     (\<forall>x. (\<exists>n v. entry lib s x n v) \<longrightarrow> lost = Some x \<or> (\<exists>n v. entry lib m x n v))"

lemma mid_self:
  assumes "feed_ok lib s"
  shows "mid lib s None None s"
  using assms unfolding mid_def feed_ok_def same_fields_def by auto

lemma carried_same: "same_fields s m \<Longrightarrow> carried_row m k row = carried_row s k row"
  by (simp add: carried_row_def stored_columns_of_def same_fields_def)

lemma mid_final:
  assumes ok: "feed_ok lib s" and m: "mid lib s None None m"
  shows "feed_ok lib m \<and> feed_step lib s m"
proof
  have old: "slot s a n" if "slot m a n" "n \<le> fd_clock s" for a n
    using m that unfolding mid_def by (metis linorder_not_less option.distinct(1))
  have bound: "n \<le> fd_clock m" if "slot m a n" for a n
    using m that ok unfolding mid_def feed_ok_def by (metis le_trans option.distinct(1))
  have pos: "0 < n" if "slot m a n" for a n
    using m that ok unfolding mid_def feed_ok_def by (metis bot_nat_0.extremum_strict neq0_conv option.distinct(1))
  have uniq: "a = b" if "slot m a n" "slot m b n" for a b n
  proof (cases "n \<le> fd_clock s")
    case True
    then show ?thesis using old that ok unfolding feed_ok_def by blast
  next
    case False
    then show ?thesis using m that unfolding mid_def by (metis linorder_not_le option.distinct(1))
  qed
  have cols: "columns_ok m"
    using m ok by (simp add: mid_def feed_ok_def same_fields_def columns_ok_def stored_columns_of_def)
  show "feed_ok lib m"
    unfolding feed_ok_def using m cols pos bound uniq by (auto simp: mid_def)
  have keep: "entry lib s x n v" if e: "entry lib m x n v" and le: "n \<le> fd_clock s" for x n v
  proof (cases "live_entry m x n v")
    case True
    then obtain k r where r: "r \<in> set (fd_tables m k)" "x = row_key k (fr_cells r)" "n = fr_revision r"
        "v = Some (carried_row m k (fr_cells r))"
      unfolding live_entry_def by blast
    have sf: "same_fields s m" using m by (simp add: mid_def)
    obtain r' where "r' \<in> set (fd_tables s k)" "fr_revision r' = fr_revision r"
        "row_key k (fr_cells r') = row_key k (fr_cells r)"
        "carried_row s k (fr_cells r') = carried_row s k (fr_cells r)"
      using m r(1,3) le unfolding mid_def by (metis option.distinct(1))
    then have "live_entry s x n v"
      unfolding live_entry_def using r carried_same [OF sf] by metis
    then show ?thesis by (simp add: entry_def)
  next
    case False
    then obtain k row t where t: "v = None" "t \<in> set (fd_tombstones m)" "row_ok k row" "names lib k row t"
        "x = row_key k row" "n = tb_revision t"
      using e unfolding entry_def dead_entry_def by blast
    have "slot s (Inr (tb_pk t)) n" using old [of "Inr (tb_pk t)" n] t le by auto
    then obtain t' where "t' \<in> set (fd_tombstones s)" "tb_pk t' = tb_pk t" "tb_revision t' = n"
      by auto
    then show ?thesis
      using t unfolding entry_def dead_entry_def by (metis names_def prod.inject tb_pk_def)
  qed
  show "feed_step lib s m"
    using m keep unfolding feed_step_def mid_def same_fields_def by simp
qed

section \<open>The pieces of a trigger keep it\<close>

lemma slot_set_table:
  "slot (set_table k rows m) a n \<longleftrightarrow>
     (case a of Inl (j, i) \<Rightarrow> \<exists>r \<in> set (if j = k then rows else fd_tables m j). fr_rowid r = i \<and> fr_revision r = n
      | Inr _ \<Rightarrow> slot m a n)"
  by (cases a) (auto simp: set_table_def split: prod.splits)

lemma set_table_simps [simp]:
  "fd_tables (set_table k rows m) = (fd_tables m)(k := rows)"
  "fd_clock (set_table k rows m) = fd_clock m"
  "fd_tombstones (set_table k rows m) = fd_tombstones m"
  "fd_columns (set_table k rows m) = fd_columns m"
  "fd_epoch (set_table k rows m) = fd_epoch m"
  "fd_cursors (set_table k rows m) = fd_cursors m"
  by (simp_all add: set_table_def)

lemma bump_simps [simp]:
  "fd_tables (bump_clock m) = fd_tables m"
  "fd_clock (bump_clock m) = Suc (fd_clock m)"
  "fd_tombstones (bump_clock m) = fd_tombstones m"
  "fd_columns (bump_clock m) = fd_columns m"
  "fd_epoch (bump_clock m) = fd_epoch m"
  "fd_cursors (bump_clock m) = fd_cursors m"
  by (simp_all add: bump_clock_def)

lemma mid_old_slots:
  assumes "feed_ok lib s" "mid lib s ex lost m" "Some a \<noteq> ex" "slot m a n"
  shows "n \<le> fd_clock m"
  using assms unfolding mid_def feed_ok_def by (metis le_trans)

lemma stamp_where_bare [simp]: "bare (stamp_where P n rows) = bare rows"
  by (simp add: stamp_where_def bare_def)

lemma in_stamp_where:
  "r \<in> set (stamp_where P n rows) \<longleftrightarrow>
     (\<exists>r' \<in> set rows. r = (if P r' then r'\<lparr>fr_revision := n\<rparr> else r'))"
  by (auto simp: stamp_where_def)

lemma apartI:
  assumes "\<And>k i c t. (i, c) \<in> set (bare (fd_tables m k)) \<Longrightarrow> ex \<noteq> Some (Inl (k, i)) \<Longrightarrow>
    t \<in> set (fd_tombstones m) \<Longrightarrow> \<not> names lib k c t"
  shows "apart lib ex m"
  using assms unfolding apart_def by blast

lemma apartD:
  "apart lib ex m \<Longrightarrow> (i, c) \<in> set (bare (fd_tables m k)) \<Longrightarrow> ex \<noteq> Some (Inl (k, i)) \<Longrightarrow>
    t \<in> set (fd_tombstones m) \<Longrightarrow> \<not> names lib k c t"
  unfolding apart_def by blast

lemma rows_ok_stamp:
  "rows_ok m \<Longrightarrow> rows_ok (set_table k (stamp_where P n (fd_tables m k)) m)"
  by (simp add: rows_ok_def)

lemma apart_stamp:
  "apart lib ex m \<Longrightarrow> apart lib ex (set_table k (stamp_where P n (fd_tables m k)) m)"
  by (simp add: apart_def)

lemma live_keys: "(\<exists>n v. live_entry m x n v) \<longleftrightarrow> (\<exists>k. x \<in> (row_key k \<circ> snd) ` set (bare (fd_tables m k)))"
  by (auto simp: live_entry_def bare_def image_iff) 

lemma live_keys_stamp:
  "(\<exists>n v. live_entry (set_table k (stamp_where P n' (fd_tables m k)) m) x n v) \<longleftrightarrow> (\<exists>n v. live_entry m x n v)"
proof -
  have "bare (fd_tables (set_table k (stamp_where P n' (fd_tables m k)) m) j) = bare (fd_tables m j)" for j
    by simp
  then show ?thesis unfolding live_keys by simp
qed

lemma in_bare: "r \<in> set rows \<Longrightarrow> (fr_rowid r, fr_cells r) \<in> set (bare rows)"
  by (auto simp: bare_def)

lemma rows_okD:
  assumes "rows_ok m" "r \<in> set (fd_tables m k)"
  shows "row_ok k (fr_cells r)"
    and "r' \<in> set (fd_tables m k) \<Longrightarrow> key_cells k (fr_cells r) = key_cells k (fr_cells r') \<Longrightarrow> fr_rowid r = fr_rowid r'"
    and "r' \<in> set (fd_tables m k) \<Longrightarrow> fr_rowid r = fr_rowid r' \<Longrightarrow> r = r'"
proof -
  have ok: "bare_ok k (bare (fd_tables m k))" using assms(1) by (simp add: rows_ok_def)
  show "row_ok k (fr_cells r)" using ok in_bare [OF assms(2)] by (auto simp: bare_ok_def)
  show "fr_rowid r = fr_rowid r'" if "r' \<in> set (fd_tables m k)" "key_cells k (fr_cells r) = key_cells k (fr_cells r')"
    using ok in_bare [OF assms(2)] in_bare [OF that(1)] that(2)
    by (fastforce simp: bare_ok_def distinct_map inj_on_def)
  have "distinct (map fr_rowid (fd_tables m k))" using ok by (simp add: bare_ok_def bare_def comp_def)
  then show "r = r'" if "r' \<in> set (fd_tables m k)" "fr_rowid r = fr_rowid r'"
    using assms(2) that by (auto simp: distinct_map inj_on_def)
qed

definition stamp_next :: "change_kind \<Rightarrow> (fed_row \<Rightarrow> bool) \<Rightarrow> feed_store \<Rightarrow> feed_store" where
  "stamp_next k P m = set_table k (stamp_where P (Suc (fd_clock m)) (fd_tables m k)) (bump_clock m)"

lemma stamp_next_simps [simp]:
  "fd_clock (stamp_next k P m) = Suc (fd_clock m)"
  "fd_tombstones (stamp_next k P m) = fd_tombstones m"
  "fd_tables (stamp_next k P m) = (fd_tables m)(k := stamp_where P (Suc (fd_clock m)) (fd_tables m k))"
  by (simp_all add: stamp_next_def)

lemma slot_stamp:
  assumes "slot (stamp_next k P m) a n"
  shows "slot m a n \<or> n = Suc (fd_clock m) \<and> (\<exists>r \<in> set (fd_tables m k). P r \<and> a = Inl (k, fr_rowid r))"
proof (cases a)
  case (Inl p)
  obtain j i where p: "p = (j, i)" by (cases p)
  obtain r where r: "r \<in> set (fd_tables (stamp_next k P m) j)" "fr_rowid r = i" "fr_revision r = n"
    using assms Inl p by auto
  show ?thesis
  proof (cases "j = k")
    case True
    then obtain r' where "r' \<in> set (fd_tables m k)"
      "r = (if P r' then r'\<lparr>fr_revision := Suc (fd_clock m)\<rparr> else r')"
      using r(1) in_stamp_where by fastforce
    then show ?thesis using r(2,3) Inl p True by (cases "P r'") auto
  next
    case False
    then show ?thesis using r Inl p by auto
  qed
next
  case (Inr pk)
  then show ?thesis using assms by simp
qed

lemma row_stamp:
  assumes "r \<in> set (fd_tables (stamp_next k P m) j)" and "fr_revision r \<noteq> Suc (fd_clock m)"
  shows "r \<in> set (fd_tables m j)"
  using assms by (auto simp: in_stamp_where split: if_splits)

lemma entries_stamp:
  "(\<exists>n v. entry lib (stamp_next k P m) x n v) \<longleftrightarrow> (\<exists>n v. entry lib m x n v)"
proof -
  have "live_entry (bump_clock m) = live_entry m"
    by (intro ext) (simp add: live_entry_def carried_row_def stored_columns_of_def)
  then have "(\<exists>n v. live_entry (stamp_next k P m) x n v) \<longleftrightarrow> (\<exists>n v. live_entry m x n v)"
    using live_keys_stamp [of k P "Suc (fd_clock m)" "bump_clock m" x] by (simp add: stamp_next_def)
  moreover have "dead_entry lib (stamp_next k P m) x n v = dead_entry lib m x n v" for n v
    by (simp add: dead_entry_def)
  ultimately show ?thesis by (auto simp: entry_def)
qed

lemma mid_stamp:
  assumes ok: "feed_ok lib s" and m: "mid lib s ex lost m"
    and one: "\<And>r r'. r \<in> set (fd_tables m k) \<Longrightarrow> r' \<in> set (fd_tables m k) \<Longrightarrow> P r \<Longrightarrow> P r' \<Longrightarrow>
        fr_rowid r = fr_rowid r'"
  shows "mid lib s ex lost (stamp_next k P m)"
proof -
  let ?m = "stamp_next k P m"
  have le: "fd_clock s \<le> fd_clock m" using m by (simp add: mid_def)
  have old: "n \<le> fd_clock m" if "Some a \<noteq> ex" "slot m a n" for a n
    using mid_old_slots [OF ok m that] .
  have "same_fields s ?m" using m by (simp add: mid_def same_fields_def stamp_next_def)
  moreover have "rows_ok ?m" "tombs_ok lib ?m" "apart lib ex ?m"
    using m by (simp_all add: mid_def rows_ok_def tombs_ok_def apart_def)
  moreover have "slot s a n \<or> fd_clock s < n \<and> n \<le> fd_clock ?m" if "Some a \<noteq> ex" "slot ?m a n" for a n
    using slot_stamp [OF that(2)] m that(1) le unfolding mid_def by (auto simp: le_Suc_eq)
  moreover have "a = b" if a: "Some a \<noteq> ex" "slot ?m a n" and b: "Some b \<noteq> ex" "slot ?m b n"
      and n: "fd_clock s < n" for a b n
  proof (cases "n = Suc (fd_clock m)")
    case True
    then have "\<not> slot m a n" "\<not> slot m b n" using old a(1) b(1) by fastforce+
    then show ?thesis using slot_stamp [OF a(2)] slot_stamp [OF b(2)] one by auto
  next
    case False
    then have "slot m a n" "slot m b n" using slot_stamp [OF a(2)] slot_stamp [OF b(2)] by auto
    then show ?thesis using m a(1) b(1) n unfolding mid_def by blast
  qed
  moreover have "\<exists>r' \<in> set (fd_tables s j). fr_rowid r' = fr_rowid r \<and> fr_revision r' = fr_revision r \<and>
        row_key j (fr_cells r') = row_key j (fr_cells r) \<and>
        carried_row s j (fr_cells r') = carried_row s j (fr_cells r)"
    if r: "r \<in> set (fd_tables ?m j)" "Some (Inl (j, fr_rowid r)) \<noteq> ex" "fr_revision r \<le> fd_clock s" for j r
  proof -
    have "fr_revision r \<noteq> Suc (fd_clock m)" using r(3) le by simp
    then have "r \<in> set (fd_tables m j)" using row_stamp [OF r(1)] by blast
    then show ?thesis using m r(2,3) unfolding mid_def by blast
  qed
  moreover have "lost = Some x \<or> (\<exists>n v. entry lib ?m x n v)" if "\<exists>n v. entry lib s x n v" for x
    using m that unfolding mid_def entries_stamp by blast
  ultimately show ?thesis using le unfolding mid_def by simp
qed

lemma midI:
  assumes "same_fields s m" "fd_clock s \<le> fd_clock m" "rows_ok m" "tombs_ok lib m" "apart lib ex m"
    and "\<And>a n. Some a \<noteq> ex \<Longrightarrow> slot m a n \<Longrightarrow> slot s a n \<or> fd_clock s < n \<and> n \<le> fd_clock m"
    and "\<And>a b n. Some a \<noteq> ex \<Longrightarrow> Some b \<noteq> ex \<Longrightarrow> fd_clock s < n \<Longrightarrow> slot m a n \<Longrightarrow> slot m b n \<Longrightarrow> a = b"
    and "\<And>k r. r \<in> set (fd_tables m k) \<Longrightarrow> Some (Inl (k, fr_rowid r)) \<noteq> ex \<Longrightarrow> fr_revision r \<le> fd_clock s \<Longrightarrow>
        \<exists>r' \<in> set (fd_tables s k). fr_rowid r' = fr_rowid r \<and> fr_revision r' = fr_revision r \<and>
          row_key k (fr_cells r') = row_key k (fr_cells r) \<and>
          carried_row s k (fr_cells r') = carried_row s k (fr_cells r)"
    and "\<And>x. \<exists>n v. entry lib s x n v \<Longrightarrow> lost = Some x \<or> (\<exists>n v. entry lib m x n v)"
  shows "mid lib s ex lost m"
  using assms unfolding mid_def by blast

lemma midD:
  assumes "mid lib s ex lost m"
  shows "same_fields s m" "fd_clock s \<le> fd_clock m" "rows_ok m" "tombs_ok lib m" "apart lib ex m"
    and "Some a \<noteq> ex \<Longrightarrow> slot m a n \<Longrightarrow> slot s a n \<or> fd_clock s < n \<and> n \<le> fd_clock m"
    and "Some a \<noteq> ex \<Longrightarrow> Some b \<noteq> ex \<Longrightarrow> fd_clock s < n \<Longrightarrow> slot m a n \<Longrightarrow> slot m b n \<Longrightarrow> a = b"
    and "r \<in> set (fd_tables m k) \<Longrightarrow> Some (Inl (k, fr_rowid r)) \<noteq> ex \<Longrightarrow> fr_revision r \<le> fd_clock s \<Longrightarrow>
        \<exists>r' \<in> set (fd_tables s k). fr_rowid r' = fr_rowid r \<and> fr_revision r' = fr_revision r \<and>
          row_key k (fr_cells r') = row_key k (fr_cells r) \<and>
          carried_row s k (fr_cells r') = carried_row s k (fr_cells r)"
    and "\<exists>n v. entry lib s x n v \<Longrightarrow> lost = Some x \<or> (\<exists>n v. entry lib m x n v)"
  using assms unfolding mid_def by blast+

lemma clear_simps [simp]:
  "fd_tables (clear_tombstone lib k c m) = fd_tables m"
  "fd_clock (clear_tombstone lib k c m) = fd_clock m"
  "fd_tombstones (clear_tombstone lib k c m) = filter (\<lambda>t. \<not> names lib k c t) (fd_tombstones m)"
  "same_fields s (clear_tombstone lib k c m) = same_fields s m"
  by (simp_all add: clear_tombstone_def same_fields_def)

lemma slot_clear: "slot (clear_tombstone lib k c m) a n \<Longrightarrow> slot m a n"
  by (cases a) (auto split: prod.splits)

lemma row_key_cong: "key_cells k c = key_cells k c' \<Longrightarrow> row_key k c = row_key k c'"
  by (simp add: row_key_def)

lemma names_kind: "names lib k c t \<Longrightarrow> names lib k' c' t \<Longrightarrow> k = k'"
  by (simp add: names_def)

lemma live_entry_bare: "(i, c) \<in> set (bare (fd_tables m k)) \<Longrightarrow> \<exists>n v. live_entry m (row_key k c) n v"
  unfolding live_keys by (intro exI [of _ k] image_eqI [of _ _ "(i, c)"]) auto

lemma dead_entryI:
  "t \<in> set (fd_tombstones m) \<Longrightarrow> row_ok k c \<Longrightarrow> names lib k c t \<Longrightarrow> dead_entry lib m (row_key k c) (tb_revision t) None"
  unfolding dead_entry_def by blast

lemma clear_entries:
  assumes doc: "lib_documented lib" and ok: "row_ok k c" and live: "(i, c) \<in> set (bare (fd_tables m k))"
    and e: "entry lib m x n v"
  shows "\<exists>n v. entry lib (clear_tombstone lib k c m) x n v"
proof -
  let ?m = "clear_tombstone lib k c m"
  have live': "live_entry ?m = live_entry m"
    by (intro ext) (simp add: live_entry_def carried_row_def stored_columns_of_def clear_tombstone_def)
  show ?thesis
  proof (cases "\<exists>n v. live_entry m x n v")
    case True
    then show ?thesis by (auto simp: entry_def live')
  next
    case False
    then obtain k' c' t where t: "t \<in> set (fd_tombstones m)" "row_ok k' c'" "names lib k' c' t" "x = row_key k' c'"
        "n = tb_revision t" "v = None"
      using e by (auto simp: entry_def dead_entry_def)
    show ?thesis
    proof (cases "names lib k c t")
      case True
      then have "k = k'" "key_cells k c = key_cells k' c'"
        using names_kind [OF True t(3)] names_iff [OF doc ok _ t(3) [folded names_kind [OF True t(3)]]] t(2) by auto
      then have "x = row_key k c" using t(4) row_key_cong by metis
      then show ?thesis using live_entry_bare [OF live] by (auto simp: entry_def live')
    next
      case False
      then show ?thesis using dead_entryI [of t ?m k' c' lib] t unfolding entry_def by auto
    qed
  qed
qed

lemma mid_clear:
  assumes doc: "lib_documented lib" and m: "mid lib s ex lost m" and live: "(i, c) \<in> set (bare (fd_tables m k))"
  shows "mid lib s ex lost (clear_tombstone lib k c m)"
proof -
  let ?m = "clear_tombstone lib k c m"
  note d = midD [OF m]
  have ok: "row_ok k c" using d(3) live unfolding rows_ok_def bare_ok_def by fastforce
  have keys: "lost = Some x \<or> (\<exists>n v. entry lib ?m x n v)" if "\<exists>n v. entry lib s x n v" for x
    using d(9) [OF that] clear_entries [OF doc ok live] by blast
  have tombs: "tombs_ok lib ?m" using d(4) by (auto simp: tombs_ok_def distinct_map inj_on_def)
  have rows: "rows_ok ?m" using d(3) by (simp add: rows_ok_def)
  have apart: "apart lib ex ?m" using apartD [OF d(5)] by (intro apartI) auto
  show ?thesis
    unfolding mid_def using d(1,2) keys tombs rows apart d(6-8) slot_clear by simp
qed

lemma put_simps [simp]:
  "fd_tables (put_tombstone lib k c m) = fd_tables m"
  "fd_clock (put_tombstone lib k c m) = fd_clock m"
  "same_fields s (put_tombstone lib k c m) = same_fields s m"
  by (simp_all add: put_tombstone_def same_fields_def)

definition tombstone_of :: "feed_lib \<Rightarrow> change_kind \<Rightarrow> cells \<Rightarrow> nat \<Rightarrow> tombstone" where
  "tombstone_of lib k c n = \<lparr>tb_kind = kind_str k, tb_source = source_sql (table_of k) c,
     tb_session = tombstone_session_sql (table_of k) c, tb_record = record_key_sql lib (table_of k) c,
     tb_revision = n\<rparr>"

lemma put_tombstones [simp]:
  "fd_tombstones (put_tombstone lib k c m) =
     filter (\<lambda>t. \<not> names lib k c t) (fd_tombstones m) @ [tombstone_of lib k c (fd_clock m)]"
  by (simp add: put_tombstone_def tombstone_of_def)

lemma tombstone_of_facts [simp]:
  "names lib k c (tombstone_of lib k c n)" "tb_revision (tombstone_of lib k c n) = n"
  by (simp_all add: names_def tombstone_of_def)

lemma names_pk: "names lib k c t \<longleftrightarrow> tb_pk t = tb_pk (tombstone_of lib k c n)"
  by (auto simp: names_def tb_pk_def tombstone_of_def)

lemma slot_put:
  "slot (put_tombstone lib k c m) a n \<Longrightarrow> slot m a n \<or> n = fd_clock m \<and> a = Inr (tb_pk (tombstone_of lib k c n))"
  by (cases a) (auto split: prod.splits)

lemma pk_names: "tb_pk t = tb_pk t' \<Longrightarrow> names lib k c t = names lib k c t'"
  by (simp add: names_def tb_pk_def)

lemma mid_put:
  assumes doc: "lib_documented lib" and s: "feed_ok lib s" and m: "mid lib s ex lost m" and ok: "row_ok k c"
    and free: "\<And>i c'. (i, c') \<in> set (bare (fd_tables m k)) \<Longrightarrow> ex \<noteq> Some (Inl (k, i)) \<Longrightarrow> key_cells k c' \<noteq> key_cells k c"
    and ex: "\<And>p. ex \<noteq> Some (Inr p)"
  shows "mid lib s ex (if lost = Some (row_key k c) then None else lost) (put_tombstone lib k c (bump_clock m))"
proof -
  let ?m = "put_tombstone lib k c (bump_clock m)"
  let ?t = "tombstone_of lib k c (Suc (fd_clock m))"
  note d = midD [OF m]
  have old: "n \<le> fd_clock m" if "Some a \<noteq> ex" "slot m a n" for a n
    using mid_old_slots [OF s m that] .
  have slots: "slot m a n \<or> n = Suc (fd_clock m) \<and> a = Inr (tb_pk ?t)" if "slot ?m a n" for a n
    using slot_put [OF that] by (cases a) auto
  have live': "live_entry ?m = live_entry m"
    by (intro ext) (simp add: live_entry_def carried_row_def stored_columns_of_def put_tombstone_def)
  have new: "entry lib ?m (row_key k c) (Suc (fd_clock m)) None"
    using dead_entryI [of ?t ?m k c lib] ok by (simp add: entry_def)
  have "\<exists>n v. entry lib ?m x n v" if e: "entry lib m x n v" for x n v
  proof (cases "\<exists>n v. live_entry m x n v")
    case True
    then show ?thesis by (auto simp: entry_def live')
  next
    case False
    then obtain k' c' t where t: "t \<in> set (fd_tombstones m)" "row_ok k' c'" "names lib k' c' t" "x = row_key k' c'"
      using e by (auto simp: entry_def dead_entry_def)
    show ?thesis
    proof (cases "names lib k c t")
      case True
      then have "k = k'" "key_cells k c = key_cells k' c'"
        using names_kind [OF True t(3)] names_iff [OF doc ok _ t(3) [folded names_kind [OF True t(3)]]] t(2) by auto
      then have "x = row_key k c" using t(4) row_key_cong by metis
      then show ?thesis using new by blast
    next
      case False
      then show ?thesis using dead_entryI [of t ?m k' c' lib] t unfolding entry_def by auto
    qed
  qed
  then have keys: "(if lost = Some (row_key k c) then None else lost) = Some x \<or> (\<exists>n v. entry lib ?m x n v)"
    if "\<exists>n v. entry lib s x n v" for x
    using d(9) [OF that] new by auto
  have "\<exists>k' c'. row_ok k' c' \<and> names lib k' c' ?t" using ok tombstone_of_facts(1) by blast
  then have tombs: "tombs_ok lib ?m"
    using d(4) by (auto simp: tombs_ok_def distinct_map inj_on_def names_pk [of lib k c _ "Suc (fd_clock m)"])
  have rows: "rows_ok ?m" using d(3) by (simp add: rows_ok_def)
  have apart: "apart lib ex ?m"
  proof -
    have "\<not> names lib j c' ?t" if b: "(i, c') \<in> set (bare (fd_tables m j))" "ex \<noteq> Some (Inl (j, i))" for j i c'
    proof
      assume n: "names lib j c' ?t"
      then have j: "j = k" using names_kind tombstone_of_facts(1) by blast
      have "row_ok k c'" using d(3) b(1) j unfolding rows_ok_def bare_ok_def by fastforce
      then have "key_cells k c' = key_cells k c"
        using names_iff [OF doc _ ok tombstone_of_facts(1)] n j by blast
      then show False using free b j by blast
    qed
    then show ?thesis using apartD [OF d(5)] by (intro apartI) auto
  qed
  have new_unique: "a = b" if "Some a \<noteq> ex" "slot ?m a n" "Some b \<noteq> ex" "slot ?m b n" "fd_clock s < n" for a b n
    using slots [OF that(2)] slots [OF that(4)] d(7) [OF that(1,3,5)] old [OF that(1)] old [OF that(3)]
    by (metis Suc_n_not_le_n)
  have from_old: "slot s a n \<or> fd_clock s < n \<and> n \<le> fd_clock ?m" if "Some a \<noteq> ex" "slot ?m a n" for a n
    using slots [OF that(2)] d(2) by (auto dest: d(6) [OF that(1)])
  have "same_fields s ?m" using d(1) by (simp add: same_fields_def put_tombstone_def)
  then show ?thesis
    unfolding mid_def using d(2,8) keys tombs rows apart new_unique from_old by simp
qed

lemma mid_admit:
  assumes s: "feed_ok lib s" and m: "mid lib s (Some (Inl (k, i))) lost m"
    and r: "r \<in> set (fd_tables m k)" "fr_rowid r = i"
    and rev: "fd_clock s < fr_revision r" "fr_revision r \<le> fd_clock m"
    and alone: "\<And>a. a \<noteq> Inl (k, i) \<Longrightarrow> \<not> slot m a (fr_revision r)"
    and clear: "\<And>t. t \<in> set (fd_tombstones m) \<Longrightarrow> \<not> names lib k (fr_cells r) t"
    and found: "\<And>x. lost = Some x \<Longrightarrow> \<exists>n v. entry lib m x n v"
  shows "mid lib s None None m"
proof -
  note d = midD [OF m]
  have only: "r' = r" if "r' \<in> set (fd_tables m k)" "fr_rowid r' = i" for r'
    using rows_okD(3) [OF d(3) that(1) r(1)] that(2) r(2) by simp
  have own: "n = fr_revision r" if "slot m (Inl (k, i)) n" for n
    using that only by auto
  have apart: "apart lib None m"
  proof -
    have "\<not> names lib j c t" if b: "(i', c) \<in> set (bare (fd_tables m j))" and t: "t \<in> set (fd_tombstones m)" for j i' c t
    proof (cases "j = k \<and> i' = i")
      case True
      then obtain r' where "r' \<in> set (fd_tables m k)" "fr_rowid r' = i" "fr_cells r' = c"
        using b by (auto simp: bare_def)
      then show ?thesis using only clear [OF t] True by metis
    next
      case False
      then show ?thesis using apartD [OF d(5) b _ t] by auto
    qed
    then show ?thesis by (intro apartI)
  qed
  have from_old: "slot s a n \<or> fd_clock s < n \<and> n \<le> fd_clock m" if "slot m a n" for a n
  proof (cases "a = Inl (k, i)")
    case True
    then show ?thesis using own that rev by simp
  next
    case False
    then show ?thesis using d(6) [OF _ that] by simp
  qed
  have unique: "a = b" if "slot m a n" "slot m b n" "fd_clock s < n" for a b n
  proof (cases "a = Inl (k, i) \<or> b = Inl (k, i)")
    case True
    then have "n = fr_revision r" using own that(1,2) by blast
    then show ?thesis using alone [of a] alone [of b] that(1,2) True by auto
  next
    case False
    then show ?thesis using d(7) [OF _ _ that(3,1,2)] by simp
  qed
  have rows: "\<exists>r'' \<in> set (fd_tables s j). fr_rowid r'' = fr_rowid r' \<and> fr_revision r'' = fr_revision r' \<and>
        row_key j (fr_cells r'') = row_key j (fr_cells r') \<and>
        carried_row s j (fr_cells r'') = carried_row s j (fr_cells r')"
    if r': "r' \<in> set (fd_tables m j)" "fr_revision r' \<le> fd_clock s" for r' j
  proof -
    have "\<not> (j = k \<and> fr_rowid r' = i)" using only r' rev(1) by fastforce
    then show ?thesis using d(8) r' by fastforce
  qed
  have keys: "\<exists>n v. entry lib m x n v" if "\<exists>n v. entry lib s x n v" for x
    using d(9) [OF that] found by blast
  show ?thesis
    unfolding mid_def using d(1-4) apart from_old unique rows keys by simp
qed

section \<open>Every write keeps the invariant\<close>

text \<open>A session row is stamped again; the excepted slot is never a session's.\<close>

lemma mid_stamp_session:
  assumes "feed_ok lib s" and m: "mid lib s ex lost m"
  shows "mid lib s ex lost (stamp_session source session m)"
proof -
  let ?P = "\<lambda>r. cell (fr_cells r) ''source'' = source \<and> cell (fr_cells r) ''session_id'' = session"
  have eq: "stamp_session source session m = stamp_next KSession ?P m"
    by (simp add: stamp_session_def stamp_next_def Let_def)
  have one: "fr_rowid r = fr_rowid r'"
    if "r \<in> set (fd_tables m KSession)" "r' \<in> set (fd_tables m KSession)" "?P r" "?P r'" for r r'
  proof -
    have "key_cells KSession (fr_cells r) = key_cells KSession (fr_cells r')"
      using that(3,4) by (simp add: key_cells_def table_of.simps plain_table_def)
    then show ?thesis by (rule rows_okD(2) [OF midD(3) [OF m] that(1,2)])
  qed
  show ?thesis unfolding eq by (rule mid_stamp [OF assms]) (rule one)
qed

lemma mid_stamp_row: "feed_ok lib s \<Longrightarrow> mid lib s ex lost m \<Longrightarrow> mid lib s ex lost (stamp_row c m)"
  by (simp add: stamp_row_def mid_stamp_session)

lemma mid_presence_update: "feed_ok lib s \<Longrightarrow> mid lib s ex lost m \<Longrightarrow> mid lib s ex lost (presence_update old new m)"
  by (simp add: presence_update_def Let_def mid_stamp_row)

text \<open>The trigger of the row's own table lets the row back in.\<close>

lemma set_revision_stamp: "set_revision k i (bump_clock m) = stamp_next k (\<lambda>r. fr_rowid r = i) m"
  by (simp add: set_revision_def stamp_next_def)

lemma mid_stamp_clear:
  assumes doc: "lib_documented lib" and s: "feed_ok lib s"
    and m: "mid lib s (Some (Inl (k, i))) lost m" and row: "(i, c) \<in> set (bare (fd_tables m k))"
    and lost: "\<And>x. lost = Some x \<Longrightarrow> \<exists>n v. entry lib m x n v"
  shows "mid lib s None None (clear_tombstone lib k c (set_revision k i (bump_clock m)))"
proof -
  let ?m = "stamp_next k (\<lambda>r. fr_rowid r = i) m"
  let ?m' = "clear_tombstone lib k c ?m"
  have stamped: "mid lib s (Some (Inl (k, i))) lost ?m"
    by (rule mid_stamp [OF s m]) simp
  have row': "(i, c) \<in> set (bare (fd_tables ?m k))" using row by simp
  have m': "mid lib s (Some (Inl (k, i))) lost ?m'" by (rule mid_clear [OF doc stamped row'])
  have ok: "row_ok k c" using midD(3) [OF m] row unfolding rows_ok_def bare_ok_def by fastforce
  obtain r0 where r0: "r0 \<in> set (fd_tables m k)" "fr_rowid r0 = i" "fr_cells r0 = c"
    using row by (auto simp: bare_def)
  let ?r = "r0\<lparr>fr_revision := Suc (fd_clock m)\<rparr>"
  have r: "?r \<in> set (fd_tables ?m' k)" using r0 by (auto simp: in_stamp_where intro!: bexI [of _ r0])
  have "\<not> slot ?m' a (Suc (fd_clock m))" if "a \<noteq> Inl (k, i)" for a
  proof
    assume "slot ?m' a (Suc (fd_clock m))"
    then have "slot ?m a (Suc (fd_clock m))" by (rule slot_clear)
    then have "slot m a (Suc (fd_clock m))" using slot_stamp that by fastforce
    then show False using mid_old_slots [OF s m] that by fastforce
  qed
  moreover have "\<exists>n v. entry lib ?m' x n v" if "lost = Some x" for x
  proof -
    have "\<exists>n v. entry lib ?m x n v" unfolding entries_stamp using lost [OF that] .
    then show ?thesis using clear_entries [OF doc ok row'] by blast
  qed
  ultimately show ?thesis
    using mid_admit [OF s m' r] r0 midD(2) [OF m] by (simp add: set_revision_stamp)
qed

text \<open>Both orders of the triggers of a presence row.\<close>

lemma mid_both:
  assumes "feed_ok lib s" and "mid lib s ex lost m"
    and presence: "\<And>ex lost m. mid lib s ex lost m \<Longrightarrow> mid lib s ex lost (presence m)"
    and own: "\<And>m'. m' = m \<or> m' = presence m \<Longrightarrow> mid lib s None None (own m')"
  shows "mid lib s None None (both_triggers first k presence own m)"
  using own [of m] own [of "presence m"] presence [of None None "own m"]
  by (auto simp: both_triggers_def)

lemma stamp_session_bare [simp]:
  "bare (fd_tables (stamp_session source session m) k) = bare (fd_tables m k)"
  "fd_columns (stamp_session source session m) = fd_columns m"
  by (simp_all add: stamp_session_def Let_def)

lemma stamp_row_bare [simp]:
  "bare (fd_tables (stamp_row c m) k) = bare (fd_tables m k)"
  "fd_columns (stamp_row c m) = fd_columns m"
  by (simp_all add: stamp_row_def)

lemma presence_update_bare [simp]:
  "bare (fd_tables (presence_update old new m) k) = bare (fd_tables m k)"
  "fd_columns (presence_update old new m) = fd_columns m"
  by (simp_all add: presence_update_def Let_def)

end
