(* ===== verification/FeedDrain.thy ===== *)
theory FeedDrain
  imports FeedStore "HOL-Library.AList"
begin

text \<open>
  Reading the feed (\<open>change_feed.rs\<close>, \<open>change_feed/validate.rs\<close>, \<open>change_feed/epochs.rs\<close>): a drain from
  a watermark to the head at open, in pages that read revisions first and rows second, and the named
  cursors a consumer commits. What a change derives from the row it carries (the parsed source and the
  typed evidence row) is left out, and so are the texts of errors. A table read with an index is the
  list of the rows the statement selects, ordered and limited as it says.
\<close>

section \<open>Watermarks, queries and errors\<close>

datatype feed_error =
    InvalidArgument | ConsumerKindsMismatch | WatermarkAheadOfStore | FeedDatabaseOpen | FeedReadOnly
  | FeedQuery

record watermark =
  wm_revision :: nat
  wm_epoch :: "64 word"

definition START :: watermark where
  "START = \<lparr>wm_revision = 0, wm_epoch = 0\<rparr>"

definition CONSUMER :: watermark where
  "CONSUMER = \<lparr>wm_revision = 2 ^ 64 - 1, wm_epoch = 0\<rparr>"

record change_query =
  cq_kinds :: "change_kind list option"
  cq_consumer :: "string option"
  cq_batch :: nat
  cq_session :: "(string \<times> string) option"

definition normalize_kinds :: "change_kind list option \<Rightarrow> change_kind list" where
  "normalize_kinds kinds = remdups_adj (sort (case kinds of None \<Rightarrow> ALL_KINDS | Some ks \<Rightarrow> ks))"

definition stored_kinds :: "change_kind list \<Rightarrow> string" where
  "stored_kinds kinds = (if kinds = ALL_KINDS then ''*'' else join_with '','' (map kind_str kinds))"

definition validate_query :: "watermark \<Rightarrow> change_query \<Rightarrow> feed_error + unit" where
  "validate_query from query =
     (if from = CONSUMER \<and> cq_consumer query = None then Inl InvalidArgument
      else case cq_session query of
        None \<Rightarrow> Inr ()
      | Some (source, session) \<Rightarrow>
          if cq_consumer query \<noteq> None then Inl InvalidArgument
          else if source = '''' \<or> session = '''' then Inl InvalidArgument
          else Inr ())"

section \<open>Page reads\<close>

text \<open>\<open>WHERE revision > lo AND revision <= hi ORDER BY revision LIMIT batch\<close>.\<close>

definition in_range :: "nat \<Rightarrow> nat \<Rightarrow> ('a \<Rightarrow> nat) \<Rightarrow> 'a list \<Rightarrow> 'a list" where
  "in_range lo hi revision rows = filter (\<lambda>r. lo < revision r \<and> revision r \<le> hi) rows"

definition read_range :: "nat \<Rightarrow> nat \<Rightarrow> nat \<Rightarrow> ('a \<Rightarrow> nat) \<Rightarrow> 'a list \<Rightarrow> 'a list" where
  "read_range lo hi batch revision rows = take batch (sort_key revision (in_range lo hi revision rows))"

definition upsert_session :: "change_kind \<Rightarrow> (string \<times> string) option \<Rightarrow> fed_row \<Rightarrow> bool" where
  "upsert_session k session r =
     (case session of
        None \<Rightarrow> True
      | Some (source, session_id) \<Rightarrow> source_sql (table_of k) (fr_cells r) = SqlText source \<and>
          cell (fr_cells r) (ft_session (table_of k)) = SqlText session_id)"

definition tombstone_session :: "(string \<times> string) option \<Rightarrow> tombstone \<Rightarrow> bool" where
  "tombstone_session session t =
     (case session of
        None \<Rightarrow> True
      | Some (source, session_id) \<Rightarrow> tb_source t = SqlText source \<and> tb_session t = SqlText session_id)"

definition fed_rows :: "feed_store \<Rightarrow> (string \<times> string) option \<Rightarrow> change_kind \<Rightarrow> fed_row list" where
  "fed_rows s session k = filter (upsert_session k session) (fd_tables s k)"

definition fed_tombstones :: "feed_store \<Rightarrow> (string \<times> string) option \<Rightarrow> change_kind \<Rightarrow> tombstone list" where
  "fed_tombstones s session k =
     filter (\<lambda>t. tb_kind t = kind_str k \<and> tombstone_session session t) (fd_tombstones s)"

text \<open>The cut: the \<open>batch\<close>-th smallest revision over every stream, \<open>hi\<close> when fewer remain.\<close>

definition page_cut ::
  "feed_store \<Rightarrow> change_kind list \<Rightarrow> (string \<times> string) option \<Rightarrow> nat \<Rightarrow> nat \<Rightarrow> nat \<Rightarrow> nat option" where
  "page_cut s kinds session lo hi batch =
     (let revisions =
            concat (map (\<lambda>k. map fr_revision (read_range lo hi batch fr_revision (fed_rows s session k))) kinds) @
            concat (map (\<lambda>k. map tb_revision (read_range lo hi batch tb_revision (fed_tombstones s session k))) kinds)
      in if revisions = [] then None
         else Some (min (if batch - 1 < length revisions then sort revisions ! (batch - 1) else hi) hi))"

datatype change_op = Upsert | Delete

record change =
  ch_kind :: change_kind
  ch_source_name :: string
  ch_session_id :: string
  ch_record_key :: string
  ch_key :: "json list"
  ch_revision :: nat
  ch_op :: change_op
  ch_columns :: "stored_row option"

definition upsert_of :: "feed_lib \<Rightarrow> feed_store \<Rightarrow> change_kind \<Rightarrow> fed_row \<Rightarrow> change option" where
  "upsert_of lib s k r =
     (let columns = stored_row_of (stored_columns_of s k) (fr_cells r) in
      case (get_text (source_sql (table_of k) (fr_cells r)), get_text (session_sql (table_of k) (fr_cells r)),
            get_text (record_key_sql lib (table_of k) (fr_cells r))) of
        (Some source, Some session_id, Some record_key) \<Rightarrow>
          Some \<lparr>ch_kind = k, ch_source_name = source, ch_session_id = session_id, ch_record_key = record_key,
             ch_key = key_from_row k columns, ch_revision = fr_revision r, ch_op = Upsert,
             ch_columns = Some columns\<rparr>
      | _ \<Rightarrow> None)"

definition read_upserts ::
  "feed_lib \<Rightarrow> feed_store \<Rightarrow> change_kind \<Rightarrow> (string \<times> string) option \<Rightarrow> nat \<Rightarrow> nat \<Rightarrow> nat \<Rightarrow> change list option" where
  "read_upserts lib s k session lo hi batch =
     those (map (upsert_of lib s k) (read_range lo hi batch fr_revision (fed_rows s session k)))"

definition delete_of :: "feed_lib \<Rightarrow> change_kind \<Rightarrow> tombstone \<Rightarrow> change option" where
  "delete_of lib k t =
     (case (get_text (tb_source t), get_text (tb_session t), get_text (tb_record t)) of
        (Some source, Some session_id, Some record_key) \<Rightarrow>
          map_option (\<lambda>key. \<lparr>ch_kind = k, ch_source_name = source, ch_session_id = session_id,
              ch_record_key = record_key, ch_key = key, ch_revision = tb_revision t, ch_op = Delete,
              ch_columns = None\<rparr>)
            (key_from_identity lib k source session_id record_key)
      | _ \<Rightarrow> None)"

definition read_tombstones ::
  "feed_lib \<Rightarrow> feed_store \<Rightarrow> change_kind list \<Rightarrow> (string \<times> string) option \<Rightarrow> nat \<Rightarrow> nat \<Rightarrow> nat \<Rightarrow>
     change list option" where
  "read_tombstones lib s kinds session lo hi batch =
     map_option concat (those (map (\<lambda>k. those (map (delete_of lib k)
        (read_range lo hi batch tb_revision (fed_tombstones s session k)))) kinds))"

section \<open>The drain\<close>

record changes =
  dr_kinds :: "change_kind list"
  dr_consumer :: "string option"
  dr_session :: "(string \<times> string) option"
  dr_batch :: nat
  dr_head :: watermark
  dr_position :: watermark
  dr_stale :: "watermark option"
  dr_buffer :: "change list"
  dr_exhausted :: bool
  dr_read_only :: bool

definition at_revision :: "nat \<Rightarrow> changes \<Rightarrow> changes" where
  "at_revision n d = d\<lparr>dr_position := \<lparr>wm_revision = n, wm_epoch = wm_epoch (dr_head d)\<rparr>\<rparr>"

definition exhaust :: "changes \<Rightarrow> changes" where
  "exhaust d = d\<lparr>dr_exhausted := True, dr_position := dr_head d\<rparr>"

definition read_page :: "feed_lib \<Rightarrow> feed_store \<Rightarrow> changes \<Rightarrow> nat \<Rightarrow> nat \<Rightarrow> change list option" where
  "read_page lib s d lo cut_at =
     Option.bind (those (map (\<lambda>k. read_upserts lib s k (dr_session d) lo cut_at (dr_batch d)) (dr_kinds d)))
       (\<lambda>upserts. Option.bind (read_tombstones lib s (dr_kinds d) (dr_session d) lo cut_at (dr_batch d))
       (\<lambda>deletes. Some (take (dr_batch d)
          (sort_key (\<lambda>c. (ch_revision c, ch_kind c, ch_record_key c)) (concat upserts @ deletes)))))"

lemma in_read_range:
  "x \<in> set (read_range lo hi batch revision rows) \<Longrightarrow> x \<in> set rows \<and> lo < revision x \<and> revision x \<le> hi"
  by (auto simp: read_range_def in_range_def dest!: in_set_takeD)

definition key_pass ::
  "feed_store \<Rightarrow> change_kind list \<Rightarrow> (string \<times> string) option \<Rightarrow> nat \<Rightarrow> nat \<Rightarrow> nat \<Rightarrow> nat list" where
  "key_pass s kinds session lo hi batch =
     concat (map (\<lambda>k. map fr_revision (read_range lo hi batch fr_revision (fed_rows s session k))) kinds) @
     concat (map (\<lambda>k. map tb_revision (read_range lo hi batch tb_revision (fed_tombstones s session k))) kinds)"

lemma page_cut_key_pass:
  "page_cut s kinds session lo hi batch =
     (let rs = key_pass s kinds session lo hi batch
      in if rs = [] then None else Some (min (if batch - 1 < length rs then sort rs ! (batch - 1) else hi) hi))"
  unfolding page_cut_def key_pass_def ..

lemma page_cut_above:
  assumes "page_cut s kinds session lo hi batch = Some cut_at" and "lo < hi"
  shows "lo < cut_at" "cut_at \<le> hi"
proof -
  let ?rs = "key_pass s kinds session lo hi batch"
  have cut: "cut_at = min (if batch - 1 < length ?rs then sort ?rs ! (batch - 1) else hi) hi"
    using assms(1) by (simp add: page_cut_key_pass Let_def split: if_splits)
  have above: "lo < n" if "n \<in> set ?rs" for n
    using that by (auto simp: key_pass_def dest!: in_read_range)
  have "lo < sort ?rs ! (batch - 1)" if "batch - 1 < length ?rs"
  proof -
    have "sort ?rs ! (batch - 1) \<in> set (sort ?rs)" by (rule nth_mem) (use that in simp)
    then show ?thesis using above by simp
  qed
  then show "lo < cut_at" "cut_at \<le> hi" using assms(2) unfolding cut by auto
qed

lemma drain_simps [simp]:
  "dr_buffer (exhaust d) = dr_buffer d" "dr_exhausted (exhaust d)" "dr_position (exhaust d) = dr_head d"
  "dr_head (exhaust d) = dr_head d" "dr_kinds (exhaust d) = dr_kinds d" "dr_batch (exhaust d) = dr_batch d"
  "dr_session (exhaust d) = dr_session d"
  "dr_buffer (at_revision n d) = dr_buffer d" "dr_exhausted (at_revision n d) = dr_exhausted d"
  "wm_revision (dr_position (at_revision n d)) = n" "wm_epoch (dr_position (at_revision n d)) = wm_epoch (dr_head d)"
  "dr_head (at_revision n d) = dr_head d" "dr_kinds (at_revision n d) = dr_kinds d"
  "dr_batch (at_revision n d) = dr_batch d" "dr_session (at_revision n d) = dr_session d"
  by (simp_all add: exhaust_def at_revision_def)

text \<open>\<open>Changes::fill\<close>, in one snapshot of the store. A failure leaves the drain where it had come to.\<close>

function fill :: "feed_lib \<Rightarrow> feed_store \<Rightarrow> changes \<Rightarrow> bool \<times> changes" where
  "fill lib s d =
     (if wm_revision (dr_head d) \<le> wm_revision (dr_position d) then (True, exhaust d)
      else case page_cut s (dr_kinds d) (dr_session d) (wm_revision (dr_position d)) (wm_revision (dr_head d))
             (dr_batch d) of
        None \<Rightarrow> (True, exhaust d)
      | Some cut_at \<Rightarrow>
          (case read_page lib s d (wm_revision (dr_position d)) cut_at of
             None \<Rightarrow> (False, d)
           | Some [] \<Rightarrow> fill lib s (at_revision cut_at d)
           | Some rows \<Rightarrow> (True, d\<lparr>dr_buffer := dr_buffer d @ rows\<rparr>)))"
  by pat_completeness auto

termination
proof (relation "measure (\<lambda>(lib, s, d). wm_revision (dr_head d) - wm_revision (dr_position d))")
  fix lib s and d :: changes and cut_at page
  assume "\<not> wm_revision (dr_head d) \<le> wm_revision (dr_position d)"
    and "page_cut s (dr_kinds d) (dr_session d) (wm_revision (dr_position d)) (wm_revision (dr_head d))
      (dr_batch d) = Some cut_at"
  then have "wm_revision (dr_position d) < cut_at" "cut_at \<le> wm_revision (dr_head d)"
    using page_cut_above by (metis linorder_not_le)+
  then show "((lib, s, at_revision cut_at d), lib, s, d) \<in> measure (\<lambda>(lib, s, d).
      wm_revision (dr_head d) - wm_revision (dr_position d))"
    by (simp add: at_revision_def)
qed simp

declare fill.simps [simp del]

text \<open>\<open>Iterator::next\<close>: a buffered change, or the next page.\<close>

fun pop :: "changes \<Rightarrow> (change \<times> changes) option" where
  "pop d = (case dr_buffer d of [] \<Rightarrow> None | c # cs \<Rightarrow> Some (c, at_revision (ch_revision c) (d\<lparr>dr_buffer := cs\<rparr>)))"

lemma fill_result:
  assumes "fill lib s d = (True, d')"
  shows "dr_buffer d' \<noteq> [] \<or> dr_exhausted d'"
  using assms
proof (induction lib s d rule: fill.induct)
  case (1 lib s d)
  show ?case
  proof (cases "wm_revision (dr_head d) \<le> wm_revision (dr_position d)")
    case True
    then have "d' = exhaust d" using "1.prems" by (simp add: fill.simps [of lib s d])
    then show ?thesis by simp
  next
    case False
    show ?thesis
    proof (cases "page_cut s (dr_kinds d) (dr_session d) (wm_revision (dr_position d)) (wm_revision (dr_head d))
        (dr_batch d)")
      case None
      then have "d' = exhaust d" using "1.prems" False by (simp add: fill.simps [of lib s d])
      then show ?thesis by simp
    next
      case (Some c)
      show ?thesis
      proof (cases "read_page lib s d (wm_revision (dr_position d)) c")
        case None
        then show ?thesis using "1.prems" False Some by (simp add: fill.simps [of lib s d])
      next
        case page: (Some rows)
        show ?thesis
        proof (cases rows)
          case Nil
          then show ?thesis
            using "1.IH" [OF False Some page Nil] "1.prems" False Some page by (simp add: fill.simps [of lib s d])
        next
          case (Cons r rs)
          then have "d' = d\<lparr>dr_buffer := dr_buffer d @ r # rs\<rparr>"
            using "1.prems" False Some page by (simp add: fill.simps [of lib s d])
          then show ?thesis by simp
        qed
      qed
    qed
  qed
qed

function next_change :: "feed_lib \<Rightarrow> feed_store \<Rightarrow> changes \<Rightarrow> (feed_error + change) option \<times> changes" where
  "next_change lib s d =
     (case pop d of
        Some (c, d') \<Rightarrow> (Some (Inr c), d')
      | None \<Rightarrow>
          if dr_exhausted d then (None, d)
          else case fill lib s d of
            (True, d') \<Rightarrow> next_change lib s d'
          | (False, d') \<Rightarrow> (Some (Inl FeedQuery), d'\<lparr>dr_exhausted := True\<rparr>))"
  by pat_completeness auto

termination
proof (relation "measure (\<lambda>(lib, s, d). if dr_buffer d = [] \<and> \<not> dr_exhausted d then 1 else 0)", goal_cases)
  case (2 lib s d filled d')
  have "dr_buffer d' \<noteq> [] \<or> dr_exhausted d'" by (rule fill_result [of lib s d]) (use 2 in simp)
  then show ?case using 2 by (auto split: list.splits)
qed simp

declare next_change.simps [simp del]

end
