(* ===== verification/FeedCursors.thy ===== *)
theory FeedCursors
  imports FeedDrain
begin

text \<open>
  Opening a drain and the named cursors (\<open>change_feed.rs\<close>, \<open>change_feed/epochs.rs\<close>): where a drain
  starts and stops, which watermarks a store accepts, committing a position, retiring a kind. The store
  is the database the path names when the operation opens it; each read or statement sees one state of
  it. The table of retired epochs is the association list \<open>fd_epochs\<close>, empty where the database has
  no such table.
\<close>

definition DEFAULT_CHANGE_BATCH :: nat where
  "DEFAULT_CHANGE_BATCH = 1000"

definition MAX_CHANGE_BATCH :: nat where
  "MAX_CHANGE_BATCH = 10000"

definition MAX_EPOCH_LINKS :: nat where
  "MAX_EPOCH_LINKS = 64"

definition read_head :: "feed_store \<Rightarrow> watermark" where
  "read_head s = \<lparr>wm_revision = fd_clock s, wm_epoch = fd_epoch s\<rparr>"

definition head_revision :: "feed_store \<Rightarrow> watermark" where
  "head_revision s = (if fd_current s then read_head s else START)"

definition read_cursor :: "feed_store \<Rightarrow> string \<Rightarrow> (nat \<times> string) option" where
  "read_cursor s name = map_of (fd_cursors s) name"

section \<open>Retired epochs\<close>

definition leaves_out_a_kind :: "change_kind list \<Rightarrow> bool" where
  "leaves_out_a_kind kinds \<longleftrightarrow> kinds \<noteq> ALL_KINDS"

text \<open>At most \<open>links\<close> retirements are followed.\<close>

fun follow_links :: "(64 word \<times> (64 word \<times> nat)) list \<Rightarrow> nat \<Rightarrow> 64 word \<Rightarrow> nat \<Rightarrow> 64 word \<Rightarrow> bool" where
  "follow_links epochs revision head 0 epoch \<longleftrightarrow> False"
| "follow_links epochs revision head (Suc links) epoch \<longleftrightarrow>
     (case map_of epochs epoch of
        None \<Rightarrow> False
      | Some (successor, through) \<Rightarrow>
          if through < revision then False
          else if successor = head then True
          else follow_links epochs revision head links successor)"

definition continues :: "feed_store \<Rightarrow> watermark \<Rightarrow> 64 word \<Rightarrow> change_kind list \<Rightarrow> bool" where
  "continues s from head kinds \<longleftrightarrow>
     (if wm_epoch from = head then True
      else if \<not> leaves_out_a_kind kinds then False
      else follow_links (fd_epochs s) (wm_revision from) head MAX_EPOCH_LINKS (wm_epoch from))"

definition check_issued :: "feed_store \<Rightarrow> watermark \<Rightarrow> watermark \<Rightarrow> change_kind list \<Rightarrow> feed_error + unit" where
  "check_issued s from head kinds =
     (if from = START \<or> from = CONSUMER \<or> continues s from (wm_epoch head) kinds then Inr ()
      else Inl WatermarkAheadOfStore)"

text \<open>Odd and nonzero, like the identity a store starts with: the largest \<open>i64\<close> is followed by \<open>-i64::MAX\<close>.\<close>

definition next_epoch :: "64 word \<Rightarrow> 64 word" where
  "next_epoch epoch = (if epoch = 2 ^ 63 - 1 then 2 ^ 63 + 1 else epoch + 2)"

definition retire_cursors :: "string list \<Rightarrow> (string \<times> (nat \<times> string)) list \<Rightarrow> (string \<times> (nat \<times> string)) list" where
  "retire_cursors removed cursors =
     List.map_filter (\<lambda>(name, revision, kinds).
       let named = split_char (CHR '','') kinds
       in if kinds = ''*'' \<or> list_ex (\<lambda>kind. kind \<in> set removed) named then None
          else if length named = length ALL_KINDS \<and> list_all (\<lambda>k. kind_str k \<in> set named) ALL_KINDS
          then Some (name, revision, stored_kinds (normalize_kinds None))
          else Some (name, revision, kinds)) cursors"

definition retire_kinds :: "string list \<Rightarrow> feed_store \<Rightarrow> feed_store" where
  "retire_kinds removed s =
     s\<lparr>fd_epochs := AList.update (fd_epoch s) (next_epoch (fd_epoch s), fd_clock s) (fd_epochs s),
       fd_epoch := next_epoch (fd_epoch s),
       fd_cursors := retire_cursors removed (fd_cursors s)\<rparr>"

section \<open>Opening a drain\<close>

definition resolve_start_and_head ::
  "feed_store \<Rightarrow> watermark \<Rightarrow> string option \<Rightarrow> change_kind list \<Rightarrow>
     feed_error + watermark \<times> watermark \<times> watermark option" where
  "resolve_start_and_head s from consumer kinds =
     (let cursor = Option.bind consumer (read_cursor s);
          start = (if from = CONSUMER then
                     (case consumer of
                        None \<Rightarrow> Inl InvalidArgument
                      | Some name \<Rightarrow>
                          (case cursor of
                             None \<Rightarrow> Inr (wm_revision START)
                           | Some (revision, stored) \<Rightarrow>
                               if stored \<noteq> stored_kinds kinds then Inl ConsumerKindsMismatch else Inr revision))
                   else Inr (wm_revision from));
          head = read_head s;
          in_store = (\<lambda>revision. \<lparr>wm_revision = revision, wm_epoch = wm_epoch head\<rparr>);
          stale = (case cursor of
                     Some (revision, _) \<Rightarrow> if wm_revision head < revision then Some (in_store revision) else None
                   | None \<Rightarrow> None)
      in and_then start (\<lambda>revision. Inr (in_store revision, head, stale)))"

definition batch_of :: "change_query \<Rightarrow> nat" where
  "batch_of query = (if cq_batch query = 0 then DEFAULT_CHANGE_BATCH else min (cq_batch query) MAX_CHANGE_BATCH)"

definition changes_since :: "bool \<Rightarrow> feed_store \<Rightarrow> watermark \<Rightarrow> change_query \<Rightarrow> feed_error + changes" where
  "changes_since read_only s from query =
     (if \<not> fd_current s then Inl FeedDatabaseOpen
      else and_then (validate_query from query) (\<lambda>_.
        let kinds = normalize_kinds (cq_kinds query)
        in and_then (resolve_start_and_head s from (cq_consumer query) kinds) (\<lambda>(start, head, stale).
           and_then (check_issued s from head kinds) (\<lambda>_.
             if wm_revision head < wm_revision start then Inl WatermarkAheadOfStore
             else Inr \<lparr>dr_kinds = kinds, dr_consumer = cq_consumer query, dr_session = cq_session query,
                 dr_batch = batch_of query, dr_head = head, dr_position = start, dr_stale = stale,
                 dr_buffer = [], dr_exhausted = False, dr_read_only = read_only\<rparr>))))"

definition resumes_from :: "feed_store \<Rightarrow> watermark \<Rightarrow> change_query \<Rightarrow> feed_error + bool" where
  "resumes_from s from query =
     and_then (validate_query from query) (\<lambda>_.
       if from = START then Inr True
       else if \<not> fd_current s then Inr False
       else let kinds = normalize_kinds (cq_kinds query)
         in and_then (resolve_start_and_head s from (cq_consumer query) kinds) (\<lambda>(start, head, stale).
            Inr ((from = CONSUMER \<or> continues s from (wm_epoch head) kinds) \<and>
                 wm_revision start \<le> wm_revision head)))"

section \<open>Committing a position\<close>

text \<open>The cursor a conflicting insert keeps: the offered one over the stale one, else the greater.\<close>

definition merged_cursor :: "watermark option \<Rightarrow> nat \<Rightarrow> nat \<Rightarrow> nat" where
  "merged_cursor stale held offered =
     (if map_option wm_revision stale = Some held then offered else max held offered)"

definition commit_cursor ::
  "feed_store \<Rightarrow> string \<Rightarrow> watermark \<Rightarrow> change_kind list \<Rightarrow> watermark option \<Rightarrow>
     (feed_error + watermark) \<times> feed_store" where
  "commit_cursor s name position kinds stale =
     (let offered = stored_kinds kinds;
          valid = (fd_epoch s = wm_epoch position \<and> wm_revision position \<le> fd_clock s);
          written = (if \<not> valid then None
                     else case read_cursor s name of
                       None \<Rightarrow> Some (wm_revision position)
                     | Some (held, stored) \<Rightarrow>
                         if stored = offered then Some (merged_cursor stale held (wm_revision position)) else None)
      in case written of
           Some revision \<Rightarrow>
             (Inr \<lparr>wm_revision = revision, wm_epoch = wm_epoch position\<rparr>,
              s\<lparr>fd_cursors := AList.update name (revision, offered) (fd_cursors s)\<rparr>)
         | None \<Rightarrow>
             (Inl (if fd_epoch s \<noteq> wm_epoch position then WatermarkAheadOfStore
                   else if fd_clock s < wm_revision position then WatermarkAheadOfStore
                   else ConsumerKindsMismatch), s))"

definition commit :: "changes \<Rightarrow> feed_store \<Rightarrow> (feed_error + watermark) \<times> feed_store" where
  "commit d s =
     (case dr_consumer d of
        None \<Rightarrow> (Inl InvalidArgument, s)
      | Some name \<Rightarrow>
          if dr_read_only d then (Inl FeedReadOnly, s)
          else commit_cursor s name (dr_position d) (dr_kinds d) (dr_stale d))"

end
