(* ===== verification/FeedPages.thy ===== *)
theory FeedPages
  imports FeedInvariant FeedCursors
begin

text \<open>
  What a page read returns on a store in order: no read fails, and the page holds exactly the entries of
  the drain's kinds above the position and up to the cut, each with the key, revision and row the store
  has for it, in the order of their revisions. The two passes agree because revisions are unique.
\<close>

section \<open>A cut over streams of revisions\<close>

lemma map_sort_key: "map f (sort_key f xs) = sort (map f xs)"
  by (rule sym, rule properties_for_sort) (simp_all add: mset_map)

lemma distinct_concat_map:
  assumes "distinct ks" "\<And>k. k \<in> set ks \<Longrightarrow> distinct (f k)"
    and "\<And>k k'. k \<in> set ks \<Longrightarrow> k' \<in> set ks \<Longrightarrow> k \<noteq> k' \<Longrightarrow> set (f k) \<inter> set (f k') = {}"
  shows "distinct (concat (map f ks))"
  using assms
proof (induction ks)
  case (Cons k ks)
  have "set (f k) \<inter> set (concat (map f ks)) = {}" using Cons.prems by auto
  then show ?case using Cons by simp
qed simp

definition limited :: "nat \<Rightarrow> nat list list \<Rightarrow> nat list" where
  "limited batch streams = concat (map (\<lambda>xs. take batch (sort xs)) streams)"

lemma set_limited: "set (limited batch streams) \<subseteq> set (concat streams)"
  by (fastforce simp: limited_def dest: in_set_takeD)

lemma take_sort_distinct: "distinct xs \<Longrightarrow> distinct (take batch (sort xs))"
  by (rule distinct_take) simp

lemma distinct_limited: "distinct (concat streams) \<Longrightarrow> distinct (limited batch streams)"
proof (induction streams)
  case (Cons xs streams)
  have "set (take batch (sort xs)) \<subseteq> set xs" by (auto dest: in_set_takeD)
  then show ?case
    using Cons set_limited [of batch streams] take_sort_distinct [of xs batch] by (auto simp: limited_def)
qed (simp add: limited_def)

lemma limited_Nil: "0 < batch \<Longrightarrow> limited batch streams = [] \<longleftrightarrow> concat streams = []"
  by (auto simp: limited_def)

lemma smaller_in_take:
  assumes "sorted rs" "n \<in> set rs" "i < length rs" "n < rs ! i"
  shows "n \<in> set (take i rs)"
proof -
  obtain j where j: "j < length rs" "n = rs ! j" using assms(2) by (metis in_set_conv_nth)
  then have "j < i" using assms by (metis linorder_not_le sorted_nth_mono)
  then show ?thesis using j assms(3) by (auto simp: in_set_conv_nth intro!: exI [of _ j])
qed

lemma cut_count:
  fixes streams :: "nat list list"
  assumes dist: "distinct (concat streams)" and batch: "0 < batch"
    and cut_at: "batch - 1 < length (limited batch streams) \<Longrightarrow> c = sort (limited batch streams) ! (batch - 1)"
  shows "card {n \<in> set (concat streams). n \<le> c} \<le> batch"
proof (cases "batch - 1 < length (limited batch streams)")
  case True
  let ?rs = "sort (limited batch streams)"
  have rs: "sorted ?rs" "distinct ?rs" "length ?rs = length (limited batch streams)"
    using distinct_limited [OF dist] by simp_all
  have c: "c = ?rs ! (batch - 1)" by (rule cut_at [OF True])
  have "{n \<in> set (concat streams). n \<le> c} \<subseteq> set (take batch ?rs)"
  proof
    fix n assume "n \<in> {n \<in> set (concat streams). n \<le> c}"
    then obtain xs where xs: "xs \<in> set streams" "n \<in> set xs" and le: "n \<le> c" by auto
    have "n \<in> set (take batch (sort xs))"
    proof (rule ccontr)
      assume "n \<notin> set (take batch (sort xs))"
      moreover have "n \<in> set (take batch (sort xs)) \<union> set (drop batch (sort xs))"
        using xs(2) by (metis append_take_drop_id set_append set_sort)
      ultimately have drop: "n \<in> set (drop batch (sort xs))" by simp
      then have "batch < length (sort xs)" by (cases "batch < length (sort xs)") auto
      then have len: "length (take batch (sort xs)) = batch" by simp
      have "distinct xs" using dist xs(1) by (simp add: distinct_concat_iff)
      then have sxs: "distinct (take batch (sort xs) @ drop batch (sort xs))" "sorted (take batch (sort xs) @ drop batch (sort xs))"
        by (simp_all del: length_take)
      have below: "m < n" if "m \<in> set (take batch (sort xs))" for m
        using sxs that drop unfolding sorted_append distinct_append by (metis disjoint_iff le_neq_implies_less)
      have "set (take batch (sort xs)) \<subseteq> set (take (batch - 1) ?rs)"
      proof
        fix m assume m: "m \<in> set (take batch (sort xs))"
        then have "m \<in> set ?rs" using xs(1) by (auto simp: limited_def)
        moreover have "m < ?rs ! (batch - 1)" using below [OF m] le c by simp
        ultimately show "m \<in> set (take (batch - 1) ?rs)"
          using smaller_in_take [OF rs(1)] True rs(3) by simp
      qed
      then have "card (set (take batch (sort xs))) \<le> card (set (take (batch - 1) ?rs))" by (simp add: card_mono)
      also have "\<dots> \<le> batch - 1" by (rule order_trans [OF card_length]) simp
      finally have "card (set (take batch (sort xs))) \<le> batch - 1" .
      moreover have "card (set (take batch (sort xs))) = batch" using len sxs(1) by (metis distinct_append distinct_card)
      ultimately show False using batch by simp
    qed
    then have n: "n \<in> set ?rs" using xs(1) by (auto simp: limited_def)
    show "n \<in> set (take batch ?rs)"
    proof (cases "n = c")
      case True
      then show ?thesis using c \<open>batch - 1 < length (limited batch streams)\<close> batch
        by (auto simp: in_set_conv_nth intro!: exI [of _ "batch - 1"])
    next
      case False
      then have "n \<in> set (take (batch - 1) ?rs)"
        using smaller_in_take [OF rs(1) n] le c True rs(3) by simp
      then show ?thesis using set_take_subset_set_take [of "batch - 1" batch ?rs] by auto
    qed
  qed
  then have "card {n \<in> set (concat streams). n \<le> c} \<le> card (set (take batch ?rs))" by (simp add: card_mono)
  also have "\<dots> \<le> batch" by (rule order_trans [OF card_length]) simp
  finally show ?thesis .
next
  case False
  have short: "length xs < batch" if "xs \<in> set streams" for xs
  proof (rule ccontr)
    assume "\<not> length xs < batch"
    then have "batch \<le> length (take batch (sort xs))" by simp
    also have "\<dots> \<le> length (limited batch streams)"
      using that unfolding limited_def by (induction streams) auto
    finally show False using False batch by simp
  qed
  then have "take batch (sort xs) = sort xs" if "xs \<in> set streams" for xs using that by (simp add: less_imp_le)
  then have "length (limited batch streams) = length (concat streams)"
    unfolding limited_def by (simp add: length_concat cong: map_cong)
  then have "length (concat streams) \<le> batch" using False batch by simp
  moreover have "card {n \<in> set (concat streams). n \<le> c} \<le> card (set (concat streams))" by (rule card_mono) auto
  ultimately show ?thesis using card_length [of "concat streams"] by linarith
qed

section \<open>One record, read\<close>

lemma row_get_carried:
  "c \<in> set columns \<Longrightarrow> row_get (stored_row_of columns row) c = stored_value (cell row c)"
  by (induction columns) (auto simp: row_get_def stored_row_of_def)

lemma row_key_carried:
  assumes "columns_ok s"
  shows "key_from_row k (carried_row s k row) = row_key k row"
  using assms row_get_carried
  by (auto simp: key_from_row_def row_key_def key_cells_def carried_row_def columns_ok_def subset_iff)

lemma row_texts:
  assumes doc: "lib_documented lib" and ok: "row_ok k row"
  shows "\<exists>t. source_sql (table_of k) row = SqlText t" "\<exists>t. session_sql (table_of k) row = SqlText t"
    "\<exists>t. record_key_sql lib (table_of k) row = SqlText t"
proof -
  show "\<exists>t. source_sql (table_of k) row = SqlText t"
    using row_ok_lead [OF ok, of "''source''"] by (simp add: lead_def)
  show "\<exists>t. session_sql (table_of k) row = SqlText t"
    using ok by (auto simp: row_ok_def session_sql_def split: sql_value.splits)
  show "\<exists>t. record_key_sql lib (table_of k) row = SqlText t"
    using row_ok_record(2) [OF ok] by (auto simp: record_key_sql_def split: list.splits)
qed

definition shows_entry :: "change \<Rightarrow> json list \<Rightarrow> nat \<Rightarrow> stored_row option \<Rightarrow> bool" where
  "shows_entry c x n v \<longleftrightarrow> ch_key c = x \<and> ch_revision c = n \<and> ch_columns c = v"

lemma upsert_of_ok:
  assumes doc: "lib_documented lib" and s: "feed_ok lib s" and r: "r \<in> set (fd_tables s k)"
  shows "\<exists>c. upsert_of lib s k r = Some c \<and>
    shows_entry c (row_key k (fr_cells r)) (fr_revision r) (Some (carried_row s k (fr_cells r)))"
proof -
  have cols: "columns_ok s" and ok: "row_ok k (fr_cells r)"
    using s rows_okD(1) [OF _ r] by (simp_all add: feed_ok_def)
  show ?thesis
    using row_texts [OF doc ok] row_key_carried [OF cols, of k "fr_cells r"]
    by (auto simp: upsert_of_def shows_entry_def carried_row_def get_text_def)
qed

lemma delete_of_ok:
  assumes doc: "lib_documented lib" and s: "feed_ok lib s" and t: "t \<in> set (fd_tombstones s)" "tb_kind t = kind_str k"
  shows "\<exists>c row. delete_of lib k t = Some c \<and> row_ok k row \<and> names lib k row t \<and>
    shows_entry c (row_key k row) (tb_revision t) None"
proof -
  obtain k' row where row: "row_ok k' row" "names lib k' row t"
    using s t(1) unfolding feed_ok_def tombs_ok_def by blast
  then have k: "k' = k" using t(2) by (simp add: names_def)
  have "tomb_key lib k t = Some (row_key k row)" using names_key [OF doc] row k by blast
  then have "\<exists>c. delete_of lib k t = Some c \<and> shows_entry c (row_key k row) (tb_revision t) None"
    by (auto simp: tomb_key_def delete_of_def shows_entry_def split: option.splits)
  then show ?thesis using row k by blast
qed

section \<open>A page\<close>

definition of_kinds :: "change_kind list \<Rightarrow> json list \<Rightarrow> bool" where
  "of_kinds kinds x \<longleftrightarrow> (\<exists>k \<in> set kinds. \<exists>vs. x = JString (kind_str k) # vs)"

lemma of_kinds_row_key [simp]: "of_kinds kinds (row_key k row) \<longleftrightarrow> k \<in> set kinds"
  by (auto simp: of_kinds_def row_key_def)

lemma those_map: "(\<And>x. x \<in> set xs \<Longrightarrow> f x = Some (g x)) \<Longrightarrow> those (map f xs) = Some (map g xs)"
  by (induction xs) auto

definition revision_streams :: "feed_store \<Rightarrow> change_kind list \<Rightarrow> nat \<Rightarrow> nat \<Rightarrow> nat list list" where
  "revision_streams s kinds lo hi =
     map (\<lambda>k. map fr_revision (in_range lo hi fr_revision (fed_rows s None k))) kinds @
     map (\<lambda>k. map tb_revision (in_range lo hi tb_revision (fed_tombstones s None k))) kinds"

lemma fed_rows_None [simp]: "fed_rows s None k = fd_tables s k"
  by (simp add: fed_rows_def upsert_session_def)

lemma fed_tombstones_None: "fed_tombstones s None k = filter (\<lambda>t. tb_kind t = kind_str k) (fd_tombstones s)"
  by (simp add: fed_tombstones_def tombstone_session_def)

lemma key_pass_limited: "key_pass s kinds None lo hi batch = limited batch (revision_streams s kinds lo hi)"
  by (simp add: key_pass_def limited_def revision_streams_def read_range_def take_map [symmetric] map_sort_key comp_def)

lemma slot_row: "r \<in> set (fd_tables s k) \<Longrightarrow> slot s (Inl (k, fr_rowid r)) (fr_revision r)"
  by auto

lemma slot_tomb: "t \<in> set (fd_tombstones s) \<Longrightarrow> slot s (Inr (tb_pk t)) (tb_revision t)"
  by auto

lemma slot_unique: "feed_ok lib s \<Longrightarrow> slot s a n \<Longrightarrow> slot s b n \<Longrightarrow> a = b"
  unfolding feed_ok_def by blast

lemma row_revisions:
  assumes s: "feed_ok lib s"
  shows "distinct (map fr_revision (fd_tables s k))"
proof -
  have ids: "distinct (map fr_rowid (fd_tables s k))"
    using s by (simp add: feed_ok_def rows_ok_def bare_ok_def bare_def comp_def)
  have "inj_on fr_revision (set (fd_tables s k))"
  proof (rule inj_onI)
    fix r r' assume r: "r \<in> set (fd_tables s k)" "r' \<in> set (fd_tables s k)" "fr_revision r = fr_revision r'"
    have "Inl (k, fr_rowid r) = (Inl (k, fr_rowid r') :: slot)"
      using slot_unique [OF s slot_row [OF r(1)]] slot_row [OF r(2)] r(3) by metis
    then show "r = r'" using ids r by (auto simp: distinct_map inj_on_def)
  qed
  then show ?thesis using ids by (simp add: distinct_map)
qed

lemma tomb_revisions:
  assumes s: "feed_ok lib s"
  shows "distinct (map tb_revision (fd_tombstones s))"
proof -
  have ids: "distinct (map tb_pk (fd_tombstones s))" using s by (simp add: feed_ok_def tombs_ok_def)
  have "inj_on tb_revision (set (fd_tombstones s))"
  proof (rule inj_onI)
    fix t t' assume t: "t \<in> set (fd_tombstones s)" "t' \<in> set (fd_tombstones s)" "tb_revision t = tb_revision t'"
    have "Inr (tb_pk t) = (Inr (tb_pk t') :: slot)"
      using slot_unique [OF s slot_tomb [OF t(1)]] slot_tomb [OF t(2)] t(3) by metis
    then show "t = t'" using ids t by (auto simp: distinct_map inj_on_def)
  qed
  then show ?thesis using ids by (simp add: distinct_map)
qed

lemma in_range_set: "x \<in> set (in_range lo hi revision rows) \<longleftrightarrow> x \<in> set rows \<and> lo < revision x \<and> revision x \<le> hi"
  by (auto simp: in_range_def)

lemma distinct_in_range: "distinct (map revision rows) \<Longrightarrow> distinct (map revision (in_range lo hi revision rows))"
  by (simp add: in_range_def distinct_map_filter)

lemma disjoint_slots:
  assumes "feed_ok lib s" "\<And>n. n \<in> A \<Longrightarrow> \<exists>i. P i \<and> slot s i n" "\<And>n. n \<in> B \<Longrightarrow> \<exists>i. Q i \<and> slot s i n"
    and "\<And>i. P i \<Longrightarrow> Q i \<Longrightarrow> False"
  shows "A \<inter> B = {}"
  using assms slot_unique by (metis disjoint_iff)

lemma in_concat_map: "x \<in> set (concat (map f ks)) \<longleftrightarrow> (\<exists>k \<in> set ks. x \<in> set (f k))"
  by simp

lemma streams_distinct:
  assumes s: "feed_ok lib s" and k: "distinct kinds"
  shows "distinct (concat (revision_streams s kinds lo hi))"
proof -
  let ?ups = "\<lambda>k. map fr_revision (in_range lo hi fr_revision (fed_rows s None k))"
  let ?del = "\<lambda>k. map tb_revision (in_range lo hi tb_revision (fed_tombstones s None k))"
  have ups: "\<exists>i. slot s (Inl (k, i)) n" if n: "n \<in> set (?ups k)" for k n
  proof -
    obtain r where "r \<in> set (fd_tables s k)" "n = fr_revision r" using n by (auto simp: in_range_set)
    then show ?thesis using slot_row by blast
  qed
  have del: "\<exists>pk. fst pk = kind_str k \<and> slot s (Inr pk) n" if n: "n \<in> set (?del k)" for k n
  proof -
    obtain t where "t \<in> set (fd_tombstones s)" "tb_kind t = kind_str k" "n = tb_revision t"
      using n by (auto simp: in_range_set fed_tombstones_None)
    then have "fst (tb_pk t) = kind_str k \<and> slot s (Inr (tb_pk t)) n" by (auto simp: tb_pk_def)
    then show ?thesis by blast
  qed
  have "distinct (concat (map ?ups kinds))"
  proof (rule distinct_concat_map [OF k])
    show "distinct (?ups k)" for k using row_revisions [OF s] by (simp add: distinct_in_range)
    show "set (?ups k) \<inter> set (?ups k') = {}" if "k \<noteq> k'" for k k'
    proof (rule disjoint_slots [OF s])
      show "\<exists>a. (\<exists>i. a = Inl (k, i)) \<and> slot s a n" if "n \<in> set (?ups k)" for n using ups [OF that] by blast
      show "\<exists>a. (\<exists>i. a = Inl (k', i)) \<and> slot s a n" if "n \<in> set (?ups k')" for n using ups [OF that] by blast
    qed (use that in auto)
  qed
  moreover have "distinct (concat (map ?del kinds))"
  proof (rule distinct_concat_map [OF k])
    show "distinct (?del k)" for k
      using tomb_revisions [OF s] by (simp add: distinct_in_range fed_tombstones_None distinct_map_filter)
    show "set (?del k) \<inter> set (?del k') = {}" if "k \<noteq> k'" for k k'
    proof (rule disjoint_slots [OF s])
      show "\<exists>a. (\<exists>pk. fst pk = kind_str k \<and> a = Inr pk) \<and> slot s a n" if "n \<in> set (?del k)" for n
        using del [OF that] by blast
      show "\<exists>a. (\<exists>pk. fst pk = kind_str k' \<and> a = Inr pk) \<and> slot s a n" if "n \<in> set (?del k')" for n
        using del [OF that] by blast
    qed (use that in auto)
  qed
  moreover have "set (concat (map ?ups kinds)) \<inter> set (concat (map ?del kinds)) = {}"
  proof (rule disjoint_slots [OF s])
    show "\<exists>a. (\<exists>p. a = Inl p) \<and> slot s a n" if "n \<in> set (concat (map ?ups kinds))" for n
      using that ups unfolding in_concat_map by blast
    show "\<exists>a. (\<exists>pk. a = Inr pk) \<and> slot s a n" if "n \<in> set (concat (map ?del kinds))" for n
      using that del unfolding in_concat_map by blast
  qed auto
  ultimately show ?thesis by (simp add: revision_streams_def)
qed

lemma entry_in_stream:
  assumes s: "feed_ok lib s" and e: "entry lib s x n v" and x: "of_kinds kinds x" and n: "lo < n" "n \<le> hi"
  shows "n \<in> set (concat (revision_streams s kinds lo hi))"
proof -
  consider (live) k r where "r \<in> set (fd_tables s k)" "x = row_key k (fr_cells r)" "n = fr_revision r"
    | (dead) k row t where "t \<in> set (fd_tombstones s)" "names lib k row t" "x = row_key k row" "n = tb_revision t"
    using e unfolding entry_def live_entry_def dead_entry_def by blast
  then show ?thesis
  proof cases
    case live
    then have "n \<in> set (map fr_revision (in_range lo hi fr_revision (fed_rows s None k)))" "k \<in> set kinds"
      using x n by (auto simp: in_range_set)
    then show ?thesis unfolding revision_streams_def concat_append set_append Un_iff in_concat_map by blast
  next
    case dead
    then have "tb_kind t = kind_str k" by (simp add: names_def)
    then have "n \<in> set (map tb_revision (in_range lo hi tb_revision (fed_tombstones s None k)))" "k \<in> set kinds"
      using dead x n by (auto simp: in_range_set fed_tombstones_None)
    then show ?thesis unfolding revision_streams_def concat_append set_append Un_iff in_concat_map by blast
  qed
qed

lemma strict_sorted_wrt:
  "sorted_wrt (\<lambda>a b. f a \<le> (f b :: 'b :: linorder)) xs \<Longrightarrow> distinct (map f xs) \<Longrightarrow> sorted_wrt (\<lambda>a b. f a < f b) xs"
proof (induction xs)
  case (Cons x xs)
  then have "f x < f y" if "y \<in> set xs" for y using that by (auto simp: le_less)
  then show ?case using Cons by simp
qed simp

lemma read_range_all:
  assumes "length (in_range lo hi revision rows) \<le> batch"
  shows "set (read_range lo hi batch revision rows) = set (in_range lo hi revision rows)"
  using assms by (simp add: read_range_def)

definition page_changes :: "feed_lib \<Rightarrow> feed_store \<Rightarrow> change_kind list \<Rightarrow> nat \<Rightarrow> nat \<Rightarrow> nat \<Rightarrow> change list" where
  "page_changes lib s kinds lo hi batch =
     concat (map (\<lambda>k. map (the \<circ> upsert_of lib s k) (read_range lo hi batch fr_revision (fd_tables s k))) kinds) @
     concat (map (\<lambda>k. map (the \<circ> delete_of lib k)
       (read_range lo hi batch tb_revision (fed_tombstones s None k))) kinds)"

lemma page_changes_read:
  assumes doc: "lib_documented lib" and s: "feed_ok lib s" and session: "dr_session d = None"
  shows "read_page lib s d lo hi = Some (take (dr_batch d) (sort_key (\<lambda>c. (ch_revision c, ch_kind c, ch_record_key c))
    (page_changes lib s (dr_kinds d) lo hi (dr_batch d))))"
proof -
  have ups: "read_upserts lib s k None lo hi batch =
      Some (map (the \<circ> upsert_of lib s k) (read_range lo hi batch fr_revision (fd_tables s k)))" for k batch
    unfolding read_upserts_def fed_rows_None
  proof (rule those_map)
    fix r assume "r \<in> set (read_range lo hi batch fr_revision (fd_tables s k))"
    then have "r \<in> set (fd_tables s k)" using in_read_range by fast
    then show "upsert_of lib s k r = Some ((the \<circ> upsert_of lib s k) r)" using upsert_of_ok [OF doc s] by fastforce
  qed
  have del: "those (map (delete_of lib k) (read_range lo hi batch tb_revision (fed_tombstones s None k))) =
      Some (map (the \<circ> delete_of lib k) (read_range lo hi batch tb_revision (fed_tombstones s None k)))" for k batch
  proof (rule those_map)
    fix t assume "t \<in> set (read_range lo hi batch tb_revision (fed_tombstones s None k))"
    then have "t \<in> set (fd_tombstones s)" "tb_kind t = kind_str k"
      using in_read_range [of t] by (fastforce simp: fed_tombstones_None)+
    then show "delete_of lib k t = Some ((the \<circ> delete_of lib k) t)" using delete_of_ok [OF doc s] by fastforce
  qed
  have some: "those (map (\<lambda>k. Some (g k)) ks) = Some (map g ks)" for g :: "change_kind \<Rightarrow> change list" and ks
    by (rule those_map) simp
  show ?thesis
    unfolding read_page_def read_tombstones_def session ups del some by (simp add: page_changes_def comp_def)
qed

lemma page_revisions:
  assumes doc: "lib_documented lib" and s: "feed_ok lib s"
  shows "map ch_revision (page_changes lib s kinds lo hi batch) = limited batch (revision_streams s kinds lo hi)"
proof -
  have ups: "map ch_revision (map (the \<circ> upsert_of lib s k) (read_range lo hi batch fr_revision (fd_tables s k))) =
      map fr_revision (read_range lo hi batch fr_revision (fd_tables s k))" for k
  proof -
    have "ch_revision (the (upsert_of lib s k r)) = fr_revision r"
      if "r \<in> set (read_range lo hi batch fr_revision (fd_tables s k))" for r
      using in_read_range [OF that] upsert_of_ok [OF doc s, of r k] by (auto simp: shows_entry_def)
    then show ?thesis by simp
  qed
  have del: "map ch_revision (map (the \<circ> delete_of lib k) (read_range lo hi batch tb_revision (fed_tombstones s None k))) =
      map tb_revision (read_range lo hi batch tb_revision (fed_tombstones s None k))" for k
  proof -
    have "ch_revision (the (delete_of lib k t)) = tb_revision t"
      if "t \<in> set (read_range lo hi batch tb_revision (fed_tombstones s None k))" for t
      using in_read_range [OF that] delete_of_ok [OF doc s, of t k] by (auto simp: shows_entry_def fed_tombstones_None)
    then show ?thesis by simp
  qed
  have ups: "map (map ch_revision) (map (\<lambda>k. map (the \<circ> upsert_of lib s k)
        (read_range lo hi batch fr_revision (fd_tables s k))) ks) =
      map (\<lambda>k. map fr_revision (read_range lo hi batch fr_revision (fd_tables s k))) ks" for ks
    by (induction ks) (simp_all only: list.map ups)
  have del: "map (map ch_revision) (map (\<lambda>k. map (the \<circ> delete_of lib k)
        (read_range lo hi batch tb_revision (fed_tombstones s None k))) ks) =
      map (\<lambda>k. map tb_revision (read_range lo hi batch tb_revision (fed_tombstones s None k))) ks" for ks
    by (induction ks) (simp_all only: list.map del)
  show ?thesis
    unfolding key_pass_limited [symmetric] page_changes_def key_pass_def map_append map_concat ups del fed_rows_None ..
qed

lemma in_range_upto:
  "c \<le> hi \<Longrightarrow> set (map f (in_range lo c f xs)) = {n \<in> set (map f (in_range lo hi f xs)). n \<le> c}"
  by (fastforce simp: in_range_set image_iff)

lemma in_streams:
  "n \<in> set (concat (revision_streams s kinds lo hi)) \<longleftrightarrow>
     (\<exists>k \<in> set kinds. n \<in> set (map fr_revision (in_range lo hi fr_revision (fed_rows s None k))) \<or>
        n \<in> set (map tb_revision (in_range lo hi tb_revision (fed_tombstones s None k))))"
  unfolding revision_streams_def concat_append set_append Un_iff in_concat_map by blast

lemma streams_upto:
  assumes "c \<le> hi"
  shows "set (concat (revision_streams s kinds lo c)) = {n \<in> set (concat (revision_streams s kinds lo hi)). n \<le> c}"
proof (rule set_eqI)
  fix n
  show "n \<in> set (concat (revision_streams s kinds lo c)) \<longleftrightarrow>
      n \<in> {n \<in> set (concat (revision_streams s kinds lo hi)). n \<le> c}"
    unfolding in_streams mem_Collect_eq in_range_upto [OF assms] by blast
qed

lemma streams_bounds:
  "n \<in> set (concat (revision_streams s kinds lo hi)) \<Longrightarrow> n \<le> hi"
  unfolding in_streams by (auto simp: in_range_set)

lemma stream_short:
  assumes dist: "distinct (concat streams)" and card: "card (set (concat streams)) \<le> batch" and xs: "xs \<in> set streams"
  shows "length xs \<le> batch"
proof -
  have "distinct xs" using dist xs by (simp add: distinct_concat_iff)
  then have "length xs = card (set xs)" by (simp add: distinct_card)
  also have "\<dots> \<le> card (set (concat streams))" using xs by (intro card_mono) auto
  finally show ?thesis using card by simp
qed

text \<open>The cut leaves at most a page below it, and something.\<close>

lemma cut_facts:
  assumes s: "feed_ok lib s" and kinds: "distinct kinds" and batch: "0 < batch"
    and cut_at: "page_cut s kinds None lo hi batch = Some c"
  shows "card (set (concat (revision_streams s kinds lo c))) \<le> batch"
    and "concat (revision_streams s kinds lo c) \<noteq> []"
proof -
  let ?streams = "concat (revision_streams s kinds lo hi)" and ?rs = "limited batch (revision_streams s kinds lo hi)"
  have rs: "?rs \<noteq> []" "c = min (if batch - 1 < length ?rs then sort ?rs ! (batch - 1) else hi) hi"
    using cut_at by (auto simp: page_cut_key_pass key_pass_limited Let_def split: if_splits)
  then have le: "c \<le> hi" by simp
  have nth: "c \<in> set ?streams \<and> c = sort ?rs ! (batch - 1)" if "batch - 1 < length ?rs"
  proof -
    have "sort ?rs ! (batch - 1) \<in> set (sort ?rs)" by (rule nth_mem) (use that in simp)
    then have "sort ?rs ! (batch - 1) \<in> set ?streams"
      using set_limited [of batch "revision_streams s kinds lo hi"] by (simp only: set_sort subset_iff)
    then show ?thesis using streams_bounds rs(2) that by simp
  qed
  have "card {n \<in> set ?streams. n \<le> c} \<le> batch"
    by (rule cut_count [OF streams_distinct [OF s kinds] batch]) (use nth in blast)
  then show "card (set (concat (revision_streams s kinds lo c))) \<le> batch" unfolding streams_upto [OF le] .
  obtain n where n: "n \<in> set ?streams" using rs(1) limited_Nil [OF batch] by (metis list.set_intros(1) neq_Nil_conv)
  have "\<exists>n \<in> set ?streams. n \<le> c"
  proof (cases "batch - 1 < length ?rs")
    case True
    then show ?thesis using nth by blast
  next
    case False
    then have "c = hi" using rs(2) by simp
    then show ?thesis using n streams_bounds [OF n] by blast
  qed
  then show "concat (revision_streams s kinds lo c) \<noteq> []"
    using streams_upto [OF le, of s kinds lo] by (metis (no_types, lifting) empty_iff empty_set mem_Collect_eq)
qed

text \<open>When a page holds all that is left up to its cut, no read is cut short.\<close>

lemma page_complete:
  assumes s: "feed_ok lib s" and kinds: "distinct kinds"
    and card: "card (set (concat (revision_streams s kinds lo c))) \<le> batch" and k: "k \<in> set kinds"
  shows "set (read_range lo c batch fr_revision (fd_tables s k)) = set (in_range lo c fr_revision (fd_tables s k))"
    and "set (read_range lo c batch tb_revision (fed_tombstones s None k)) =
      set (in_range lo c tb_revision (fed_tombstones s None k))"
proof -
  have short: "length xs \<le> batch" if "xs \<in> set (revision_streams s kinds lo c)" for xs
    by (rule stream_short [OF streams_distinct [OF s kinds] card that])
  show "set (read_range lo c batch fr_revision (fd_tables s k)) = set (in_range lo c fr_revision (fd_tables s k))"
    using short [of "map fr_revision (in_range lo c fr_revision (fed_rows s None k))"] k
    by (intro read_range_all) (simp add: revision_streams_def)
  show "set (read_range lo c batch tb_revision (fed_tombstones s None k)) =
      set (in_range lo c tb_revision (fed_tombstones s None k))"
    using short [of "map tb_revision (in_range lo c tb_revision (fed_tombstones s None k))"] k
    by (intro read_range_all) (simp add: revision_streams_def)
qed

lemma page_member:
  assumes doc: "lib_documented lib" and s: "feed_ok lib s" and ch: "ch \<in> set (page_changes lib s kinds lo c batch)"
  shows "lo < ch_revision ch \<and> ch_revision ch \<le> c \<and> of_kinds kinds (ch_key ch) \<and>
    entry lib s (ch_key ch) (ch_revision ch) (ch_columns ch)"
proof -
  consider (up) k r where "k \<in> set kinds" "r \<in> set (read_range lo c batch fr_revision (fd_tables s k))"
      "ch = the (upsert_of lib s k r)"
    | (del) k t where "k \<in> set kinds" "t \<in> set (read_range lo c batch tb_revision (fed_tombstones s None k))"
      "ch = the (delete_of lib k t)"
    using ch unfolding page_changes_def set_append Un_iff in_concat_map by auto
  then show ?thesis
  proof cases
    case up
    note r = in_read_range [OF up(2)]
    then have "live_entry s (row_key k (fr_cells r)) (fr_revision r) (Some (carried_row s k (fr_cells r)))"
      unfolding live_entry_def by blast
    then show ?thesis using upsert_of_ok [OF doc s, of r k] up r by (auto simp: shows_entry_def entry_def)
  next
    case del
    have t: "t \<in> set (fd_tombstones s)" "tb_kind t = kind_str k" "lo < tb_revision t" "tb_revision t \<le> c"
      using in_read_range [OF del(2)] by (simp_all add: fed_tombstones_None)
    then obtain ch' row where ch': "delete_of lib k t = Some ch'" "row_ok k row" "names lib k row t"
        "shows_entry ch' (row_key k row) (tb_revision t) None"
      using delete_of_ok [OF doc s] by blast
    then have "dead_entry lib s (row_key k row) (tb_revision t) None" using t(1) unfolding dead_entry_def by blast
    then show ?thesis using ch' del t by (auto simp: shows_entry_def entry_def)
  qed
qed

lemma in_page_changes:
  "k \<in> set kinds \<Longrightarrow> r \<in> set (read_range lo c batch fr_revision (fd_tables s k)) \<Longrightarrow>
     the (upsert_of lib s k r) \<in> set (page_changes lib s kinds lo c batch)"
  "k \<in> set kinds \<Longrightarrow> t \<in> set (read_range lo c batch tb_revision (fed_tombstones s None k)) \<Longrightarrow>
     the (delete_of lib k t) \<in> set (page_changes lib s kinds lo c batch)"
  unfolding page_changes_def set_append Un_iff in_concat_map set_map by force+

lemma page_found:
  assumes doc: "lib_documented lib" and s: "feed_ok lib s" and kinds: "distinct kinds"
    and card: "card (set (concat (revision_streams s kinds lo c))) \<le> batch"
    and e: "entry lib s x n v" "of_kinds kinds x" and n: "lo < n" "n \<le> c"
  shows "\<exists>ch \<in> set (page_changes lib s kinds lo c batch). shows_entry ch x n v"
proof -
  consider (live) k r where "r \<in> set (fd_tables s k)" "x = row_key k (fr_cells r)" "n = fr_revision r"
      "v = Some (carried_row s k (fr_cells r))"
    | (dead) k row t where "v = None" "t \<in> set (fd_tombstones s)" "row_ok k row" "names lib k row t"
      "x = row_key k row" "n = tb_revision t"
    using e(1) unfolding entry_def live_entry_def dead_entry_def by blast
  then show ?thesis
  proof cases
    case live
    then have k: "k \<in> set kinds" and "r \<in> set (in_range lo c fr_revision (fd_tables s k))"
      using e n by (simp_all add: in_range_set)
    then have "the (upsert_of lib s k r) \<in> set (page_changes lib s kinds lo c batch)"
      using page_complete(1) [OF s kinds card k] k by (intro in_page_changes(1)) simp_all
    moreover have "shows_entry (the (upsert_of lib s k r)) x n v"
      using upsert_of_ok [OF doc s live(1)] live by auto
    ultimately show ?thesis by blast
  next
    case dead
    then have k: "k \<in> set kinds" and kt: "tb_kind t = kind_str k" using e by (simp_all add: names_def)
    then have "t \<in> set (in_range lo c tb_revision (fed_tombstones s None k))"
      using dead n by (simp add: in_range_set fed_tombstones_None)
    then have "the (delete_of lib k t) \<in> set (page_changes lib s kinds lo c batch)"
      using page_complete(2) [OF s kinds card k] k by (intro in_page_changes(2)) simp_all
    moreover obtain ch' row' where ch': "delete_of lib k t = Some ch'" "row_ok k row'" "names lib k row' t"
        "shows_entry ch' (row_key k row') (tb_revision t) None"
      using delete_of_ok [OF doc s dead(2) kt] by blast
    moreover have "key_cells k row' = key_cells k row" using names_iff [OF doc ch'(2) dead(3) dead(4)] ch'(3) by simp
    ultimately show ?thesis using dead by (intro bexI [of _ "the (delete_of lib k t)"]) (auto simp: row_key_def)
  qed
qed

lemma page_read:
  assumes doc: "lib_documented lib" and s: "feed_ok lib s" and kinds: "distinct (dr_kinds d)"
    and session: "dr_session d = None" and batch: "0 < dr_batch d"
    and c: "page_cut s (dr_kinds d) None lo hi (dr_batch d) = Some c"
  shows "\<exists>page. read_page lib s d lo c = Some page \<and> page \<noteq> [] \<and>
    sorted_wrt (\<lambda>a b. ch_revision a < ch_revision b) page \<and>
    (\<forall>ch \<in> set page. lo < ch_revision ch \<and> ch_revision ch \<le> c \<and> of_kinds (dr_kinds d) (ch_key ch) \<and>
       entry lib s (ch_key ch) (ch_revision ch) (ch_columns ch)) \<and>
    (\<forall>x n v. entry lib s x n v \<longrightarrow> of_kinds (dr_kinds d) x \<longrightarrow> lo < n \<longrightarrow> n \<le> c \<longrightarrow> (\<exists>ch \<in> set page. shows_entry ch x n v))"
proof -
  let ?streams = "revision_streams s (dr_kinds d) lo c"
  let ?all = "page_changes lib s (dr_kinds d) lo c (dr_batch d)"
  let ?key = "\<lambda>c. (ch_revision c, ch_kind c, ch_record_key c)"
  let ?page = "sort_key ?key ?all"
  note card = cut_facts(1) [OF s kinds batch c]
  have dist: "distinct (map ch_revision ?all)"
    unfolding page_revisions [OF doc s] by (rule distinct_limited [OF streams_distinct [OF s kinds]])
  have "length ?all = card (set (map ch_revision ?all))" using distinct_card [OF dist] by simp
  also have "\<dots> \<le> card (set (concat ?streams))"
    unfolding page_revisions [OF doc s] by (intro card_mono set_limited) simp
  finally have page: "read_page lib s d lo c = Some ?page"
    using page_changes_read [OF doc s session] card by simp
  have "sorted (map ?key ?page)" by (rule sorted_sort_key)
  then have "sorted_wrt (\<lambda>a b. ?key a \<le> ?key b) ?page" by (simp only: sorted_map)
  then have "sorted_wrt (\<lambda>a b. ch_revision a \<le> ch_revision b) ?page"
    by (rule sorted_wrt_mono_rel [rotated]) auto
  moreover have "distinct (map ch_revision ?page)" using dist by (simp add: distinct_map)
  ultimately have sorted: "sorted_wrt (\<lambda>a b. ch_revision a < ch_revision b) ?page" by (rule strict_sorted_wrt)
  have "map ch_revision ?all \<noteq> []"
    unfolding page_revisions [OF doc s] limited_Nil [OF batch] by (rule cut_facts(2) [OF s kinds batch c])
  then have nonempty: "?page \<noteq> []" by simp
  have found: "\<exists>ch \<in> set ?page. shows_entry ch x n v"
    if "entry lib s x n v" "of_kinds (dr_kinds d) x" "lo < n" "n \<le> c" for x n v
    using page_found [OF doc s kinds card that] by simp
  show ?thesis
    using page nonempty sorted page_member [OF doc s] found by (intro exI [of _ ?page]) simp
qed

lemma page_none:
  assumes "feed_ok lib s" and "0 < batch" and "page_cut s kinds None lo hi batch = None"
    and "entry lib s x n v" "of_kinds kinds x" "lo < n"
  shows "hi < n"
proof (rule ccontr)
  assume "\<not> hi < n"
  then have "n \<in> set (concat (revision_streams s kinds lo hi))" using entry_in_stream assms(1,4-6) by simp
  moreover have "limited batch (revision_streams s kinds lo hi) = []"
    using assms(3) by (simp add: page_cut_key_pass key_pass_limited Let_def split: if_splits)
  ultimately show False using limited_Nil [OF assms(2)] by (metis empty_iff empty_set)
qed

end
