(* ===== verification/FeedWrites.thy ===== *)
theory FeedWrites
  imports FeedInvariant
begin

text \<open>
  Every write of the fed store keeps its invariant and only adds to what a consumer sees: an insert, an
  update, a delete, a restamp, a sequence of them; and the backfill establishes the invariant on tables
  the feed meets for the first time.
\<close>

lemma entries_mono:
  assumes "\<exists>n v. entry lib s x n v" and "set (fd_tombstones s) \<subseteq> set (fd_tombstones m)"
    and "\<And>n v. live_entry s x n v \<Longrightarrow> \<exists>n v. entry lib m x n v"
  shows "\<exists>n v. entry lib m x n v"
proof -
  obtain n v where e: "entry lib s x n v" using assms(1) by blast
  show ?thesis
  proof (cases "live_entry s x n v")
    case True
    then show ?thesis by (rule assms(3))
  next
    case False
    then have "dead_entry lib m x n v" using e assms(2) unfolding entry_def dead_entry_def by blast
    then show ?thesis unfolding entry_def by blast
  qed
qed

lemma bare_ok_append:
  assumes "bare_ok k ps" "row_ok k c" "i \<notin> fst ` set ps"
    and "\<And>i' c'. (i', c') \<in> set ps \<Longrightarrow> key_cells k c' \<noteq> key_cells k c"
  shows "bare_ok k (ps @ [(i, c)])"
  using assms(1-3) assms(4) [of _ "snd _"] by (force simp: bare_ok_def)

lemma insert_ok:
  assumes doc: "lib_documented lib" and s: "feed_ok lib s" and w: "insert_row lib first k i c s = Some s'"
  shows "mid lib s None None s'"
proof -
  let ?m = "set_table k (fd_tables s k @ [\<lparr>fr_rowid = i, fr_cells = c, fr_revision = 0\<rparr>]) s"
  have g: "row_ok k c" "key_free k c (fd_tables s k)" "i \<notin> fr_rowid ` set (fd_tables s k)"
    and s': "s' = both_triggers first k (stamp_row c) (insert_trigger lib k i c) ?m"
    using w by (auto simp: insert_row_def split: if_splits)
  note d = midD [OF mid_self [OF s]]
  have bare: "bare (fd_tables ?m j) = (if j = k then bare (fd_tables s k) @ [(i, c)] else bare (fd_tables s j))" for j
    by (simp add: bare_def)
  have "bare_ok k (bare (fd_tables s k) @ [(i, c)])"
  proof (rule bare_ok_append)
    show "bare_ok k (bare (fd_tables s k))" "row_ok k c" using d(3) g by (simp_all add: rows_ok_def)
    show "i \<notin> fst ` set (bare (fd_tables s k))" using g(3) by (auto simp: bare_def)
    show "key_cells k c' \<noteq> key_cells k c" if "(i', c') \<in> set (bare (fd_tables s k))" for i' c'
      using g(2) that by (auto simp: bare_def key_free_def list_all_iff)
  qed
  then have rows: "rows_ok ?m" using d(3) by (simp add: rows_ok_def bare_def)
  have apart: "apart lib (Some (Inl (k, i))) ?m"
  proof (rule apartI)
    show "\<not> names lib j c' t" if "(i', c') \<in> set (bare (fd_tables ?m j))" "Some (Inl (k, i)) \<noteq> Some (Inl (j, i'))"
        "t \<in> set (fd_tombstones ?m)" for j i' c' t
    proof (rule apartD [OF d(5)])
      show "(i', c') \<in> set (bare (fd_tables s j))" using that(1,2) by (auto simp: bare_def split: if_splits)
    qed (use that in auto)
  qed
  have slots: "slot s a n" if "slot ?m a n" "a \<noteq> Inl (k, i)" for a n
    using that by (cases a) (auto split: if_splits)
  have uniq: "a = b" if "slot s a n" "slot s b n" for a b n using s that unfolding feed_ok_def by blast
  have live: "live_entry ?m x n v" if "live_entry s x n v" for x n v
    using that unfolding live_entry_def carried_row_def stored_columns_of_def by auto
  have keys: "\<exists>n v. entry lib ?m x n v" if "\<exists>n v. entry lib s x n v" for x
  proof (rule entries_mono [OF that])
    show "\<exists>n v. entry lib ?m x n v" if "live_entry s x n v" for n v using live [OF that] by (auto simp: entry_def)
  qed simp
  have m: "mid lib s (Some (Inl (k, i))) None ?m"
  proof (rule midI)
    show "same_fields s ?m" "tombs_ok lib ?m" using d(4) by (simp_all add: same_fields_def tombs_ok_def)
    show "a = b" if "Some a \<noteq> Some (Inl (k, i))" "Some b \<noteq> Some (Inl (k, i))" "slot ?m a n" "slot ?m b n" for a b n
    proof (rule uniq)
      show "slot s a n" "slot s b n" using slots that by auto
    qed
    show "\<exists>r' \<in> set (fd_tables s j). fr_rowid r' = fr_rowid r \<and> fr_revision r' = fr_revision r \<and>
          row_key j (fr_cells r') = row_key j (fr_cells r) \<and>
          carried_row s j (fr_cells r') = carried_row s j (fr_cells r)"
      if "r \<in> set (fd_tables ?m j)" "Some (Inl (j, fr_rowid r)) \<noteq> Some (Inl (k, i))" for j r
      using that by (auto split: if_splits)
    show "None = Some x \<or> (\<exists>n v. entry lib ?m x n v)" if "\<exists>n v. entry lib s x n v" for x
      using keys [OF that] ..
  qed (use rows apart slots in auto)
  show ?thesis
    unfolding s'
  proof (rule mid_both [OF s m])
    show "mid lib s ex lost (stamp_row c m)" if "mid lib s ex lost m" for ex lost m
      using mid_stamp_row [OF s that] .
    show "mid lib s None None (insert_trigger lib k i c m')" if "m' = ?m \<or> m' = stamp_row c ?m" for m'
      unfolding insert_trigger_def
    proof (rule mid_stamp_clear [OF doc s, where lost = None])
      show "mid lib s (Some (Inl (k, i))) None m'" using that m mid_stamp_row [OF s m] by blast
      show "(i, c) \<in> set (bare (fd_tables m' k))"
        using that by (elim disjE) (simp_all add: bare_def [of "_ @ _"])
    qed simp
  qed
qed

lemma find_rowD:
  assumes "find_row i rows = Some old"
  shows "old \<in> set rows" "fr_rowid old = i"
  using assms by (auto simp: find_row_def find_Some_iff in_set_conv_nth)

lemma bare_ok_filter: "bare_ok k (bare rows) \<Longrightarrow> bare_ok k (bare (filter P rows))"
  by (auto simp: bare_ok_def bare_def comp_def distinct_map_filter)

lemma other_key:
  assumes "rows_ok s" "old \<in> set (fd_tables s k)" "(i, c) \<in> set (bare (fd_tables s k))" "i \<noteq> fr_rowid old"
  shows "key_cells k c \<noteq> key_cells k (fr_cells old)"
proof -
  obtain r where "r \<in> set (fd_tables s k)" "fr_rowid r = i" "fr_cells r = c" using assms(3) by (auto simp: bare_def)
  then show ?thesis using rows_okD(2) [OF assms(1) _ assms(2)] assms(4) by metis
qed

lemma both_cases:
  "P (own (presence m)) \<Longrightarrow> P (presence (own m)) \<Longrightarrow> P (own m) \<Longrightarrow> P (both_triggers first k presence own m)"
  by (simp add: both_triggers_def)

lemma cells_set: "r = r'\<lparr>fr_cells := c\<rparr> \<Longrightarrow> fr_cells r = c"
  by simp

lemma both_id:
  "own m = m \<Longrightarrow> k = KPresence \<longrightarrow> presence m = m \<Longrightarrow> both_triggers first k presence own m = m"
  by (simp add: both_triggers_def)

text \<open>The columns of a key are carried, so a write the guard turns away keeps the key.\<close>

lemma unguarded:
  assumes "columns_ok s" and "\<not> update_guard (stored_columns_of s k) old new"
  shows "c \<in> set (stored_columns_of s k) \<Longrightarrow> cell new c = cell old c"
    and "key_cells k new = key_cells k old"
    and "carried_row s k new = carried_row s k old"
proof -
  show same: "cell new c = cell old c" if "c \<in> set (stored_columns_of s k)" for c
    using assms(2) that by (auto simp: update_guard_def list_ex_iff)
  then show "key_cells k new = key_cells k old"
    using assms(1) by (auto simp: key_cells_def columns_ok_def subset_iff)
  show "carried_row s k new = carried_row s k old"
    using same by (simp add: carried_row_def stored_row_of_def)
qed

lemma ft_key_presence: "ft_key (table_of KPresence) = [''source'', ''session_id'', ''location'']"
  by (simp add: table_of.simps plain_table_def)

lemma bare_ok_map:
  assumes ok: "bare_ok k (bare rows)" and "row_ok k c" and old: "old \<in> set rows" "fr_rowid old = i"
    and free: "key_free k c (filter (\<lambda>r. fr_rowid r \<noteq> i) rows)"
  shows "bare_ok k (bare (map (\<lambda>r. if fr_rowid r = i then r\<lparr>fr_cells := c\<rparr> else r) rows))"
proof -
  have dist: "distinct (map fr_rowid rows)" "distinct (map (\<lambda>r. key_cells k (fr_cells r)) rows)"
    using ok by (simp_all add: bare_ok_def bare_def comp_def)
  have same: "r = r'" if "r \<in> set rows" "r' \<in> set rows" "fr_rowid r = fr_rowid r'" for r r'
    using dist(1) that by (auto simp: distinct_map inj_on_def)
  have other: "key_cells k (fr_cells r) \<noteq> key_cells k c" if "r \<in> set rows" "fr_rowid r \<noteq> i" for r
    using free that by (auto simp: key_free_def list_all_iff)
  have "distinct (map (\<lambda>r. key_cells k (fr_cells (if fr_rowid r = i then r\<lparr>fr_cells := c\<rparr> else r))) rows)"
    unfolding distinct_map
  proof
    show "distinct rows" using dist(1) by (simp add: distinct_map)
    show "inj_on (\<lambda>r. key_cells k (fr_cells (if fr_rowid r = i then r\<lparr>fr_cells := c\<rparr> else r))) (set rows)"
    proof (rule inj_onI)
      fix r r' assume r: "r \<in> set rows" "r' \<in> set rows"
        and eq: "key_cells k (fr_cells (if fr_rowid r = i then r\<lparr>fr_cells := c\<rparr> else r)) =
          key_cells k (fr_cells (if fr_rowid r' = i then r'\<lparr>fr_cells := c\<rparr> else r'))"
      show "r = r'"
      proof (cases "fr_rowid r = i"; cases "fr_rowid r' = i")
        assume "fr_rowid r = i" "fr_rowid r' = i"
        then show ?thesis using same r by simp
      next
        assume "fr_rowid r \<noteq> i" "fr_rowid r' \<noteq> i"
        then show ?thesis using dist(2) r eq by (auto simp: distinct_map inj_on_def)
      qed (use other [OF r(1)] other [OF r(2)] eq in auto)
    qed
  qed
  moreover have "row_ok k (fr_cells r)" if "r \<in> set rows" for r
    using ok that in_bare [of r rows] by (auto simp: bare_ok_def)
  moreover have "distinct (map (\<lambda>r. fr_rowid (if fr_rowid r = i then r\<lparr>fr_cells := c\<rparr> else r)) rows)"
  proof -
    have "map (\<lambda>r. fr_rowid (if fr_rowid r = i then r\<lparr>fr_cells := c\<rparr> else r)) rows = map fr_rowid rows" by simp
    then show ?thesis using dist(1) by (simp only:)
  qed
  ultimately show ?thesis
    using assms(2) dist(1) by (auto simp: bare_ok_def bare_def comp_def)
qed

lemma delete_ok:
  assumes doc: "lib_documented lib" and s: "feed_ok lib s" and w: "delete_row lib first k i s = Some s'"
  shows "mid lib s None None s'"
proof (cases "find_row i (fd_tables s k)")
  case None
  then show ?thesis using w mid_self [OF s] by (simp add: delete_row_def)
next
  case (Some old)
  let ?m = "set_table k (filter (\<lambda>r. fr_rowid r \<noteq> i) (fd_tables s k)) s"
  let ?c = "fr_cells old"
  have s': "s' = both_triggers first k (stamp_row ?c) (delete_trigger lib k ?c) ?m"
    using w Some by (simp add: delete_row_def)
  note old = find_rowD [OF Some] and d = midD [OF mid_self [OF s]]
  have sub: "r \<in> set (fd_tables s j)" if "r \<in> set (fd_tables ?m j)" for r j
    using that by (auto split: if_splits)
  have bsub: "p \<in> set (bare (fd_tables s j))" if b: "p \<in> set (bare (fd_tables ?m j))" for p j
  proof -
    obtain r where "r \<in> set (fd_tables ?m j)" "p = (fr_rowid r, fr_cells r)" using b unfolding bare_def by auto
    then show ?thesis using sub in_bare by blast
  qed
  have slots: "slot s a n" if "slot ?m a n" for a n
    using that by (cases a) (auto split: if_splits)
  have uniq: "a = b" if "slot s a n" "slot s b n" for a b n using s that unfolding feed_ok_def by blast
  have m: "mid lib s None (Some (row_key k ?c)) ?m"
  proof (rule midI)
    show "same_fields s ?m" "tombs_ok lib ?m" using d(4) by (simp_all add: same_fields_def tombs_ok_def)
    show "rows_ok ?m" using d(3) bare_ok_filter by (auto simp: rows_ok_def)
    show "apart lib None ?m"
    proof (rule apartI)
      show "\<not> names lib j c t" if "(i', c) \<in> set (bare (fd_tables ?m j))" "t \<in> set (fd_tombstones ?m)" for j i' c t
        by (rule apartD [OF d(5) bsub [OF that(1)]]) (use that(2) in simp_all)
    qed
    show "a = b" if "slot ?m a n" "slot ?m b n" for a b n using uniq slots that by blast
    show "\<exists>r' \<in> set (fd_tables s j). fr_rowid r' = fr_rowid r \<and> fr_revision r' = fr_revision r \<and>
          row_key j (fr_cells r') = row_key j (fr_cells r) \<and>
          carried_row s j (fr_cells r') = carried_row s j (fr_cells r)"
      if "r \<in> set (fd_tables ?m j)" for j r
      using sub [OF that] by blast
    show "Some (row_key k ?c) = Some x \<or> (\<exists>n v. entry lib ?m x n v)" if e: "\<exists>n v. entry lib s x n v" for x
    proof (cases "x = row_key k ?c")
      case False
      have "\<exists>n v. entry lib ?m x n v"
      proof (rule entries_mono [OF e])
        show "\<exists>n v. entry lib ?m x n v" if l: "live_entry s x n v" for n v
        proof -
          obtain j r where r: "r \<in> set (fd_tables s j)" "x = row_key j (fr_cells r)"
            using l unfolding live_entry_def by blast
          have "r = old" if "j = k" "fr_rowid r = i"
            using rows_okD(3) [OF d(3) old(1), of r] r(1) old(2) that by simp
          then have "r \<in> set (fd_tables ?m j)" using r False by (cases "j = k") auto
          then show ?thesis using r(2) unfolding entry_def live_entry_def by blast
        qed
      qed simp
      then show ?thesis ..
    qed simp
  qed (use slots in auto)
  have ok: "row_ok k ?c" using rows_okD(1) [OF d(3) old(1)] .
  have free: "key_cells k c' \<noteq> key_cells k ?c" if "(i', c') \<in> set (bare (fd_tables ?m k))" for i' c'
  proof (rule other_key [OF d(3) old(1) bsub [OF that]])
    show "i' \<noteq> fr_rowid old" using that old(2) by (auto simp: bare_def)
  qed
  have put: "mid lib s None None (delete_trigger lib k ?c m')"
    if m': "mid lib s None (Some (row_key k ?c)) m'" "bare (fd_tables m' k) = bare (fd_tables ?m k)" for m'
  proof -
    have "mid lib s None (if Some (row_key k ?c) = Some (row_key k ?c) then None else Some (row_key k ?c))
        (put_tombstone lib k ?c (bump_clock m'))"
      by (rule mid_put [OF doc s m'(1) ok]) (use free m'(2) in auto)
    then show ?thesis by (simp add: delete_trigger_def)
  qed
  show ?thesis
    unfolding s'
  proof (rule both_cases)
    show "mid lib s None None (delete_trigger lib k ?c (stamp_row ?c ?m))" by (rule put [OF mid_stamp_row [OF s m]]) simp
    show "mid lib s None None (delete_trigger lib k ?c ?m)" by (rule put [OF m]) simp
    then show "mid lib s None None (stamp_row ?c (delete_trigger lib k ?c ?m))" by (rule mid_stamp_row [OF s])
  qed
qed

lemma update_ok:
  assumes doc: "lib_documented lib" and s: "feed_ok lib s" and w: "update_row lib first k i c s = Some s'"
  shows "mid lib s None None s'"
proof (cases "find_row i (fd_tables s k)")
  case None
  then show ?thesis using w mid_self [OF s] by (simp add: update_row_def)
next
  case (Some old)
  let ?rows = "map (\<lambda>r. if fr_rowid r = i then r\<lparr>fr_cells := c\<rparr> else r) (fd_tables s k)"
  let ?m = "set_table k ?rows s"
  let ?c = "fr_cells old"
  have g: "row_ok k c" "key_free k c (filter (\<lambda>r. fr_rowid r \<noteq> i) (fd_tables s k))"
    and s': "s' = both_triggers first k (presence_update ?c c) (update_trigger lib k i ?c c) ?m"
    using w Some by (auto simp: update_row_def split: if_splits)
  note old = find_rowD [OF Some] and d = midD [OF mid_self [OF s]]
  have cols: "stored_columns_of ?m j = stored_columns_of s j" "carried_row ?m = carried_row s" for j
    by (intro ext | simp add: stored_columns_of_def carried_row_def)+
  have ok: "row_ok k ?c" using rows_okD(1) [OF d(3) old(1)] .
  have only: "r = old" if "r \<in> set (fd_tables s k)" "fr_rowid r = i" for r
    using rows_okD(3) [OF d(3) old(1), of r] that old(2) by simp
  have rows: "rows_ok ?m"
  proof -
    have all: "bare_ok j (bare (fd_tables s j))" for j using d(3) by (simp add: rows_ok_def)
    have "bare_ok k (bare ?rows)" by (rule bare_ok_map [OF all g(1) old g(2)])
    then show ?thesis using all by (simp add: rows_ok_def)
  qed
  have from_s: "\<exists>r' \<in> set (fd_tables s j). fr_rowid r' = fr_rowid r \<and> fr_revision r' = fr_revision r \<and>
      r = (if j = k \<and> fr_rowid r = i then r'\<lparr>fr_cells := c\<rparr> else r')"
    if r: "r \<in> set (fd_tables ?m j)" for r j
  proof (cases "j = k")
    case True
    then obtain r' where "r' \<in> set (fd_tables s k)" "r = (if fr_rowid r' = i then r'\<lparr>fr_cells := c\<rparr> else r')"
      using r by auto
    then show ?thesis using True by (intro bexI [of _ r']) (cases "fr_rowid r' = i"; simp)+
  next
    case False
    then show ?thesis using r by auto
  qed
  have slots: "slot s a n" if sl: "slot ?m a n" for a n
  proof (cases a)
    case (Inl p)
    obtain j i' where p: "p = (j, i')" by (cases p)
    obtain r where "r \<in> set (fd_tables ?m j)" "fr_rowid r = i'" "fr_revision r = n" using sl Inl p by auto
    then show ?thesis using from_s [of r j] Inl p by auto
  next
    case (Inr pk)
    then show ?thesis using sl by simp
  qed
  have uniq: "a = b" if "slot s a n" "slot s b n" for a b n using s that unfolding feed_ok_def by blast
  have bare_new: "(i, c) \<in> set (bare (fd_tables ?m k))"
    using old by (auto simp: bare_def intro!: image_eqI [of _ _ old])
  have bare_other: "p \<in> set (bare (fd_tables s j))"
    if b: "p \<in> set (bare (fd_tables ?m j))" and n: "\<not> (j = k \<and> fst p = i)" for p j
  proof -
    obtain r where r: "r \<in> set (fd_tables ?m j)" "p = (fr_rowid r, fr_cells r)" using b unfolding bare_def by auto
    obtain r' where r': "r' \<in> set (fd_tables s j)" "r = (if j = k \<and> fr_rowid r = i then r'\<lparr>fr_cells := c\<rparr> else r')"
      using from_s [OF r(1)] by blast
    have "\<not> (j = k \<and> fr_rowid r = i)" using n r(2) by simp
    then have "r = r'" using r'(2) by metis
    then show ?thesis using r'(1) r(2) in_bare by simp
  qed
  let ?lost = "if key_cells k c = key_cells k ?c then None else Some (row_key k ?c)"
  have keys: "?lost = Some x \<or> (\<exists>n v. entry lib ?m x n v)" if e: "\<exists>n v. entry lib s x n v" for x
  proof (cases "?lost = Some x")
    case False
    have "\<exists>n v. entry lib ?m x n v"
    proof (rule entries_mono [OF e])
      show "\<exists>n v. entry lib ?m x n v" if l: "live_entry s x n v" for n v
      proof -
        obtain j r where r: "r \<in> set (fd_tables s j)" "x = row_key j (fr_cells r)"
          using l unfolding live_entry_def by blast
        show ?thesis
        proof (cases "j = k \<and> fr_rowid r = i")
          case True
          then have "x = row_key k c" using r only False row_key_cong by (metis (full_types))
          then show ?thesis using live_entry_bare [OF bare_new] unfolding entry_def by blast
        next
          case False
          then have "r \<in> set (fd_tables ?m j)" using r(1) by auto
          then show ?thesis using r(2) unfolding entry_def live_entry_def by blast
        qed
      qed
    qed simp
    then show ?thesis ..
  qed simp
  have m: "mid lib s (Some (Inl (k, i))) ?lost ?m"
  proof (rule midI)
    show "same_fields s ?m" "tombs_ok lib ?m" using d(4) by (simp_all add: same_fields_def tombs_ok_def)
    show "apart lib (Some (Inl (k, i))) ?m"
    proof (rule apartI)
      show "\<not> names lib j c' t" if "(i', c') \<in> set (bare (fd_tables ?m j))" "Some (Inl (k, i)) \<noteq> Some (Inl (j, i'))"
          "t \<in> set (fd_tombstones ?m)" for j i' c' t
        by (rule apartD [OF d(5) bare_other [OF that(1)]]) (use that(2,3) in auto)
    qed
    show "a = b" if "slot ?m a n" "slot ?m b n" for a b n using uniq slots that by blast
    show "\<exists>r' \<in> set (fd_tables s j). fr_rowid r' = fr_rowid r \<and> fr_revision r' = fr_revision r \<and>
          row_key j (fr_cells r') = row_key j (fr_cells r) \<and>
          carried_row s j (fr_cells r') = carried_row s j (fr_cells r)"
      if r: "r \<in> set (fd_tables ?m j)" "Some (Inl (j, fr_rowid r)) \<noteq> Some (Inl (k, i))" for j r
    proof -
      obtain r' where r': "r' \<in> set (fd_tables s j)" "r = (if j = k \<and> fr_rowid r = i then r'\<lparr>fr_cells := c\<rparr> else r')"
        using from_s [OF r(1)] by blast
      have "\<not> (j = k \<and> fr_rowid r = i)" using r(2) by simp
      then have "r = r'" using r'(2) by metis
      then show ?thesis using r'(1) by blast
    qed
    show "?lost = Some x \<or> (\<exists>n v. entry lib ?m x n v)" if "\<exists>n v. entry lib s x n v" for x
      using keys [OF that] .
    show "slot s a n \<or> fd_clock s < n \<and> n \<le> fd_clock ?m" if "slot ?m a n" for a n
      using slots [OF that] ..
  qed (use rows in simp_all)
  show ?thesis
  proof (cases "update_guard (stored_columns_of s k) ?c c")
    case False
    note same = unguarded [OF _ False]
    have cok: "columns_ok s" using s by (simp add: feed_ok_def)
    have not_moved: "\<not> presence_moved ?c c" if "k = KPresence"
    proof -
      have "set [''source'', ''session_id'', ''location''] \<subseteq> set (stored_columns_of s KPresence)"
        using cok unfolding columns_ok_def by (metis ft_key_presence)
      then show ?thesis using same(1) [OF cok] that by (simp add: presence_moved_def)
    qed
    have own: "update_trigger lib k i ?c c ?m = ?m"
      using False by (simp only: update_trigger_def cols if_False)
    have "k = KPresence \<longrightarrow> presence_update ?c c ?m = ?m"
      using not_moved by (simp add: presence_update_def)
    then have s'm: "s' = ?m" unfolding s' using own both_id by blast
    show ?thesis
      unfolding s'm
    proof (rule midI)
      show "same_fields s ?m" "fd_clock s \<le> fd_clock ?m" "rows_ok ?m" "tombs_ok lib ?m" using midD [OF m] by blast+
      show "apart lib None ?m"
      proof (rule apartI)
        show "\<not> names lib j c' t" if p: "(i', c') \<in> set (bare (fd_tables ?m j))" "t \<in> set (fd_tombstones ?m)" for j i' c' t
        proof (cases "j = k \<and> i' = i")
          case True
          have "c' = c"
          proof -
            have "distinct (map fst (bare (fd_tables ?m k)))" using rows unfolding rows_ok_def bare_ok_def by blast
            moreover have "(i, c') \<in> set (bare (fd_tables ?m k))" using p(1) True by blast
            ultimately show ?thesis using bare_new by (rule eq_key_imp_eq_value)
          qed
          moreover have "\<not> names lib k ?c t" using apartD [OF d(5) in_bare [OF old(1)]] p(2) by simp
          moreover have "names lib k c t \<Longrightarrow> names lib k ?c t"
            using names_iff [OF doc ok g(1)] same(2) [OF cok] by simp
          ultimately show ?thesis using True by blast
        next
          case False
          then show ?thesis using apartD [OF d(5) bare_other [OF p(1)]] p(2) by simp
        qed
      qed
      show "a = b" if "slot ?m a n" "slot ?m b n" for a b n using uniq slots that by blast
      show "slot s a n \<or> fd_clock s < n \<and> n \<le> fd_clock ?m" if "slot ?m a n" for a n using slots [OF that] ..
      show "None = Some x \<or> (\<exists>n v. entry lib ?m x n v)" if "\<exists>n v. entry lib s x n v" for x
        using keys [OF that] same(2) [OF cok] by simp
      show "\<exists>r' \<in> set (fd_tables s j). fr_rowid r' = fr_rowid r \<and> fr_revision r' = fr_revision r \<and>
            row_key j (fr_cells r') = row_key j (fr_cells r) \<and>
            carried_row s j (fr_cells r') = carried_row s j (fr_cells r)"
        if r: "r \<in> set (fd_tables ?m j)" for j r
      proof -
        obtain r' where r': "r' \<in> set (fd_tables s j)" "fr_rowid r' = fr_rowid r" "fr_revision r' = fr_revision r"
            "r = (if j = k \<and> fr_rowid r = i then r'\<lparr>fr_cells := c\<rparr> else r')"
          using from_s [OF r] by blast
        show ?thesis
        proof (cases "j = k \<and> fr_rowid r = i")
          case True
          then have r'_old: "r' = old" using only r'(1,2) by metis
          have "r = r'\<lparr>fr_cells := c\<rparr>" using r'(4) True by metis
          then have rc: "fr_cells r = c" by (rule cells_set)
          have keys: "row_key j (fr_cells r') = row_key j (fr_cells r)"
            unfolding r'_old rc using same(2) [OF cok] row_key_cong True by metis
          have "carried_row s j (fr_cells r') = carried_row s j (fr_cells r)"
            unfolding r'_old rc using same(3) [OF cok] True by metis
          then show ?thesis using r'(1-3) keys by blast
        next
          case False
          then have "r = r'" using r'(4) by metis
          then show ?thesis using r'(1) by blast
        qed
      qed
    qed
  next
    case True
    have own: "mid lib s None None (update_trigger lib k i ?c c m')"
      if m': "mid lib s (Some (Inl (k, i))) ?lost m'" "\<And>j. bare (fd_tables m' j) = bare (fd_tables ?m j)"
        "fd_columns m' = fd_columns s" for m'
    proof -
      have guard: "update_guard (stored_columns_of m' k) ?c c" using True m'(3) by (simp add: stored_columns_of_def)
      let ?n = "if identity_changed lib (table_of k) ?c c then put_tombstone lib k ?c (bump_clock m') else m'"
      have n: "mid lib s (Some (Inl (k, i))) None ?n"
      proof (cases "identity_changed lib (table_of k) ?c c")
        case True
        then have lost: "?lost = Some (row_key k ?c)" using identity_changed_iff [OF doc ok g(1)] by auto
        have "mid lib s (Some (Inl (k, i))) (if ?lost = Some (row_key k ?c) then None else ?lost)
            (put_tombstone lib k ?c (bump_clock m'))"
        proof (rule mid_put [OF doc s m'(1) ok])
          show "key_cells k c' \<noteq> key_cells k ?c"
            if p: "(i', c') \<in> set (bare (fd_tables m' k))" "Some (Inl (k, i)) \<noteq> Some (Inl (k, i'))" for i' c'
          proof (rule other_key [OF d(3) old(1)])
            show "(i', c') \<in> set (bare (fd_tables s k))" by (rule bare_other) (use p m'(2) in auto)
            show "i' \<noteq> fr_rowid old" using p(2) old(2) by auto
          qed
        qed simp
        then show ?thesis using True lost by simp
      next
        case False
        then have "?lost = None" using identity_changed_iff [OF doc ok g(1)] by auto
        then show ?thesis using False m'(1) by simp
      qed
      have "(i, c) \<in> set (bare (fd_tables ?n k))" using bare_new m'(2) by simp
      from mid_stamp_clear [OF doc s n this] show ?thesis
        using guard by (simp add: update_trigger_def Let_def)
    qed
    show ?thesis
      unfolding s'
    proof (rule both_cases)
      show "mid lib s None None (update_trigger lib k i ?c c (presence_update ?c c ?m))"
        by (rule own [OF mid_presence_update [OF s m]]) simp_all
      show "mid lib s None None (update_trigger lib k i ?c c ?m)" by (rule own [OF m]) simp_all
      then show "mid lib s None None (presence_update ?c c (update_trigger lib k i ?c c ?m))"
        by (rule mid_presence_update [OF s])
    qed
  qed
qed

lemma ordinals_facts:
  fixes rows :: "fed_row list"
  shows "map_of (ordinals scope rows) i = Some ordinal \<Longrightarrow> 0 < ordinal \<and> ordinal \<le> length (ordinals scope rows)"
    and "map_of (ordinals scope rows) i = Some ordinal \<Longrightarrow> map_of (ordinals scope rows) j = Some ordinal \<Longrightarrow> i = j"
proof -
  let ?staged = "sort (map fr_rowid (filter (\<lambda>r. in_scope scope (fr_cells r)) rows))"
  have zip: "ordinals scope rows = zip ?staged [1..<length ?staged + 1]" by (simp add: ordinals_def Let_def)
  have at: "\<exists>p. p < length ?staged \<and> i = ?staged ! p \<and> n = Suc p"
    if "map_of (ordinals scope rows) i = Some n" for i n
  proof -
    have "(i, n) \<in> set (zip ?staged [1..<length ?staged + 1])" using map_of_SomeD [OF that] unfolding zip .
    then obtain p where p: "p < length (zip ?staged [1..<length ?staged + 1])"
        "zip ?staged [1..<length ?staged + 1] ! p = (i, n)" unfolding in_set_conv_nth by blast
    then have "p < length ?staged" by (simp del: upt_Suc)
    then show ?thesis using p(2) by (auto simp: nth_upt simp del: upt_Suc)
  qed
  show "0 < ordinal \<and> ordinal \<le> length (ordinals scope rows)" if "map_of (ordinals scope rows) i = Some ordinal"
    using at [OF that] unfolding zip by (auto simp del: upt_Suc)
  show "i = j" if "map_of (ordinals scope rows) i = Some ordinal" "map_of (ordinals scope rows) j = Some ordinal"
    using at [OF that(1)] at [OF that(2)] by auto
qed

definition restamped :: "(nat \<times> nat) list \<Rightarrow> nat \<Rightarrow> fed_row \<Rightarrow> fed_row" where
  "restamped staged base r = (case map_of staged (fr_rowid r) of
     Some ordinal \<Rightarrow> r\<lparr>fr_revision := base + ordinal\<rparr> | None \<Rightarrow> r)"

lemma restamped_simps [simp]:
  "fr_rowid (restamped staged base r) = fr_rowid r" "fr_cells (restamped staged base r) = fr_cells r"
  by (simp_all add: restamped_def split: option.splits)

lemma bare_restamped [simp]: "bare (map (restamped staged base) rows) = bare rows"
  by (simp add: bare_def)

lemma restamp_ok:
  assumes s: "feed_ok lib s" and w: "restamp_exported_rows k scope s = Some s'"
  shows "mid lib s None None s'"
proof (cases "length (ordinals scope (fd_tables s k)) = 0")
  case True
  then show ?thesis using w mid_self [OF s] by (simp add: restamp_exported_rows_def Let_def)
next
  case False
  let ?st = "ordinals scope (fd_tables s k)" and ?base = "fd_clock s"
  let ?rows = "map (restamped ?st ?base) (fd_tables s k)"
  have s': "s' = (set_table k ?rows s)\<lparr>fd_clock := ?base + length ?st\<rparr>"
    using w False by (simp add: restamp_exported_rows_def Let_def restamped_def [abs_def] split: if_splits)
  have tables: "fd_tables s' = (fd_tables s)(k := ?rows)" "fd_tombstones s' = fd_tombstones s"
      "fd_clock s' = ?base + length ?st" by (simp_all add: s')
  have bare: "bare (fd_tables s' j) = bare (fd_tables s j)" for j by (simp add: tables)
  note d = midD [OF mid_self [OF s]]
  have rows: "r \<in> set (fd_tables s j) \<or> j = k \<and> (\<exists>r' \<in> set (fd_tables s k). \<exists>n. map_of ?st (fr_rowid r') = Some n \<and>
      r = r'\<lparr>fr_revision := ?base + n\<rparr>)" if r: "r \<in> set (fd_tables s' j)" for r j
  proof (cases "j = k")
    case True
    then obtain r' where "r' \<in> set (fd_tables s k)" "r = restamped ?st ?base r'" using r by (auto simp: tables)
    then show ?thesis using True unfolding restamped_def by (cases "map_of ?st (fr_rowid r')") auto
  qed (use r in \<open>simp add: tables\<close>)
  have slots: "slot s a n \<or> (\<exists>i o'. a = Inl (k, i) \<and> map_of ?st i = Some o' \<and> n = ?base + o')"
    if sl: "slot s' a n" for a n
  proof (cases a)
    case (Inl p)
    obtain j i where p: "p = (j, i)" by (cases p)
    obtain r where r: "r \<in> set (fd_tables s' j)" "fr_rowid r = i" "fr_revision r = n" using sl Inl p by auto
    then show ?thesis using rows [OF r(1)] Inl p by auto
  next
    case (Inr pk)
    then show ?thesis using sl by (simp add: tables)
  qed
  have le: "n \<le> ?base" if "slot s a n" for a n using s that unfolding feed_ok_def by blast
  show ?thesis
  proof (rule midI)
    show "same_fields s s'" by (simp add: same_fields_def s')
    show "fd_clock s \<le> fd_clock s'" by (simp add: tables)
    show "rows_ok s'" using d(3) by (simp add: rows_ok_def bare)
    show "tombs_ok lib s'" using d(4) by (simp add: tombs_ok_def tables)
    show "apart lib None s'" using d(5) by (simp add: apart_def bare tables)
    show "slot s a n \<or> fd_clock s < n \<and> n \<le> fd_clock s'" if "slot s' a n" for a n
      using slots [OF that] by (auto simp: tables dest: ordinals_facts(1))
    show "a = b" if ab: "fd_clock s < n" "slot s' a n" "slot s' b n" for a b n
    proof -
      have no: "\<not> slot s a n" for a using le [of a n] ab(1) by auto
      obtain i o1 where a: "a = Inl (k, i)" "map_of ?st i = Some o1" "n = ?base + o1"
        using slots [OF ab(2)] no by blast
      obtain j o2 where b: "b = Inl (k, j)" "map_of ?st j = Some o2" "n = ?base + o2"
        using slots [OF ab(3)] no by blast
      have "map_of ?st j = Some o1" using a(3) b(2,3) by simp
      then show ?thesis using ordinals_facts(2) [OF a(2)] a(1) b(1) by simp
    qed
    show "\<exists>r' \<in> set (fd_tables s j). fr_rowid r' = fr_rowid r \<and> fr_revision r' = fr_revision r \<and>
          row_key j (fr_cells r') = row_key j (fr_cells r) \<and>
          carried_row s j (fr_cells r') = carried_row s j (fr_cells r)"
      if r: "r \<in> set (fd_tables s' j)" "fr_revision r \<le> fd_clock s" for j r
    proof -
      have "r \<in> set (fd_tables s j)"
        using rows [OF r(1)]
      proof (elim disjE conjE bexE exE)
        fix r' n assume "map_of ?st (fr_rowid r') = Some n" and eq: "r = r'\<lparr>fr_revision := ?base + n\<rparr>"
        then have "0 < n" using ordinals_facts(1) by blast
        then show ?thesis using r(2) eq by simp
      qed
      then show ?thesis by blast
    qed
    show "None = Some x \<or> (\<exists>n v. entry lib s' x n v)" if e: "\<exists>n v. entry lib s x n v" for x
    proof -
      have "\<exists>n v. entry lib s' x n v"
      proof (rule entries_mono [OF e])
        show "\<exists>n v. entry lib s' x n v" if "live_entry s x n v" for n v
        proof -
          have "\<exists>n v. live_entry s x n v" using that by blast
          then have "\<exists>n v. live_entry s' x n v" unfolding live_keys bare .
          then show ?thesis unfolding entry_def by blast
        qed
      qed (simp add: tables)
      then show ?thesis ..
    qed
  qed
qed

lemma tick_ok:
  assumes s: "feed_ok lib s"
  shows "mid lib s None None (bump_clock s)"
proof -
  note d = midD [OF mid_self [OF s]]
  have sl: "slot (bump_clock s) a n = slot s a n" for a n by (cases a) auto
  have live: "live_entry (bump_clock s) = live_entry s"
    by (intro ext) (simp add: live_entry_def carried_row_def stored_columns_of_def)
  have "dead_entry lib (bump_clock s) = dead_entry lib s" by (intro ext) (simp add: dead_entry_def)
  then have entry: "entry lib (bump_clock s) = entry lib s" using live by (intro ext) (simp add: entry_def)
  show ?thesis
    by (rule midI; use d sl entry s in \<open>auto simp: same_fields_def rows_ok_def tombs_ok_def apart_def feed_ok_def\<close>)
qed

lemma write_ok:
  assumes "lib_documented lib" and "feed_ok lib s" and "apply_write lib w s = Some s'"
  shows "feed_ok lib s' \<and> feed_step lib s s'"
proof (rule mid_final [OF assms(2)])
  show "mid lib s None None s'"
    using assms insert_ok update_ok delete_ok restamp_ok tick_ok
    by (cases w) (auto simp: apply_write_def)
qed

lemma feed_step_refl: "feed_step lib s s"
  by (simp add: feed_step_def)

lemma feed_step_trans: "feed_step lib s s' \<Longrightarrow> feed_step lib s' s'' \<Longrightarrow> feed_step lib s s''"
  unfolding feed_step_def by (metis le_trans)

lemma writes_ok:
  assumes "lib_documented lib" and "feed_ok lib s"
  shows "feed_ok lib (write_all lib ws s) \<and> feed_step lib s (write_all lib ws s)"
  using assms(2)
proof (induction ws arbitrary: s)
  case (Cons w ws)
  have "feed_ok lib (try_write lib w s) \<and> feed_step lib s (try_write lib w s)"
    using write_ok [OF assms(1) Cons.prems] Cons.prems feed_step_refl
    by (cases "apply_write lib w s") (auto simp: try_write_def)
  then show ?case using Cons.IH feed_step_trans by (simp add: write_all_def) blast
qed (simp add: write_all_def feed_step_refl)

end
