(* ===== verification/FeedSample.thy ===== *)
theory FeedSample
  imports FeedInvariant
begin

text \<open>
  A concrete \<open>json_array\<close> and its reader, which the examples of the feed's properties are evaluated on:
  texts and integers prefixed by their length in unary. And a store with no rows.
\<close>

definition unary :: "nat \<Rightarrow> string" where
  "unary n = replicate n (CHR ''1'') @ [CHR ''.'']"

fun write_value :: "sql_value \<Rightarrow> string" where
  "write_value (SqlText t) = CHR ''s'' # unary (length t) @ t"
| "write_value (SqlInteger i) = (if 0 \<le> i then CHR ''p'' # unary (nat i) else CHR ''n'' # unary (nat (- i)))"
| "write_value _ = [CHR ''z'']"

fun read_unary :: "string \<Rightarrow> nat \<times> string" where
  "read_unary [] = (0, [])"
| "read_unary (c # cs) = (if c = CHR ''1'' then (let (n, rest) = read_unary cs in (Suc n, rest)) else (0, cs))"

fun read_values :: "nat \<Rightarrow> string \<Rightarrow> json list option" where
  "read_values fuel [] = Some []"
| "read_values 0 (c # cs) = None"
| "read_values (Suc fuel) (c # cs) =
     (let (n, rest) = read_unary cs in
      if c = CHR ''s'' then map_option (Cons (JString (take n rest))) (read_values fuel (drop n rest))
      else if c = CHR ''p'' then map_option (Cons (json_int (int n))) (read_values fuel rest)
      else if c = CHR ''n'' then map_option (Cons (json_int (- int n))) (read_values fuel rest)
      else None)"

definition sample_lib :: feed_lib where
  "sample_lib = \<lparr>fl_json_array = (\<lambda>vs. concat (map write_value vs)),
     fl_from_str = (\<lambda>t. map_option JArray (read_values (length t) t))\<rparr>"

lemma read_unary_unary: "read_unary (unary n @ rest) = (n, rest)"
  by (induction n) (simp_all add: unary_def)

lemma write_value_pos: "0 < length (write_value v)"
  by (cases v) simp_all

lemma read_write_values:
  "list_all plain vs \<Longrightarrow> length (concat (map write_value vs)) \<le> fuel \<Longrightarrow>
     read_values fuel (concat (map write_value vs)) = Some (map stored_value vs)"
proof (induction vs arbitrary: fuel)
  case (Cons v vs)
  obtain fuel' where fuel: "fuel = Suc fuel'" using Cons.prems write_value_pos [of v] by (cases fuel) auto
  have "length (concat (map write_value vs)) \<le> fuel'"
    using Cons.prems(2) write_value_pos [of v] unfolding fuel concat.simps list.map length_append by linarith
  then have rest: "read_values fuel' (concat (map write_value vs)) = Some (map stored_value vs)"
    using Cons.IH Cons.prems(1) by simp
  show ?case
  proof (cases v)
    case (SqlText t)
    then show ?thesis using rest by (simp add: fuel read_unary_unary)
  next
    case (SqlInteger i)
    then show ?thesis using rest by (simp add: fuel read_unary_unary)
  qed (use Cons.prems in \<open>simp_all add: plain_def\<close>)
qed simp

lemma sample_lib_documented: "lib_documented sample_lib"
  by (simp add: lib_documented_def sample_lib_def read_write_values)

definition empty_feed :: "64 word \<Rightarrow> (change_kind \<Rightarrow> string list) \<Rightarrow> feed_store" where
  "empty_feed epoch columns =
     \<lparr>fd_tables = (\<lambda>_. []), fd_columns = columns, fd_tombstones = [], fd_clock = 0, fd_epoch = epoch,
      fd_cursors = [], fd_epochs = [], fd_current = True\<rparr>"

lemma empty_feed_ok:
  assumes "\<And>k. set (ft_key (table_of k)) \<subseteq> set (stored_columns (ft_name (table_of k)) (columns k))"
  shows "feed_ok lib (empty_feed epoch columns)"
proof -
  have "\<not> slot (empty_feed epoch columns) a n" for a n by (cases a) (auto simp: empty_feed_def)
  then show ?thesis
    using assms
    by (simp add: feed_ok_def rows_ok_def bare_ok_def bare_def tombs_ok_def apart_def columns_ok_def
        stored_columns_of_def empty_feed_def)
qed

text \<open>A store whose tables have their key columns and a session.\<close>

definition sample_columns :: "change_kind \<Rightarrow> string list" where
  "sample_columns k = remdups (ft_key (table_of k) @ [ft_session (table_of k), ''text''])"

definition sample_feed :: feed_store where
  "sample_feed = empty_feed 5 sample_columns"

lemma sample_feed_ok: "feed_ok sample_lib sample_feed"
  unfolding sample_feed_def
proof (rule empty_feed_ok)
  fix k show "set (ft_key (table_of k)) \<subseteq> set (stored_columns (ft_name (table_of k)) (sample_columns k))"
    by (cases k) (auto simp: sample_columns_def table_of.simps plain_table_def stored_columns_def table_columns_def
      local_column_def LOCAL_COLUMNS_def REVISION_COLUMN_def)
qed

text \<open>Its events: two sessions' rows, and a run of one after the other.\<close>

definition sample_session :: "string \<Rightarrow> cells" where
  "sample_session i = [(''source'', SqlText ''claude''), (''session_id'', SqlText i), (''text'', SqlText ''a'')]"

definition sample_writes :: "feed_write list" where
  "sample_writes =
     [Insert True KSession 1 (sample_session ''s1''), Insert True KSession 2 (sample_session ''s2''), Remove True KSession 1]"

definition sample_store :: feed_store where
  "sample_store = write_all sample_lib sample_writes sample_feed"

end
