(* ===== verification/FeedReplica.thy ===== *)
theory FeedReplica
  imports FeedPages FeedWrites FeedSample
begin

text \<open>
  What a consumer of the feed holds. A replica maps a record's key to its row; an upsert writes it, a
  delete clears it. While the drain runs the store is written to. The invariant ties replica, buffer and
  store: up to the position the replica shows every record that has not been written since, and the
  buffered page holds every such record up to its last revision. An exhausted drain has carried the
  replica to the head at open.
\<close>

type_synonym replica = "json list \<Rightarrow> stored_row option"

definition apply_change :: "change \<Rightarrow> replica \<Rightarrow> replica" where
  "apply_change c rep = rep(ch_key c := ch_columns c)"

datatype feed_event = StoreWrite feed_write | DrainNext

fun feed_event_step :: "feed_lib \<Rightarrow> feed_event \<Rightarrow> feed_store \<times> changes \<times> replica \<Rightarrow> feed_store \<times> changes \<times> replica" where
  "feed_event_step lib (StoreWrite w) (s, d, rep) = (try_write lib w s, d, rep)"
| "feed_event_step lib DrainNext (s, d, rep) =
     (case next_change lib s d of
        (Some (Inr c), d') \<Rightarrow> (s, d', apply_change c rep)
      | (_, d') \<Rightarrow> (s, d', rep))"

definition run_feed :: "feed_lib \<Rightarrow> feed_event list \<Rightarrow> feed_store \<times> changes \<times> replica \<Rightarrow> feed_store \<times> changes \<times> replica" where
  "run_feed lib evs st = fold (feed_event_step lib) evs st"

definition agrees :: "feed_lib \<Rightarrow> feed_store \<Rightarrow> change_kind list \<Rightarrow> nat \<Rightarrow> replica \<Rightarrow> bool" where
  "agrees lib s kinds p rep \<longleftrightarrow>
     (\<forall>x n v. entry lib s x n v \<longrightarrow> of_kinds kinds x \<longrightarrow> n \<le> p \<longrightarrow> rep x = v)"

definition known :: "feed_lib \<Rightarrow> feed_store \<Rightarrow> replica \<Rightarrow> bool" where
  "known lib s rep \<longleftrightarrow> (\<forall>x. rep x \<noteq> None \<longrightarrow> (\<exists>n v. entry lib s x n v))"

section \<open>A record has one entry\<close>

lemma entry_unique:
  assumes doc: "lib_documented lib" and s: "feed_ok lib s"
    and e: "entry lib s x n v" and e': "entry lib s x n' v'"
  shows "n = n' \<and> v = v'"
proof -
  have rows: "rows_ok s" and tombs: "distinct (map tb_pk (fd_tombstones s))" and apart: "apart lib None s"
    using s by (simp_all add: feed_ok_def tombs_ok_def)
  have live: "n = n' \<and> v = v'" if a: "live_entry s x n v" and b: "live_entry s x n' v'" for n v n' v'
  proof -
    obtain k r where r: "r \<in> set (fd_tables s k)" "x = row_key k (fr_cells r)" "n = fr_revision r"
        "v = Some (carried_row s k (fr_cells r))" using a unfolding live_entry_def by blast
    obtain k' r' where r': "r' \<in> set (fd_tables s k')" "x = row_key k' (fr_cells r')" "n' = fr_revision r'"
        "v' = Some (carried_row s k' (fr_cells r'))" using b unfolding live_entry_def by blast
    have k: "k = k'" and cells: "key_cells k (fr_cells r) = key_cells k' (fr_cells r')"
      using row_key_inj [OF rows_okD(1) [OF rows r(1)] rows_okD(1) [OF rows r'(1)]] r(2) r'(2) by metis+
    have "r = r'" using rows_okD(2,3) [OF rows r(1), of r'] r'(1) k cells by simp
    then show ?thesis using r r' k by simp
  qed
  have mixed: False if a: "live_entry s x n v" and b: "dead_entry lib s x n' v'" for n v n' v'
  proof -
    obtain k r where r: "r \<in> set (fd_tables s k)" "x = row_key k (fr_cells r)"
      using a unfolding live_entry_def by blast
    obtain k' row t where t: "t \<in> set (fd_tombstones s)" "row_ok k' row" "names lib k' row t" "x = row_key k' row"
      using b unfolding dead_entry_def by blast
    note ok = rows_okD(1) [OF rows r(1)]
    have "k = k'" "key_cells k (fr_cells r) = key_cells k' row" using row_key_inj [OF ok t(2)] r(2) t(4) by metis+
    then have "names lib k (fr_cells r) t" using names_iff [OF doc ok] t by blast
    then show False using apartD [OF apart in_bare [OF r(1)] _ t(1)] by simp
  qed
  have dead: "n = n' \<and> v = v'" if a: "dead_entry lib s x n v" and b: "dead_entry lib s x n' v'" for n v n' v'
  proof -
    obtain k row t where t: "v = None" "t \<in> set (fd_tombstones s)" "row_ok k row" "names lib k row t"
        "x = row_key k row" "n = tb_revision t" using a unfolding dead_entry_def by blast
    obtain k' row' t' where t': "v' = None" "t' \<in> set (fd_tombstones s)" "row_ok k' row'" "names lib k' row' t'"
        "x = row_key k' row'" "n' = tb_revision t'" using b unfolding dead_entry_def by blast
    have k: "k = k'" "key_cells k row = key_cells k' row'" using row_key_inj [OF t(3) t'(3)] t(5) t'(5) by metis+
    then have "names lib k row t'" using names_iff [OF doc t(3) _ t'(4) [folded k(1)]] t'(3) by simp
    then have "tb_pk t = tb_pk t'" using t(4) by (simp add: names_def tb_pk_def)
    then have "t = t'" using tombs t(2) t'(2) by (simp add: distinct_map inj_on_def)
    then show ?thesis using t t' by simp
  qed
  show ?thesis using e e' live mixed dead unfolding entry_def by blast
qed

section \<open>The invariant of a drain\<close>

definition drain_inv :: "feed_lib \<Rightarrow> feed_store \<Rightarrow> changes \<Rightarrow> replica \<Rightarrow> bool" where
  "drain_inv lib s d rep \<longleftrightarrow>
     distinct (dr_kinds d) \<and> dr_session d = None \<and> 0 < dr_batch d \<and>
     wm_epoch (dr_position d) = wm_epoch (dr_head d) \<and>
     wm_revision (dr_position d) \<le> wm_revision (dr_head d) \<and> wm_revision (dr_head d) \<le> fd_clock s \<and>
     (dr_exhausted d \<longrightarrow> dr_buffer d = [] \<and> dr_position d = dr_head d) \<and>
     agrees lib s (dr_kinds d) (wm_revision (dr_position d)) rep \<and> known lib s rep \<and>
     sorted_wrt (\<lambda>a b. ch_revision a < ch_revision b) (dr_buffer d) \<and>
     (\<forall>c \<in> set (dr_buffer d). wm_revision (dr_position d) < ch_revision c \<and>
        ch_revision c \<le> wm_revision (dr_head d) \<and>
        (\<exists>n v. entry lib s (ch_key c) n v) \<and> (\<forall>n v. entry lib s (ch_key c) n v \<longrightarrow> ch_revision c \<le> n)) \<and>
     (\<forall>x n v. entry lib s x n v \<longrightarrow> of_kinds (dr_kinds d) x \<longrightarrow> wm_revision (dr_position d) < n \<longrightarrow>
        (\<exists>c \<in> set (dr_buffer d). n \<le> ch_revision c) \<longrightarrow> (\<exists>c \<in> set (dr_buffer d). shows_entry c x n v))"

lemma drain_inv_write:
  assumes step: "feed_step lib s s'" and inv: "drain_inv lib s d rep"
  shows "drain_inv lib s' d rep"
proof -
  let ?p = "wm_revision (dr_position d)" and ?h = "wm_revision (dr_head d)"
  have clock: "fd_clock s \<le> fd_clock s'" and old: "\<And>x n v. entry lib s' x n v \<Longrightarrow> n \<le> fd_clock s \<Longrightarrow> entry lib s x n v"
    and keep: "\<And>x n v. entry lib s x n v \<Longrightarrow> \<exists>n v. entry lib s' x n v"
    using step unfolding feed_step_def by blast+
  have bounds: "?p \<le> ?h" "?h \<le> fd_clock s" using inv by (simp_all add: drain_inv_def)
  have "agrees lib s' (dr_kinds d) ?p rep" using inv old bounds unfolding drain_inv_def agrees_def by (meson le_trans)
  moreover have "known lib s' rep" using inv keep unfolding drain_inv_def known_def by blast
  moreover have "ch_revision c \<le> n" if "c \<in> set (dr_buffer d)" "entry lib s' (ch_key c) n v" for c n v
    using that inv old [OF that(2)] bounds unfolding drain_inv_def by (meson le_trans linorder_le_cases)
  moreover have "\<exists>n v. entry lib s' (ch_key c) n v" if "c \<in> set (dr_buffer d)" for c
    using that inv keep unfolding drain_inv_def by blast
  moreover have "\<exists>c \<in> set (dr_buffer d). shows_entry c x n v"
    if e: "entry lib s' x n v" "of_kinds (dr_kinds d) x" "?p < n" and c: "c \<in> set (dr_buffer d)" "n \<le> ch_revision c" for x n v c
  proof -
    have "ch_revision c \<le> ?h" using inv c(1) unfolding drain_inv_def by blast
    then have "entry lib s x n v" using old [OF e(1)] c(2) bounds by linarith
    then show ?thesis using inv e c unfolding drain_inv_def by blast
  qed
  ultimately show ?thesis using inv clock unfolding drain_inv_def by auto
qed

lemma drain_inv_pop:
  assumes inv: "drain_inv lib s d rep" and buffer: "dr_buffer d = c # cs"
  shows "drain_inv lib s (at_revision (ch_revision c) (d\<lparr>dr_buffer := cs\<rparr>)) (apply_change c rep)"
    and "wm_revision (dr_position d) < ch_revision c"
proof -
  let ?p = "wm_revision (dr_position d)"
  have c: "?p < ch_revision c" "ch_revision c \<le> wm_revision (dr_head d)"
      "\<And>n v. entry lib s (ch_key c) n v \<Longrightarrow> ch_revision c \<le> n" "\<exists>n v. entry lib s (ch_key c) n v"
    using inv buffer unfolding drain_inv_def by auto
  show "?p < ch_revision c" by (rule c)
  have later: "ch_revision c < ch_revision c'" if "c' \<in> set cs" for c' using inv buffer that by (simp add: drain_inv_def)
  have shown: "\<exists>c' \<in> set (c # cs). shows_entry c' x n v"
    if "entry lib s x n v" "of_kinds (dr_kinds d) x" "?p < n" "c' \<in> set (c # cs)" "n \<le> ch_revision c'" for x n v c'
    using inv that unfolding drain_inv_def buffer by blast
  have "rep x = v" if "entry lib s x n v" "of_kinds (dr_kinds d) x" "n \<le> ?p" for x n v
    using inv that unfolding drain_inv_def agrees_def by blast
  then have "agrees lib s (dr_kinds d) (ch_revision c) (apply_change c rep)"
    unfolding agrees_def apply_change_def
  proof (intro allI impI)
    fix x n v assume e: "entry lib s x n v" "of_kinds (dr_kinds d) x" "n \<le> ch_revision c"
      and up: "\<And>x n v. entry lib s x n v \<Longrightarrow> of_kinds (dr_kinds d) x \<Longrightarrow> n \<le> ?p \<Longrightarrow> rep x = v"
    show "(rep(ch_key c := ch_columns c)) x = v"
    proof (cases "n \<le> ?p")
      case True
      then have "x \<noteq> ch_key c" using c(1) c(3) [of n v] e(1) by auto
      then show ?thesis using up [OF e(1,2) True] by simp
    next
      case False
      then obtain c' where c': "c' \<in> set (c # cs)" "shows_entry c' x n v" using shown [OF e(1,2), of c] e(3) by auto
      then have "c' = c" using later e(3) by (fastforce simp: shows_entry_def)
      then show ?thesis using c'(2) by (simp add: shows_entry_def)
    qed
  qed
  moreover have "known lib s (apply_change c rep)"
    using inv c(4) unfolding drain_inv_def known_def apply_change_def by auto
  moreover have "\<exists>c' \<in> set cs. shows_entry c' x n v"
    if e: "entry lib s x n v" "of_kinds (dr_kinds d) x" "ch_revision c < n" and c': "c' \<in> set cs" "n \<le> ch_revision c'" for x n v c'
  proof -
    obtain c'' where "c'' \<in> set (c # cs)" "shows_entry c'' x n v" using shown [OF e(1,2), of c'] e(3) c(1) c' by auto
    then show ?thesis using e(3) by (auto simp: shows_entry_def)
  qed
  ultimately show "drain_inv lib s (at_revision (ch_revision c) (d\<lparr>dr_buffer := cs\<rparr>)) (apply_change c rep)"
    using inv c(2) later buffer unfolding drain_inv_def by (auto simp: at_revision_def)
qed

lemma drain_inv_exhaust:
  assumes inv: "drain_inv lib s d rep" and buffer: "dr_buffer d = []"
    and none: "\<And>x n v. entry lib s x n v \<Longrightarrow> of_kinds (dr_kinds d) x \<Longrightarrow> wm_revision (dr_position d) < n \<Longrightarrow>
      wm_revision (dr_head d) < n"
  shows "drain_inv lib s (exhaust d) rep"
proof -
  have "agrees lib s (dr_kinds d) (wm_revision (dr_head d)) rep"
    using inv none unfolding drain_inv_def agrees_def by (meson linorder_not_le)
  then show ?thesis using inv buffer unfolding drain_inv_def by auto
qed

lemma fill_ok:
  assumes doc: "lib_documented lib" and s: "feed_ok lib s" and inv: "drain_inv lib s d rep" and buffer: "dr_buffer d = []"
    and open_: "\<not> dr_exhausted d"
  shows "\<exists>d'. fill lib s d = (True, d') \<and> drain_inv lib s d' rep \<and> dr_head d' = dr_head d \<and> dr_kinds d' = dr_kinds d \<and>
    (d' = exhaust d \<or> dr_buffer d' \<noteq> [] \<and> dr_position d' = dr_position d)"
proof -
  let ?p = "wm_revision (dr_position d)" and ?h = "wm_revision (dr_head d)"
  have d: "distinct (dr_kinds d)" "dr_session d = None" "0 < dr_batch d" using inv by (simp_all add: drain_inv_def)
  show ?thesis
  proof (cases "?h \<le> ?p")
    case True
    then have "drain_inv lib s (exhaust d) rep" by (intro drain_inv_exhaust [OF inv buffer]) simp
    then show ?thesis using True by (simp add: fill.simps [of lib s d])
  next
    case above: False
    show ?thesis
    proof (cases "page_cut s (dr_kinds d) None ?p ?h (dr_batch d)")
      case None
      then have "drain_inv lib s (exhaust d) rep"
        by (intro drain_inv_exhaust [OF inv buffer]) (rule page_none [OF s d(3)])
      then show ?thesis using above None d(2) by (simp add: fill.simps [of lib s d])
    next
      case (Some c)
      have c: "?p < c" "c \<le> ?h" using page_cut_above [OF Some] above by simp_all
      obtain page where page: "read_page lib s d ?p c = Some page" "page \<noteq> []"
          "sorted_wrt (\<lambda>a b. ch_revision a < ch_revision b) page"
          "\<forall>ch \<in> set page. ?p < ch_revision ch \<and> ch_revision ch \<le> c \<and> of_kinds (dr_kinds d) (ch_key ch) \<and>
            entry lib s (ch_key ch) (ch_revision ch) (ch_columns ch)"
          "\<forall>x n v. entry lib s x n v \<longrightarrow> of_kinds (dr_kinds d) x \<longrightarrow> ?p < n \<longrightarrow> n \<le> c \<longrightarrow> (\<exists>ch \<in> set page. shows_entry ch x n v)"
        using page_read [OF doc s d(1,2,3) Some] by blast
      let ?d = "d\<lparr>dr_buffer := page\<rparr>"
      have "fill lib s d = (True, ?d)"
        using above Some page(1,2) buffer d(2) by (cases page) (simp_all add: fill.simps [of lib s d])
      moreover have "drain_inv lib s ?d rep"
      proof -
        have old: "ch_revision ch \<le> n" if ch: "ch \<in> set page" and e: "entry lib s (ch_key ch) n v" for ch n v
          using entry_unique [OF doc s e] page(4) ch by blast
        have "\<exists>n v. entry lib s (ch_key ch) n v" if "ch \<in> set page" for ch using page(4) that by blast
        moreover have "ch_revision ch \<le> ?h" if "ch \<in> set page" for ch using page(4) that c(2) by fastforce
        moreover have "\<exists>ch \<in> set page. shows_entry ch x n v"
          if "entry lib s x n v" "of_kinds (dr_kinds d) x" "?p < n" "ch \<in> set page" "n \<le> ch_revision ch" for x n v ch
          using page(5) page(4) that le_trans by blast
        ultimately show ?thesis using inv page(3,4) old open_ unfolding drain_inv_def by auto
      qed
      ultimately show ?thesis using page(2) by auto
    qed
  qed
qed

text \<open>One call of \<open>next\<close>: a change further on, or the end; never an error.\<close>

lemma next_ok:
  assumes doc: "lib_documented lib" and s: "feed_ok lib s" and inv: "drain_inv lib s d rep"
  obtains (change) c d' where "next_change lib s d = (Some (Inr c), d')" "drain_inv lib s d' (apply_change c rep)"
      "wm_revision (dr_position d) < wm_revision (dr_position d')" "dr_head d' = dr_head d" "dr_kinds d' = dr_kinds d"
    | (finished) d' where "next_change lib s d = (None, d')" "drain_inv lib s d' rep" "dr_exhausted d'"
      "dr_head d' = dr_head d" "dr_kinds d' = dr_kinds d"
proof -
  have popped: "next_change lib s d1 = (Some (Inr c), at_revision (ch_revision c) (d1\<lparr>dr_buffer := cs\<rparr>))"
    if "dr_buffer d1 = c # cs" for d1 c cs using that by (simp add: next_change.simps [of lib s d1])
  show thesis
  proof (cases "dr_buffer d")
    case (Cons c cs)
    show thesis
      by (rule change [OF popped [OF Cons] drain_inv_pop(1) [OF inv Cons]]) (simp_all add: drain_inv_pop(2) [OF inv Cons])
  next
    case Nil
    show thesis
    proof (cases "dr_exhausted d")
      case True
      then show thesis using Nil inv by (intro finished [of d]) (simp_all add: next_change.simps [of lib s d])
    next
      case False
      obtain d' where d': "fill lib s d = (True, d')" "drain_inv lib s d' rep" "dr_head d' = dr_head d"
          "dr_kinds d' = dr_kinds d" "d' = exhaust d \<or> dr_buffer d' \<noteq> [] \<and> dr_position d' = dr_position d"
        using fill_ok [OF doc s inv Nil False] by blast
      have nxt: "next_change lib s d = next_change lib s d'"
        using Nil False d'(1) by (simp add: next_change.simps [of lib s d])
      show thesis
      proof (cases "dr_buffer d'")
        case (Cons c cs)
        then have pos: "dr_position d' = dr_position d" using d'(5) Nil by auto
        show thesis
          by (rule change [OF _ drain_inv_pop(1) [OF d'(2) Cons]])
             (use nxt popped [OF Cons] drain_inv_pop(2) [OF d'(2) Cons] pos d'(3,4) in simp_all)
      next
        case empty: Nil
        then have "dr_exhausted d'" using d'(5) by auto
        then show thesis using nxt empty d'(2-4) by (intro finished [of d']) (simp_all add: next_change.simps [of lib s d'])
      qed
    qed
  qed
qed

section \<open>Runs\<close>

lemma feed_event_ok:
  assumes doc: "lib_documented lib" and s: "feed_ok lib s" and inv: "drain_inv lib s d rep"
    and step: "feed_event_step lib e (s, d, rep) = (s', d', rep')"
  shows "feed_ok lib s' \<and> drain_inv lib s' d' rep' \<and> dr_head d' = dr_head d \<and> dr_kinds d' = dr_kinds d \<and>
    wm_revision (dr_position d) \<le> wm_revision (dr_position d') \<and> (dr_exhausted d \<longrightarrow> dr_exhausted d') \<and>
    (e = DrainNext \<longrightarrow> dr_exhausted d' \<or> wm_revision (dr_position d) < wm_revision (dr_position d'))"
proof (cases e)
  case (StoreWrite w)
  have ok: "feed_ok lib (try_write lib w s) \<and> feed_step lib s (try_write lib w s)"
    using writes_ok [OF doc s, of "[w]"] by (simp add: write_all_def)
  then show ?thesis using drain_inv_write [OF conjunct2 [OF ok] inv] step StoreWrite by auto
next
  case DrainNext
  from doc s inv show ?thesis
  proof (cases rule: next_ok)
    case (change c d1)
    have "\<not> dr_exhausted d"
    proof
      assume "dr_exhausted d"
      moreover have "dr_buffer d = []" using inv calculation by (simp add: drain_inv_def)
      ultimately show False using change(1) by (simp add: next_change.simps [of lib s d])
    qed
    then show ?thesis using change step s DrainNext by auto
  next
    case (finished d1)
    have "wm_revision (dr_position d) \<le> wm_revision (dr_head d)" using inv by (simp add: drain_inv_def)
    moreover have "dr_position d1 = dr_head d1" using finished(2,3) by (simp add: drain_inv_def)
    ultimately show ?thesis using finished step s DrainNext by auto
  qed
qed

definition nexts :: "feed_event list \<Rightarrow> nat" where
  "nexts evs = length (filter (\<lambda>e. e = DrainNext) evs)"

lemma run_ok:
  assumes "lib_documented lib" and "feed_ok lib s" and "drain_inv lib s d rep" and "run_feed lib evs (s, d, rep) = (s', d', rep')"
  shows "feed_ok lib s' \<and> drain_inv lib s' d' rep' \<and> dr_head d' = dr_head d \<and> dr_kinds d' = dr_kinds d \<and>
    (dr_exhausted d' \<or> wm_revision (dr_position d) + nexts evs \<le> wm_revision (dr_position d')) \<and>
    (dr_exhausted d \<longrightarrow> dr_exhausted d')"
  using assms(2-)
proof (induction evs arbitrary: s d rep)
  case Nil
  then show ?case by (simp add: run_feed_def nexts_def)
next
  case (Cons e evs)
  obtain s1 d1 rep1 where one: "feed_event_step lib e (s, d, rep) = (s1, d1, rep1)" by (cases "feed_event_step lib e (s, d, rep)")
  note ok = feed_event_ok [OF assms(1) Cons.prems(1,2) one]
  have "run_feed lib evs (s1, d1, rep1) = (s', d', rep')" using Cons.prems(3) one by (simp add: run_feed_def)
  then show ?case using Cons.IH [of s1 d1 rep1] ok by (auto simp: nexts_def split: if_splits)
qed

section \<open>From the open on\<close>

lemma sorted_remdups_adj_distinct: "sorted (xs :: 'a :: linorder list) \<Longrightarrow> distinct (remdups_adj xs)"
proof (induction xs rule: remdups_adj.induct)
  case (3 x y xs)
  then show ?case by (cases "x = y") (auto simp: order.order_iff_strict)
qed simp_all

lemma normalize_kinds_distinct [simp]: "distinct (normalize_kinds kinds)"
  by (simp add: normalize_kinds_def sorted_remdups_adj_distinct)

lemma changes_since_Inr:
  assumes "changes_since ro s from q = Inr d"
  shows "fd_current s" "validate_query from q = Inr ()" "dr_kinds d = normalize_kinds (cq_kinds q)"
    "dr_session d = cq_session q" "dr_batch d = batch_of q" "dr_head d = read_head s" "dr_buffer d = []"
    "\<not> dr_exhausted d" "wm_revision (dr_position d) \<le> fd_clock s" "wm_epoch (dr_position d) = fd_epoch s"
    "dr_consumer d = cq_consumer q" "dr_read_only d = ro"
  using assms
  by (auto simp: changes_since_def and_then_def resolve_start_and_head_def check_issued_def read_head_def Let_def
      split: if_splits sum.splits option.splits prod.splits)

lemma open_inv:
  assumes open_: "changes_since ro s from q = Inr d" and session: "cq_session q = None"
    and rep: "agrees lib s (dr_kinds d) (wm_revision (dr_position d)) rep" "known lib s rep"
  shows "drain_inv lib s d rep"
  using changes_since_Inr [OF open_] session rep
  by (simp add: drain_inv_def read_head_def batch_of_def DEFAULT_CHANGE_BATCH_def MAX_CHANGE_BATCH_def)

lemma drained:
  assumes "lib_documented lib" and "feed_ok lib s" and "changes_since ro s from q = Inr d" and "cq_session q = None"
    and "agrees lib s (dr_kinds d) (wm_revision (dr_position d)) rep" and "known lib s rep"
    and "run_feed lib evs (s, d, rep) = (s', d', rep')"
    and "wm_revision (dr_head d) - wm_revision (dr_position d) < nexts evs"
  shows "dr_exhausted d' \<and> dr_position d' = dr_head d \<and>
    agrees lib s' (dr_kinds d) (wm_revision (dr_head d)) rep' \<and> known lib s' rep'"
proof -
  have run: "feed_ok lib s'" "drain_inv lib s' d' rep'" "dr_head d' = dr_head d" "dr_kinds d' = dr_kinds d"
      "dr_exhausted d' \<or> wm_revision (dr_position d) + nexts evs \<le> wm_revision (dr_position d')"
    using run_ok [OF assms(1,2) open_inv [OF assms(3-6)] assms(7)] by blast+
  have "wm_revision (dr_position d') \<le> wm_revision (dr_head d)"
    using run(2) unfolding drain_inv_def run(3) by blast
  then have "dr_exhausted d'" using run(5) assms(8) by linarith
  moreover have "dr_position d' = dr_head d" using run(2) calculation unfolding drain_inv_def run(3) by blast
  moreover have "agrees lib s' (dr_kinds d) (wm_revision (dr_position d')) rep'" "known lib s' rep'"
    using run(2) unfolding drain_inv_def run(4) by blast+
  ultimately show ?thesis by simp
qed

text \<open>The rows as the store has them, by key.\<close>

definition store_view :: "feed_store \<Rightarrow> replica" where
  "store_view s x = map_option (\<lambda>(k, r). carried_row s k (fr_cells r))
     (find (\<lambda>(k, r). row_key k (fr_cells r) = x) (concat (map (\<lambda>k. map (Pair k) (fd_tables s k)) ALL_KINDS)))"

lemma all_kinds [simp]: "k \<in> set ALL_KINDS"
  by (cases k) (simp_all add: ALL_KINDS_def)

lemma find_member: "find P xs = Some x \<Longrightarrow> P x \<and> x \<in> set xs"
  by (induction xs) (auto split: if_splits)

lemma store_view_entry:
  assumes doc: "lib_documented lib" and s: "feed_ok lib s"
  shows "entry lib s x n v \<Longrightarrow> store_view s x = v" and "\<nexists>n v. entry lib s x n v \<Longrightarrow> store_view s x = None"
proof -
  have live: "\<exists>n. live_entry s x n (Some row)" if view: "store_view s x = Some row" for row
  proof -
    obtain k r where "find (\<lambda>(k, r). row_key k (fr_cells r) = x) (concat (map (\<lambda>k. map (Pair k) (fd_tables s k)) ALL_KINDS)) =
        Some (k, r)" "row = carried_row s k (fr_cells r)" using view unfolding store_view_def by auto
    then have "r \<in> set (fd_tables s k)" "row_key k (fr_cells r) = x"
      using find_member by fastforce+
    then show ?thesis unfolding live_entry_def using \<open>row = _\<close> by blast
  qed
  then show "store_view s x = None" if "\<nexists>n v. entry lib s x n v" using that unfolding entry_def by (cases "store_view s x") auto
  have none: "\<not> live_entry s x n (Some row)" if view: "store_view s x = None" for n row
  proof
    assume "live_entry s x n (Some row)"
    then obtain k r where "r \<in> set (fd_tables s k)" "x = row_key k (fr_cells r)" unfolding live_entry_def by blast
    then have "(k, r) \<in> set (concat (map (\<lambda>k. map (Pair k) (fd_tables s k)) ALL_KINDS))" by auto
    then show False using view \<open>x = _\<close> unfolding store_view_def by (auto simp: find_None_iff)
  qed
  assume e: "entry lib s x n v"
  show "store_view s x = v"
  proof (cases "store_view s x")
    case None
    then have "dead_entry lib s x n v" using e none unfolding entry_def live_entry_def by blast
    then show ?thesis using None by (simp add: dead_entry_def)
  next
    case (Some row)
    then obtain m where "entry lib s x m (Some row)" using live entry_def by blast
    then show ?thesis using entry_unique [OF doc s e] Some by metis
  qed
qed

lemma run_nexts_store: "list_all (\<lambda>e. e = DrainNext) evs \<Longrightarrow> fst (run_feed lib evs (s, d, rep)) = s"
proof (induction evs arbitrary: d rep)
  case (Cons e evs)
  have "fst (feed_event_step lib DrainNext (s, d, rep)) = s" by (auto split: option.splits sum.splits prod.splits)
  then obtain d1 rep1 where "feed_event_step lib e (s, d, rep) = (s, d1, rep1)"
    using Cons.prems by (cases "feed_event_step lib DrainNext (s, d, rep)") auto
  then show ?case using Cons by (simp add: run_feed_def)
qed (simp add: run_feed_def)

section \<open>What a drain delivers\<close>

lemma sample_store_ok: "feed_ok sample_lib sample_store"
  unfolding sample_store_def using writes_ok [OF sample_lib_documented sample_feed_ok] by blast

definition sample_query :: change_query where
  "sample_query = \<lparr>cq_kinds = None, cq_consumer = Some ''c'', cq_batch = 1, cq_session = None\<rparr>"

definition sample_drain :: changes where
  "sample_drain = \<lparr>dr_kinds = ALL_KINDS, dr_consumer = Some ''c'', dr_session = None, dr_batch = 1,
     dr_head = \<lparr>wm_revision = 3, wm_epoch = 5\<rparr>, dr_position = \<lparr>wm_revision = 0, wm_epoch = 5\<rparr>,
     dr_stale = None, dr_buffer = [], dr_exhausted = False, dr_read_only = False\<rparr>"

lemma START_CONSUMER [simp]: "START \<noteq> CONSUMER"
  by (simp add: START_def CONSUMER_def)

lemma sample_store_fields: "fd_clock sample_store = 3" "fd_current sample_store" "fd_cursors sample_store = []"
  by code_simp+

lemma sample_store_epoch: "fd_epoch sample_store = 5"
  using writes_ok [OF sample_lib_documented sample_feed_ok, of sample_writes]
  unfolding feed_step_def sample_store_def by (simp add: sample_feed_def empty_feed_def)

lemma all_kinds_normal: "normalize_kinds None = ALL_KINDS"
  by code_simp

lemma sample_open: "changes_since False sample_store START sample_query = Inr sample_drain"
proof -
  have "read_head sample_store = \<lparr>wm_revision = 3, wm_epoch = 5\<rparr>"
    by (simp add: read_head_def sample_store_fields sample_store_epoch)
  then show ?thesis
    by (simp add: changes_since_def sample_query_def validate_query_def and_then_def resolve_start_and_head_def
        read_cursor_def sample_store_fields check_issued_def all_kinds_normal batch_of_def MAX_CHANGE_BATCH_def
        START_def [THEN arg_cong [of _ _ wm_revision]] Let_def sample_drain_def)
qed

lemma entry_positive: "feed_ok lib s \<Longrightarrow> entry lib s x n v \<Longrightarrow> 0 < n \<and> n \<le> fd_clock s"
proof -
  assume s: "feed_ok lib s" and "entry lib s x n v"
  then have "\<exists>a. slot s a n"
    unfolding entry_def live_entry_def dead_entry_def using slot_row slot_tomb by metis
  then show ?thesis using s unfolding feed_ok_def by blast
qed

lemma nothing_held:
  "feed_ok lib s \<Longrightarrow> agrees lib s kinds 0 (\<lambda>_. None)"
  "feed_ok lib s \<Longrightarrow> known lib s (\<lambda>_. None)"
  unfolding agrees_def known_def using entry_positive by fastforce+

text \<open>C19. A drain delivers everything up to the head it was opened at, whatever is written while it runs:
  if a consumer's replica agrees with the store up to the drain's start, then after as many calls of
  \<open>next\<close> as there are revisions between start and head, and one more, the drain is exhausted, no call has
  failed, and the replica shows every record of the drain's kinds that was not written after the head,
  live or deleted, as the store has it.\<close>

theorem drain_replicates:
  assumes "lib_documented lib" and "feed_ok lib s" and "changes_since ro s from q = Inr d" and "cq_session q = None"
    and "agrees lib s (dr_kinds d) (wm_revision (dr_position d)) rep" and "known lib s rep"
    and "run_feed lib evs (s, d, rep) = (s', d', rep')"
    and "wm_revision (dr_head d) - wm_revision (dr_position d) < nexts evs"
  shows "dr_exhausted d' \<and> dr_position d' = read_head s \<and>
    agrees lib s' (dr_kinds d) (wm_revision (dr_position d')) rep' \<and> known lib s' rep'"
  using drained [OF assms] changes_since_Inr(6) [OF assms(3)] by simp

theorem drain_replicates_witness:
  "\<exists>s' d' rep'. run_feed sample_lib
      [DrainNext, StoreWrite (Insert True KSession 3 (sample_session ''s3'')), DrainNext, DrainNext, DrainNext]
      (sample_store, sample_drain, \<lambda>_. None) = (s', d', rep') \<and>
    dr_exhausted d' \<and> dr_position d' = read_head sample_store \<and>
    agrees sample_lib s' (dr_kinds sample_drain) (wm_revision (dr_position d')) rep' \<and> known sample_lib s' rep'"
proof -
  let ?evs = "[DrainNext, StoreWrite (Insert True KSession 3 (sample_session ''s3'')), DrainNext, DrainNext, DrainNext]"
  obtain s' d' rep' where run: "run_feed sample_lib ?evs (sample_store, sample_drain, \<lambda>_. None) = (s', d', rep')"
    by (cases "run_feed sample_lib ?evs (sample_store, sample_drain, \<lambda>_. None)")
  have start: "wm_revision (dr_position sample_drain) = 0" by (simp add: sample_drain_def)
  have "dr_exhausted d' \<and> dr_position d' = read_head sample_store \<and>
      agrees sample_lib s' (dr_kinds sample_drain) (wm_revision (dr_position d')) rep' \<and> known sample_lib s' rep'"
    by (rule drain_replicates [OF sample_lib_documented sample_store_ok sample_open _ _ _ run])
       (use nothing_held [OF sample_store_ok] start in \<open>simp_all add: sample_query_def sample_drain_def nexts_def\<close>)
  then show ?thesis using run by blast
qed

text \<open>When nothing is written while the drain runs, the consumer then holds exactly the store's rows of the
  drain's kinds: each live record under its key with its current row, and nothing else.\<close>

lemma drain_catches_up:
  assumes "lib_documented lib" and "feed_ok lib s" and "changes_since ro s from q = Inr d" and "cq_session q = None"
    and "agrees lib s (dr_kinds d) (wm_revision (dr_position d)) rep" and "known lib s rep"
    and "run_feed lib evs (s, d, rep) = (s', d', rep')" and "list_all (\<lambda>e. e = DrainNext) evs"
    and "wm_revision (dr_head d) - wm_revision (dr_position d) < nexts evs" and "of_kinds (dr_kinds d) x"
  shows "rep' x = store_view s x"
proof -
  have s': "s' = s" using run_nexts_store [OF assms(8), of lib s d rep] assms(7) by simp
  have "wm_revision (dr_head d) = fd_clock s" using changes_since_Inr(6) [OF assms(3)] by (simp add: read_head_def)
  then have agree: "agrees lib s (dr_kinds d) (fd_clock s) rep'" and known: "known lib s rep'"
    using drained [OF assms(1-7,9)] unfolding s' by simp_all
  have up: "rep' x = v" if "entry lib s x n v" for n v
    using agree entry_positive [OF assms(2) that] that assms(10) unfolding agrees_def by blast
  show ?thesis
  proof (cases "\<exists>n v. entry lib s x n v")
    case True
    then show ?thesis using up store_view_entry(1) [OF assms(1,2)] by blast
  next
    case False
    then show ?thesis using known store_view_entry(2) [OF assms(1,2)] unfolding known_def by metis
  qed
qed

lemma drain_catches_up_witness:
  "snd (snd (run_feed sample_lib (replicate 4 DrainNext) (sample_store, sample_drain, \<lambda>_. None)))
     (row_key KSession (sample_session ''s2'')) = store_view sample_store (row_key KSession (sample_session ''s2''))"
proof -
  obtain s' d' rep' where run: "run_feed sample_lib (replicate 4 DrainNext) (sample_store, sample_drain, \<lambda>_. None) = (s', d', rep')"
    by (cases "run_feed sample_lib (replicate 4 DrainNext) (sample_store, sample_drain, \<lambda>_. None)")
  have start: "wm_revision (dr_position sample_drain) = 0" by (simp add: sample_drain_def)
  have "rep' (row_key KSession (sample_session ''s2'')) = store_view sample_store (row_key KSession (sample_session ''s2''))"
    by (rule drain_catches_up [OF sample_lib_documented sample_store_ok sample_open _ _ _ run])
       (use nothing_held [OF sample_store_ok] start in \<open>simp_all add: sample_query_def sample_drain_def nexts_def list_all_iff\<close>)
  then show ?thesis using run by simp
qed

end
