(* ===== verification/FeedCursorFacts.thy ===== *)
theory FeedCursorFacts
  imports FeedReplica
begin

text \<open>
  What named cursors and watermarks promise: the spelling a cursor is bound to tells kind sets apart, a
  commit writes only a position of this database and only forward, and \<open>resumes_from\<close> answers as
  \<open>changes_since\<close> would.
\<close>

section \<open>The spelling of a kind set\<close>

lemma split_join:
  assumes "xs \<noteq> []" and "\<And>x. x \<in> set xs \<Longrightarrow> d \<notin> set x"
  shows "split_char d (join_with [d] xs) = xs"
  using assms
proof (induction "[d]" xs rule: join_with.induct)
  case (2 x)
  then show ?case by (simp add: split_char_single)
next
  case (3 x y ys)
  then have "split_char d (x @ d # join_with [d] (y # ys)) = [x] @ (y # ys)"
    by (simp only: split_char_append) (simp add: split_char_single)
  then show ?case by simp
qed simp

lemma kind_str_chars: "CHR '','' \<notin> set (kind_str k)" "kind_str k \<noteq> []" "CHR ''*'' \<notin> set (kind_str k)"
  by (cases k; simp)+

lemma join_chars: "c \<in> set (join_with sep xs) \<Longrightarrow> c \<in> set sep \<or> (\<exists>x \<in> set xs. c \<in> set x)"
  by (induction sep xs rule: join_with.induct) auto

lemma join_kinds_Nil: "join_with '','' (map kind_str ks) = [] \<longleftrightarrow> ks = []"
  using kind_str_chars(2) by (induction "'',''" "map kind_str ks" arbitrary: ks rule: join_with.induct) auto

text \<open>The spelling tells kind sets apart, so a cursor is resumed only for the kinds it was committed for.\<close>

lemma stored_kinds_inj: "stored_kinds a = stored_kinds b \<longleftrightarrow> a = b"
proof -
  have star: "join_with '','' (map kind_str ks) \<noteq> ''*''" for ks
  proof
    assume "join_with '','' (map kind_str ks) = ''*''"
    then have "CHR ''*'' \<in> set (join_with '','' (map kind_str ks))" by simp
    then show False using join_chars [of "CHR ''*''"] kind_str_chars(3) by fastforce
  qed
  have join: "a = b" if eq: "join_with '','' (map kind_str a) = join_with '','' (map kind_str b)" for a b
  proof (cases "a = [] \<or> b = []")
    case True
    then show ?thesis using eq join_kinds_Nil by (metis list.simps(8) join_with.simps(1))
  next
    case False
    have "split_char (CHR '','') (join_with '','' (map kind_str ks)) = map kind_str ks" if "ks \<noteq> []" for ks
      by (rule split_join) (use that kind_str_chars(1) in auto)
    then have "map kind_str a = map kind_str b" using eq False by metis
    then show ?thesis by (rule map_injective) (simp add: inj_def)
  qed
  show ?thesis unfolding stored_kinds_def using star join by (auto dest: sym)
qed

section \<open>Committing\<close>

lemma read_cursor_update:
  "read_cursor (s\<lparr>fd_cursors := AList.update name v (fd_cursors s)\<rparr>) n = (if n = name then Some v else read_cursor s n)"
  by (simp add: read_cursor_def update_conv)

text \<open>The stale cursor of a drain stood past its head.\<close>

lemma stale_past_head:
  assumes "changes_since ro s from q = Inr d" and "dr_stale d = Some w"
  shows "wm_revision (dr_head d) < wm_revision w"
  using assms
  by (auto simp: changes_since_def and_then_def resolve_start_and_head_def check_issued_def read_head_def Let_def
      split: if_splits sum.splits option.splits prod.splits)



text \<open>C24. What a commit stored is what the consumer resumes from, on every branch: the database must be
  current, the query must not name a session, its kinds must be those the cursor is bound to, and the stored
  revision must not be past the head; otherwise each is refused with its own error.\<close>

theorem commit_resumes:
  assumes "commit d s = (Inr w, s')" and "cq_consumer q = dr_consumer d"
  shows "changes_since ro s' CONSUMER q =
    (if \<not> fd_current s then Inl FeedDatabaseOpen
     else if cq_session q \<noteq> None then Inl InvalidArgument
     else if normalize_kinds (cq_kinds q) \<noteq> dr_kinds d then Inl ConsumerKindsMismatch
     else if fd_clock s < wm_revision w then Inl WatermarkAheadOfStore
     else Inr \<lparr>dr_kinds = dr_kinds d, dr_consumer = dr_consumer d, dr_session = None, dr_batch = batch_of q,
         dr_head = read_head s, dr_position = w, dr_stale = None, dr_buffer = [], dr_exhausted = False,
         dr_read_only = ro\<rparr>)"
proof -
  obtain name where name: "dr_consumer d = Some name" "cq_consumer q = Some name"
    using assms by (auto simp: commit_def split: option.splits)
  have committed: "commit_cursor s name (dr_position d) (dr_kinds d) (dr_stale d) = (Inr w, s')"
    using assms(1) name by (simp add: commit_def split: if_splits)
  then have w: "s' = s\<lparr>fd_cursors := AList.update name (wm_revision w, stored_kinds (dr_kinds d)) (fd_cursors s)\<rparr>"
      "wm_epoch w = fd_epoch s"
    by (auto simp: commit_cursor_def Let_def split: option.splits if_splits prod.splits)
  then have cursor: "read_cursor s' name = Some (wm_revision w, stored_kinds (dr_kinds d))"
    by (simp only: read_cursor_update) simp
  have fields: "fd_current s' = fd_current s" "fd_clock s' = fd_clock s" "fd_epoch s' = fd_epoch s" by (simp_all add: w)
  have eq: "\<lparr>wm_revision = wm_revision w, wm_epoch = fd_epoch s\<rparr> = w" using w(2) by (metis watermark.surjective unit.exhaust)
  show ?thesis
    using name cursor eq
    by (cases "cq_session q") (auto simp: changes_since_def validate_query_def fields and_then_def resolve_start_and_head_def
        check_issued_def read_head_def stored_kinds_inj Let_def split: prod.splits)
qed

theorem commit_resumes_witness:
  "\<exists>s'. commit (exhaust sample_drain) sample_store = (Inr \<lparr>wm_revision = 3, wm_epoch = 5\<rparr>, s') \<and>
    changes_since False s' CONSUMER sample_query = Inr (sample_drain\<lparr>dr_position := \<lparr>wm_revision = 3, wm_epoch = 5\<rparr>\<rparr>)"
proof -
  let ?c = "commit (exhaust sample_drain) sample_store"
  have stored: "?c = (Inr \<lparr>wm_revision = 3, wm_epoch = 5\<rparr>, snd ?c)"
    by (simp add: commit_def exhaust_def sample_drain_def commit_cursor_def Let_def read_cursor_def sample_store_fields
        sample_store_epoch)
  have "changes_since False (snd ?c) CONSUMER sample_query = Inr (sample_drain\<lparr>dr_position := \<lparr>wm_revision = 3, wm_epoch = 5\<rparr>\<rparr>)"
    by (subst commit_resumes [OF stored])
       (simp_all add: sample_query_def sample_drain_def exhaust_def sample_store_fields sample_store_epoch read_head_def
         all_kinds_normal batch_of_def MAX_CHANGE_BATCH_def)
  then show ?thesis using stored by blast
qed

section \<open>Answering before draining\<close>


section \<open>Retirements\<close>

text \<open>The epoch that follows is the next odd number; the largest \<open>i64\<close> is no exception, since adding wraps.\<close>

lemma next_epoch_add: "next_epoch e = e + 2"
  by (simp add: next_epoch_def)

definition retire_round :: "nat \<times> string list \<Rightarrow> feed_store \<Rightarrow> feed_store" where
  "retire_round round s = retire_kinds (snd round) (s\<lparr>fd_clock := fd_clock s + fst round\<rparr>)"

definition retire_rounds :: "(nat \<times> string list) list \<Rightarrow> feed_store \<Rightarrow> feed_store" where
  "retire_rounds rounds s = fold retire_round rounds s"

lemma retire_round_fields:
  "fd_epoch (retire_round round s) = fd_epoch s + 2"
  "fd_clock (retire_round round s) = fd_clock s + fst round"
  "fd_epochs (retire_round round s) = AList.update (fd_epoch s) (fd_epoch s + 2, fd_clock s + fst round) (fd_epochs s)"
  "fd_current (retire_round round s) = fd_current s"
  by (simp_all add: retire_round_def retire_kinds_def next_epoch_add)

lemma epoch_apart:
  assumes "i < n" "n \<le> 64"
  shows "(e :: 64 word) + of_nat (2 * i) \<noteq> e + of_nat (2 * n)"
proof
  assume "e + of_nat (2 * i) = e + of_nat (2 * n)"
  then have "(of_nat (2 * i) :: 64 word) = of_nat (2 * n)" by simp
  then have "take_bit 64 (2 * i) = take_bit 64 (2 * n)" unfolding word_of_nat_eq_iff by simp
  then show False using assms by (simp add: take_bit_eq_mod)
qed

definition epoch_after :: "feed_store \<Rightarrow> nat \<Rightarrow> 64 word" where
  "epoch_after s n = fd_epoch s + of_nat (2 * n)"

lemma retire_rounds_links:
  assumes "length rounds \<le> 64"
  shows "fd_epoch (retire_rounds rounds s) = epoch_after s (length rounds) \<and> fd_clock s \<le> fd_clock (retire_rounds rounds s) \<and>
    (\<forall>j < length rounds. \<exists>through. fd_clock s \<le> through \<and>
       map_of (fd_epochs (retire_rounds rounds s)) (epoch_after s j) = Some (epoch_after s (Suc j), through))"
  using assms
proof (induction rounds rule: rev_induct)
  case Nil
  then show ?case by (simp add: retire_rounds_def epoch_after_def)
next
  case (snoc round rounds)
  let ?m = "retire_rounds rounds s"
  have m: "fd_epoch ?m = epoch_after s (length rounds)" "fd_clock s \<le> fd_clock ?m"
      "\<And>j. j < length rounds \<Longrightarrow> \<exists>through. fd_clock s \<le> through \<and>
        map_of (fd_epochs ?m) (epoch_after s j) = Some (epoch_after s (Suc j), through)"
    using snoc by auto
  have step: "retire_rounds (rounds @ [round]) s = retire_round round ?m" by (simp add: retire_rounds_def)
  have succ: "fd_epoch ?m + 2 = epoch_after s (Suc (length rounds))" using m(1) by (simp add: epoch_after_def)
  have apart: "epoch_after s j \<noteq> fd_epoch ?m" if "j < length rounds" for j
    unfolding m(1) epoch_after_def by (rule epoch_apart [OF that]) (use snoc.prems in simp)
  have "\<exists>through. fd_clock s \<le> through \<and>
      map_of (fd_epochs (retire_round round ?m)) (epoch_after s j) = Some (epoch_after s (Suc j), through)"
    if "j < Suc (length rounds)" for j
  proof (cases "j = length rounds")
    case True
    then show ?thesis using m(1,2) succ by (simp add: retire_round_fields update_conv)
  next
    case False
    then show ?thesis using m(3) [of j] apart [of j] that by (simp add: retire_round_fields update_conv)
  qed
  then show ?case using m(2) succ unfolding step by (simp add: retire_round_fields)
qed

lemma follow_chain:
  assumes "\<And>i. i < n \<Longrightarrow> \<exists>through. revision \<le> through \<and> map_of epochs (epoch_after s i) = Some (epoch_after s (Suc i), through)"
    and "j < n" "n - j \<le> links"
  shows "follow_links epochs revision (epoch_after s n) links (epoch_after s j)"
  using assms(2,3)
proof (induction links arbitrary: j)
  case (Suc links)
  obtain through where "revision \<le> through" "map_of epochs (epoch_after s j) = Some (epoch_after s (Suc j), through)"
    using assms(1) [OF Suc.prems(1)] by blast
  then show ?case using Suc.IH [of "Suc j"] Suc.prems by (cases "Suc j = n") auto
qed simp

text \<open>C26. A watermark survives a chain of retirements: after up to 64 of them, whatever else the clock counted
  in between, a watermark the store issued before the first resumes exactly the queries that leave out a
  current kind.\<close>

theorem retirements_chain:
  assumes "fd_current s" and "validate_query from q = Inr ()" and "from \<noteq> START" "from \<noteq> CONSUMER"
    and "wm_epoch from = fd_epoch s" "wm_revision from \<le> fd_clock s"
    and "rounds \<noteq> []" "length rounds \<le> 64"
  shows "resumes_from (retire_rounds rounds s) from q = Inr (leaves_out_a_kind (normalize_kinds (cq_kinds q)))"
proof -
  let ?s = "retire_rounds rounds s" and ?kinds = "normalize_kinds (cq_kinds q)"
  have s: "fd_epoch ?s = epoch_after s (length rounds)" "fd_clock s \<le> fd_clock ?s"
      "\<And>j. j < length rounds \<Longrightarrow> \<exists>through. wm_revision from \<le> through \<and>
        map_of (fd_epochs ?s) (epoch_after s j) = Some (epoch_after s (Suc j), through)"
    using retire_rounds_links [OF assms(8), of s] assms(6) le_trans by blast+
  have current: "fd_current ?s"
    using assms(1) unfolding retire_rounds_def by (induction rounds arbitrary: s) (simp_all add: retire_round_fields)
  have old: "epoch_after s 0 = wm_epoch from" using assms(5) by (simp add: epoch_after_def)
  have moved: "wm_epoch from \<noteq> fd_epoch ?s"
    unfolding s(1) old [symmetric] epoch_after_def by (rule epoch_apart) (use assms(7,8) in auto)
  have "follow_links (fd_epochs ?s) (wm_revision from) (fd_epoch ?s) MAX_EPOCH_LINKS (wm_epoch from)"
    unfolding s(1) old [symmetric] by (rule follow_chain [OF s(3)]) (use assms(7,8) in \<open>auto simp: MAX_EPOCH_LINKS_def\<close>)
  then have "continues ?s from (fd_epoch ?s) ?kinds \<longleftrightarrow> leaves_out_a_kind ?kinds"
    using moved by (simp add: continues_def)
  then show ?thesis
    using assms(2-4,6) s(2) current
    by (simp add: resumes_from_def and_then_def resolve_start_and_head_def read_head_def Let_def)
qed

theorem retirements_chain_witness:
  "resumes_from (retire_rounds [(1, [''a'']), (0, [''b''])] sample_store) \<lparr>wm_revision = 2, wm_epoch = 5\<rparr>
     \<lparr>cq_kinds = Some [KSessionEvent], cq_consumer = None, cq_batch = 0, cq_session = None\<rparr> = Inr True"
proof -
  have kinds: "leaves_out_a_kind (normalize_kinds (Some [KSessionEvent]))"
    by (simp add: leaves_out_a_kind_def normalize_kinds_def ALL_KINDS_def)
  show ?thesis
    by (subst retirements_chain)
       (simp_all add: kinds sample_store_fields sample_store_epoch validate_query_def START_def CONSUMER_def)
qed

end
