(* ===== verification/FeedReports.thy ===== *)
theory FeedReports
  imports FeedReplica
begin

text \<open>
  What the feed reports of a write: every statement keeps revisions unique and records apart, a delete is
  reported under the key of the upsert it ends, an update that leaves the carried columns alone is not
  reported, and a table met for the first time is stamped once.
\<close>

text \<open>C20. Whatever sequence of inserts, updates, deletes and restamps runs, each with its triggers, a revision
  belongs to one row or one tombstone and lies above zero and at or below the clock, a record is a live row or
  a tombstone and never both, the clock does not go back, what lies at or below the old clock was there
  before, and no record that was ever seen goes without a row or a tombstone.\<close>

theorem writes_keep_feed:
  assumes "lib_documented lib" and "feed_ok lib s"
  shows "feed_ok lib (write_all lib ws s) \<and> feed_step lib s (write_all lib ws s)"
  using writes_ok [OF assms] .

theorem writes_keep_feed_witness:
  "feed_ok sample_lib (write_all sample_lib sample_writes sample_feed) \<and>
   feed_step sample_lib sample_feed (write_all sample_lib sample_writes sample_feed)"
  using writes_keep_feed [OF sample_lib_documented sample_feed_ok] .

section \<open>Deletes\<close>

lemma find_row_unique:
  assumes "rows_ok s" and "r \<in> set (fd_tables s k)"
  shows "find_row (fr_rowid r) (fd_tables s k) = Some r"
proof -
  obtain r' where r': "find_row (fr_rowid r) (fd_tables s k) = Some r'"
    using assms(2) by (cases "find_row (fr_rowid r) (fd_tables s k)") (auto simp: find_row_def find_None_iff)
  then have "r' \<in> set (fd_tables s k)" "fr_rowid r' = fr_rowid r" using find_member unfolding find_row_def by fast+
  then have "r = r'" using rows_okD(3) [OF assms] by metis
  then show ?thesis using r' by simp
qed

lemma stamp_row_tombstones [simp]: "fd_tombstones (stamp_row row s) = fd_tombstones s"
  by (simp add: stamp_row_def stamp_session_def Let_def)

lemma stamp_row_clock: "fd_clock s \<le> fd_clock (stamp_row row s)"
  by (simp add: stamp_row_def stamp_session_def Let_def)

lemma delete_leaves_tombstone:
  assumes s: "feed_ok lib s" and r: "r \<in> set (fd_tables s k)" and del: "delete_row lib first k (fr_rowid r) s = Some s'"
  shows "\<exists>t \<in> set (fd_tombstones s'). names lib k (fr_cells r) t \<and> fd_clock s < tb_revision t"
proof -
  let ?m = "set_table k (filter (\<lambda>r'. fr_rowid r' \<noteq> fr_rowid r) (fd_tables s k)) s"
  have "find_row (fr_rowid r) (fd_tables s k) = Some r" using s r by (intro find_row_unique) (simp_all add: feed_ok_def)
  then have s': "s' = both_triggers first k (stamp_row (fr_cells r)) (delete_trigger lib k (fr_cells r)) ?m"
    using del by (simp add: delete_row_def)
  have trigger: "\<exists>t \<in> set (fd_tombstones (delete_trigger lib k (fr_cells r) m)).
      names lib k (fr_cells r) t \<and> fd_clock s < tb_revision t" if "fd_clock s \<le> fd_clock m" for m
    using that by (simp add: delete_trigger_def put_tombstone_def names_def)
  show ?thesis
    unfolding s' both_triggers_def using trigger [of ?m] trigger [of "stamp_row (fr_cells r) ?m"] stamp_row_clock [of ?m]
    by auto
qed

text \<open>C21. A record's delete is reported under the same key, source and record key as its upsert, at a later
  revision: what a consumer stored for the upsert is what the delete removes.\<close>

theorem delete_keeps_key:
  assumes "lib_documented lib" and "feed_ok lib s" and "r \<in> set (fd_tables s k)" and "upsert_of lib s k r = Some c"
    and "delete_row lib first k (fr_rowid r) s = Some s'"
  shows "\<exists>t \<in> set (fd_tombstones s'). \<exists>c'. delete_of lib k t = Some c' \<and> ch_key c' = ch_key c \<and>
    ch_source_name c' = ch_source_name c \<and> ch_record_key c' = ch_record_key c \<and> ch_columns c' = None \<and>
    ch_revision c < ch_revision c'"
proof -
  have ok: "row_ok k (fr_cells r)" using assms(2) rows_okD(1) [OF _ assms(3)] by (simp add: feed_ok_def)
  obtain t where t: "t \<in> set (fd_tombstones s')" "names lib k (fr_cells r) t" "fd_clock s < tb_revision t"
    using delete_leaves_tombstone [OF assms(2,3,5)] by blast
  have key: "tomb_key lib k t = Some (row_key k (fr_cells r))" by (rule names_key [OF assms(1) ok t(2)])
  have up: "shows_entry c (row_key k (fr_cells r)) (fr_revision r) (Some (carried_row s k (fr_cells r)))"
    using upsert_of_ok [OF assms(1-3)] assms(4) by simp
  have "fr_revision r \<le> fd_clock s" using assms(2) slot_row [OF assms(3)] unfolding feed_ok_def by blast
  then have later: "ch_revision c < tb_revision t" using t(3) up by (simp add: shows_entry_def)
  show ?thesis
    using t(1,2) key later up row_texts [OF assms(1) ok] assms(4)
    by (intro bexI [of _ t])
       (auto simp: tomb_key_def delete_of_def upsert_of_def shows_entry_def names_def Let_def split: option.splits)
qed

lemma sample_rows:
  "fd_tables sample_store KSession = [\<lparr>fr_rowid = 2, fr_cells = sample_session ''s2'', fr_revision = 2\<rparr>]"
  by code_simp

lemma sample_upsert:
  "r \<in> set (fd_tables sample_store KSession) \<Longrightarrow> \<exists>c. upsert_of sample_lib sample_store KSession r = Some c \<and>
     ch_key c = row_key KSession (sample_session ''s2'') \<and> ch_revision c = 2"
  using upsert_of_ok [OF sample_lib_documented sample_store_ok, of r KSession] by (auto simp: sample_rows shows_entry_def)

theorem delete_keeps_key_witness:
  "\<exists>s' t c'. delete_row sample_lib True KSession 2 sample_store = Some s' \<and> t \<in> set (fd_tombstones s') \<and>
     delete_of sample_lib KSession t = Some c' \<and> ch_key c' = row_key KSession (sample_session ''s2'') \<and> 2 < ch_revision c'"
proof -
  let ?r = "\<lparr>fr_rowid = 2, fr_cells = sample_session ''s2'', fr_revision = 2\<rparr>"
  have r: "?r \<in> set (fd_tables sample_store KSession)" by (simp add: sample_rows)
  obtain c where c: "upsert_of sample_lib sample_store KSession ?r = Some c"
      "ch_key c = row_key KSession (sample_session ''s2'')" "ch_revision c = 2" using sample_upsert [OF r] by blast
  obtain s' where "delete_row sample_lib True KSession (fr_rowid ?r) sample_store = Some s'"
    by (simp add: delete_row_def find_row_def sample_rows)
  then show ?thesis
    using delete_keeps_key [OF sample_lib_documented sample_store_ok r c(1)] c(2,3) by fastforce
qed

section \<open>Updates that change nothing\<close>

lemma carried_cells:
  assumes "columns_ok s" and "list_all (\<lambda>c. cell row c = cell row' c) (stored_columns_of s k)"
  shows "row_key k row = row_key k row'" and "carried_row s k row = carried_row s k row'"
proof -
  have same: "cell row c = cell row' c" if "c \<in> set (stored_columns_of s k)" for c
    using assms(2) that by (simp add: list_all_iff)
  then have "key_cells k row = key_cells k row'" using assms(1) by (auto simp: key_cells_def columns_ok_def)
  then show "row_key k row = row_key k row'" by (simp add: row_key_def)
  show "carried_row s k row = carried_row s k row'" using same by (simp add: carried_row_def stored_row_of_def)
qed

lemma presence_key: "set [''source'', ''session_id'', ''location''] \<subseteq> set (ft_key (table_of KPresence))"
  by (simp add: table_of.simps plain_table_def)

text \<open>C22. An update that rewrites a row with the values it carries, whatever it does to the database's own
  bookkeeping columns, takes no revision: the clock, the tombstones and every record as the feed shows it stay
  as they were.\<close>

theorem unchanged_update_unreported:
  assumes "feed_ok lib s" and "find_row i (fd_tables s k) = Some old" and "update_row lib first k i row s = Some s'"
    and "list_all (\<lambda>c. cell row c = cell (fr_cells old) c) (stored_columns_of s k)"
  shows "fd_clock s' = fd_clock s \<and> fd_tombstones s' = fd_tombstones s \<and> entry lib s' x n v = entry lib s x n v"
proof -
  let ?f = "\<lambda>r. if fr_rowid r = i then r\<lparr>fr_cells := row\<rparr> else r"
  let ?m = "set_table k (map ?f (fd_tables s k)) s"
  have cols: "columns_ok s" and rows: "rows_ok s" using assms(1) by (simp_all add: feed_ok_def)
  have old: "old \<in> set (fd_tables s k)" "fr_rowid old = i" using assms(2) find_member unfolding find_row_def by fast+
  have "stored_columns_of ?m k = stored_columns_of s k" by (simp add: stored_columns_of_def)
  then have own: "update_trigger lib k i (fr_cells old) row ?m = ?m"
    using assms(4) by (simp add: update_trigger_def update_guard_def list_all_iff list_ex_iff)
  have presence: "presence_update (fr_cells old) row ?m = ?m" if "k = KPresence"
  proof -
    have "set [''source'', ''session_id'', ''location''] \<subseteq> set (stored_columns_of s k)"
      using presence_key cols that unfolding columns_ok_def by blast
    then have "\<not> presence_moved (fr_cells old) row" using assms(4) by (auto simp: presence_moved_def list_all_iff)
    then show ?thesis by (simp add: presence_update_def)
  qed
  have s': "s' = ?m"
    using assms(2,3) own presence by (auto simp: update_row_def both_triggers_def split: if_splits)
  have f: "row_key k (fr_cells (?f r)) = row_key k (fr_cells r) \<and> carried_row s k (fr_cells (?f r)) = carried_row s k (fr_cells r) \<and>
      fr_revision (?f r) = fr_revision r" if "r \<in> set (fd_tables s k)" for r
    using that rows_okD(3) [OF rows old(1) that] old(2) carried_cells [OF cols assms(4)] by auto
  have carried: "carried_row ?m = carried_row s" by (intro ext) (simp add: carried_row_def stored_columns_of_def)
  define shown where "shown j r \<longleftrightarrow> x = row_key j (fr_cells r) \<and> n = fr_revision r \<and>
      v = Some (carried_row s j (fr_cells r))" for j and r :: fed_row
  have "shown k (?f r) \<longleftrightarrow> shown k r" if "r \<in> set (fd_tables s k)" for r
    using f [OF that] by (simp only: shown_def)
  then have "(\<exists>r \<in> set (map ?f (fd_tables s k)). shown k r) \<longleftrightarrow> (\<exists>r \<in> set (fd_tables s k). shown k r)"
    unfolding set_map bex_simps by blast
  then have "(\<exists>r \<in> set (fd_tables ?m j). shown j r) \<longleftrightarrow> (\<exists>r \<in> set (fd_tables s j). shown j r)" for j
    by (cases "j = k") simp_all
  then have "live_entry ?m x n v \<longleftrightarrow> live_entry s x n v"
    unfolding live_entry_def carried shown_def by simp
  moreover have "dead_entry lib ?m x n v \<longleftrightarrow> dead_entry lib s x n v" by (simp add: dead_entry_def)
  ultimately show ?thesis unfolding s' entry_def by simp
qed

theorem unchanged_update_unreported_witness:
  "\<exists>s'. update_row sample_lib True KSession 2 (sample_session ''s2'' @ [(''raw_facts_version'', SqlInteger 3)]) sample_store = Some s' \<and>
     fd_clock s' = 3 \<and> (entry sample_lib s' (row_key KSession (sample_session ''s2'')) 2 None
       = entry sample_lib sample_store (row_key KSession (sample_session ''s2'')) 2 None)"
proof -
  let ?row = "sample_session ''s2'' @ [(''raw_facts_version'', SqlInteger 3)]"
  let ?old = "\<lparr>fr_rowid = 2, fr_cells = sample_session ''s2'', fr_revision = 2\<rparr>"
  have find: "find_row 2 (fd_tables sample_store KSession) = Some ?old" by (simp add: find_row_def sample_rows)
  have ok: "row_ok KSession ?row"
    by (simp add: row_ok_def table_of.simps plain_table_def sample_session_def cell_def key_cell_ok_def)
  have "key_free KSession ?row (filter (\<lambda>r. fr_rowid r \<noteq> 2) (fd_tables sample_store KSession))"
    by (simp add: key_free_def sample_rows)
  then obtain s' where s': "update_row sample_lib True KSession 2 ?row sample_store = Some s'"
    by (simp add: update_row_def find ok)
  have same: "list_all (\<lambda>c. cell ?row c = cell (fr_cells ?old) c) (stored_columns_of sample_store KSession)"
    by code_simp
  show ?thesis
    using unchanged_update_unreported [OF sample_store_ok find s' same] s' sample_store_fields(1) by auto
qed

section \<open>Tables met for the first time\<close>

text \<open>A store some of whose rows no trigger has stamped: their revision is zero.\<close>

definition unstamped_ok :: "feed_lib \<Rightarrow> feed_store \<Rightarrow> bool" where
  "unstamped_ok lib s \<longleftrightarrow> rows_ok s \<and> tombs_ok lib s \<and> columns_ok s \<and> apart lib None s \<and>
     (\<forall>a n. slot s a n \<longrightarrow> n \<le> fd_clock s) \<and>
     (\<forall>a b n. slot s a n \<longrightarrow> slot s b n \<longrightarrow> 0 < n \<longrightarrow> a = b) \<and>
     (\<forall>t \<in> set (fd_tombstones s). 0 < tb_revision t) \<and> (\<forall>k. \<forall>r \<in> set (fd_tables s k). 0 < fr_rowid r)"

lemma backfill_tables:
  "fd_tables (backfill k s) = (fd_tables s)(k := map (\<lambda>r. if fr_revision r = 0
      then r\<lparr>fr_revision := fr_rowid r + fd_clock s\<rparr> else r) (fd_tables s k))"
  "fd_tombstones (backfill k s) = fd_tombstones s" "fd_columns (backfill k s) = fd_columns s"
  "fd_clock s \<le> fd_clock (backfill k s)"
  by (simp_all add: backfill_def Let_def)

lemma backfill_clock:
  "fd_clock (backfill k s) = max (fd_clock s) (fold max (map fr_revision (fd_tables (backfill k s) k)) 0)"
  by (simp add: backfill_def Let_def)

lemma fold_max_start: "m \<le> fold max ns (m :: nat)"
proof (induction ns arbitrary: m)
  case (Cons n ns)
  have "m \<le> max n m" by simp
  also have "\<dots> \<le> fold max ns (max n m)" by (rule Cons.IH)
  finally show ?case by simp
qed simp

lemma fold_max_ge: "n \<in> set ns \<Longrightarrow> n \<le> fold max ns (m :: nat)"
proof (induction ns arbitrary: m)
  case (Cons k ns)
  show ?case
  proof (cases "n = k")
    case True
    then have "n \<le> max k m" by simp
    also have "\<dots> \<le> fold max ns (max k m)" by (rule fold_max_start)
    finally show ?thesis by simp
  next
    case False
    then show ?thesis using Cons by simp
  qed
qed simp

lemma fold_max_le: "\<forall>n \<in> set ns. n \<le> m \<Longrightarrow> k \<le> m \<Longrightarrow> fold max ns k \<le> (m :: nat)"
  by (induction ns arbitrary: k) auto

lemma backfill_bound: "r \<in> set (fd_tables (backfill k s) k) \<Longrightarrow> fr_revision r \<le> fd_clock (backfill k s)"
proof -
  assume "r \<in> set (fd_tables (backfill k s) k)"
  then have "fr_revision r \<le> fold max (map fr_revision (fd_tables (backfill k s) k)) 0"
    by (intro fold_max_ge) simp
  then show ?thesis unfolding backfill_clock by simp
qed

lemma backfill_slot:
  "slot (backfill k s) a n \<Longrightarrow> slot s a n \<and> (\<forall>i. a = Inl (k, i) \<longrightarrow> 0 < n) \<or>
     (\<exists>i. a = Inl (k, i) \<and> slot s a 0 \<and> n = i + fd_clock s)"
proof (cases a)
  case (Inl p)
  obtain j i where p: "p = (j, i)" by (cases p)
  assume "slot (backfill k s) a n"
  then obtain r where r: "r \<in> set (fd_tables (backfill k s) j)" "fr_rowid r = i" "fr_revision r = n"
    using Inl p by auto
  show ?thesis
  proof (cases "j = k")
    case True
    then obtain r' where r': "r' \<in> set (fd_tables s k)"
        "r = (if fr_revision r' = 0 then r'\<lparr>fr_revision := fr_rowid r' + fd_clock s\<rparr> else r')"
      using r(1) by (auto simp: backfill_tables)
    then show ?thesis using r(2,3) slot_row [OF r'(1)] Inl p True by (cases "fr_revision r' = 0") auto
  next
    case False
    then show ?thesis using r slot_row Inl p by (auto simp: backfill_tables)
  qed
qed (auto simp: backfill_tables)

lemma backfill_ok:
  assumes s: "unstamped_ok lib s"
  shows "unstamped_ok lib (backfill k s)"
    and "r \<in> set (fd_tables (backfill k s) k) \<Longrightarrow> 0 < fr_revision r"
    and "j \<noteq> k \<Longrightarrow> fd_tables (backfill k s) j = fd_tables s j"
proof -
  let ?m = "backfill k s"
  have bare: "bare (fd_tables ?m j) = bare (fd_tables s j)" for j by (simp add: backfill_tables bare_def)
  have le: "n \<le> fd_clock s" if "slot s a n" for a n using s that unfolding unstamped_ok_def by blast
  have id: "0 < fr_rowid r" if "r \<in> set (fd_tables s j)" for r j using s that unfolding unstamped_ok_def by blast
  have pos: "0 < i" if "slot s (Inl (j, i)) n" for i j n using that id by auto
  have bound: "n \<le> fd_clock ?m" if sl: "slot ?m a n" for a n
  proof (cases "slot s a n")
    case True
    then show ?thesis using le [OF True] backfill_tables(4) [of s k] by simp
  next
    case False
    then obtain i where "a = Inl (k, i)" using backfill_slot [OF sl] by blast
    then show ?thesis using sl backfill_bound by auto
  qed
  have uniq: "a = b" if a: "slot ?m a n" and b: "slot ?m b n" and n: "0 < n" for a b n
    using backfill_slot [OF a] backfill_slot [OF b] s n le pos unfolding unstamped_ok_def by fastforce
  show "unstamped_ok lib ?m"
    using s bound uniq unfolding unstamped_ok_def rows_ok_def tombs_ok_def columns_ok_def apart_def bare stored_columns_of_def
    by (auto simp: backfill_tables)
  show "0 < fr_revision r" if "r \<in> set (fd_tables ?m k)" using that id by (auto simp: backfill_tables)
  show "fd_tables ?m j = fd_tables s j" if "j \<noteq> k" using that by (simp add: backfill_tables)
qed

lemma backfill_fold:
  assumes "unstamped_ok lib s" and "\<And>k r. k \<in> K \<Longrightarrow> r \<in> set (fd_tables s k) \<Longrightarrow> 0 < fr_revision r"
  shows "unstamped_ok lib (fold backfill ks s) \<and>
    (\<forall>k \<in> K \<union> set ks. \<forall>r \<in> set (fd_tables (fold backfill ks s) k). 0 < fr_revision r)"
  using assms
proof (induction ks arbitrary: s K)
  case (Cons k ks)
  have pos: "0 < fr_revision r" if "j \<in> insert k K" "r \<in> set (fd_tables (backfill k s) j)" for j r
    using that backfill_ok(2,3) [OF Cons.prems(1)] Cons.prems(2) by (cases "j = k") auto
  have "unstamped_ok lib (fold backfill ks (backfill k s)) \<and>
      (\<forall>j \<in> insert k K \<union> set ks. \<forall>r \<in> set (fd_tables (fold backfill ks (backfill k s)) j). 0 < fr_revision r)"
    by (rule Cons.IH [OF backfill_ok(1) [OF Cons.prems(1)]]) (rule pos)
  then show ?case by simp
qed simp

text \<open>Opening a store whose rows predate the feed, or a kind the feed did not have, stamps every unstamped
  row once, above everything stamped before it: afterwards the store is one every later write keeps in order.\<close>

lemma backfill_stamps_once:
  assumes "unstamped_ok lib s"
  shows "feed_ok lib (backfill_all s) \<and> backfill_all (backfill_all s) = backfill_all s"
proof -
  let ?m = "backfill_all s"
  have m: "unstamped_ok lib ?m" "\<And>k r. r \<in> set (fd_tables ?m k) \<Longrightarrow> 0 < fr_revision r"
    using backfill_fold [OF assms, of "{}" ALL_KINDS] unfolding backfill_all_def by simp_all
  have "0 < n" if "slot ?m a n" for a n
    using that m unfolding unstamped_ok_def by (cases a) auto
  then have ok: "feed_ok lib ?m" using m(1) unfolding unstamped_ok_def feed_ok_def by blast
  have "backfill k ?m = ?m" for k
  proof -
    have rows: "map (\<lambda>r. if fr_revision r = 0 then r\<lparr>fr_revision := fr_rowid r + fd_clock ?m\<rparr> else r) (fd_tables ?m k) = fd_tables ?m k"
      by (rule map_idI) (use m(2) [of _ k] in fastforce)
    have "n \<le> fd_clock ?m" if n: "n \<in> set (map fr_revision (fd_tables ?m k))" for n
    proof -
      obtain r where "r \<in> set (fd_tables ?m k)" "n = fr_revision r" using n by auto
      then show ?thesis using ok slot_row unfolding feed_ok_def by blast
    qed
    then have "fold max (map fr_revision (fd_tables ?m k)) 0 \<le> fd_clock ?m"
      by (intro fold_max_le) auto
    then show ?thesis unfolding backfill_def Let_def rows by (simp add: set_table_def max_absorb1)
  qed
  then have "fold backfill ks ?m = ?m" for ks by (induction ks) simp_all
  then show ?thesis using ok by (simp add: backfill_all_def)
qed

lemma backfill_stamps_once_witness:
  "feed_ok sample_lib (backfill_all (sample_feed\<lparr>fd_tables := (fd_tables sample_feed)(KSession :=
      [\<lparr>fr_rowid = 4, fr_cells = sample_session ''s1'', fr_revision = 0\<rparr>])\<rparr>))"
proof -
  let ?s = "sample_feed\<lparr>fd_tables := (fd_tables sample_feed)(KSession :=
      [\<lparr>fr_rowid = 4, fr_cells = sample_session ''s1'', fr_revision = 0\<rparr>])\<rparr>"
  have tables: "fd_tables sample_feed = (\<lambda>_. [])" "fd_tombstones sample_feed = []"
    by (simp_all add: sample_feed_def empty_feed_def)
  have row: "row_ok KSession (sample_session ''s1'')"
    by (simp add: row_ok_def table_of.simps plain_table_def sample_session_def cell_def key_cell_ok_def)
  have "columns_ok ?s" using sample_feed_ok by (simp add: feed_ok_def columns_ok_def stored_columns_of_def)
  moreover have "a = Inl (KSession, 4) \<and> n = 0" if "slot ?s a n" for a n
    using that by (cases a) (auto simp: tables split: if_splits)
  ultimately have "unstamped_ok sample_lib ?s"
    using row by (auto simp: unstamped_ok_def rows_ok_def bare_ok_def bare_def tombs_ok_def apart_def tables split: if_splits)
  then show ?thesis using backfill_stamps_once by blast
qed

end
