(* ===== verification/FeedSchema.thy ===== *)
theory FeedSchema
  imports FeedReports
begin

text \<open>
  Reconciling the feed with the exported shape of each kind (\<open>change_feed/export_schema.rs\<close>): which rows
  a migration of the columns restamps. The digest of a schema (SHA-256 over its JSON) is a parameter; the
  stored fingerprints are the map an open reads back, absent when there is none or it does not parse.
  Facts: every row whose export the migration changed is restamped above the head, and a column added at
  the end restamps exactly the rows that hold a value in it.
\<close>

type_synonym column_schema = "(string \<times> string) list"

type_synonym digests = "(string \<times> string) list"

record schema_lib =
  sl_digest :: "string \<times> column_schema \<Rightarrow> string"

definition export_schema_digest :: "schema_lib \<Rightarrow> column_schema \<Rightarrow> string" where
  "export_schema_digest sl schema = sl_digest sl (''relayhistory-change-feed-export-schema-v2'', schema)"

text \<open>The live columns of each table and their declared types.\<close>

definition table_column_schema :: "column_schema \<Rightarrow> column_schema" where
  "table_column_schema live = filter (\<lambda>(column, _). column \<noteq> REVISION_COLUMN) live"

definition stored_column_schema :: "string \<Rightarrow> column_schema \<Rightarrow> column_schema" where
  "stored_column_schema table live = filter (\<lambda>(column, _). \<not> local_column table column) (table_column_schema live)"

definition export_schema_digests :: "schema_lib \<Rightarrow> (change_kind \<Rightarrow> column_schema) \<Rightarrow> digests" where
  "export_schema_digests sl live = sort_key fst (map (\<lambda>k.
     (kind_str k, export_schema_digest sl (stored_column_schema (ft_name (table_of k)) (live k)))) ALL_KINDS)"

definition removed_kinds :: "digests \<Rightarrow> digests \<Rightarrow> string list" where
  "removed_kinds previous current = filter (\<lambda>kind. map_of current kind = None) (map fst previous)"

definition exported_kind_removed :: "digests \<Rightarrow> digests \<Rightarrow> bool" where
  "exported_kind_removed previous current \<longleftrightarrow> list_ex (\<lambda>kind. map_of current kind = None) (map fst previous)"

definition appended_columns :: "schema_lib \<Rightarrow> string \<Rightarrow> column_schema \<Rightarrow> string list option" where
  "appended_columns sl previous schema =
     map_option (\<lambda>kept. map fst (drop kept schema))
       (find (\<lambda>kept. export_schema_digest sl (take kept schema) = previous) (rev [0..<length schema + 1]))"

text \<open>The columns one kind gained, read first off the carried columns, then off the whole table.\<close>

definition appended_to :: "schema_lib \<Rightarrow> change_kind \<Rightarrow> string \<Rightarrow> column_schema \<Rightarrow> string list option" where
  "appended_to sl k digest live =
     (let table = ft_name (table_of k) in
      case appended_columns sl digest (stored_column_schema table live) of
        Some appended \<Rightarrow> Some appended
      | None \<Rightarrow> map_option (filter (\<lambda>column. \<not> local_column table column))
          (appended_columns sl digest (table_column_schema live)))"

definition restamp_kind ::
  "schema_lib \<Rightarrow> (change_kind \<Rightarrow> column_schema) \<Rightarrow> digests option \<Rightarrow> change_kind \<Rightarrow> feed_store \<Rightarrow> feed_store option" where
  "restamp_kind sl live previous k s =
     (case previous of
        None \<Rightarrow> restamp_exported_rows k Every s
      | Some previous \<Rightarrow>
          (case map_of previous (kind_str k) of
             None \<Rightarrow> Some s
           | Some digest \<Rightarrow>
               if Some digest = map_of (export_schema_digests sl live) (kind_str k) then Some s
               else (case appended_to sl k digest (live k) of
                  Some [] \<Rightarrow> Some s
                | Some appended \<Rightarrow> restamp_exported_rows k (Valued appended) s
                | None \<Rightarrow> restamp_exported_rows k Every s)))"

fun restamp_kinds ::
  "schema_lib \<Rightarrow> (change_kind \<Rightarrow> column_schema) \<Rightarrow> digests option \<Rightarrow> change_kind list \<Rightarrow> feed_store \<Rightarrow> feed_store option" where
  "restamp_kinds sl live previous [] s = Some s"
| "restamp_kinds sl live previous (k # ks) s =
     Option.bind (restamp_kind sl live previous k s) (restamp_kinds sl live previous ks)"

definition reconcile_export_schema ::
  "schema_lib \<Rightarrow> (change_kind \<Rightarrow> column_schema) \<Rightarrow> bool \<Rightarrow> digests option \<Rightarrow> feed_store \<Rightarrow>
     (feed_store \<times> digests option) option" where
  "reconcile_export_schema sl live identity_existed previous s =
     (let current = export_schema_digests sl live in
      if previous = Some current then Some (s, previous)
      else
        let removed = (case previous of Some p \<Rightarrow> exported_kind_removed p current | None \<Rightarrow> False);
            s1 = (if identity_existed \<and> removed
                  then retire_kinds (removed_kinds (the previous) current) s else s)
        in map_option (\<lambda>s. (s, Some current))
             (if identity_existed then restamp_kinds sl live previous ALL_KINDS s1 else Some s1))"

section \<open>Which rows a restamp takes\<close>

lemma restamp_rows:
  assumes w: "restamp_exported_rows k scope s = Some s'"
  shows "j \<noteq> k \<Longrightarrow> fd_tables s' j = fd_tables s j" and "fd_clock s \<le> fd_clock s'"
    and "rows_ok s \<Longrightarrow> r \<in> set (fd_tables s k) \<Longrightarrow>
      if in_scope scope (fr_cells r) then \<exists>n. fd_clock s < n \<and> r\<lparr>fr_revision := n\<rparr> \<in> set (fd_tables s' k)
      else r \<in> set (fd_tables s' k)"
proof -
  let ?st = "ordinals scope (fd_tables s k)"
  consider "?st = []" "s' = s" | "?st \<noteq> []" "s' = (set_table k (map (\<lambda>r. case map_of ?st (fr_rowid r) of
        Some ordinal \<Rightarrow> r\<lparr>fr_revision := fd_clock s + ordinal\<rparr> | None \<Rightarrow> r) (fd_tables s k)) s)
        \<lparr>fd_clock := fd_clock s + length ?st\<rparr>"
    using w by (auto simp: restamp_exported_rows_def Let_def split: if_splits)
  note cases = this
  show "fd_tables s' j = fd_tables s j" if "j \<noteq> k" using cases that by cases simp_all
  show "fd_clock s \<le> fd_clock s'" using cases by cases simp_all
  assume rows: "rows_ok s" and r: "r \<in> set (fd_tables s k)"
  have staged: "set (map fst ?st) = fr_rowid ` {r \<in> set (fd_tables s k). in_scope scope (fr_cells r)}"
    by (simp add: ordinals_def Let_def del: upt_Suc)
  have scope: "in_scope scope (fr_cells r) \<longleftrightarrow> fr_rowid r \<in> set (map fst ?st)"
    unfolding staged using rows_okD(3) [OF rows r] r by (auto simp: image_iff)
  show "if in_scope scope (fr_cells r) then \<exists>n. fd_clock s < n \<and> r\<lparr>fr_revision := n\<rparr> \<in> set (fd_tables s' k)
      else r \<in> set (fd_tables s' k)"
    using cases
  proof cases
    case 1
    then show ?thesis using scope r by simp
  next
    case 2
    show ?thesis
    proof (cases "map_of ?st (fr_rowid r)")
      case None
      then have "fr_rowid r \<notin> set (map fst ?st)" by (simp add: map_of_eq_None_iff)
      then show ?thesis using None scope r 2 by (force simp: image_iff)
    next
      case (Some n)
      then have "fr_rowid r \<in> set (map fst ?st)" by (metis map_of_eq_None_iff option.distinct(1) set_map)
      moreover have "0 < n" using ordinals_facts(1) [OF Some] by simp
      moreover have "r\<lparr>fr_revision := fd_clock s + n\<rparr> \<in> set (fd_tables s' k)" using Some r 2 by (force simp: image_iff)
      ultimately show ?thesis using scope by (intro iffD2 [OF if_P] exI [of _ "fd_clock s + n"]) auto
    qed
  qed
qed

lemma restamp_kind_shape:
  "restamp_kind sl live previous k s = Some s' \<Longrightarrow> s' = s \<or> (\<exists>scope. restamp_exported_rows k scope s = Some s')"
  by (auto simp: restamp_kind_def split: option.splits if_splits list.splits)

lemma restamp_kind_ok:
  assumes s: "feed_ok lib s" and k: "restamp_kind sl live previous k s = Some s'"
  shows "feed_ok lib s'" "fd_clock s \<le> fd_clock s'" "j \<noteq> k \<Longrightarrow> fd_tables s' j = fd_tables s j" "fd_columns s' = fd_columns s"
proof -
  consider "s' = s" | scope where "restamp_exported_rows k scope s = Some s'" using restamp_kind_shape [OF k] by blast
  then have "feed_ok lib s' \<and> fd_clock s \<le> fd_clock s' \<and> (j \<noteq> k \<longrightarrow> fd_tables s' j = fd_tables s j) \<and> fd_columns s' = fd_columns s"
  proof cases
    case 2
    then show ?thesis
      using mid_final [OF s restamp_ok [OF s 2]] restamp_rows(1,2) [OF 2] unfolding feed_step_def by blast
  qed (use s in simp)
  then show "feed_ok lib s'" "fd_clock s \<le> fd_clock s'" "j \<noteq> k \<Longrightarrow> fd_tables s' j = fd_tables s j" "fd_columns s' = fd_columns s"
    by blast+
qed

text \<open>One kind's turn in the loop: its table is as it was, and stays as the turn leaves it.\<close>

lemma restamp_kinds_turn:
  assumes "feed_ok lib s" and "restamp_kinds sl live previous ks s = Some s'" and "distinct ks"
  shows "feed_ok lib s' \<and> fd_clock s \<le> fd_clock s' \<and>
    (if k \<in> set ks then \<exists>m m'. feed_ok lib m \<and> fd_clock s \<le> fd_clock m \<and> fd_tables m k = fd_tables s k \<and>
         restamp_kind sl live previous k m = Some m' \<and> fd_tables s' k = fd_tables m' k
     else fd_tables s' k = fd_tables s k)"
  using assms
proof (induction ks arbitrary: s)
  case (Cons j ks)
  obtain m where m: "restamp_kind sl live previous j s = Some m" "restamp_kinds sl live previous ks m = Some s'"
    using Cons.prems(2) by (auto split: option.splits dest!: bind_eq_Some_conv [THEN iffD1])
  note one = restamp_kind_ok [OF Cons.prems(1) m(1)]
  note rest = Cons.IH [OF one(1) m(2)]
  show ?case
  proof (cases "k = j")
    case True
    then have "fd_tables s' k = fd_tables m k" using rest Cons.prems(3) by simp
    then have "feed_ok lib s \<and> fd_clock s \<le> fd_clock s \<and> fd_tables s k = fd_tables s k \<and>
        restamp_kind sl live previous k s = Some m \<and> fd_tables s' k = fd_tables m k"
      using True m(1) Cons.prems(1) by simp
    then have "\<exists>m m'. feed_ok lib m \<and> fd_clock s \<le> fd_clock m \<and> fd_tables m k = fd_tables s k \<and>
        restamp_kind sl live previous k m = Some m' \<and> fd_tables s' k = fd_tables m' k" by blast
    then show ?thesis using True rest one(2) Cons.prems(3) by simp
  next
    case False
    note same = one(3) [OF False]
    show ?thesis
    proof (cases "k \<in> set ks")
      case True
      then obtain m1 m2 where "feed_ok lib m1" "fd_clock m \<le> fd_clock m1" "fd_tables m1 k = fd_tables m k"
          "restamp_kind sl live previous k m1 = Some m2" "fd_tables s' k = fd_tables m2 k"
        using rest Cons.prems(3) by auto
      then have "feed_ok lib m1 \<and> fd_clock s \<le> fd_clock m1 \<and> fd_tables m1 k = fd_tables s k \<and>
          restamp_kind sl live previous k m1 = Some m2 \<and> fd_tables s' k = fd_tables m2 k" using same one(2) by simp
      then have "\<exists>m m'. feed_ok lib m \<and> fd_clock s \<le> fd_clock m \<and> fd_tables m k = fd_tables s k \<and>
          restamp_kind sl live previous k m = Some m' \<and> fd_tables s' k = fd_tables m' k" by blast
      then show ?thesis using True rest one(2) Cons.prems(3) by simp
    next
      case notin: False
      then show ?thesis using False rest same one(2) Cons.prems(3) by simp
    qed
  qed
qed simp

lemma retire_kinds_ok [simp]:
  "feed_ok lib (retire_kinds removed s) = feed_ok lib s" "fd_tables (retire_kinds removed s) = fd_tables s"
  "fd_clock (retire_kinds removed s) = fd_clock s"
proof -
  have "slot (retire_kinds removed s) a n = slot s a n" for a n by (cases a) (auto simp: retire_kinds_def)
  then show "feed_ok lib (retire_kinds removed s) = feed_ok lib s"
    by (simp add: feed_ok_def rows_ok_def tombs_ok_def columns_ok_def apart_def stored_columns_of_def)
       (simp add: retire_kinds_def)
qed (simp_all add: retire_kinds_def)

section \<open>Which columns count as appended\<close>

text \<open>Digests tell schemas apart, as SHA-256 is relied on to.\<close>

definition digests_apart :: "schema_lib \<Rightarrow> bool" where
  "digests_apart sl \<longleftrightarrow> inj (sl_digest sl)"

lemma digest_inj: "digests_apart sl \<Longrightarrow> export_schema_digest sl a = export_schema_digest sl b \<longleftrightarrow> a = b"
  by (auto simp: digests_apart_def export_schema_digest_def inj_def)

lemma appended_columns_iff:
  assumes "digests_apart sl"
  shows "appended_columns sl (export_schema_digest sl old) schema = Some appended \<longleftrightarrow>
    (\<exists>new. schema = old @ new \<and> appended = map fst new)"
proof -
  let ?found = "find (\<lambda>kept. take kept schema = old) (rev [0..<length schema + 1])"
  have eq: "appended_columns sl (export_schema_digest sl old) schema = map_option (\<lambda>kept. map fst (drop kept schema)) ?found"
    by (simp add: appended_columns_def digest_inj [OF assms] del: upt_Suc)
  show ?thesis
  proof
    assume "appended_columns sl (export_schema_digest sl old) schema = Some appended"
    then obtain kept where "?found = Some kept" "appended = map fst (drop kept schema)" unfolding eq by auto
    then have "schema = old @ drop kept schema \<and> appended = map fst (drop kept schema)"
      using find_member [of _ _ kept] by (metis append_take_drop_id)
    then show "\<exists>new. schema = old @ new \<and> appended = map fst new" by blast
  next
    assume "\<exists>new. schema = old @ new \<and> appended = map fst new"
    then obtain new where new: "schema = old @ new" "appended = map fst new" by blast
    have "?found \<noteq> None" unfolding find_None_iff new(1) by (auto intro!: exI [of _ "length old"] simp del: upt_Suc)
    then obtain kept where kept: "?found = Some kept" by blast
    have le: "kept \<le> length schema" and tk: "take kept schema = old" using find_member [OF kept] by (auto simp del: upt_Suc)
    then have "length old = kept" by auto
    then show "appended_columns sl (export_schema_digest sl old) schema = Some appended"
      unfolding eq kept using new by simp
  qed
qed

lemma map_of_digests:
  "map_of (export_schema_digests sl live) (kind_str k) =
     Some (export_schema_digest sl (stored_column_schema (ft_name (table_of k)) (live k)))"
proof (rule map_of_is_SomeI)
  have "map fst (map (\<lambda>k. (kind_str k, d k)) ks) = map kind_str ks" for ks and d :: "change_kind \<Rightarrow> string"
    by (induction ks) simp_all
  then show "distinct (map fst (export_schema_digests sl live))"
    unfolding export_schema_digests_def map_sort_key distinct_sort by (simp only: distinct_map) (simp add: ALL_KINDS_def inj_on_def)
qed (auto simp: export_schema_digests_def)

section \<open>What a migration of the columns reports\<close>

lemma reconcile_turn:
  assumes s: "feed_ok lib s" and r: "reconcile_export_schema sl live True (Some p) s = Some (s', p')"
  obtains m m' where "feed_ok lib m" "fd_clock s \<le> fd_clock m" "fd_tables m k = fd_tables s k"
    "restamp_kind sl live (Some p) k m = Some m'" "fd_tables s' k = fd_tables m' k"
proof (cases "p = export_schema_digests sl live")
  case True
  then have "restamp_kind sl live (Some p) k s = Some s" by (simp add: restamp_kind_def map_of_digests)
  then show ?thesis using that [of s s] s r True by (simp add: reconcile_export_schema_def)
next
  case False
  let ?s1 = "if exported_kind_removed p (export_schema_digests sl live)
      then retire_kinds (removed_kinds p (export_schema_digests sl live)) s else s"
  have s1: "feed_ok lib ?s1" "fd_tables ?s1 = fd_tables s" "fd_clock ?s1 = fd_clock s" using s by simp_all
  have run: "restamp_kinds sl live (Some p) ALL_KINDS ?s1 = Some s'"
    using r False by (auto simp: reconcile_export_schema_def Let_def)
  have "distinct ALL_KINDS" by (simp add: ALL_KINDS_def)
  from restamp_kinds_turn [OF s1(1) run this, of k] show ?thesis using that s1(2,3) by auto
qed

lemma restamped_row:
  assumes "restamp_exported_rows k scope m = Some m'" "feed_ok lib m" "r \<in> set (fd_tables m k)"
  shows "\<exists>n. r\<lparr>fr_revision := n\<rparr> \<in> set (fd_tables m' k) \<and>
    (if in_scope scope (fr_cells r) then fd_clock m < n else n = fr_revision r)"
proof -
  have "rows_ok m" using assms(2) by (simp add: feed_ok_def)
  from restamp_rows(3) [OF assms(1) this assms(3)] show ?thesis
    by (cases "in_scope scope (fr_cells r)") (auto intro: exI [of _ "fr_revision r"])
qed

text \<open>What a row exports under a schema.\<close>

definition exported :: "column_schema \<Rightarrow> cells \<Rightarrow> stored_row" where
  "exported schema row = stored_row_of (map fst schema) row"

definition reads_alike :: "column_schema \<Rightarrow> column_schema \<Rightarrow> cells \<Rightarrow> bool" where
  "reads_alike new old row \<longleftrightarrow> list_all (\<lambda>c. row_get (exported new row) c = row_get (exported old row) c) (map fst new)"

lemma row_get_absent: "c \<notin> set columns \<Longrightarrow> row_get (stored_row_of columns row) c = JNull"
  by (induction columns) (auto simp: row_get_def stored_row_of_def)

lemma exported_get:
  "row_get (exported schema row) c = (if c \<in> fst ` set schema then stored_value (cell row c) else JNull)"
  using row_get_carried [of c "map fst schema" row] row_get_absent [of c "map fst schema" row] by (simp add: exported_def)

lemma reads_alikeI:
  assumes "\<And>c. c \<in> fst ` set new \<Longrightarrow> c \<notin> fst ` set old \<Longrightarrow> cell row c = SqlNull"
  shows "reads_alike new old row"
  using assms by (auto simp: reads_alike_def list_all_iff exported_get)

lemma not_valued: "\<not> in_scope (Valued columns) row \<Longrightarrow> c \<in> set columns \<Longrightarrow> cell row c = SqlNull"
  by (auto simp: in_scope_def list_ex_iff)

text \<open>A digest to evaluate examples on: the schema's own text, lengths first.\<close>

definition sample_schema_lib :: schema_lib where
  "sample_schema_lib = \<lparr>sl_digest = (\<lambda>(tag, schema).
     concat (map (write_value \<circ> SqlText) (tag # concat (map (\<lambda>(name, ty). [name, ty]) schema))))\<rparr>"

lemma sample_digests_apart: "digests_apart sample_schema_lib"
proof -
  have texts: "xs = ys" if eq: "concat (map (write_value \<circ> SqlText) xs) = concat (map (write_value \<circ> SqlText) ys)" for xs ys
  proof -
    have "read_values (length (concat (map write_value (map SqlText xs)))) (concat (map write_value (map SqlText xs))) =
        Some (map stored_value (map SqlText xs))" for xs
      by (rule read_write_values) (simp_all add: plain_def list_all_iff)
    then have "map stored_value (map SqlText xs) = map stored_value (map SqlText ys)"
      using eq unfolding map_map [symmetric] by (metis option.inject)
    then have "map JString xs = map JString ys" by (simp add: comp_def)
    then show ?thesis by (rule map_injective) (simp add: inj_def)
  qed
  have pairs: "a = b" if "concat (map (\<lambda>(name, ty). [name, ty]) a) = concat (map (\<lambda>(name, ty). [name, ty]) b)"
    for a b :: column_schema
    using that
  proof (induction a arbitrary: b)
    case Nil
    then show ?case by (cases b) auto
  next
    case (Cons x xs)
    then show ?case by (cases b; cases x) auto
  qed
  show ?thesis
    unfolding digests_apart_def inj_def sample_schema_lib_def using texts pairs by (fastforce simp del: concat.simps list.map)
qed

definition sample_live :: "change_kind \<Rightarrow> column_schema" where
  "sample_live k = (if k = KSession then [(''source'', ''TEXT''), (''session_id'', ''TEXT''), (''text'', ''TEXT'')] else [])"

definition sample_old :: column_schema where
  "sample_old = [(''source'', ''TEXT''), (''session_id'', ''TEXT'')]"

definition sample_digests :: digests where
  "sample_digests = [(''session'', export_schema_digest sample_schema_lib sample_old)]"

lemma sample_stored: "stored_column_schema (ft_name (table_of KSession)) (sample_live KSession) = sample_old @ [(''text'', ''TEXT'')]"
  by (simp add: stored_column_schema_def table_column_schema_def sample_live_def sample_old_def local_column_def
      LOCAL_COLUMNS_def REVISION_COLUMN_def table_of.simps plain_table_def)

lemma sample_reconciled:
  "\<exists>s' p'. reconcile_export_schema sample_schema_lib sample_live True (Some sample_digests) sample_store = Some (s', p')"
proof -
  let ?r = "restamp_kind sample_schema_lib sample_live (Some sample_digests)"
  have other: "?r k m = Some m" if "k \<noteq> KSession" for k m
  proof -
    have "map_of sample_digests (kind_str k) = None" using that by (cases k) (simp_all add: sample_digests_def)
    then show ?thesis by (simp add: restamp_kind_def)
  qed
  have "appended_columns sample_schema_lib (export_schema_digest sample_schema_lib sample_old) (sample_old @ [(''text'', ''TEXT'')]) =
      Some [''text'']"
    unfolding appended_columns_iff [OF sample_digests_apart] by simp
  moreover have "map_of (export_schema_digests sample_schema_lib sample_live) ''session'' =
      Some (export_schema_digest sample_schema_lib (sample_old @ [(''text'', ''TEXT'')]))"
    using map_of_digests [of sample_schema_lib sample_live KSession] by (simp add: sample_stored)
  ultimately have "?r KSession sample_store = restamp_exported_rows KSession (Valued [''text'']) sample_store"
    by (simp add: restamp_kind_def sample_digests_def digest_inj [OF sample_digests_apart] sample_stored
        appended_to_def Let_def)
  moreover have "\<exists>m. restamp_exported_rows KSession (Valued [''text'']) sample_store = Some m"
    by (simp add: restamp_exported_rows_def Let_def sample_rows ordinals_def in_scope_def CLOCK_MAX_def sample_store_fields)
  ultimately obtain m where "?r KSession sample_store = Some m" by auto
  then have run: "restamp_kinds sample_schema_lib sample_live (Some sample_digests) ALL_KINDS sample_store = Some m"
    by (simp add: ALL_KINDS_def other)
  have "\<not> exported_kind_removed sample_digests (export_schema_digests sample_schema_lib sample_live)"
    using map_of_digests [of sample_schema_lib sample_live KSession] by (simp add: exported_kind_removed_def sample_digests_def)
  then show ?thesis using run by (simp add: reconcile_export_schema_def Let_def)
qed



text \<open>Adding columns at the end reports exactly the rows that hold a value in one of them: those take a
  revision above the old head, every other row keeps its own.\<close>

lemma additive_migration_exact:
  assumes "digests_apart sl" and "feed_ok lib s" and "reconcile_export_schema sl live True (Some p) s = Some (s', p')"
    and "map_of p (kind_str k) = Some (export_schema_digest sl old)" and "r \<in> set (fd_tables s k)"
    and "stored_column_schema (ft_name (table_of k)) (live k) = old @ new"
  shows "\<exists>n. r\<lparr>fr_revision := n\<rparr> \<in> set (fd_tables s' k) \<and>
    (if list_ex (\<lambda>(c, _). cell (fr_cells r) c \<noteq> SqlNull) new then fd_clock s < n else n = fr_revision r)"
proof -
  obtain m m' where m: "feed_ok lib m" "fd_clock s \<le> fd_clock m" "fd_tables m k = fd_tables s k"
      "restamp_kind sl live (Some p) k m = Some m'" "fd_tables s' k = fd_tables m' k"
    using reconcile_turn [OF assms(2,3)] .
  have r: "r \<in> set (fd_tables m k)" using assms(5) m(3) by simp
  have scope: "in_scope (Valued (map fst new)) row \<longleftrightarrow> list_ex (\<lambda>(c, _). cell row c \<noteq> SqlNull) new" for row
    by (force simp: in_scope_def list_ex_iff)
  have "appended_columns sl (export_schema_digest sl old) (old @ new) = Some (map fst new)"
    unfolding appended_columns_iff [OF assms(1)] by blast
  then have turn: "m' = m \<and> new = [] \<or> restamp_exported_rows k (Valued (map fst new)) m = Some m'"
    using m(4) assms(4) by (cases new) (auto simp: restamp_kind_def map_of_digests digest_inj [OF assms(1)] assms(6) appended_to_def Let_def)
  then show ?thesis
  proof
    assume "m' = m \<and> new = []"
    then show ?thesis using r m(5) by (intro exI [of _ "fr_revision r"]) simp
  next
    assume "restamp_exported_rows k (Valued (map fst new)) m = Some m'"
    from restamped_row [OF this m(1) r] show ?thesis unfolding scope m(5) using m(2) by (auto split: if_splits)
  qed
qed

lemma additive_migration_exact_witness:
  "\<exists>s' p' n. reconcile_export_schema sample_schema_lib sample_live True (Some sample_digests) sample_store = Some (s', p') \<and>
     \<lparr>fr_rowid = 2, fr_cells = sample_session ''s2'', fr_revision = n\<rparr> \<in> set (fd_tables s' KSession) \<and> 3 < n"
proof -
  obtain s' p' where run: "reconcile_export_schema sample_schema_lib sample_live True (Some sample_digests) sample_store = Some (s', p')"
    using sample_reconciled by blast
  have old: "map_of sample_digests (kind_str KSession) = Some (export_schema_digest sample_schema_lib sample_old)"
    by (simp add: sample_digests_def)
  have r: "\<lparr>fr_rowid = 2, fr_cells = sample_session ''s2'', fr_revision = 2\<rparr> \<in> set (fd_tables sample_store KSession)"
    by (simp add: sample_rows)
  show ?thesis
    using additive_migration_exact [OF sample_digests_apart sample_store_ok run old r sample_stored] run
    by (auto simp: sample_store_fields sample_session_def cell_def)
qed

end
